(* ===== verification/Strategy_Prelude.thy ===== *)
theory Strategy_Prelude
  imports Main "HOL-Library.AList"
begin

text \<open>
  Prelude of the development: the primitive types every component shares, the balance
  arithmetic, the loop combinator the translated \<open>for\<close> loops are written with, and
  generic lemmas about association lists.

  \<^item> \<open>HoprBalance\<close> wraps a 256-bit unsigned amount. The repository states that its
    arithmetic saturates at \<open>U256::MAX\<close> instead of wrapping
    (\<open>src/src/channel_lifecycle/config.rs\<close>, the comment of
    \<open>required_safe_balance\<close>); the model writes that bound out over \<^typ>\<open>nat\<close>.
    Subtraction is truncated at zero; every subtraction the pipeline performs is guarded by
    a comparison.
  \<^item> \<open>Instant\<close>, \<open>SystemTime\<close> and \<open>Duration\<close> are nanosecond counts.
  \<^item> Chain addresses, channel ids, peer ids and offchain keys are opaque tokens: they are only
    ever compared, so natural numbers stand for them.
  \<^item> A \<open>DashMap\<close> or \<open>HashMap\<close> is an association list with distinct keys.
\<close>

named_theorems wf_intros "preservation rules of the components' well-formedness invariants"

named_theorems frame_simps "fields an operation leaves unchanged"

type_synonym instant = nat
type_synonym duration = nat
type_synonym address = nat
type_synonym channel_id = nat
type_synonym peer_id = nat
type_synonym offchain_key = nat
type_synonym balance = nat

definition secs :: "nat \<Rightarrow> duration" where
  "secs n = n * 1000000000"

definition millis :: "nat \<Rightarrow> duration" where
  "millis n = n * 1000000"

section \<open>Balances\<close>

definition new_base :: "nat \<Rightarrow> balance" where
  \<comment> \<open>\<open>HoprBalance::new_base\<close>\<close>
  "new_base n = n * 10 ^ 18"

definition u256_max :: nat where
  "u256_max = 2 ^ 256 - 1"

definition bal_add :: "balance \<Rightarrow> balance \<Rightarrow> balance" where
  "bal_add a b = min (a + b) u256_max"

definition bal_mul :: "balance \<Rightarrow> nat \<Rightarrow> balance" where
  "bal_mul a n = min (a * n) u256_max"

definition low_u128 :: "balance \<Rightarrow> nat" where
  "low_u128 b = b mod 2 ^ 128"

lemma bal_add_le: "bal_add a b \<le> a + b"
  by (simp add: bal_add_def)

lemma bal_add_mono: "a \<le> a' \<Longrightarrow> b \<le> b' \<Longrightarrow> bal_add a b \<le> bal_add a' b'"
  by (auto simp: bal_add_def)

lemma bal_mul_mono: "a \<le> a' \<Longrightarrow> n \<le> n' \<Longrightarrow> bal_mul a n \<le> bal_mul a' n'"
  unfolding bal_mul_def by (meson min.mono mult_le_mono order_refl)

lemma bal_mul_0 [simp]: "bal_mul a 0 = 0" "bal_mul 0 n = 0"
  by (simp_all add: bal_mul_def)

lemma bal_add_bound [simp]: "bal_add a b \<le> u256_max"
  by (simp add: bal_add_def)

lemma bal_mul_bound [simp]: "bal_mul a n \<le> u256_max"
  by (simp add: bal_mul_def)

section \<open>Loops with break\<close>

text \<open>
  A Rust \<open>for x in xs { ... }\<close> whose body threads a state and may \<open>break\<close>: the body
  returns the new state and whether to go on. A \<open>continue\<close> is a body that returns
  \<open>Continue\<close> early.
\<close>

datatype loop_ctl = Continue | Break

fun for_loop :: "('x \<Rightarrow> 's \<Rightarrow> 's \<times> loop_ctl) \<Rightarrow> 'x list \<Rightarrow> 's \<Rightarrow> 's" where
  "for_loop body [] s = s"
| "for_loop body (x # xs) s =
     (case body x s of (s', Continue) \<Rightarrow> for_loop body xs s' | (s', Break) \<Rightarrow> s')"

text \<open>
  The contract of a loop body that keeps an invariant on the elements the loop visits. Every
  pass of the strategies is shown to meet it and takes its whole-loop fact from here.
\<close>

locale loop_body =
  fixes body :: "'x \<Rightarrow> 's \<Rightarrow> 's \<times> loop_ctl"
    and ok :: "'x \<Rightarrow> bool"
    and inv :: "'s \<Rightarrow> bool"
  assumes body_inv: "ok x \<Longrightarrow> inv s \<Longrightarrow> inv (fst (body x s))"
begin

lemma loop_inv: "\<forall>x\<in>set xs. ok x \<Longrightarrow> inv s \<Longrightarrow> inv (for_loop body xs s)"
proof (induction xs arbitrary: s)
  case Nil
  then show ?case by simp
next
  case (Cons x xs)
  then have "inv (fst (body x s))" by (simp add: body_inv)
  with Cons show ?case by (auto split: prod.splits loop_ctl.splits)
qed

end

lemma for_loop_step:
  "snd (body x s) = Continue \<Longrightarrow> for_loop body (x # xs) s = for_loop body xs (fst (body x s))"
  by (cases "body x s") simp

text \<open>A loop body that only moves forward in a preorder moves the whole loop forward.\<close>

locale monotone_body =
  fixes body :: "'x \<Rightarrow> 's \<Rightarrow> 's \<times> loop_ctl"
    and le :: "'s \<Rightarrow> 's \<Rightarrow> bool"
  assumes le_refl: "le s s"
    and le_trans: "le s t \<Longrightarrow> le t u \<Longrightarrow> le s u"
    and body_le: "le s (fst (body x s))"
begin

lemma loop_le: "le s (for_loop body xs s)"
proof (induction xs arbitrary: s)
  case Nil
  show ?case by (simp add: le_refl)
next
  case (Cons x xs)
  show ?case
    using body_le [of s x] Cons.IH le_trans
    by (auto split: prod.splits loop_ctl.splits)
qed

end

section \<open>Lists\<close>

lemma distinct_remove_nth: "distinct xs \<Longrightarrow> distinct (take i xs @ drop (Suc i) xs)"
proof -
  assume d: "distinct xs"
  then have "set (take i xs) \<inter> set (drop (Suc i) xs) = {}"
    by (rule set_take_disj_set_drop_if_distinct) simp
  with d show ?thesis by simp
qed

lemma set_remove_nth_subset: "set (take i xs @ drop (Suc i) xs) \<subseteq> set xs"
  by (auto dest: in_set_takeD in_set_dropD)

section \<open>Association lists\<close>

definition alist_wf :: "('k \<times> 'v) list \<Rightarrow> bool" where
  "alist_wf m \<longleftrightarrow> distinct (map fst m)"

definition upsert :: "'k \<Rightarrow> ('v \<Rightarrow> 'v) \<Rightarrow> 'v \<Rightarrow> ('k \<times> 'v) list \<Rightarrow> ('k \<times> 'v) list" where
  \<comment> \<open>\<open>entry(k).and_modify(f).or_insert(v)\<close>\<close>
  "upsert k f v m = AList.update k (case map_of m k of None \<Rightarrow> v | Some w \<Rightarrow> f w) m"

definition modify :: "'k \<Rightarrow> ('v \<Rightarrow> 'v) \<Rightarrow> ('k \<times> 'v) list \<Rightarrow> ('k \<times> 'v) list" where
  \<comment> \<open>\<open>entry(k).and_modify(f)\<close> with no insertion\<close>
  "modify k f m = (case map_of m k of None \<Rightarrow> m | Some w \<Rightarrow> AList.update k (f w) m)"

lemma alist_wf_Nil [simp, wf_intros]: "alist_wf []"
  by (simp add: alist_wf_def)

lemma alist_wf_update [wf_intros]: "alist_wf m \<Longrightarrow> alist_wf (AList.update k v m)"
  by (simp add: alist_wf_def distinct_update)

lemma alist_wf_delete [wf_intros]: "alist_wf m \<Longrightarrow> alist_wf (AList.delete k m)"
  by (simp add: alist_wf_def distinct_delete)

lemma alist_wf_filter [wf_intros]: "alist_wf m \<Longrightarrow> alist_wf (filter P m)"
  by (simp add: alist_wf_def distinct_map_filter)

lemma alist_wf_upsert [wf_intros]: "alist_wf m \<Longrightarrow> alist_wf (upsert k f v m)"
  by (simp add: upsert_def alist_wf_update)

lemma alist_wf_modify [wf_intros]: "alist_wf m \<Longrightarrow> alist_wf (modify k f m)"
  by (simp add: modify_def alist_wf_update split: option.splits)

lemma map_of_update: "map_of (AList.update k v m) j = (if j = k then Some v else map_of m j)"
  by (simp add: update_conv')

lemma map_of_delete: "map_of (AList.delete k m) j = (if j = k then None else map_of m j)"
  by (simp add: delete_conv')

lemma map_of_upsert:
  "map_of (upsert k f v m) j =
     (if j = k then Some (case map_of m k of None \<Rightarrow> v | Some w \<Rightarrow> f w) else map_of m j)"
  by (simp add: upsert_def map_of_update)

lemma map_of_modify:
  "map_of (modify k f m) j = (if j = k then map_option f (map_of m k) else map_of m j)"
  by (auto simp: modify_def map_of_update split: option.splits)

lemma map_of_filter_wf:
  "alist_wf m \<Longrightarrow>
     map_of (filter P m) k = (case map_of m k of None \<Rightarrow> None | Some v \<Rightarrow> if P (k, v) then Some v else None)"
  by (induction m) (force simp: alist_wf_def map_of_eq_None_iff split: option.splits)+

lemmas alist_lookups = map_of_update map_of_delete map_of_upsert map_of_modify

text \<open>How one update or deletion changes the number of entries that satisfy a predicate.\<close>

definition count_entries :: "('k \<times> 'v \<Rightarrow> bool) \<Rightarrow> ('k \<times> 'v) list \<Rightarrow> nat" where
  "count_entries P m = length (filter P m)"

lemma count_entries_split:
  "alist_wf m \<Longrightarrow> count_entries P m =
     count_entries P (AList.delete k m) +
     (case map_of m k of None \<Rightarrow> 0 | Some v \<Rightarrow> if P (k, v) then 1 else 0)"
proof (induction m)
  case Nil
  show ?case by (simp add: count_entries_def)
next
  case (Cons p m)
  obtain j v where p: "p = (j, v)" by (cases p)
  show ?case
  proof (cases "j = k")
    case True
    with Cons.prems p have "map_of m k = None" and "AList.delete k m = m"
      by (auto simp: alist_wf_def map_of_eq_None_iff intro: delete_id)
    with True p show ?thesis by (simp add: count_entries_def)
  next
    case False
    with Cons p show ?thesis by (simp add: count_entries_def alist_wf_def)
  qed
qed

lemma count_entries_update:
  "alist_wf m \<Longrightarrow> count_entries P (AList.update k v m) =
     count_entries P (AList.delete k m) + (if P (k, v) then 1 else 0)"
  using count_entries_split [of "AList.update k v m" P k]
  by (simp add: alist_wf_update map_of_update delete_update_same)

lemma count_entries_delete_le: "alist_wf m \<Longrightarrow> count_entries P (AList.delete k m) \<le> count_entries P m"
  using count_entries_split [of m P k] by simp

lemma count_entries_filter_le: "count_entries P (filter Q m) \<le> count_entries P m"
  by (induction m) (auto simp: count_entries_def)

lemma count_entries_filter_same: "count_entries P (filter P m) = count_entries P m"
  by (simp add: count_entries_def)

end
