(* ===== verification/Fallible.thy ===== *)
theory Fallible
  imports Strategy_Prelude
begin

text \<open>
  Sequencing of fallible steps. A Rust function that takes \<open>&self\<close>, changes the state behind it and
  returns a \<open>Result\<close> is a function from the state to a sum and the state it leaves, also when it
  fails; \<open>and_then\<close> is the operator \<open>?\<close> between two of them. \<open>ensures\<close> is a contract of such a
  function, and its rules follow the syntax, so that a proof about a handler is a walk over its text.
\<close>

type_synonym ('s, 'e, 'a) fallible = "'s \<Rightarrow> ('e + 'a) \<times> 's"

definition ok :: "'a \<Rightarrow> ('s, 'e, 'a) fallible" where
  "ok a s = (Inr a, s)"

definition fail :: "'e \<Rightarrow> ('s, 'e, 'a) fallible" where
  "fail e s = (Inl e, s)"

definition and_then ::
  "('s, 'e, 'a) fallible \<Rightarrow> ('a \<Rightarrow> ('s, 'e, 'b) fallible) \<Rightarrow> ('s, 'e, 'b) fallible" where
  "and_then m f s = (case m s of (Inl e, s') \<Rightarrow> (Inl e, s') | (Inr a, s') \<Rightarrow> f a s')"

definition inspect :: "('s \<Rightarrow> 'a) \<Rightarrow> ('s, 'e, 'a) fallible" where
  "inspect f s = (Inr (f s), s)"

definition modify :: "('s \<Rightarrow> 's) \<Rightarrow> ('s, 'e, unit) fallible" where
  "modify f s = (Inr (), f s)"

datatype 'e stop = Err 'e | Panicked
  \<comment> \<open>why an operation that may also panic ends early\<close>

definition err :: "'e \<Rightarrow> ('s, 'e stop, 'a) fallible" where
  "err e = fail (Err e)"

definition lift_result :: "'e + 'a \<Rightarrow> ('s, 'e, 'a) fallible" where
  "lift_result r s = (r, s)"

definition lift :: "'e + 'a \<Rightarrow> ('s, 'e stop, 'a) fallible" where
  "lift r = lift_result (map_sum Err id r)"

definition map_err :: "('e \<Rightarrow> 'f) \<Rightarrow> ('s, 'e, 'a) fallible \<Rightarrow> ('s, 'f, 'a) fallible" where
  "map_err f m s = (case m s of (Inl e, s') \<Rightarrow> (Inl (f e), s') | (Inr a, s') \<Rightarrow> (Inr a, s'))"

definition catching :: "('s, 'e, 'a) fallible \<Rightarrow> ('s, 'f, 'e + 'a) fallible" where
  \<comment> \<open>the result as a value, for a \<open>match\<close> on it\<close>
  "catching m s = (case m s of (r, s') \<Rightarrow> (Inr r, s'))"

fun traverse :: "('a \<Rightarrow> 'e + 'b) \<Rightarrow> 'a list \<Rightarrow> 'e + 'b list" where
  \<comment> \<open>\<open>map(f).collect::<Result<Vec<_>, _>>()\<close>\<close>
  "traverse f [] = Inr []"
| "traverse f (x # xs) =
     (case f x of
        Inl e \<Rightarrow> Inl e
      | Inr y \<Rightarrow> (case traverse f xs of Inl e \<Rightarrow> Inl e | Inr ys \<Rightarrow> Inr (y # ys)))"

fun for_each :: "('a \<Rightarrow> ('s, 'e, unit) fallible) \<Rightarrow> 'a list \<Rightarrow> ('s, 'e, unit) fallible" where
  "for_each f [] = ok ()"
| "for_each f (x # xs) = and_then (f x) (\<lambda>_. for_each f xs)"

fun find_first :: "('a \<Rightarrow> ('s, 'e, bool) fallible) \<Rightarrow> 'a list \<Rightarrow> ('s, 'e, 'a option) fallible" where
  \<comment> \<open>a loop that returns at the first element a fallible test accepts\<close>
  "find_first f [] = ok None"
| "find_first f (x # xs) = and_then (f x) (\<lambda>b. if b then ok (Some x) else find_first f xs)"

definition followed_by :: "('s, 'e, 'a) fallible \<Rightarrow> ('s, 'e, 'b) fallible \<Rightarrow> ('s, 'e, 'b) fallible" where
  "followed_by m n = and_then m (\<lambda>_. n)"

definition only_if :: "bool \<Rightarrow> ('s, 'e, unit) fallible \<Rightarrow> ('s, 'e, unit) fallible" where
  "only_if b m = (if b then m else ok ())"

definition require :: "bool \<Rightarrow> 'e \<Rightarrow> ('s, 'e, unit) fallible" where
  "require b e = (if b then ok () else fail e)"

fun traverse_m :: "('a \<Rightarrow> ('s, 'e, 'b) fallible) \<Rightarrow> 'a list \<Rightarrow> ('s, 'e, 'b list) fallible" where
  "traverse_m f [] = ok []"
| "traverse_m f (x # xs) = and_then (f x) (\<lambda>y. and_then (traverse_m f xs) (\<lambda>ys. ok (y # ys)))"

section \<open>Contracts\<close>

definition ensures :: "('s \<Rightarrow> bool) \<Rightarrow> ('s, 'e, 'a) fallible \<Rightarrow> ('e + 'a \<Rightarrow> 's \<Rightarrow> bool) \<Rightarrow> bool" where
  "ensures P m Q \<longleftrightarrow> (\<forall>s. P s \<longrightarrow> (case m s of (r, s') \<Rightarrow> Q r s'))"

definition keeps :: "('s \<Rightarrow> bool) \<Rightarrow> ('s, 'e, 'a) fallible \<Rightarrow> bool" where
  "keeps P m \<longleftrightarrow> (\<forall>s. P s \<longrightarrow> P (snd (m s)))"

named_theorems keeps_intros "structural rules for invariants of fallible steps"

lemma ensuresD: "ensures P m Q \<Longrightarrow> P s \<Longrightarrow> m s = (r, s') \<Longrightarrow> Q r s'"
  by (auto simp: ensures_def)

lemma ensuresI: "(\<And>s r s'. P s \<Longrightarrow> m s = (r, s') \<Longrightarrow> Q r s') \<Longrightarrow> ensures P m Q"
  by (auto simp: ensures_def)

lemma keepsD: "keeps P m \<Longrightarrow> P s \<Longrightarrow> m s = (r, s') \<Longrightarrow> P s'"
  by (metis keeps_def snd_conv)

lemma keepsI: "(\<And>s r s'. P s \<Longrightarrow> m s = (r, s') \<Longrightarrow> P s') \<Longrightarrow> keeps P m"
  by (auto simp: keeps_def) (metis prod.collapse)

lemma keeps_basic [keeps_intros]:
  "keeps P (ok a)" "keeps P (fail e)" "keeps P (inspect f)" "keeps P (lift_result x)"
  by (simp_all add: keeps_def ok_def fail_def inspect_def lift_result_def)

lemma keeps_stop [keeps_intros]: "keeps P (err e)" "keeps P (lift r)"
  by (simp_all add: err_def lift_def keeps_basic)

lemma keeps_and_then [keeps_intros]: "keeps P m \<Longrightarrow> (\<And>a. keeps P (f a)) \<Longrightarrow> keeps P (and_then m f)"
  by (force simp: keeps_def and_then_def split: prod.split sum.split)

lemma keeps_map_err [keeps_intros]: "keeps P m \<Longrightarrow> keeps P (map_err f m)"
  by (force simp: keeps_def map_err_def split: prod.split sum.split)

lemma keeps_catching [keeps_intros]: "keeps P m \<Longrightarrow> keeps P (catching m)"
  by (force simp: keeps_def catching_def split: prod.split)

lemma keeps_modify: "(\<And>s. P s \<Longrightarrow> P (f s)) \<Longrightarrow> keeps P (modify f)"
  by (simp add: keeps_def modify_def)

lemma keeps_if [keeps_intros]: "(b \<Longrightarrow> keeps P m) \<Longrightarrow> (\<not> b \<Longrightarrow> keeps P n) \<Longrightarrow> keeps P (if b then m else n)"
  by simp

lemma keeps_option [keeps_intros]:
  "(x = None \<Longrightarrow> keeps P m) \<Longrightarrow> (\<And>a. x = Some a \<Longrightarrow> keeps P (f a)) \<Longrightarrow>
   keeps P (case x of None \<Rightarrow> m | Some a \<Rightarrow> f a)"
  by (cases x) auto

lemma keeps_sum [keeps_intros]:
  "(\<And>a. x = Inl a \<Longrightarrow> keeps P (f a)) \<Longrightarrow> (\<And>a. x = Inr a \<Longrightarrow> keeps P (g a)) \<Longrightarrow>
   keeps P (case x of Inl a \<Rightarrow> f a | Inr a \<Rightarrow> g a)"
  by (cases x) auto

lemma keeps_for_each [keeps_intros]: "(\<And>x. keeps P (f x)) \<Longrightarrow> keeps P (for_each f xs)"
  by (induction xs) (auto intro: keeps_intros)

lemma keeps_find_first [keeps_intros]: "(\<And>x. keeps P (f x)) \<Longrightarrow> keeps P (find_first f xs)"
  by (induction xs) (auto intro!: keeps_intros)

lemma keeps_followed_by [keeps_intros]: "keeps P m \<Longrightarrow> keeps P n \<Longrightarrow> keeps P (followed_by m n)"
  by (simp add: followed_by_def keeps_and_then)

lemma keeps_only_if [keeps_intros]: "(b \<Longrightarrow> keeps P m) \<Longrightarrow> keeps P (only_if b m)"
  by (simp add: only_if_def keeps_basic)

lemma keeps_require [keeps_intros]: "keeps P (require b e)"
  by (simp add: require_def keeps_basic)

lemma keeps_traverse_m [keeps_intros]: "(\<And>x. keeps P (f x)) \<Longrightarrow> keeps P (traverse_m f xs)"
  by (induction xs) (auto intro!: keeps_intros)

lemma keeps_prod [keeps_intros]: "(\<And>a b. x = (a, b) \<Longrightarrow> keeps P (f a b)) \<Longrightarrow> keeps P (case x of (a, b) \<Rightarrow> f a b)"
  by (cases x) auto

lemma traverse_Inr: "traverse f xs = Inr ys \<longleftrightarrow> list_all2 (\<lambda>x y. f x = Inr y) xs ys"
proof (induction xs arbitrary: ys)
  case (Cons x xs)
  have "(case traverse f xs of Inl e \<Rightarrow> Inl e | Inr zs \<Rightarrow> Inr (y # zs)) = Inr ys \<longleftrightarrow>
      (\<exists>zs. traverse f xs = Inr zs \<and> ys = y # zs)" for y
    by (auto split: sum.split)
  then show ?case by (auto simp: list_all2_Cons1 Cons.IH split: sum.split)
qed auto

lemma and_then_ok [simp]: "and_then (ok a) f = f a"
  by (simp add: fun_eq_iff and_then_def ok_def)

lemma and_then_fail [simp]: "and_then (fail e) f = fail e"
  by (simp add: fun_eq_iff and_then_def fail_def)

section \<open>Weakest preconditions\<close>

definition wp :: "('s, 'e, 'a) fallible \<Rightarrow> ('e + 'a \<Rightarrow> 's \<Rightarrow> bool) \<Rightarrow> 's \<Rightarrow> bool" where
  "wp m Q s = (case m s of (r, s') \<Rightarrow> Q r s')"

named_theorems wp_simps "weakest preconditions of the operators"

lemma wpD: "wp m Q s \<Longrightarrow> m s = (r, s') \<Longrightarrow> Q r s'"
  by (simp add: wp_def)

lemma wpI: "(\<And>r s'. m s = (r, s') \<Longrightarrow> Q r s') \<Longrightarrow> wp m Q s"
  by (auto simp: wp_def)

lemma wp_mono: "wp m Q s \<Longrightarrow> (\<And>r s'. Q r s' \<Longrightarrow> R r s') \<Longrightarrow> wp m R s"
  by (auto simp: wp_def split: prod.splits)

lemma wp_basic [wp_simps]:
  "wp (ok a) Q s = Q (Inr a) s"
  "wp (fail e) Q s = Q (Inl e) s"
  "wp (err x) P s = P (Inl (Err x)) s"
  "wp (inspect f) Q s = Q (Inr (f s)) s"
  "wp (modify g) R s = R (Inr ()) (g s)"
  "wp (lift_result y) Q s = Q y s"
  by (simp_all add: wp_def ok_def fail_def err_def inspect_def modify_def lift_result_def)

lemma wp_lift [wp_simps]: "wp (lift x) Q s = (case x of Inl e \<Rightarrow> Q (Inl (Err e)) s | Inr a \<Rightarrow> Q (Inr a) s)"
  by (cases x) (simp_all add: lift_def wp_simps)

lemma wp_and_then [wp_simps]:
  "wp (and_then m f) Q s = wp m (\<lambda>r s'. case r of Inl e \<Rightarrow> Q (Inl e) s' | Inr a \<Rightarrow> wp (f a) Q s') s"
  by (auto simp: wp_def and_then_def split: prod.split sum.split)

lemma wp_followed_by [wp_simps]:
  "wp (followed_by m n) Q s = wp m (\<lambda>r s'. case r of Inl e \<Rightarrow> Q (Inl e) s' | Inr _ \<Rightarrow> wp n Q s') s"
  by (simp add: followed_by_def wp_and_then)

lemma wp_map_err [wp_simps]:
  "wp (map_err f m) Q s = wp m (\<lambda>r s'. case r of Inl e \<Rightarrow> Q (Inl (f e)) s' | Inr a \<Rightarrow> Q (Inr a) s') s"
  by (auto simp: wp_def map_err_def split: prod.split sum.split)

lemma wp_catching [wp_simps]: "wp (catching m) Q s = wp m (\<lambda>r s'. Q (Inr r) s') s"
  by (auto simp: wp_def catching_def split: prod.split)

lemma wp_only_if [wp_simps]: "wp (only_if b m) Q s = (if b then wp m Q s else Q (Inr ()) s)"
  by (simp add: only_if_def wp_simps)

lemma wp_require [wp_simps]: "wp (require b e) Q s = (if b then Q (Inr ()) s else Q (Inl e) s)"
  by (simp add: require_def wp_simps)

lemma wp_keeps: "keeps P m \<Longrightarrow> P s \<Longrightarrow> (\<And>r s'. P s' \<Longrightarrow> Q r s') \<Longrightarrow> wp m Q s"
  by (metis keepsD wpI)

lemma wp_find_first:
  assumes "\<And>x s. wp (f x) (\<lambda>r _. case r of Inr True \<Rightarrow> P x | _ \<Rightarrow> True) s"
  shows "wp (find_first f xs) (\<lambda>r _. case r of Inr (Some x) \<Rightarrow> x \<in> set xs \<and> P x | _ \<Rightarrow> True) s"
proof (induction xs arbitrary: s)
  case (Cons x xs)
  show ?case
    unfolding find_first.simps wp_and_then
  proof (rule wp_mono [OF assms [of x]], goal_cases)
    case (1 r s1)
    show ?case
    proof (cases r)
      case (Inr b)
      have "wp (find_first f xs) (\<lambda>r _. case r of Inr (Some y) \<Rightarrow> y \<in> set (x # xs) \<and> P y | _ \<Rightarrow> True) s1"
        by (rule wp_mono [OF Cons.IH]) (auto split: sum.splits option.splits)
      with 1 Inr show ?thesis by (cases b) (simp_all add: wp_basic)
    qed simp
  qed
qed (simp add: wp_basic)

text \<open>Steps that a view of the state does not see.\<close>

definition blind :: "('s \<Rightarrow> 'v) \<Rightarrow> ('s, 'e, 'a) fallible \<Rightarrow> bool" where
  "blind view m \<longleftrightarrow> (\<forall>s. view (snd (m s)) = view s)"

lemma blind_keeps: "blind view m \<longleftrightarrow> (\<forall>v. keeps (\<lambda>s. view s = v) m)"
  by (auto simp: blind_def keeps_def)

named_theorems blind_intros "structural rules for steps a view does not see"

lemma blind_basic [blind_intros]:
  "blind view (ok a)" "blind view (fail e)" "blind view (inspect f)" "blind view (lift_result x)"
  "blind view (lift y)" "blind view (err z)" "blind view (require b e)"
  by (simp_all add: blind_keeps keeps_intros)

lemma blind_and_then [blind_intros]:
  "blind view m \<Longrightarrow> (\<And>a. blind view (f a)) \<Longrightarrow> blind view (and_then m f)"
  by (simp add: blind_keeps keeps_intros)

lemma blind_followed_by [blind_intros]: "blind view m \<Longrightarrow> blind view n \<Longrightarrow> blind view (followed_by m n)"
  by (simp add: blind_keeps keeps_intros)

lemma blind_wrap [blind_intros]:
  "blind view m \<Longrightarrow> blind view (map_err f m)" "blind view m \<Longrightarrow> blind view (catching m)"
  "blind view n \<Longrightarrow> blind view (only_if b n)"
  by (simp_all add: blind_keeps keeps_intros)

lemma blind_modify: "(\<And>s. view (f s) = view s) \<Longrightarrow> blind view (modify f)"
  by (simp add: blind_def modify_def)

lemma blind_cases [blind_intros]:
  "(b \<Longrightarrow> blind view m) \<Longrightarrow> (\<not> b \<Longrightarrow> blind view n) \<Longrightarrow> blind view (if b then m else n)"
  "(x = None \<Longrightarrow> blind view m) \<Longrightarrow> (\<And>a. x = Some a \<Longrightarrow> blind view (f a)) \<Longrightarrow>
   blind view (case x of None \<Rightarrow> m | Some a \<Rightarrow> f a)"
  "(\<And>a. y = Inl a \<Longrightarrow> blind view (g a)) \<Longrightarrow> (\<And>b. y = Inr b \<Longrightarrow> blind view (h b)) \<Longrightarrow>
   blind view (case y of Inl a \<Rightarrow> g a | Inr b \<Rightarrow> h b)"
  "(\<And>a b. z = (a, b) \<Longrightarrow> blind view (k a b)) \<Longrightarrow> blind view (case z of (a, b) \<Rightarrow> k a b)"
  by (simp split: option.split sum.split prod.split)+

lemma blind_loops [blind_intros]:
  "(\<And>x. blind view (f x)) \<Longrightarrow> blind view (for_each f xs)"
  "(\<And>x. blind view (g x)) \<Longrightarrow> blind view (find_first g xs)"
  "(\<And>x. blind view (h x)) \<Longrightarrow> blind view (traverse_m h xs)"
  by (simp_all add: blind_keeps keeps_intros)

lemma wp_blind: "blind view m \<Longrightarrow> (\<And>r s'. view s' = view s \<Longrightarrow> Q r s') \<Longrightarrow> wp m Q s"
  by (auto simp: blind_def wp_def split: prod.split) (metis snd_conv)

text \<open>What holds of the result and the state when a step succeeds.\<close>

definition on_ok :: "('s, 'e, 'a) fallible \<Rightarrow> ('a \<Rightarrow> 's \<Rightarrow> bool) \<Rightarrow> 's \<Rightarrow> bool" where
  "on_ok m P s = (case m s of (Inl _, _) \<Rightarrow> True | (Inr a, s') \<Rightarrow> P a s')"

named_theorems ok_simps "success conditions of the operators"

lemma on_okD: "on_ok m P s \<Longrightarrow> m s = (Inr a, s') \<Longrightarrow> P a s'"
  by (simp add: on_ok_def)

lemma on_okI: "(\<And>a s'. m s = (Inr a, s') \<Longrightarrow> P a s') \<Longrightarrow> on_ok m P s"
  by (auto simp: on_ok_def split: prod.splits sum.splits)

lemma on_ok_mono: "on_ok m P s \<Longrightarrow> (\<And>a s'. P a s' \<Longrightarrow> R a s') \<Longrightarrow> on_ok m R s"
  by (auto simp: on_ok_def split: prod.splits sum.splits)

lemma on_ok_wp: "wp m (\<lambda>r s'. case r of Inl _ \<Rightarrow> True | Inr a \<Rightarrow> P a s') s \<Longrightarrow> on_ok m P s"
  by (auto simp: wp_def on_ok_def split: prod.splits sum.splits)

lemma on_ok_basic [ok_simps]:
  "on_ok (ok a) P = P a" "on_ok (fail e) P s" "on_ok (err x) P s"
  "on_ok (inspect f) Q s = Q (f s) s" "on_ok (modify g) R s = R () (g s)"
  "on_ok (require b y) R s = (b \<longrightarrow> R () s)"
  by (simp_all add: fun_eq_iff on_ok_def ok_def fail_def err_def inspect_def modify_def require_def)

lemma on_ok_lift [ok_simps]: "on_ok (lift x) P s = (case x of Inl _ \<Rightarrow> True | Inr a \<Rightarrow> P a s)"
  by (cases x) (simp_all add: on_ok_def lift_def lift_result_def)

lemma on_ok_and_then [ok_simps]: "on_ok (and_then m f) P = on_ok m (\<lambda>a. on_ok (f a) P)"
  by (rule ext) (auto simp: on_ok_def and_then_def split: prod.splits sum.splits)

lemma on_ok_followed_by [ok_simps]: "on_ok (followed_by m n) P = on_ok m (\<lambda>_. on_ok n P)"
  by (simp add: followed_by_def ok_simps)

lemma on_ok_then_err [ok_simps]: "on_ok (followed_by m (err e)) P s"
  by (auto simp: on_ok_def followed_by_def and_then_def err_def fail_def split: prod.split sum.split)

lemma on_ok_only_if [ok_simps]: "on_ok (only_if b m) P s = (if b then on_ok m P s else P () s)"
  by (simp add: only_if_def ok_simps)

lemma on_ok_map_err [ok_simps]: "on_ok (map_err f m) P = on_ok m P"
  by (rule ext) (auto simp: on_ok_def map_err_def split: prod.splits sum.splits)

lemma on_ok_catching [ok_simps]: "on_ok (catching m) P s = wp m P s"
  by (auto simp: on_ok_def wp_def catching_def split: prod.splits sum.splits)

lemma on_ok_True [ok_simps]: "on_ok m (\<lambda>_ _. True) s"
  by (simp add: on_ok_def split: prod.split sum.split)

lemma on_ok_blind: "blind view m \<Longrightarrow> (\<And>a s'. view s' = view s \<Longrightarrow> P a s') \<Longrightarrow> on_ok m P s"
  by (auto simp: blind_def on_ok_def split: prod.split sum.split) (metis snd_conv)

end
