(* ===== verification/Chain_Types.thy ===== *)
theory Chain_Types
  imports Strategy_Prelude
begin

text \<open>
  The data the strategies exchange with the node: a channel as the chain reports it, its status,
  and the outcome of a chain read under a deadline. \<open>ChannelEntry\<close>, \<open>ChannelStatus\<close> and the
  chain interface belong to \<open>hopr_api\<close>, outside the repository; only the fields the strategies
  read are kept. \<open>ChannelEntry::direction\<close> stays a parameter of the definitions that call it.
\<close>

datatype channel_status = Closed | Open | PendingToClose instant

datatype channel_direction = Incoming | Outgoing

record channel =
  ch_id :: channel_id
  ch_source :: address
  ch_destination :: address
  ch_balance :: balance
  ch_ticket_index :: nat
  ch_status :: channel_status

fun is_pending :: "channel_status \<Rightarrow> bool" where
  \<comment> \<open>\<open>matches!(status, ChannelStatus::PendingToClose(_))\<close>\<close>
  "is_pending (PendingToClose t) = True"
| "is_pending Closed = False"
| "is_pending Open = False"

text \<open>The chain events the run loops look at; every other event is \<open>OtherEvent\<close>.\<close>

datatype chain_event =
    ChannelBalanceDecreased channel balance
  | ChannelBalanceIncreased channel balance
  | ChannelOpened channel
  | ChannelClosureInitiated channel
  | ChannelClosed channel
  | TicketRedeemed channel
  | OtherEvent

text \<open>
  What the chain does with one read: it answers, fails, or takes longer than the budget it was
  given. A read operation carries the instant it is started at.
\<close>

datatype 'a outcome = Answer 'a | Failure | Timeout

type_synonym 'a read_op = "instant \<times> 'a outcome"

definition chain_read :: "instant \<Rightarrow> 'a read_op \<Rightarrow> 'a option" where
  "chain_read deadline op =
     (let budget = deadline - fst op
      in if budget = 0 then None
         else case snd op of Answer v \<Rightarrow> Some v | Failure \<Rightarrow> None | Timeout \<Rightarrow> None)"

lemma chain_read_Some: "chain_read deadline op = Some v \<longleftrightarrow> fst op < deadline \<and> snd op = Answer v"
  by (auto simp: chain_read_def Let_def split: outcome.splits)

end
