(* ===== verification/Pool_Errors.thy ===== *)
theory Pool_Errors
  imports Strategy_Prelude
begin

text \<open>
  The errors of the bundled deposit pools (\<open>src/src/pix/pools/\<close>) and their classification: which
  of them prove that a failed deposit moved no funds. An \<open>anyhow::Error\<close> is the closed list of
  what the code downcasts it to, or a text. \<open>RsSdkCurvyAdapterError::Sdk\<close> carries the message of
  an opaque error of the SDK, the only part of it that is ever read.
\<close>

type_synonym pix_id = nat

section \<open>Error types\<close>

datatype plain_deposit_error = Unaffordable bool

datatype relay_status = Queued | Submitting | Submitted | Included | Finalized | Reorged | RelayStatusFailed

datatype relay_error =
    MissingRequest string
  | AccessDenied string
  | RateLimited string
  | Rejected string
  | Transport string
  | RelayFailed string
  | RelayTimeout string relay_status "string option" bool

datatype adapter_error =
    Sdk string
  | Relay relay_error
  | IncompleteRelayRecovery
  | InvalidValue string
  | NoFunding nat
  | AfterSubmission string bool
  | InsufficientNotes nat nat
  | InexactWithdrawal nat nat
  | ConflictingAllocation
  | AmbiguousAllocation
  | RelayAttemptLimit
  | RelayFinalityPending
  | RelayFinalityUnavailable string
  | ShieldInProgress
  | UnexpectedShieldFunding nat nat
  | Funding string
  | Discovery string

datatype curvy_state_error = Database string | Corrupt string

datatype adapter_cause = AdapterError adapter_error | AdapterText string

datatype curvy_pool_error =
    Adapter adapter_cause
  | StateError curvy_state_error
  | InvalidReconstructedSecret string
  | MissingScanSecret pix_id
  | MismatchedDepositData pix_id pix_id
  | WatcherStopped
  | ReconciliationPending
  | Indexer string
  | DepositTimeout
  | ScanIdentity string
  | UnsupportedPoolTransfer

datatype other_cause =
    Text string
  | PlainCause plain_deposit_error
  | CurvyCause curvy_pool_error

fun is_on_chain :: "relay_status \<Rightarrow> bool" where
  "is_on_chain s \<longleftrightarrow> s = Included \<or> s = Finalized"

fun is_terminal :: "relay_status \<Rightarrow> bool" where
  "is_terminal s \<longleftrightarrow> s = Included \<or> s = Finalized \<or> s = RelayStatusFailed"

fun permits_replacement :: "relay_error \<Rightarrow> bool" where
  "permits_replacement (MissingRequest _) = True"
| "permits_replacement (Rejected _) = True"
| "permits_replacement _ = False"

section \<open>Classification\<close>

fun str_contains :: "string \<Rightarrow> string \<Rightarrow> bool" where
  \<comment> \<open>\<open>str::contains\<close>, the pattern last\<close>
  "str_contains [] p = (p = [])"
| "str_contains (c # cs) p = (take (length p) (c # cs) = p \<or> str_contains cs p)"

definition is_pre_submission_refusal :: "string \<Rightarrow> bool" where
  "is_pre_submission_refusal m \<longleftrightarrow>
     str_contains m ''fee-collector identity does not own the aggregator's feeNotePublicKey'' \<or>
     str_contains m ''PIX aggregation requires'' \<or>
     str_contains m ''PIX allocation amounts must be non-zero'' \<or>
     str_contains m ''PIX allocation owner must differ from the funding account'' \<or>
     str_contains m ''PIX aggregation input is not owned by the funding account'' \<or>
     str_contains m ''PIX aggregation inputs must'' \<or>
     str_contains m ''PIX relayer note must carry a non-zero gas reimbursement'' \<or>
     str_contains m ''PIX relayer owner must differ from the funding account''"

fun curvy_moved_no_funds :: "curvy_pool_error \<Rightarrow> bool" where
  "curvy_moved_no_funds (Adapter cause) =
     (case cause of
        AdapterError (NoFunding _) \<Rightarrow> True
      | AdapterError (Sdk m) \<Rightarrow> is_pre_submission_refusal m
      | _ \<Rightarrow> False)"
| "curvy_moved_no_funds (MismatchedDepositData _ _) = True"
| "curvy_moved_no_funds _ = False"

fun curvy_out_of_funding :: "curvy_pool_error \<Rightarrow> bool" where
  "curvy_out_of_funding (Adapter cause) =
     (case cause of
        AdapterError (NoFunding _) \<Rightarrow> True
      | AdapterError (AfterSubmission _ out_of_funding) \<Rightarrow> out_of_funding
      | _ \<Rightarrow> False)"
| "curvy_out_of_funding _ = False"

fun error_moved_no_funds :: "other_cause \<Rightarrow> bool" where
  "error_moved_no_funds (CurvyCause c) = curvy_moved_no_funds c"
| "error_moved_no_funds (PlainCause p) = (case p of Unaffordable after_attempt \<Rightarrow> \<not> after_attempt)"
| "error_moved_no_funds (Text _) = False"

definition tag_after_submission :: "(adapter_error \<Rightarrow> string) \<Rightarrow> adapter_error \<Rightarrow> adapter_error" where
  \<comment> \<open>the first argument is the \<open>Display\<close> form of an adapter error\<close>
  "tag_after_submission show_error e =
     (let (fund_free_looking, out_of_funding) =
        (case e of
           NoFunding _ \<Rightarrow> (True, True)
         | Sdk inner \<Rightarrow> (is_pre_submission_refusal inner, False)
         | _ \<Rightarrow> (False, False)) in
      if fund_free_looking then AfterSubmission (show_error e) out_of_funding else e)"

fun curvy_clone :: "(curvy_pool_error \<Rightarrow> string) \<Rightarrow> curvy_pool_error \<Rightarrow> curvy_pool_error" where
  \<comment> \<open>the first argument is the text the code formats for an error it does not rebuild\<close>
  "curvy_clone text (MismatchedDepositData expected actual) = MismatchedDepositData expected actual"
| "curvy_clone text (Adapter cause) =
     (case cause of
        AdapterError (NoFunding required) \<Rightarrow> Adapter (AdapterError (NoFunding required))
      | AdapterError (AfterSubmission source out_of_funding) \<Rightarrow>
          Adapter (AdapterError (AfterSubmission source out_of_funding))
      | AdapterError (Sdk inner) \<Rightarrow> Adapter (AdapterError (Sdk inner))
      | _ \<Rightarrow> Adapter (AdapterText (text (Adapter cause))))"
| "curvy_clone text e = Adapter (AdapterText (text e))"

text \<open>An error tagged as following a submission never counts as fund-free, and a drained pool stays recognisable.\<close>

lemma tag_after_submission_sound:
  "\<not> curvy_moved_no_funds (Adapter (AdapterError (tag_after_submission show_error e)))"
  "curvy_out_of_funding (Adapter (AdapterError (tag_after_submission show_error e))) \<longleftrightarrow>
   curvy_out_of_funding (Adapter (AdapterError e))"
  by (cases e; simp add: tag_after_submission_def)+

lemma curvy_clone_class:
  "curvy_moved_no_funds (curvy_clone text e) \<longleftrightarrow> curvy_moved_no_funds e"
  "curvy_out_of_funding (curvy_clone text e) \<longleftrightarrow> curvy_out_of_funding e"
  by (cases e; simp split: adapter_cause.split adapter_error.split)+

end
