(* ===== verification/Strategy_State.thy ===== *)
theory Strategy_State
  imports Pool_Errors "HOL-Library.Word"
begin

text \<open>
  \<open>src/src/strategy.rs\<close> and \<open>src/src/errors.rs\<close>: the externally observable state of a strategy
  with its severity order and its \<open>u8\<close> discriminant, the error type, and the combinator
  \<open>MultiStrategy\<close> as a function of how its spawned sub-strategies end, in the order they end.
  The payload of an error that comes from another crate is kept as text, except where the code
  downcasts it (\<open>Pool_Errors\<close>).
\<close>

section \<open>State of a strategy\<close>

datatype strategy_state = Running | Degraded | Failed

fun severity :: "strategy_state \<Rightarrow> nat" where
  "severity Running = 0"
| "severity Degraded = 1"
| "severity Failed = 2"

lemma severity_inject [simp]: "severity a = severity b \<longleftrightarrow> a = b"
  by (cases a; cases b) simp_all

instantiation strategy_state :: linorder
begin

definition less_eq_strategy_state :: "strategy_state \<Rightarrow> strategy_state \<Rightarrow> bool" where
  "less_eq_strategy_state a b \<longleftrightarrow> severity a \<le> severity b"

definition less_strategy_state :: "strategy_state \<Rightarrow> strategy_state \<Rightarrow> bool" where
  "less_strategy_state a b \<longleftrightarrow> severity a < severity b"

instance
  by intro_classes (auto simp: less_eq_strategy_state_def less_strategy_state_def)

end

lemma Running_le [simp]: "Running \<le> s"
  by (simp add: less_eq_strategy_state_def)

lemma le_Failed [simp]: "s \<le> Failed"
  by (cases s) (simp_all add: less_eq_strategy_state_def)

lemma max_Failed [simp]: "max s Failed = Failed" "max Failed s = Failed"
  by (simp_all add: max.absorb1 max.absorb2)

lemma max_Running [simp]: "max s Running = s" "max Running s = s"
  by (simp_all add: max.absorb1 max.absorb2)

fun state_to_u8 :: "strategy_state \<Rightarrow> 8 word" where
  "state_to_u8 Running = 0"
| "state_to_u8 Degraded = 1"
| "state_to_u8 Failed = 2"

definition state_try_from :: "8 word \<Rightarrow> strategy_state option" where
  "state_try_from b =
     (if b = 0 then Some Running else if b = 1 then Some Degraded else if b = 2 then Some Failed else None)"

text \<open>
  The byte form of a state is a faithful code: every state survives the round trip, exactly
  the three discriminants are accepted, and the numeric order of the bytes is the order of
  severity.
\<close>

theorem state_byte_roundtrip:
  "state_try_from (state_to_u8 s) = Some s \<and> (state_try_from b = Some s \<longleftrightarrow> b = state_to_u8 s) \<and>
   (s \<le> s' \<longleftrightarrow> state_to_u8 s \<le> state_to_u8 s')"
  by (cases s; cases s') (auto simp: state_try_from_def less_eq_strategy_state_def word_le_nat_alt)

section \<open>Errors\<close>

datatype general_error = InvalidInput | ParseError string | NonSpecificError string

datatype strategy_error =
    CriteriaNotSatisfied
  | InProgress
  | InvalidConfiguration string
  | OtherError other_cause
  | HoprError string
  | GeneralError general_error

fun moved_no_funds :: "strategy_error \<Rightarrow> bool" where
  \<comment> \<open>whether a failed deposit with this error provably moved no funds\<close>
  "moved_no_funds (GeneralError InvalidInput) = True"
| "moved_no_funds (OtherError cause) = error_moved_no_funds cause"
| "moved_no_funds _ = False"

fun is_out_of_funding :: "strategy_error \<Rightarrow> bool" where
  "is_out_of_funding (OtherError (CurvyCause c)) = curvy_out_of_funding c"
| "is_out_of_funding _ = False"

fun clone_error :: "(curvy_pool_error \<Rightarrow> string) \<Rightarrow> (strategy_error \<Rightarrow> string) \<Rightarrow> strategy_error \<Rightarrow> strategy_error" where
  \<comment> \<open>the first two arguments are the texts formatted for errors that are not rebuilt\<close>
  "clone_error ctext text CriteriaNotSatisfied = CriteriaNotSatisfied"
| "clone_error ctext text (OtherError (CurvyCause c)) = OtherError (CurvyCause (curvy_clone ctext c))"
| "clone_error ctext text e = OtherError (Text (text e))"

section \<open>Running several strategies\<close>

text \<open>
  A spawned sub-strategy ends in a join error (it panicked), in being aborted by the guard, or
  with the result of its \<open>run\<close>; \<^const>\<open>None\<close> is a sub-strategy that never ends.
\<close>

datatype sub_end = JoinError string | Aborted | Finished "strategy_error + unit"

fun sub_result :: "sub_end \<Rightarrow> (strategy_error + unit) option" where
  \<comment> \<open>the match on the join result; \<^const>\<open>None\<close> is \<open>continue\<close>\<close>
  "sub_result (JoinError e) = Some (Inl (OtherError (Text e)))"
| "sub_result Aborted = None"
| "sub_result (Finished r) = Some r"

fun multi_drain :: "sub_end list \<Rightarrow> strategy_error list" where
  \<comment> \<open>the warnings logged while the completions are drained\<close>
  "multi_drain [] = []"
| "multi_drain (r # rs) =
     (case sub_result r of
        Some (Inl e) \<Rightarrow> e # multi_drain rs
      | Some (Inr _) \<Rightarrow> multi_drain rs
      | None \<Rightarrow> multi_drain rs)"

datatype multi_outcome = BlocksForever | Returns "strategy_error + unit" "strategy_error list"

definition multi_run :: "sub_end option list \<Rightarrow> multi_outcome" where
  "multi_run ends =
     (if ends = [] then BlocksForever
      else if None \<in> set ends then BlocksForever
      else Returns (Inr ()) (multi_drain (map the ends)))"

definition join_names :: "string list \<Rightarrow> string" where
  "join_names names = concat (case names of [] \<Rightarrow> [] | n # ns \<Rightarrow> n # map (\<lambda>m. '', '' @ m) ns)"

definition multi_display :: "string list \<Rightarrow> string" where
  "multi_display names =
     (if names = [] then ''multi_strategy(passive)'' else ''multi_strategy('' @ join_names names @ '')'')"

definition sub_failed :: "sub_end \<Rightarrow> bool" where
  "sub_failed r = (case sub_result r of Some (Inl e) \<Rightarrow> True | _ \<Rightarrow> False)"

lemma multi_drain_length: "length (multi_drain rs) = length (filter sub_failed rs)"
  by (induction rs) (auto simp: sub_failed_def split: option.splits sum.splits)

text \<open>
  Sub-strategies are isolated: however they fail, the combinator itself never returns an
  error. It returns exactly when there is at least one sub-strategy and all have ended, and it
  then has logged one warning for each that failed or panicked, whatever the order they ended in.
\<close>

theorem multi_strategy_isolates:
  "multi_run ends \<noteq> Returns (Inl e) ws \<and>
   ((\<exists>ws. multi_run ends = Returns (Inr ()) ws) \<longleftrightarrow> ends \<noteq> [] \<and> None \<notin> set ends) \<and>
   (multi_run ends = Returns (Inr ()) ws \<longrightarrow> length ws = length (filter sub_failed (map the ends)))"
  by (auto simp: multi_run_def multi_drain_length)

theorem multi_strategy_isolates_witness:
  "\<exists>ws. multi_run [Some (Finished (Inl InProgress)), Some (JoinError ''p''), Some (Finished (Inr ()))]
     = Returns (Inr ()) ws \<and> length ws = 2"
proof -
  let ?ends = "[Some (Finished (Inl InProgress)), Some (JoinError ''p''), Some (Finished (Inr ()))]"
  note facts = multi_strategy_isolates [of ?ends InProgress]
  obtain ws where ws: "multi_run ?ends = Returns (Inr ()) ws" using facts by auto
  moreover have "length ws = 2" using facts [of ws] ws by (simp add: sub_failed_def)
  ultimately show ?thesis by blast
qed

end
