(* ===== verification/Lifecycle_Config.thy ===== *)
theory Lifecycle_Config
  imports Strategy_Prelude Complex_Main
begin

text \<open>
  \<open>src/src/channel_lifecycle/config.rs\<close>: the configuration sections with their defaults, the
  declared validations, the startup phases, the composite peer score, and the conversion of a
  data capacity into a stake.

  Floating point. A value of type \<open>f64\<close> that reaches the code from outside and may be NaN or
  infinite (the winning probability, the configured success probability) has the type \<open>f64\<close>
  below, whose comparisons are those of IEEE 754. All other floats are finite and are modelled
  by the rational they denote, with exact arithmetic: rounding errors are not modelled, and no
  property below rests on them.

  Code outside the repository is a parameter, the record \<open>platform\<close>: \<open>UnitaryFloatOps::div_f64\<close>,
  \<open>PacketTransport::packet_payload_size\<close>, \<open>RoutingOptions::MAX_INTERMEDIATE_HOPS\<close>, the inverse
  normal distribution of \<open>statrs\<close>, and the two transcendental functions of the standard library.
\<close>

section \<open>Floating point at the boundary\<close>

datatype f64 = NaN | NegInf | PosInf | Fin rat

fun f64_ge :: "f64 \<Rightarrow> rat \<Rightarrow> bool" where
  "f64_ge NaN y = False"
| "f64_ge NegInf y = False"
| "f64_ge PosInf y = True"
| "f64_ge (Fin x) y = (y \<le> x)"

fun f64_le :: "f64 \<Rightarrow> rat \<Rightarrow> bool" where
  "f64_le NaN y = False"
| "f64_le NegInf y = True"
| "f64_le PosInf y = False"
| "f64_le (Fin x) y = (x \<le> y)"

definition f64_epsilon :: rat where
  "f64_epsilon = 1 / 2 ^ 52"

fun f64_clamp :: "f64 \<Rightarrow> rat \<Rightarrow> rat \<Rightarrow> rat option" where
  \<comment> \<open>\<open>clamp\<close> keeps NaN, here \<^const>\<open>None\<close>\<close>
  "f64_clamp NaN lo hi = None"
| "f64_clamp NegInf lo hi = Some lo"
| "f64_clamp PosInf lo hi = Some hi"
| "f64_clamp (Fin x) lo hi = Some (max lo (min hi x))"

record platform =
  div_f64 :: "balance \<Rightarrow> rat \<Rightarrow> balance option"
  packet_payload_size :: nat
  assumed_hops :: nat
  inverse_cdf :: "rat \<Rightarrow> rat"
  sqrt_f64 :: "rat \<Rightarrow> rat"
  ln_1p :: "rat \<Rightarrow> rat"

text \<open>
  The documented behaviour of the platform, a named hypothesis of the properties that need it:
  \<open>div_f64\<close> is the truncating division and fails outside \<open>(0, 1]\<close>; a packet carries at least
  one byte and a path has at least one hop; the quantile function is non-negative above the
  median; the square root and the logarithm are non-negative and monotone on the non-negatives.
\<close>

definition platform_ok :: "platform \<Rightarrow> bool" where
  "platform_ok pf \<longleftrightarrow>
     (\<forall>b p. div_f64 pf b p = (if 0 < p \<and> p \<le> 1 then Some (nat \<lfloor>of_nat b / p\<rfloor>) else None)) \<and>
     0 < packet_payload_size pf \<and> 0 < assumed_hops pf \<and>
     (\<forall>a. 1 / 2 \<le> a \<longrightarrow> 0 \<le> inverse_cdf pf a) \<and>
     (\<forall>x. 0 \<le> x \<longrightarrow> 0 \<le> sqrt_f64 pf x) \<and>
     (\<forall>x y. 0 \<le> x \<longrightarrow> x \<le> y \<longrightarrow> sqrt_f64 pf x \<le> sqrt_f64 pf y) \<and>
     ln_1p pf 0 = 0 \<and> (\<forall>x y. 0 \<le> x \<longrightarrow> x < y \<longrightarrow> ln_1p pf x < ln_1p pf y)"

section \<open>Sections of the configuration\<close>

record population_config =
  min_open_channels :: nat
  target_open_channels :: nat
  peer_reopen_cooldown :: duration

definition population_default :: population_config where
  "population_default =
     \<lparr>min_open_channels = 5, target_open_channels = 8, peer_reopen_cooldown = secs (15 * 60)\<rparr>"

record eligibility_config =
  require_currently_connected :: bool
  min_peer_quality_score :: rat
  peer_quality_weight :: rat
  ticket_activity_weight :: rat
  require_observed_since_start :: bool
  allowlist :: "address list option"
  blocklist :: "address list"
  demote_non_forwarding_peers :: bool
  minimum_peer_outgoing_channels :: nat

definition eligibility_default :: eligibility_config where
  "eligibility_default =
     \<lparr>require_currently_connected = True, min_peer_quality_score = 1 / 2,
      peer_quality_weight = 6 / 10, ticket_activity_weight = 4 / 10,
      require_observed_since_start = True, allowlist = None, blocklist = [],
      demote_non_forwarding_peers = True, minimum_peer_outgoing_channels = 1\<rparr>"

definition composite_quality_score :: "eligibility_config \<Rightarrow> rat \<Rightarrow> rat option \<Rightarrow> rat" where
  "composite_quality_score cfg edge_score ticket_score =
     (case ticket_score of
        Some t \<Rightarrow> peer_quality_weight cfg * edge_score + ticket_activity_weight cfg * t
      | None \<Rightarrow> edge_score)"

datatype capacity_sizing_mode = Deterministic | Probabilistic f64

record funding_config =
  initial_capacity :: nat
  topup_capacity :: nat
  lower_capacity_threshold :: nat
  sizing_mode :: capacity_sizing_mode

definition funding_default :: funding_config where
  "funding_default =
     \<lparr>initial_capacity = 2 ^ 30, topup_capacity = 2 ^ 30,
      lower_capacity_threshold = 256 * 2 ^ 20, sizing_mode = Deterministic\<rparr>"

record proactive_funding_config =
  pf_enabled :: bool
  fallback_chain_op_duration :: duration
  depletion_lookback :: duration
  safety_margin :: rat
  balance_drain_weight :: rat
  ticket_index_drain_weight :: rat

definition proactive_funding_default :: proactive_funding_config where
  "proactive_funding_default =
     \<lparr>pf_enabled = True, fallback_chain_op_duration = secs 60, depletion_lookback = secs (10 * 60),
      safety_margin = 3 / 2, balance_drain_weight = 1, ticket_index_drain_weight = 1\<rparr>"

record closure_config =
  close_when_peer_unseen_for :: duration
  close_below_quality_score :: rat
  close_when_drained_below :: balance
  close_max_concurrent :: nat
  close_after_disconnected_ticks :: nat

definition closure_default :: closure_config where
  "closure_default =
     \<lparr>close_when_peer_unseen_for = secs (24 * 60 * 60), close_below_quality_score = 3 / 10,
      close_when_drained_below = 0, close_max_concurrent = 2, close_after_disconnected_ticks = 3\<rparr>"

record finalizer_config =
  fin_enabled :: bool
  max_closure_overdue :: duration
  finalize_max_concurrent :: nat

definition finalizer_default :: finalizer_config where
  "finalizer_default =
     \<lparr>fin_enabled = True, max_closure_overdue = secs (15 * 60), finalize_max_concurrent = 4\<rparr>"

record restart_guard_config =
  startup_observation_period :: duration
  startup_close_grace_period :: duration

definition restart_default :: restart_guard_config where
  "restart_default = \<lparr>startup_observation_period = secs 60, startup_close_grace_period = secs (5 * 60)\<rparr>"

datatype startup_phase = Observing | ShieldingConnected | Expired

definition phase_at :: "restart_guard_config \<Rightarrow> duration \<Rightarrow> startup_phase" where
  "phase_at cfg elapsed =
     (if elapsed < startup_observation_period cfg then Observing
      else if elapsed < startup_close_grace_period cfg then ShieldingConnected
      else Expired)"

record concurrency_config =
  max_concurrent_actions :: nat
  action_lease_timeout :: duration
  chain_read_timeout :: duration

definition concurrency_default :: concurrency_config where
  "concurrency_default =
     \<lparr>max_concurrent_actions = 4, action_lease_timeout = secs (5 * 60), chain_read_timeout = secs 30\<rparr>"

record selector_weights =
  w_latency :: rat
  w_trust :: rat
  w_stake :: rat
  w_anonymity :: rat
  trust_probe :: rat
  trust_ack :: rat
  trust_ticket :: rat

definition selector_weights_new :: "rat \<Rightarrow> rat \<Rightarrow> rat \<Rightarrow> rat \<Rightarrow> selector_weights" where
  "selector_weights_new latency trust stake anonymity =
     \<lparr>w_latency = latency, w_trust = trust, w_stake = stake, w_anonymity = anonymity,
      trust_probe = 50 / 100, trust_ack = 35 / 100, trust_ticket = 15 / 100\<rparr>"

definition weights_balanced :: selector_weights where
  "weights_balanced = selector_weights_new (35 / 100) (30 / 100) (15 / 100) (20 / 100)"

record mo_config =
  weights :: selector_weights
  open_per_tick :: nat
  close_per_tick :: nat
  k_floor :: nat
  hysteresis_gap :: rat

definition mo_low_latency :: mo_config where
  "mo_low_latency =
     \<lparr>weights = selector_weights_new (70 / 100) (20 / 100) (5 / 100) (5 / 100),
      open_per_tick = 4, close_per_tick = 4, k_floor = 2, hysteresis_gap = 10 / 100\<rparr>"

definition mo_balanced :: mo_config where
  "mo_balanced =
     \<lparr>weights = weights_balanced, open_per_tick = 2, close_per_tick = 2, k_floor = 3,
      hysteresis_gap = 20 / 100\<rparr>"

definition mo_dispersed :: mo_config where
  "mo_dispersed =
     \<lparr>weights = selector_weights_new (20 / 100) (20 / 100) (10 / 100) (50 / 100),
      open_per_tick = 2, close_per_tick = 2, k_floor = 4, hysteresis_gap = 20 / 100\<rparr>"

definition mo_economical :: mo_config where
  "mo_economical =
     \<lparr>weights = selector_weights_new (30 / 100) (30 / 100) (30 / 100) (10 / 100),
      open_per_tick = 1, close_per_tick = 1, k_floor = 2, hysteresis_gap = 40 / 100\<rparr>"

datatype selector_profile =
  DefaultProfile | LowLatency | Balanced | Dispersed | Economical | Custom mo_config

fun multi_objective_config :: "selector_profile \<Rightarrow> mo_config option" where
  "multi_objective_config DefaultProfile = None"
| "multi_objective_config LowLatency = Some mo_low_latency"
| "multi_objective_config Balanced = Some mo_balanced"
| "multi_objective_config Dispersed = Some mo_dispersed"
| "multi_objective_config Economical = Some mo_economical"
| "multi_objective_config (Custom cfg) = Some cfg"

record lifecycle_config =
  tick_interval :: duration
  jitter :: duration
  population :: population_config
  eligibility :: eligibility_config
  funding :: funding_config
  proactive_funding :: proactive_funding_config
  closure :: closure_config
  finalizer :: finalizer_config
  restart :: restart_guard_config
  concurrency :: concurrency_config
  selector_prof :: selector_profile

definition lifecycle_default :: lifecycle_config where
  "lifecycle_default =
     \<lparr>tick_interval = secs 60, jitter = secs 5, population = population_default,
      eligibility = eligibility_default, funding = funding_default,
      proactive_funding = proactive_funding_default, closure = closure_default,
      finalizer = finalizer_default, restart = restart_default,
      concurrency = concurrency_default, selector_prof = DefaultProfile\<rparr>"

section \<open>Validation\<close>

datatype config_error =
    DurationZero
  | ObservationExceedsGrace
  | SuccessProbabilityRange
  | TrustWeights rat rat rat rat

definition validate_non_zero :: "duration \<Rightarrow> config_error + unit" where
  "validate_non_zero d = (if d = 0 then Inl DurationZero else Inr ())"

definition validate_restart_windows :: "restart_guard_config \<Rightarrow> config_error + unit" where
  "validate_restart_windows cfg =
     (if startup_observation_period cfg > startup_close_grace_period cfg
      then Inl ObservationExceedsGrace else Inr ())"

definition validate_sizing_mode :: "capacity_sizing_mode \<Rightarrow> config_error + unit" where
  "validate_sizing_mode mode =
     (case mode of
        Probabilistic p \<Rightarrow>
          if \<not> (f64_ge p (5001 / 10000) \<and> f64_le p (99999 / 100000))
          then Inl SuccessProbabilityRange else Inr ()
      | Deterministic \<Rightarrow> Inr ())"

definition validate_trust_weights :: "mo_config \<Rightarrow> config_error + unit" where
  "validate_trust_weights cfg =
     (let w = weights cfg; sum = trust_probe w + trust_ack w + trust_ticket w
      in if \<bar>sum - 1\<bar> > 1 / 100
         then Inl (TrustWeights sum (trust_probe w) (trust_ack w) (trust_ticket w))
         else Inr ())"

text \<open>The derived \<open>validate()\<close> runs the declared checks of all sections and reports every failure.\<close>

definition validate_lifecycle :: "lifecycle_config \<Rightarrow> config_error list" where
  "validate_lifecycle cfg =
     concat (map (\<lambda>r. case r of Inl e \<Rightarrow> [e] | Inr _ \<Rightarrow> [])
       [validate_sizing_mode (sizing_mode (funding cfg)),
        validate_restart_windows (restart cfg),
        validate_non_zero (action_lease_timeout (concurrency cfg)),
        validate_non_zero (chain_read_timeout (concurrency cfg))])"

section \<open>Capacity to stake\<close>

record resolved_funding =
  initial_balance :: balance
  topup_balance :: balance
  lower_balance_threshold :: balance
  face_value :: balance

definition required_safe_balance :: "resolved_funding \<Rightarrow> nat \<Rightarrow> nat \<Rightarrow> balance" where
  "required_safe_balance r channels_needing_topup open_deficit =
     bal_add (bal_mul (topup_balance r) channels_needing_topup)
       (bal_mul (initial_balance r) open_deficit)"

definition rust_round :: "rat \<Rightarrow> rat" where
  \<comment> \<open>\<open>f64::round\<close>: half away from zero\<close>
  "rust_round x = (if 0 \<le> x then of_int \<lfloor>x + 1 / 2\<rfloor> else - of_int \<lfloor>- x + 1 / 2\<rfloor>)"

definition whole_tickets :: "rat \<Rightarrow> rat" where
  "whole_tickets tickets =
     (let nearest = rust_round tickets
      in if \<bar>tickets - nearest\<bar> \<le> 4 * f64_epsilon * \<bar>tickets\<bar> then nearest
         else of_int \<lceil>tickets\<rceil>)"

definition clamped_win_prob :: "f64 \<Rightarrow> rat" where
  "clamped_win_prob win_prob =
     (case f64_clamp win_prob f64_epsilon 1 of None \<Rightarrow> f64_epsilon | Some p \<Rightarrow> p)"

definition winning_ticket_face_value_wei :: "rat \<Rightarrow> f64 \<Rightarrow> nat \<Rightarrow> rat" where
  "winning_ticket_face_value_wei price_wei win_prob hops =
     price_wei * of_nat hops / clamped_win_prob win_prob"

definition winning_ticket_face_value :: "platform \<Rightarrow> balance \<Rightarrow> f64 \<Rightarrow> nat \<Rightarrow> balance" where
  "winning_ticket_face_value pf price win_prob hops =
     (let p = clamped_win_prob win_prob;
          single = (case div_f64 pf price p of Some b \<Rightarrow> b | None \<Rightarrow> price)
      in min (single * hops) u256_max)"

definition as_u128 :: "rat \<Rightarrow> nat" where
  \<comment> \<open>the saturating \<open>as u128\<close> cast\<close>
  "as_u128 x = min (nat \<lfloor>x\<rfloor>) (2 ^ 128 - 1)"

definition div_ceil :: "nat \<Rightarrow> nat \<Rightarrow> nat" where
  "div_ceil a b = a div b + (if a mod b = 0 then 0 else 1)"

definition drain_target :: "platform \<Rightarrow> nat \<Rightarrow> rat \<Rightarrow> rat \<Rightarrow> nat \<Rightarrow> capacity_sizing_mode \<Rightarrow> rat option" where
  \<comment> \<open>\<^const>\<open>None\<close> is NaN, which only a NaN success probability produces\<close>
  "drain_target pf n p price_f64 hops mode =
     (let mean_drain = of_nat n * of_nat hops * price_f64
      in case mode of
           Deterministic \<Rightarrow> Some mean_drain
         | Probabilistic success_probability \<Rightarrow>
             (case f64_clamp success_probability (5001 / 10000) (99999 / 100000) of
                None \<Rightarrow> None
              | Some alpha \<Rightarrow>
                  let k = inverse_cdf pf alpha;
                      sigma = price_f64 * of_nat hops * sqrt_f64 pf (of_nat n * (1 - p) / p)
                  in Some (mean_drain + k * sigma)))"

definition f64_max :: "rat option \<Rightarrow> rat \<Rightarrow> rat" where
  \<comment> \<open>\<open>f64::max\<close> ignores a NaN operand\<close>
  "f64_max x y = (case x of None \<Rightarrow> y | Some v \<Rightarrow> max v y)"

definition capacity_to_balance ::
    "platform \<Rightarrow> nat \<Rightarrow> balance \<Rightarrow> f64 \<Rightarrow> nat \<Rightarrow> capacity_sizing_mode \<Rightarrow> balance" where
  "capacity_to_balance pf bytes price win_prob hops mode =
     (if bytes = 0 then 0
      else
        let n = div_ceil bytes (packet_payload_size pf);
            p = clamped_win_prob win_prob;
            price_f64 = of_nat (low_u128 price);
            target = drain_target pf n p price_f64 hops mode;
            face_wei = winning_ticket_face_value pf price win_prob hops
        in if face_wei = 0 then 0
           else
             let face_f64 = winning_ticket_face_value_wei price_f64 win_prob hops;
                 target' = max (f64_max target face_f64) 0;
                 tickets = (if 0 < face_f64 then whole_tickets (target' / face_f64) else 1)
             in min (face_wei * as_u128 tickets) u256_max)"

definition resolve :: "platform \<Rightarrow> funding_config \<Rightarrow> balance \<Rightarrow> f64 \<Rightarrow> resolved_funding" where
  "resolve pf cfg price win_prob =
     (let hops = assumed_hops pf; mode = sizing_mode cfg
      in \<lparr>initial_balance = capacity_to_balance pf (initial_capacity cfg) price win_prob hops mode,
          topup_balance = capacity_to_balance pf (topup_capacity cfg) price win_prob hops mode,
          lower_balance_threshold =
            capacity_to_balance pf (lower_capacity_threshold cfg) price win_prob hops mode,
          face_value = winning_ticket_face_value pf price win_prob hops\<rparr>)"

section \<open>Rounding to whole tickets\<close>

lemma rust_round_nonneg: "0 \<le> x \<Longrightarrow> rust_round x = of_int \<lfloor>x + 1 / 2\<rfloor>"
  by (simp add: rust_round_def)

lemma round_half: "\<bar>x - of_int \<lfloor>x + 1 / 2\<rfloor>\<bar> \<le> (1 / 2 :: rat)"
  using floor_correct [of "x + 1 / 2"] unfolding abs_le_iff by linarith

lemma whole_tickets_cases:
  assumes "0 \<le> x"
  obtains (snap) "whole_tickets x = of_int \<lfloor>x + 1 / 2\<rfloor>" "\<bar>x - of_int \<lfloor>x + 1 / 2\<rfloor>\<bar> \<le> 4 * f64_epsilon * x"
  | (ceil) "whole_tickets x = of_int \<lceil>x\<rceil>" "4 * f64_epsilon * x < \<bar>x - of_int \<lfloor>x + 1 / 2\<rfloor>\<bar>"
proof (cases "\<bar>x - of_int \<lfloor>x + 1 / 2\<rfloor>\<bar> \<le> 4 * f64_epsilon * x")
  case True
  with assms show ?thesis by (intro snap) (simp_all add: whole_tickets_def rust_round_nonneg Let_def)
next
  case False
  with assms show ?thesis by (intro ceil) (simp_all add: whole_tickets_def rust_round_nonneg Let_def)
qed

lemma whole_tickets_of_int [simp]: "whole_tickets (of_int z) = of_int z"
proof -
  have "rust_round (of_int z) = of_int z"
  proof (cases "0 \<le> z")
    case True
    then show ?thesis by (simp add: rust_round_def) linarith
  next
    case False
    then show ?thesis by (simp add: rust_round_def) linarith
  qed
  then show ?thesis by (simp add: whole_tickets_def f64_epsilon_def)
qed

lemma whole_tickets_Ints: "\<exists>z. whole_tickets x = of_int z"
  unfolding whole_tickets_def Let_def rust_round_def
  by (auto split: if_splits) (metis of_int_minus)

lemma whole_tickets_less:
  assumes "0 \<le> x"
  shows "whole_tickets x < x + 1"
  using assms
proof (cases rule: whole_tickets_cases)
  case snap
  then show ?thesis using round_half [of x] unfolding abs_le_iff by linarith
next
  case ceil
  then show ?thesis using ceiling_correct [of x] by simp
qed

lemma whole_tickets_ge:
  assumes "0 \<le> x"
  shows "x - 4 * f64_epsilon * x \<le> whole_tickets x"
  using assms
proof (cases rule: whole_tickets_cases)
  case snap
  then show ?thesis unfolding abs_le_iff by linarith
next
  case ceil
  have "0 \<le> 4 * f64_epsilon * x" using assms by (simp add: f64_epsilon_def)
  with ceil show ?thesis using le_of_int_ceiling [of x] by linarith
qed

lemma whole_tickets_ge_1:
  assumes "1 \<le> x"
  shows "1 \<le> whole_tickets x"
proof -
  obtain z where z: "whole_tickets x = of_int z" using whole_tickets_Ints by blast
  have "4 * f64_epsilon * x < x" using assms by (simp add: f64_epsilon_def)
  then have "0 < whole_tickets x" using whole_tickets_ge [of x] assms by linarith
  with z show ?thesis by simp
qed

text \<open>Rounding is monotone although it mixes rounding up with snapping to the nearest integer.\<close>

lemma whole_tickets_mono:
  assumes "0 \<le> x" and "x \<le> y"
  shows "whole_tickets x \<le> whole_tickets y"
proof (rule ccontr)
  assume "\<not> ?thesis"
  then have less: "whole_tickets y < whole_tickets x" by simp
  obtain a where a: "whole_tickets x = of_int a" using whole_tickets_Ints by blast
  obtain b where b: "whole_tickets y = of_int b" using whole_tickets_Ints by blast
  from less a b have ab: "b + 1 \<le> a" by simp
  have y0: "0 \<le> y" using assms by simp
  have xa: "of_int a < x + 1" using whole_tickets_less [OF assms(1)] a by simp
  have snap_y: "b = \<lfloor>y + 1 / 2\<rfloor> \<and> \<bar>y - of_int \<lfloor>y + 1 / 2\<rfloor>\<bar> \<le> 4 * f64_epsilon * y"
    using y0
  proof (cases rule: whole_tickets_cases)
    case snap
    with b show ?thesis by simp
  next
    case ceil
    with b have "y \<le> of_int b" using le_of_int_ceiling [of y] by simp
    with xa ab assms(2) have "(of_int a :: rat) < of_int b + 1" by linarith
    with ab show ?thesis by linarith
  qed
  then have yb: "y - of_int b \<le> 4 * f64_epsilon * y" unfolding abs_le_iff by linarith
  have bx: "of_int b < x" using xa ab by (metis add_le_cancel_right le_less_trans of_int_1 of_int_add of_int_le_iff not_less)
  have half: "x - of_int b \<le> 1 / 2"
    using snap_y round_half [of y] assms(2) unfolding abs_le_iff by linarith
  show False
    using assms(1)
  proof (cases rule: whole_tickets_cases)
    case snap
    have eps: "4 * f64_epsilon * x \<le> 4 * f64_epsilon * y"
      using assms(2) by (simp add: f64_epsilon_def)
    from snap a have "a = \<lfloor>x + 1 / 2\<rfloor>" by simp
    moreover have "\<lfloor>x + 1 / 2\<rfloor> \<le> \<lfloor>y + 1 / 2\<rfloor>" using assms(2) by (simp add: floor_mono)
    ultimately show ?thesis using snap_y ab by simp
  next
    case ceil
    have nearest: "\<lfloor>x + 1 / 2\<rfloor> \<le> b" using snap_y assms(2) floor_mono [of "x + 1 / 2" "y + 1 / 2"] by simp
    have b_le: "b \<le> \<lfloor>x + 1 / 2\<rfloor>" using bx by (simp add: le_floor_iff)
    from ceil nearest b_le bx have "4 * f64_epsilon * x < x - of_int b" by (simp add: abs_if split: if_splits)
    then have "of_int b < x * (1 - 4 * f64_epsilon)" by (simp add: algebra_simps)
    also have "\<dots> \<le> y * (1 - 4 * f64_epsilon)"
      using assms(2) by (intro mult_right_mono) (simp_all add: f64_epsilon_def)
    also have "\<dots> \<le> of_int b" using yb by (simp add: algebra_simps)
    finally show ?thesis by simp
  qed
qed

section \<open>Stakes\<close>

lemma clamped_win_prob_pos: "0 < clamped_win_prob w"
  by (cases w) (auto simp: clamped_win_prob_def f64_epsilon_def)

lemma clamped_win_prob_le_1: "clamped_win_prob w \<le> 1"
  by (cases w) (auto simp: clamped_win_prob_def f64_epsilon_def)

lemma winning_ticket_face_value_bound: "winning_ticket_face_value pf price w hops \<le> u256_max"
  by (simp add: winning_ticket_face_value_def Let_def)

lemma winning_ticket_face_value_wei_nonneg: "0 \<le> winning_ticket_face_value_wei (of_nat price) w hops"
  using clamped_win_prob_pos [of w] by (simp add: winning_ticket_face_value_wei_def)

lemma as_u128_mono: "x \<le> y \<Longrightarrow> as_u128 x \<le> as_u128 y"
  unfolding as_u128_def by (intro min.mono nat_mono floor_mono) simp_all

lemma as_u128_ge_1: "1 \<le> x \<Longrightarrow> 1 \<le> as_u128 x"
  by (simp add: as_u128_def le_nat_iff le_floor_iff)

lemma as_u128_whole: "0 \<le> z \<Longrightarrow> of_int z < (2 ^ 128 :: rat) \<Longrightarrow> of_nat (as_u128 (of_int z)) = (of_int z :: rat)"
proof -
  assume "0 \<le> z" and z: "of_int z < (2 ^ 128 :: rat)"
  from z have "z < 2 ^ 128" by (metis of_int_less_iff of_int_numeral of_int_power)
  with \<open>0 \<le> z\<close> show ?thesis by (simp add: as_u128_def)
qed

lemma div_ceil_mono: "a \<le> b \<Longrightarrow> div_ceil a c \<le> div_ceil b c"
proof -
  assume "a \<le> b"
  then have "a div c \<le> b div c" by (rule div_le_mono)
  moreover have "b mod c \<noteq> 0 \<or> a mod c = 0 \<or> a div c < b div c"
    using \<open>a \<le> b\<close> calculation by (metis add_leE div_mult_mod_eq le_neq_implies_less le_antisym nat_add_left_cancel_le add.right_neutral gr0I not_less)
  ultimately show ?thesis by (auto simp: div_ceil_def)
qed

lemma f64_max_ge: "y \<le> f64_max x y"
  by (simp add: f64_max_def split: option.splits)

text \<open>The number of winning tickets a stake is sized for.\<close>

lemma capacity_to_balance_tickets:
  assumes "0 < bytes" and "winning_ticket_face_value pf price w hops \<noteq> 0"
  obtains k where "1 \<le> k"
    and "capacity_to_balance pf bytes price w hops mode = min (winning_ticket_face_value pf price w hops * k) u256_max"
proof -
  let ?f = "winning_ticket_face_value_wei (of_nat (low_u128 price)) w hops"
  let ?t = "max (f64_max (drain_target pf (div_ceil bytes (packet_payload_size pf)) (clamped_win_prob w)
                (of_nat (low_u128 price)) hops mode) ?f) 0"
  let ?k = "as_u128 (if 0 < ?f then whole_tickets (?t / ?f) else 1)"
  have "1 \<le> ?k"
  proof (cases "0 < ?f")
    case True
    have "?f \<le> ?t" using f64_max_ge by (meson max.coboundedI1)
    with True have "1 \<le> ?t / ?f" by (simp only: le_divide_eq_1_pos)
    then have "1 \<le> as_u128 (whole_tickets (?t / ?f))" by (intro as_u128_ge_1 whole_tickets_ge_1)
    with True show ?thesis by (simp only: if_True)
  next
    case False
    then show ?thesis using as_u128_ge_1 [of 1] by (simp only: if_False)
  qed
  with assms show thesis
    by (intro that [of ?k]) (simp_all add: capacity_to_balance_def Let_def)
qed

text \<open>
  A stake always covers one winning ticket and is a whole number of them: for any winning
  probability (zero, negative, NaN and infinite ones included), any price and either sizing
  mode, a non-zero capacity resolves to a whole positive multiple of the face value, capped at
  the largest balance, and never less than one face value.
\<close>

theorem stake_is_whole_tickets:
  assumes "0 < bytes" and "winning_ticket_face_value pf price w hops \<noteq> 0"
  shows "\<exists>k\<ge>1. capacity_to_balance pf bytes price w hops mode =
      min (winning_ticket_face_value pf price w hops * k) u256_max \<and>
    winning_ticket_face_value pf price w hops \<le> capacity_to_balance pf bytes price w hops mode"
proof -
  obtain k where k: "1 \<le> k"
    and eq: "capacity_to_balance pf bytes price w hops mode = min (winning_ticket_face_value pf price w hops * k) u256_max"
    using capacity_to_balance_tickets [OF assms] by blast
  have "winning_ticket_face_value pf price w hops * 1 \<le> winning_ticket_face_value pf price w hops * k"
    using k by (rule mult_le_mono2)
  then have "winning_ticket_face_value pf price w hops \<le> capacity_to_balance pf bytes price w hops mode"
    by (simp add: eq winning_ticket_face_value_bound)
  with k eq show ?thesis by blast
qed

lemma drain_target_mono:
  assumes "platform_ok pf" and "n \<le> m" and "0 \<le> price" and "0 < p" and "p \<le> 1"
    and "drain_target pf n p price hops mode = Some x" and "drain_target pf m p price hops mode = Some y"
  shows "x \<le> y"
proof -
  have mean: "of_nat n * of_nat hops * price \<le> of_nat m * of_nat hops * price"
    using assms(2,3) by (intro mult_right_mono) simp_all
  show ?thesis
  proof (cases mode)
    case Deterministic
    with assms(6,7) mean show ?thesis by (simp add: drain_target_def)
  next
    case (Probabilistic sp)
    then obtain a where a: "f64_clamp sp (5001 / 10000) (99999 / 100000) = Some a"
      using assms(6) by (auto simp: drain_target_def split: option.splits)
    then have "1 / 2 \<le> a" by (cases sp) auto
    then have k: "0 \<le> inverse_cdf pf a" using assms(1) by (simp add: platform_ok_def)
    have "of_nat n * (1 - p) / p \<le> of_nat m * (1 - p) / p" "0 \<le> of_nat n * (1 - p) / p"
      using assms(2,4,5) by (auto intro!: divide_right_mono mult_right_mono)
    then have "sqrt_f64 pf (of_nat n * (1 - p) / p) \<le> sqrt_f64 pf (of_nat m * (1 - p) / p)"
      using assms(1) by (simp add: platform_ok_def)
    then have "price * of_nat hops * sqrt_f64 pf (of_nat n * (1 - p) / p)
        \<le> price * of_nat hops * sqrt_f64 pf (of_nat m * (1 - p) / p)"
      using assms(3) by (intro mult_left_mono) simp_all
    with k mean a Probabilistic assms(6,7) show ?thesis
      by (auto simp: drain_target_def Let_def intro!: add_mono mult_left_mono)
  qed
qed

lemma drain_target_None_iff: "drain_target pf n p price hops mode = None \<longleftrightarrow> drain_target pf m p price hops mode = None"
  by (simp add: drain_target_def Let_def split: capacity_sizing_mode.splits option.splits)

text \<open>
  Stakes grow with the capacity: at the same economics and sizing mode, a larger capacity
  never resolves to a smaller stake, although the count is rounded to whole tickets on the way.
  In particular a top-up sized above the trigger threshold is never below it.
\<close>

theorem stake_monotone:
  assumes ok: "platform_ok pf" and le: "bytes \<le> bytes'"
  shows "capacity_to_balance pf bytes price w hops mode \<le> capacity_to_balance pf bytes' price w hops mode"
proof (cases "bytes = 0 \<or> winning_ticket_face_value pf price w hops = 0")
  case True
  then show ?thesis by (auto simp: capacity_to_balance_def Let_def)
next
  case False
  let ?f = "winning_ticket_face_value_wei (of_nat (low_u128 price)) w hops"
  let ?d = "\<lambda>b. drain_target pf (div_ceil b (packet_payload_size pf)) (clamped_win_prob w)
                (of_nat (low_u128 price)) hops mode"
  let ?t = "\<lambda>b. max (f64_max (?d b) ?f) 0"
  let ?k = "\<lambda>b. as_u128 (if 0 < ?f then whole_tickets (?t b / ?f) else 1)"
  have "f64_max (?d bytes) ?f \<le> f64_max (?d bytes') ?f"
  proof (cases "?d bytes")
    case None
    then have "?d bytes' = None" using drain_target_None_iff by blast
    with None show ?thesis by simp
  next
    case (Some x)
    then obtain y where y: "?d bytes' = Some y" using drain_target_None_iff by (metis not_None_eq)
    have "x \<le> y"
      using drain_target_mono [OF ok div_ceil_mono [OF le] _ clamped_win_prob_pos clamped_win_prob_le_1 Some y]
      by simp
    with Some y show ?thesis by (simp add: f64_max_def)
  qed
  then have t: "?t bytes \<le> ?t bytes'" by (rule max.mono) simp
  have k: "?k bytes \<le> ?k bytes'"
  proof (cases "0 < ?f")
    case True
    have "?t bytes / ?f \<le> ?t bytes' / ?f" by (rule divide_right_mono [OF t less_imp_le [OF True]])
    moreover have "0 \<le> ?t bytes / ?f" using True by simp
    ultimately have "as_u128 (whole_tickets (?t bytes / ?f)) \<le> as_u128 (whole_tickets (?t bytes' / ?f))"
      by (intro as_u128_mono whole_tickets_mono)
    with True show ?thesis by (simp only: if_True)
  qed simp
  have "capacity_to_balance pf b price w hops mode =
      min (winning_ticket_face_value pf price w hops * ?k b) u256_max" if "b \<noteq> 0" for b
    using False that by (simp add: capacity_to_balance_def Let_def)
  with k le False show ?thesis by (simp add: min_le_iff_disj)
qed

definition sample_platform :: platform where
  "sample_platform =
     \<lparr>div_f64 = (\<lambda>b p. if 0 < p \<and> p \<le> 1 then Some (nat \<lfloor>of_nat b / p\<rfloor>) else None),
      packet_payload_size = 1036, assumed_hops = 3, inverse_cdf = (\<lambda>a. 3), sqrt_f64 = (\<lambda>x. x),
      ln_1p = (\<lambda>x. x)\<rparr>"

lemma sample_platform_ok: "platform_ok sample_platform"
  by (simp add: platform_ok_def sample_platform_def)

lemma sample_face_value: "winning_ticket_face_value sample_platform 100 (Fin (1 / 10)) 3 = 3000"
  by (simp add: winning_ticket_face_value_def clamped_win_prob_def f64_epsilon_def sample_platform_def u256_max_def)

theorem stake_is_whole_tickets_witness:
  "\<exists>k\<ge>1. capacity_to_balance sample_platform 5000 100 (Fin (1 / 10)) 3 Deterministic = min (3000 * k) u256_max \<and>
    3000 \<le> capacity_to_balance sample_platform 5000 100 (Fin (1 / 10)) 3 Deterministic"
  using stake_is_whole_tickets [of 5000 sample_platform 100 "Fin (1 / 10)" 3 Deterministic]
  by (simp add: sample_face_value)

theorem stake_monotone_witness:
  "capacity_to_balance sample_platform (256 * 2 ^ 20) 100 (Fin (1 / 10)) 3 Deterministic
     \<le> capacity_to_balance sample_platform (2 ^ 30) 100 (Fin (1 / 10)) 3 Deterministic"
  by (rule stake_monotone [OF sample_platform_ok]) simp

section \<open>Validation and startup phases\<close>

lemma validate_lifecycle_ok:
  "validate_lifecycle cfg = [] \<longleftrightarrow>
     validate_sizing_mode (sizing_mode (funding cfg)) = Inr () \<and>
     startup_observation_period (restart cfg) \<le> startup_close_grace_period (restart cfg) \<and>
     0 < action_lease_timeout (concurrency cfg) \<and> 0 < chain_read_timeout (concurrency cfg)"
  by (auto simp: validate_lifecycle_def validate_restart_windows_def validate_non_zero_def split: sum.splits)

lemma validate_lifecycle_default: "validate_lifecycle lifecycle_default = []"
  by (simp add: validate_lifecycle_ok lifecycle_default_def restart_default_def concurrency_default_def
      funding_default_def validate_sizing_mode_def secs_def)

fun phase_rank :: "startup_phase \<Rightarrow> nat" where
  "phase_rank Observing = 0"
| "phase_rank ShieldingConnected = 1"
| "phase_rank Expired = 2"

text \<open>
  The startup guard only ever opens up: with a configuration that passed validation, phases
  are entered in the order observing, shielding, expired, and each is reached exactly in its own
  window of the elapsed time.
\<close>

theorem startup_phases_progress:
  assumes "validate_lifecycle cfg = []"
  shows "(e \<le> e' \<longrightarrow> phase_rank (phase_at (restart cfg) e) \<le> phase_rank (phase_at (restart cfg) e')) \<and>
    (phase_at (restart cfg) e = Observing \<longleftrightarrow> e < startup_observation_period (restart cfg)) \<and>
    (phase_at (restart cfg) e = ShieldingConnected \<longleftrightarrow>
       startup_observation_period (restart cfg) \<le> e \<and> e < startup_close_grace_period (restart cfg)) \<and>
    (phase_at (restart cfg) e = Expired \<longleftrightarrow> startup_close_grace_period (restart cfg) \<le> e)"
  using assms by (auto simp: validate_lifecycle_ok phase_at_def)

theorem startup_phases_progress_witness:
  "phase_at (restart lifecycle_default) (secs 59) = Observing \<and>
   phase_at (restart lifecycle_default) (secs 60) = ShieldingConnected \<and>
   phase_at (restart lifecycle_default) (secs 300) = Expired"
  using startup_phases_progress [OF validate_lifecycle_default, of "secs 59" "secs 60"]
    startup_phases_progress [OF validate_lifecycle_default, of "secs 60" "secs 300"]
    startup_phases_progress [OF validate_lifecycle_default, of "secs 300" "secs 300"]
  by (simp add: lifecycle_default_def restart_default_def secs_def)

lemma named_profiles_valid:
  "p \<noteq> DefaultProfile \<Longrightarrow> (\<And>c. p \<noteq> Custom c) \<Longrightarrow> \<exists>c. multi_objective_config p = Some c \<and> validate_trust_weights c = Inr ()"
  by (cases p) (auto simp: validate_trust_weights_def mo_low_latency_def mo_balanced_def mo_dispersed_def
      mo_economical_def weights_balanced_def selector_weights_new_def Let_def)

end
