(* ===== verification/Action_Leases.thy ===== *)
theory Action_Leases
  imports Strategy_Prelude "HOL-Library.Word"
begin

text \<open>
  The time-bounded exclusive slots of \<open>src/src/channel_lifecycle/mod.rs\<close>: the structures
  \<open>LeaseId\<close>, \<open>Lease\<close> and \<open>ActionLeases\<close> with every operation on them. Each operation
  takes the instant its own \<open>Instant::now()\<close> reads. The lease counter is the
  \<open>AtomicU64\<close> of the source, a 64-bit word that wraps.

  The lemmas show exclusion while a lease is live, how the number of live leases moves under
  each operation, and that an attempt whose lease was taken over cannot free its successor's
  slot. The last part is a step relation over a table that several attempts use concurrently.
\<close>

section \<open>State and operations\<close>

type_synonym lease_id = "64 word"

record lease =
  l_holder :: lease_id
  l_until :: instant

record leases =
  slots :: "(nat \<times> lease) list"
  next_holder :: lease_id

definition leases_default :: leases where
  "leases_default = \<lparr>slots = [], next_holder = 0\<rparr>"

definition acquire :: "nat \<Rightarrow> duration \<Rightarrow> instant \<Rightarrow> leases \<Rightarrow> lease_id option \<times> leases" where
  "acquire key timeout now t =
     (let holder = next_holder t;
          t' = t\<lparr>next_holder := holder + 1\<rparr>;
          lease = \<lparr>l_holder = holder, l_until = now + timeout\<rparr>
      in case map_of (slots t) key of
           Some cur \<Rightarrow>
             if now < l_until cur then (None, t')
             else (Some holder, t'\<lparr>slots := AList.update key lease (slots t)\<rparr>)
         | None \<Rightarrow> (Some holder, t'\<lparr>slots := AList.update key lease (slots t)\<rparr>))"

definition release_owned :: "nat \<Rightarrow> lease_id \<Rightarrow> leases \<Rightarrow> leases" where
  "release_owned key holder t =
     (case map_of (slots t) key of
        Some l \<Rightarrow> if l_holder l = holder then t\<lparr>slots := AList.delete key (slots t)\<rparr> else t
      | None \<Rightarrow> t)"

definition release :: "nat \<Rightarrow> leases \<Rightarrow> leases" where
  "release key t = t\<lparr>slots := AList.delete key (slots t)\<rparr>"

definition is_held :: "instant \<Rightarrow> leases \<Rightarrow> nat \<Rightarrow> bool" where
  "is_held now t key = (case map_of (slots t) key of None \<Rightarrow> False | Some l \<Rightarrow> now < l_until l)"

definition held_count :: "instant \<Rightarrow> leases \<Rightarrow> nat" where
  "held_count now t = count_entries (\<lambda>(k, l). now < l_until l) (slots t)"

definition sweep :: "instant \<Rightarrow> leases \<Rightarrow> leases" where
  "sweep now t = t\<lparr>slots := filter (\<lambda>(k, l). now < l_until l) (slots t)\<rparr>"

definition leases_wf :: "leases \<Rightarrow> bool" where
  "leases_wf t \<longleftrightarrow> alist_wf (slots t)"

section \<open>Well-formedness\<close>

lemma leases_wf_default [wf_intros]: "leases_wf leases_default"
  by (simp add: leases_wf_def leases_default_def)

lemma leases_wf_acquire [wf_intros]: "leases_wf t \<Longrightarrow> leases_wf (snd (acquire k d now t))"
  by (simp add: leases_wf_def acquire_def Let_def alist_wf_update split: option.splits)

lemma leases_wf_release_owned [wf_intros]: "leases_wf t \<Longrightarrow> leases_wf (release_owned k h t)"
  by (simp add: leases_wf_def release_owned_def alist_wf_delete split: option.splits)

lemma leases_wf_release [wf_intros]: "leases_wf t \<Longrightarrow> leases_wf (release k t)"
  by (simp add: leases_wf_def release_def alist_wf_delete)

lemma leases_wf_sweep [wf_intros]: "leases_wf t \<Longrightarrow> leases_wf (sweep now t)"
  by (simp add: leases_wf_def sweep_def alist_wf_filter)

section \<open>Exclusion and frames\<close>

lemma acquire_held: "is_held now t k \<Longrightarrow> acquire k d now t = (None, t\<lparr>next_holder := next_holder t + 1\<rparr>)"
  by (auto simp: is_held_def acquire_def Let_def split: option.splits)

lemma acquire_free:
  "\<not> is_held now t k \<Longrightarrow> acquire k d now t =
     (Some (next_holder t),
      t\<lparr>next_holder := next_holder t + 1,
        slots := AList.update k \<lparr>l_holder = next_holder t, l_until = now + d\<rparr> (slots t)\<rparr>)"
  by (auto simp: is_held_def acquire_def Let_def split: option.splits)

lemma acquire_None_iff: "fst (acquire k d now t) = None \<longleftrightarrow> is_held now t k"
  by (cases "is_held now t k") (simp_all add: acquire_held acquire_free)

lemma is_held_acquire:
  "is_held now' (snd (acquire k d now t)) j \<longleftrightarrow>
     (if j = k \<and> \<not> is_held now t k then now' < now + d else is_held now' t j)"
  by (cases "is_held now t k") (auto simp: acquire_held acquire_free is_held_def alist_lookups)

lemma is_held_release [simp]: "is_held now (release k t) j \<longleftrightarrow> j \<noteq> k \<and> is_held now t j"
  by (auto simp: is_held_def release_def alist_lookups)

lemma is_held_release_owned:
  "is_held now (release_owned k h t) j \<longleftrightarrow>
     is_held now t j \<and> \<not> (j = k \<and> map_option l_holder (map_of (slots t) k) = Some h)"
  by (auto simp: is_held_def release_owned_def alist_lookups split: option.splits)

lemma is_held_antimono: "is_held now' t k \<Longrightarrow> now \<le> now' \<Longrightarrow> is_held now t k"
  by (auto simp: is_held_def split: option.splits)

lemma is_held_sweep: "leases_wf t \<Longrightarrow> now \<le> now' \<Longrightarrow> is_held now' (sweep now t) k \<longleftrightarrow> is_held now' t k"
  by (auto simp: is_held_def sweep_def leases_wf_def map_of_filter_wf split: option.splits)

section \<open>Counting live leases\<close>

lemma held_count_default [simp]: "held_count now leases_default = 0"
  by (simp add: held_count_def leases_default_def count_entries_def)

lemma held_count_update:
  assumes "leases_wf t"
  shows "count_entries (\<lambda>(k, l). now < l_until l) (AList.update k l (slots t)) =
    held_count now t - (if is_held now t k then 1 else 0) + (if now < l_until l then 1 else 0)"
  using assms count_entries_split [of "slots t" "\<lambda>(k, l). now < l_until l" k]
  by (auto simp: leases_wf_def count_entries_update held_count_def is_held_def split: option.splits)

lemma held_count_acquire:
  assumes "leases_wf t" and "0 < d"
  shows "held_count now (snd (acquire k d now t)) =
    held_count now t + (if is_held now t k then 0 else 1)"
  using assms
  by (cases "is_held now t k") (simp_all add: acquire_held acquire_free held_count_update held_count_def)

lemma held_count_release_owned:
  assumes "leases_wf t"
  shows "held_count now (release_owned k h t) =
    held_count now t - (if is_held now t k \<and> map_option l_holder (map_of (slots t) k) = Some h then 1 else 0)"
  using assms count_entries_split [of "slots t" "\<lambda>(k, l). now < l_until l" k]
  by (auto simp: leases_wf_def release_owned_def held_count_def is_held_def split: option.splits)

lemma held_count_release_le: "leases_wf t \<Longrightarrow> held_count now (release k t) \<le> held_count now t"
  by (simp add: leases_wf_def release_def held_count_def count_entries_delete_le)

lemma held_count_antimono: "now \<le> now' \<Longrightarrow> held_count now' t \<le> held_count now t"
proof -
  assume le: "now \<le> now'"
  have "length (filter (\<lambda>(k, l). now' < l_until l) xs) \<le> length (filter (\<lambda>(k, l). now < l_until l) xs)"
    for xs :: "(nat \<times> lease) list"
    by (induction xs) (use le in auto)
  then show ?thesis by (simp add: held_count_def count_entries_def)
qed

lemma held_count_sweep [simp]: "held_count now (sweep now t) = held_count now t"
  by (simp add: held_count_def sweep_def count_entries_filter_same)

lemma held_count_sweep_le: "held_count now' (sweep now t) \<le> held_count now' t"
  by (simp add: held_count_def sweep_def count_entries_filter_le)

text \<open>An attempt that is refused by a later check and gives its slot back leaves the count as it was.\<close>

lemma acquire_then_release_owned:
  assumes "leases_wf t" and "0 < d" and "acquire k d now t = (Some h, t')"
  shows "held_count now (release_owned k h t') = held_count now t"
proof -
  have free: "\<not> is_held now t k" using assms(3) acquire_None_iff [of k d now t] by auto
  with assms(3) have h: "h = next_holder t"
    and t': "t' = snd (acquire k d now t)" by (auto simp: acquire_free)
  have "is_held now t' k" using free assms(2) by (simp add: t' is_held_acquire)
  moreover have "map_option l_holder (map_of (slots t') k) = Some h"
    using free by (simp add: t' h acquire_free alist_lookups)
  moreover have "held_count now t' = held_count now t + 1"
    using free assms(1,2) by (simp add: t' held_count_acquire)
  ultimately show ?thesis
    using assms(1) by (simp add: held_count_release_owned t' leases_wf_acquire)
qed

section \<open>Attempts that share one table\<close>

text \<open>
  The table is shared by the tick, by the spawned transactions that report back, and by the
  chain events. A system state is the clock, the table, the attempts that were granted a slot
  and have not reported yet, and the number of attempts ever made: the counter of the source
  would wrap after \<open>2 ^ 64\<close> attempts, and a run is followed up to that point.
\<close>

record lease_sys =
  clock :: instant
  table :: leases
  outstanding :: "(nat \<times> lease_id) list"
  attempts :: nat

datatype lease_act = Attempt nat duration | Report nat | Event nat | Sweep | Wait duration

definition lease_init :: lease_sys where
  "lease_init = \<lparr>clock = 0, table = leases_default, outstanding = [], attempts = 0\<rparr>"

inductive lease_step :: "lease_sys \<Rightarrow> lease_act \<Rightarrow> lease_sys \<Rightarrow> bool" where
  granted: "acquire k d (clock s) (table s) = (Some h, t) \<Longrightarrow> attempts s + 1 < 2 ^ 64 \<Longrightarrow>
    lease_step s (Attempt k d)
      (s\<lparr>table := t, outstanding := outstanding s @ [(k, h)], attempts := attempts s + 1\<rparr>)"
| refused: "acquire k d (clock s) (table s) = (None, t) \<Longrightarrow> attempts s + 1 < 2 ^ 64 \<Longrightarrow>
    lease_step s (Attempt k d) (s\<lparr>table := t, attempts := attempts s + 1\<rparr>)"
| report: "i < length (outstanding s) \<Longrightarrow> outstanding s ! i = (k, h) \<Longrightarrow>
    lease_step s (Report i)
      (s\<lparr>table := release_owned k h (table s),
         outstanding := take i (outstanding s) @ drop (Suc i) (outstanding s)\<rparr>)"
| event: "lease_step s (Event k) (s\<lparr>table := release k (table s)\<rparr>)"
| sweeping: "lease_step s Sweep (s\<lparr>table := sweep (clock s) (table s)\<rparr>)"
| waiting: "lease_step s (Wait d) (s\<lparr>clock := clock s + d\<rparr>)"

inductive lease_reachable :: "lease_sys \<Rightarrow> bool" where
  start: "lease_reachable lease_init"
| step: "lease_reachable s \<Longrightarrow> lease_step s a s' \<Longrightarrow> lease_reachable s'"

inductive_cases lease_stepE: "lease_step s a s'"

definition lease_inv :: "lease_sys \<Rightarrow> bool" where
  "lease_inv s \<longleftrightarrow>
     leases_wf (table s) \<and> attempts s < 2 ^ 64 \<and> next_holder (table s) = of_nat (attempts s) \<and>
     distinct (map snd (outstanding s)) \<and>
     (\<forall>p\<in>set (outstanding s). unat (snd p) < attempts s) \<and>
     (\<forall>k l. map_of (slots (table s)) k = Some l \<longrightarrow> unat (l_holder l) < attempts s \<and>
        (\<forall>j. (j, l_holder l) \<in> set (outstanding s) \<longrightarrow> j = k))"

lemma lease_inv_init: "lease_inv lease_init"
  by (simp add: lease_inv_def lease_init_def leases_wf_default) (simp add: leases_default_def)

lemma lease_inv_granted:
  assumes inv: "lease_inv s" and acq: "acquire k d (clock s) (table s) = (Some h, t)"
    and bound: "attempts s + 1 < 2 ^ 64"
  shows "lease_inv (s\<lparr>table := t, outstanding := outstanding s @ [(k, h)], attempts := attempts s + 1\<rparr>)"
proof -
  let ?l = "\<lparr>l_holder = h, l_until = clock s + d\<rparr>"
  have free: "\<not> is_held (clock s) (table s) k"
    using acq acquire_None_iff [of k d "clock s" "table s"] by auto
  with acq have h: "h = next_holder (table s)"
    and t: "t = (table s)\<lparr>next_holder := next_holder (table s) + 1, slots := AList.update k ?l (slots (table s))\<rparr>"
    by (auto simp: acquire_free)
  have unat_h: "unat h = attempts s"
    using inv by (simp add: lease_inv_def h unat_of_nat)
  have fresh: "h \<notin> snd ` set (outstanding s)"
    using inv unat_h by (force simp: lease_inv_def)
  have slot_fresh: "l_holder l \<noteq> h" if "map_of (slots (table s)) j = Some l" for j l
    using inv that unat_h by (force simp: lease_inv_def)
  show ?thesis
    using inv bound fresh slot_fresh unat_h
    by (auto simp: lease_inv_def t leases_wf_def alist_wf_update alist_lookups h [symmetric] less_Suc_eq
        split: if_splits)
qed

lemma lease_inv_refused:
  assumes inv: "lease_inv s" and acq: "acquire k d (clock s) (table s) = (None, t)"
    and bound: "attempts s + 1 < 2 ^ 64"
  shows "lease_inv (s\<lparr>table := t, attempts := attempts s + 1\<rparr>)"
proof -
  have "is_held (clock s) (table s) k"
    using acq acquire_None_iff [of k d "clock s" "table s"] by auto
  with acq have t: "t = (table s)\<lparr>next_holder := next_holder (table s) + 1\<rparr>"
    by (simp add: acquire_held)
  show ?thesis
    using inv bound by (auto simp: lease_inv_def t leases_wf_def intro: less_SucI)
qed

lemma lease_inv_report:
  assumes inv: "lease_inv s"
  shows "lease_inv (s\<lparr>table := release_owned k h (table s),
    outstanding := take i (outstanding s) @ drop (Suc i) (outstanding s)\<rparr>)"
proof -
  have "distinct (map snd (take i (outstanding s) @ drop (Suc i) (outstanding s)))"
    using inv distinct_remove_nth [of "map snd (outstanding s)" i]
    by (simp add: lease_inv_def take_map drop_map)
  moreover have "map_of (slots (release_owned k h (table s))) j = Some l \<Longrightarrow> map_of (slots (table s)) j = Some l" for j l
    by (auto simp: release_owned_def alist_lookups split: option.splits if_splits)
  moreover have "next_holder (release_owned k h (table s)) = next_holder (table s)"
    by (simp add: release_owned_def split: option.splits)
  ultimately show ?thesis
    using inv set_remove_nth_subset [of i "outstanding s"]
    by (simp add: lease_inv_def leases_wf_release_owned) blast
qed

lemma lease_inv_event: "lease_inv s \<Longrightarrow> lease_inv (s\<lparr>table := release k (table s)\<rparr>)"
  by (auto simp: lease_inv_def leases_wf_def release_def alist_wf_delete alist_lookups)

lemma lease_inv_sweep: "lease_inv s \<Longrightarrow> lease_inv (s\<lparr>table := sweep now (table s)\<rparr>)"
  by (auto simp: lease_inv_def leases_wf_def sweep_def alist_wf_filter map_of_filter_wf split: option.splits if_splits)

lemma lease_inv_wait: "lease_inv s \<Longrightarrow> lease_inv (s\<lparr>clock := now\<rparr>)"
  by (simp add: lease_inv_def)

lemma lease_inv_step: "lease_step s a s' \<Longrightarrow> lease_inv s \<Longrightarrow> lease_inv s'"
  by (induction rule: lease_step.induct)
    (blast intro: lease_inv_granted lease_inv_refused lease_inv_report lease_inv_event
      lease_inv_sweep lease_inv_wait)+

lemma lease_reachable_inv: "lease_reachable s \<Longrightarrow> lease_inv s"
  by (induction rule: lease_reachable.induct) (auto intro: lease_inv_init lease_inv_step)

lemma release_owned_frame:
  assumes "map_of (slots t) k = Some l" and "l_holder l \<noteq> h \<or> k \<noteq> k'"
  shows "map_of (slots (release_owned k' h t)) k = Some l"
  using assms by (auto simp: release_owned_def alist_lookups split: option.splits)

text \<open>
  C6. A late report never frees a slot that another attempt holds. In any reachable system, if
  attempt number \<open>i\<close> of the outstanding ones holds the slot of its key and a different attempt
  \<open>j\<close> reports, for the same key or any other, then attempt \<open>i\<close> still holds its slot with its
  deadline unchanged.
\<close>

theorem stale_report_keeps_successor:
  assumes "lease_reachable s"
    and "i < length (outstanding s)" and "j < length (outstanding s)" and "i \<noteq> j"
    and "outstanding s ! i = (k, h)" and "outstanding s ! j = (k', h')"
    and "map_of (slots (table s)) k = Some l" and "l_holder l = h"
  shows "map_of (slots (release_owned k' h' (table s))) k = Some l"
proof -
  from assms(1) have "distinct (map snd (outstanding s))"
    using lease_reachable_inv lease_inv_def by blast
  with assms have "map snd (outstanding s) ! i \<noteq> map snd (outstanding s) ! j"
    by (simp only: nth_eq_iff_index_eq length_map) simp
  with assms(2,3,5,6) have "h \<noteq> h'" by simp
  with assms(7,8) show ?thesis by (simp add: release_owned_frame)
qed

text \<open>
  C7. A live slot is only ever lost to its own attempt's report, to a chain event for its key,
  or to time: every other step (attempts on the same or another key, reports of other attempts,
  sweeps) leaves the lease in place, unless the step lets the clock pass its deadline.
\<close>

theorem live_lease_persists:
  assumes "lease_reachable s" and "lease_step s a s'"
    and slot: "map_of (slots (table s)) k = Some l" and live: "clock s < l_until l"
    and "a \<noteq> Event k" and own: "\<And>i. a = Report i \<Longrightarrow> outstanding s ! i \<noteq> (k, l_holder l)"
  shows "map_of (slots (table s')) k = Some l \<or> l_until l \<le> clock s'"
proof -
  from assms(1) have wf: "leases_wf (table s)"
    using lease_reachable_inv lease_inv_def by blast
  have held: "is_held (clock s) (table s) k" using slot live by (simp add: is_held_def)
  from assms(2) show ?thesis
  proof cases
    case (granted k0 d h t)
    have "k0 \<noteq> k" using granted held acquire_held [of "clock s" "table s" k0 d] by auto
    moreover have "\<not> is_held (clock s) (table s) k0"
      using granted acquire_None_iff [of k0 d "clock s" "table s"] by auto
    ultimately show ?thesis using granted slot by (auto simp: acquire_free alist_lookups)
  next
    case (refused k0 d t)
    then have "is_held (clock s) (table s) k0"
      using acquire_None_iff [of k0 d "clock s" "table s"] by auto
    with refused slot show ?thesis by (auto simp: acquire_held)
  next
    case (report i k0 h)
    then have "l_holder l \<noteq> h \<or> k \<noteq> k0" using own [of i] by auto
    with report slot show ?thesis by (simp add: release_owned_frame)
  next
    case (event k0)
    with assms(5) slot show ?thesis by (auto simp: release_def alist_lookups)
  next
    case sweeping
    with wf slot live show ?thesis
      by (simp add: sweep_def leases_wf_def map_of_filter_wf)
  next
    case (waiting d)
    with slot show ?thesis by simp
  qed
qed

section \<open>A run with an overrun lease\<close>

definition overrun_1 :: lease_sys where
  "overrun_1 = \<lparr>clock = 0, table = \<lparr>slots = [(7, \<lparr>l_holder = 0, l_until = 5\<rparr>)], next_holder = 1\<rparr>,
     outstanding = [(7, 0)], attempts = 1\<rparr>"

definition overrun_2 :: lease_sys where
  "overrun_2 = \<lparr>clock = 10, table = \<lparr>slots = [(7, \<lparr>l_holder = 1, l_until = 15\<rparr>)], next_holder = 2\<rparr>,
     outstanding = [(7, 0), (7, 1)], attempts = 2\<rparr>"

lemma overrun_1_reachable: "lease_reachable overrun_1"
proof -
  have "acquire 7 5 (clock lease_init) (table lease_init) = (Some 0, table overrun_1)"
    by (simp add: acquire_def lease_init_def leases_default_def overrun_1_def Let_def)
  from lease_step.granted [OF this] have "lease_step lease_init (Attempt 7 5) overrun_1"
    by (simp add: lease_init_def overrun_1_def)
  with lease_reachable.start show ?thesis by (rule lease_reachable.step)
qed

lemma overrun_2_reachable: "lease_reachable overrun_2"
proof -
  let ?s = "overrun_1\<lparr>clock := 10\<rparr>"
  have "lease_step overrun_1 (Wait 10) ?s"
    using lease_step.waiting [of overrun_1 10] by (simp add: overrun_1_def)
  with overrun_1_reachable have s: "lease_reachable ?s" by (rule lease_reachable.step)
  have "acquire 7 5 (clock ?s) (table ?s) = (Some 1, table overrun_2)"
    by (simp add: acquire_def overrun_1_def overrun_2_def Let_def)
  from lease_step.granted [OF this] have "lease_step ?s (Attempt 7 5) overrun_2"
    by (simp add: overrun_1_def overrun_2_def del: One_nat_def)
  with s show ?thesis by (rule lease_reachable.step)
qed

theorem stale_report_keeps_successor_witness:
  "map_of (slots (release_owned 7 0 (table overrun_2))) 7 = Some \<lparr>l_holder = 1, l_until = 15\<rparr>"
  by (rule stale_report_keeps_successor [OF overrun_2_reachable, of 1 0 7 1 7 0 "\<lparr>l_holder = 1, l_until = 15\<rparr>"])
    (simp_all add: overrun_2_def)

theorem live_lease_persists_witness:
  "map_of (slots (sweep 0 (table overrun_1))) 7 = Some \<lparr>l_holder = 0, l_until = 5\<rparr>"
  using live_lease_persists [OF overrun_1_reachable lease_step.sweeping, of 7 "\<lparr>l_holder = 0, l_until = 5\<rparr>"]
  by (simp add: overrun_1_def)

end
