(* ===== verification/Selector.thy ===== *)
theory Selector
  imports Chain_Types Lifecycle_Config "HOL-Library.Word" "HOL-Library.Product_Lexorder" "HOL-Library.Multiset"
begin

text \<open>
  The peer-selection interface of \<open>src/src/channel_lifecycle/selector/\<close>: subnet buckets
  (\<open>subnet.rs\<close>), latency buckets and the cell grid (\<open>bucket.rs\<close>), the stake and forwarding
  views (\<open>stake.rs\<close>, \<open>forwarding.rs\<close>), the candidates and the context, the shared sink demotion
  (\<open>mod.rs\<close>), and the default selector (\<open>default.rs\<close>).

  A \<open>HashSet\<close> of multiaddresses is iterated in an unspecified order, so the model takes the list
  in the order the iteration produces and the lemmas say what does not depend on it. Scores are
  rationals; \<open>sort_by\<close> with \<open>partial_cmp\<close> is the library's stable \<^const>\<open>sort_key\<close>.
\<close>

section \<open>Subnet buckets\<close>

type_synonym u8 = "8 word"

datatype protocol =
    Ip4 u8 u8 u8 u8
  | Ip6 u8 u8 u8 u8 u8 u8
  | Dns string
  | Dns4 string
  | Dns6 string
  | OtherProtocol

type_synonym multiaddr = "protocol list"

datatype subnet_bucket =
    V4Prefix "u8 \<times> u8 \<times> u8"
  | V6Prefix "u8 \<times> u8 \<times> u8 \<times> u8 \<times> u8 \<times> u8"
  | DnsBucket string
  | Unknown

definition to_lower_char :: "char \<Rightarrow> char" where
  \<comment> \<open>\<open>to_lowercase\<close> on the ASCII letters host names are made of\<close>
  "to_lower_char c = (let n = of_char c :: nat in if 65 \<le> n \<and> n \<le> 90 then char_of (n + 32) else c)"

definition to_lowercase :: "string \<Rightarrow> string" where
  "to_lowercase = map to_lower_char"

record subnet_scan =
  v4s :: "(u8 \<times> u8 \<times> u8) list"
  v6s :: "(u8 \<times> u8 \<times> u8 \<times> u8 \<times> u8 \<times> u8) list"
  dns_name :: "string option"

definition note_dns :: "string \<Rightarrow> subnet_scan \<Rightarrow> subnet_scan" where
  "note_dns h s = (if dns_name s = None then s\<lparr>dns_name := Some (to_lowercase h)\<rparr> else s)"

fun scan_protocol :: "protocol \<Rightarrow> subnet_scan \<Rightarrow> subnet_scan" where
  "scan_protocol (Ip4 a b c d) s = s\<lparr>v4s := v4s s @ [(a, b, c)]\<rparr>"
| "scan_protocol (Ip6 a b c d e f) s = s\<lparr>v6s := v6s s @ [(a, b, c, d, e, f)]\<rparr>"
| "scan_protocol (Dns h) s = note_dns h s"
| "scan_protocol (Dns4 h) s = note_dns h s"
| "scan_protocol (Dns6 h) s = note_dns h s"
| "scan_protocol OtherProtocol s = s"

definition from_multiaddrs :: "multiaddr list \<Rightarrow> subnet_bucket" where
  "from_multiaddrs addrs =
     (let s = fold (\<lambda>ma s. fold scan_protocol ma s) addrs \<lparr>v4s = [], v6s = [], dns_name = None\<rparr>
      in if v4s s \<noteq> [] then V4Prefix (hd (sort (v4s s)))
         else if v6s s \<noteq> [] then V6Prefix (hd (sort (v6s s)))
         else case dns_name s of Some d \<Rightarrow> DnsBucket d | None \<Rightarrow> Unknown)"

section \<open>Latency buckets and the cell grid\<close>

datatype latency_bucket = VeryFast | Fast | Medium | Slow | VerySlow

definition as_millis :: "duration \<Rightarrow> nat" where
  "as_millis d = d div 1000000"

definition from_latency :: "duration option \<Rightarrow> latency_bucket" where
  "from_latency d =
     (case d of
        None \<Rightarrow> VerySlow
      | Some d \<Rightarrow>
          let ms = as_millis d
          in if ms \<le> 50 then VeryFast
             else if ms \<le> 75 then Fast
             else if ms \<le> 125 then Medium
             else if ms \<le> 200 then Slow
             else VerySlow)"

record bucket_cell =
  cell_latency :: latency_bucket
  cell_subnet :: subnet_bucket

type_synonym bucket_view = "(channel_id \<times> bucket_cell) list"

definition cell_for :: "bucket_view \<Rightarrow> channel_id \<Rightarrow> bucket_cell option" where
  "cell_for v cid = map_of v cid"

definition cell_count :: "bucket_view \<Rightarrow> bucket_cell \<Rightarrow> nat" where
  "cell_count v cell = length (filter (\<lambda>c. c = cell) (map snd v))"

definition distinct_cell_count :: "bucket_view \<Rightarrow> nat" where
  "distinct_cell_count v = length (remdups (map snd v))"

definition bucket_coverage :: "bucket_view \<Rightarrow> bucket_cell \<Rightarrow> rat" where
  "bucket_coverage v cell =
     (if length v = 0 then 0 else of_nat (cell_count v cell) / of_nat (length v))"

section \<open>Stake and forwarding views\<close>

type_synonym stake_view = "(address \<times> rat) list"

definition stake_score :: "stake_view \<Rightarrow> address \<Rightarrow> rat" where
  "stake_score v addr = (case map_of v addr of None \<Rightarrow> 0 | Some s \<Rightarrow> s)"

type_synonym forwarding_view = "(address \<times> nat) list"

definition outgoing_channels :: "forwarding_view \<Rightarrow> address \<Rightarrow> nat" where
  "outgoing_channels v addr = (case map_of v addr of None \<Rightarrow> 0 | Some n \<Rightarrow> n)"

section \<open>Signals, candidates and context\<close>

type_synonym signal_set = "8 word"

definition signal_stake :: signal_set where
  "signal_stake = 1"

definition signal_empty :: signal_set where
  "signal_empty = 0"

definition signals_contain :: "signal_set \<Rightarrow> signal_set \<Rightarrow> bool" where
  "signals_contain s other \<longleftrightarrow> and s other = other"

record peer_edge_info =
  edge_score :: "rat option"
  last_update :: duration
  average_latency :: "duration option"
  probe_success_rate :: "rat option"
  ack_rate :: "rat option"

definition peer_edge_default :: peer_edge_info where
  "peer_edge_default =
     \<lparr>edge_score = None, last_update = 0, average_latency = None, probe_success_rate = None, ack_rate = None\<rparr>"

definition unmeasured :: rat where
  "unmeasured = 1 / 2"

definition unwrap_or :: "'a option \<Rightarrow> 'a \<Rightarrow> 'a" where
  "unwrap_or x d = (case x of None \<Rightarrow> d | Some v \<Rightarrow> v)"

definition probe_score :: "peer_edge_info \<Rightarrow> rat" where
  "probe_score e = unwrap_or (probe_success_rate e) unmeasured"

definition ack_score :: "peer_edge_info \<Rightarrow> rat" where
  "ack_score e = unwrap_or (ack_rate e) unmeasured"

definition quality_score :: "peer_edge_info \<Rightarrow> rat" where
  "quality_score e = unwrap_or (edge_score e) unmeasured"

definition has_probing_data :: "peer_edge_info \<Rightarrow> bool" where
  "has_probing_data e \<longleftrightarrow> 0 < last_update e"

record open_candidate =
  oc_addr :: address
  oc_key :: offchain_key
  oc_edge :: peer_edge_info
  oc_ticket_score :: "rat option"
  oc_subnet :: subnet_bucket

record close_candidate =
  cc_channel :: channel
  cc_key :: "offchain_key option"
  cc_edge :: peer_edge_info
  cc_ticket_score :: "rat option"

record selector_context =
  ctx_cfg :: lifecycle_config
  ctx_deficit :: nat
  ctx_open :: "open_candidate list"
  ctx_close :: "close_candidate list"
  ctx_elapsed :: duration
  ctx_buckets :: bucket_view
  ctx_stake :: stake_view
  ctx_forwarding :: forwarding_view

definition partition_by_forwarding ::
    "open_candidate list \<Rightarrow> forwarding_view \<Rightarrow> eligibility_config \<Rightarrow> open_candidate list \<times> open_candidate list" where
  "partition_by_forwarding candidates fv elig =
     (if \<not> demote_non_forwarding_peers elig then (candidates, [])
      else
        let threshold = max (minimum_peer_outgoing_channels elig) 1
        in partition (\<lambda>c. threshold \<le> outgoing_channels fv (oc_addr c)) candidates)"

text \<open>The trait object: what the pipeline calls.\<close>

record selector =
  required_signals :: signal_set
  select_closes :: "selector_context \<Rightarrow> channel_id list"
  max_closes_per_tick :: "nat option"
  select_opens :: "selector_context \<Rightarrow> (address \<times> offchain_key) list"

section \<open>The default selector\<close>

definition peer_score :: "open_candidate \<Rightarrow> lifecycle_config \<Rightarrow> rat" where
  "peer_score c cfg =
     composite_quality_score (eligibility cfg) (quality_score (oc_edge c)) (oc_ticket_score c)"

definition should_close ::
    "close_candidate \<Rightarrow> lifecycle_config \<Rightarrow> duration \<Rightarrow> rat option \<Rightarrow> bool" where
  "should_close c cfg start_epoch_elapsed quality_threshold =
     (if ch_balance (cc_channel c) \<le> close_when_drained_below (closure cfg) then True
      else if cc_key c = None then False
      else if \<not> has_probing_data (cc_edge c) then False
      else
        let score = composite_quality_score (eligibility cfg) (quality_score (cc_edge c)) (cc_ticket_score c);
            effective = unwrap_or quality_threshold (close_below_quality_score (closure cfg))
        in if score < effective then True
           else
             let stale = close_when_peer_unseen_for (closure cfg) < last_update (cc_edge c);
                 observed_since_start = last_update (cc_edge c) < start_epoch_elapsed;
                 guard_passed = (\<not> require_observed_since_start (eligibility cfg) \<or> observed_since_start)
             in stale \<and> guard_passed)"

definition default_select_closes :: "selector_context \<Rightarrow> channel_id list" where
  "default_select_closes ctx =
     map (ch_id \<circ> cc_channel)
       (filter (\<lambda>c. should_close c (ctx_cfg ctx) (ctx_elapsed ctx) None) (ctx_close ctx))"

definition rank_tier :: "lifecycle_config \<Rightarrow> open_candidate list \<Rightarrow> (address \<times> offchain_key) list" where
  "rank_tier cfg tier = map (\<lambda>c. (oc_addr c, oc_key c)) (sort_key (\<lambda>c. - peer_score c cfg) tier)"

definition default_select_opens :: "selector_context \<Rightarrow> (address \<times> offchain_key) list" where
  "default_select_opens ctx =
     (case partition_by_forwarding (ctx_open ctx) (ctx_forwarding ctx) (eligibility (ctx_cfg ctx)) of
        (capable, sinks) \<Rightarrow> rank_tier (ctx_cfg ctx) capable @ rank_tier (ctx_cfg ctx) sinks)"

definition default_selector :: selector where
  "default_selector =
     \<lparr>required_signals = signal_empty, select_closes = default_select_closes,
      max_closes_per_tick = None, select_opens = default_select_opens\<rparr>"

section \<open>Which bucket a peer lands in\<close>

definition protocol_v4s :: "protocol \<Rightarrow> (u8 \<times> u8 \<times> u8) list" where
  "protocol_v4s p = (case p of Ip4 a b c d \<Rightarrow> [(a, b, c)] | _ \<Rightarrow> [])"

definition protocol_v6s :: "protocol \<Rightarrow> (u8 \<times> u8 \<times> u8 \<times> u8 \<times> u8 \<times> u8) list" where
  "protocol_v6s p = (case p of Ip6 a b c d e f \<Rightarrow> [(a, b, c, d, e, f)] | _ \<Rightarrow> [])"

lemma scan_v4s: "v4s (fold scan_protocol ps s) = v4s s @ concat (map protocol_v4s ps)"
proof (induction ps arbitrary: s)
  case (Cons p ps)
  then show ?case by (cases p) (simp_all add: protocol_v4s_def note_dns_def)
qed simp

lemma scan_v6s: "v6s (fold scan_protocol ps s) = v6s s @ concat (map protocol_v6s ps)"
proof (induction ps arbitrary: s)
  case (Cons p ps)
  then show ?case by (cases p) (simp_all add: protocol_v6s_def note_dns_def)
qed simp

lemma scan_addrs_v4s:
  "v4s (fold (\<lambda>ma s. fold scan_protocol ma s) addrs s) = v4s s @ concat (map protocol_v4s (concat addrs))"
  by (induction addrs arbitrary: s) (simp_all add: scan_v4s)

lemma scan_addrs_v6s:
  "v6s (fold (\<lambda>ma s. fold scan_protocol ma s) addrs s) = v6s s @ concat (map protocol_v6s (concat addrs))"
  by (induction addrs arbitrary: s) (simp_all add: scan_v6s)

lemma sort_Nil_iff: "sort xs = [] \<longleftrightarrow> xs = []"
  by (metis length_0_conv length_sort)

lemma hd_sort_Min: "xs \<noteq> [] \<Longrightarrow> hd (sort xs) = Min (set xs)"
proof (cases "sort xs")
  case Nil
  assume "xs \<noteq> []"
  with Nil show ?thesis by (simp add: sort_Nil_iff)
next
  case (Cons y ys)
  then have "sorted (y # ys)" and "set xs = set (y # ys)"
    by (metis sorted_sort, metis set_sort)
  then have "Min (set xs) = y" by (intro Min_eqI) auto
  with Cons show ?thesis by simp
qed

definition addr_v4s :: "multiaddr list \<Rightarrow> (u8 \<times> u8 \<times> u8) list" where
  "addr_v4s addrs = concat (map protocol_v4s (concat addrs))"

definition addr_v6s :: "multiaddr list \<Rightarrow> (u8 \<times> u8 \<times> u8 \<times> u8 \<times> u8 \<times> u8) list" where
  "addr_v6s addrs = concat (map protocol_v6s (concat addrs))"

lemma from_multiaddrs_v4: "addr_v4s addrs \<noteq> [] \<Longrightarrow> from_multiaddrs addrs = V4Prefix (Min (set (addr_v4s addrs)))"
  by (simp add: from_multiaddrs_def Let_def scan_addrs_v4s addr_v4s_def [symmetric] hd_sort_Min)

lemma from_multiaddrs_v6:
  "addr_v4s addrs = [] \<Longrightarrow> addr_v6s addrs \<noteq> [] \<Longrightarrow>
     from_multiaddrs addrs = V6Prefix (Min (set (addr_v6s addrs)))"
  by (simp add: from_multiaddrs_def Let_def scan_addrs_v4s scan_addrs_v6s addr_v4s_def [symmetric]
      addr_v6s_def [symmetric] hd_sort_Min)

lemma addr_v4s_cong: "set xs = set ys \<Longrightarrow> set (addr_v4s xs) = set (addr_v4s ys)"
  by (simp add: addr_v4s_def)

lemma addr_v6s_cong: "set xs = set ys \<Longrightarrow> set (addr_v6s xs) = set (addr_v6s ys)"
  by (simp add: addr_v6s_def)

text \<open>
  The locality bucket of a peer with an IP address does not depend on the unspecified order
  in which its address set is iterated: two enumerations of the same set give the same bucket.
  An IPv4 address wins over any IPv6 one, and among several the smallest prefix is taken.
\<close>

theorem subnet_bucket_order_independent:
  assumes "set xs = set ys" and "addr_v4s xs \<noteq> [] \<or> addr_v6s xs \<noteq> []"
  shows "from_multiaddrs xs = from_multiaddrs ys \<and>
    (\<forall>p\<in>set (addr_v4s xs). \<exists>q\<le>p. from_multiaddrs xs = V4Prefix q)"
proof -
  have v4: "set (addr_v4s xs) = set (addr_v4s ys)" using assms(1) by (rule addr_v4s_cong)
  have v6: "set (addr_v6s xs) = set (addr_v6s ys)" using assms(1) by (rule addr_v6s_cong)
  show ?thesis
  proof (cases "addr_v4s xs = []")
    case True
    with v4 have "addr_v4s ys = []" by simp
    moreover have "addr_v6s xs \<noteq> []" "addr_v6s ys \<noteq> []" using True assms(2) v6 by auto
    ultimately show ?thesis using True v6 by (simp add: from_multiaddrs_v6)
  next
    case False
    with v4 have "addr_v4s ys \<noteq> []" by auto
    moreover have "\<forall>p\<in>set (addr_v4s xs). Min (set (addr_v4s xs)) \<le> p"
      by (blast intro: Min_le List.finite_set)
    ultimately show ?thesis using False v4 by (metis from_multiaddrs_v4)
  qed
qed

theorem subnet_bucket_order_independent_witness:
  "from_multiaddrs [[Dns ''b''], [Ip4 10 0 1 7], [Ip4 10 0 0 7]] = V4Prefix (10, 0, 0) \<and>
   from_multiaddrs [[Ip4 10 0 0 7], [Ip4 10 0 1 7], [Dns ''b'']] = V4Prefix (10, 0, 0)"
proof -
  have "from_multiaddrs [[Ip4 10 0 0 7], [Ip4 10 0 1 7], [Dns ''b'']] = V4Prefix (10, 0, 0)"
    by (simp add: from_multiaddrs_def note_dns_def)
  moreover have "from_multiaddrs [[Dns ''b''], [Ip4 10 0 1 7], [Ip4 10 0 0 7]]
      = from_multiaddrs [[Ip4 10 0 0 7], [Ip4 10 0 1 7], [Dns ''b'']]"
    by (intro subnet_bucket_order_independent [THEN conjunct1])
      (auto simp: addr_v4s_def protocol_v4s_def)
  ultimately show ?thesis by simp
qed


section \<open>The contract of a selector\<close>

text \<open>
  What the pipeline relies on when it calls a selector: it closes and opens only what it was
  offered, closes on data (a drained balance, or a resolvable peer with observations), respects
  its own per-tick cap, names no peer twice, and puts every forwarding-capable peer before the
  ticket sinks. Both selectors of the source are interpretations.
\<close>

definition is_drained :: "lifecycle_config \<Rightarrow> channel \<Rightarrow> bool" where
  "is_drained cfg ch \<longleftrightarrow> ch_balance ch \<le> close_when_drained_below (closure cfg)"

definition is_capable :: "selector_context \<Rightarrow> address \<Rightarrow> bool" where
  "is_capable ctx a \<longleftrightarrow> \<not> demote_non_forwarding_peers (eligibility (ctx_cfg ctx)) \<or>
     max (minimum_peer_outgoing_channels (eligibility (ctx_cfg ctx))) 1 \<le> outgoing_channels (ctx_forwarding ctx) a"

definition offer :: "open_candidate \<Rightarrow> address \<times> offchain_key" where
  "offer c = (oc_addr c, oc_key c)"

locale selector_contract =
  fixes sel :: selector
  assumes closes_offered: "cid \<in> set (select_closes sel ctx) \<Longrightarrow>
      \<exists>c\<in>set (ctx_close ctx). ch_id (cc_channel c) = cid \<and>
        (is_drained (ctx_cfg ctx) (cc_channel c) \<or> cc_key c \<noteq> None \<and> has_probing_data (cc_edge c))"
    and closes_cap: "max_closes_per_tick sel = Some n \<Longrightarrow> length (select_closes sel ctx) \<le> n"
    and opens_offered: "set (select_opens sel ctx) \<subseteq> offer ` set (ctx_open ctx)"
    and opens_distinct: "distinct (map oc_addr (ctx_open ctx)) \<Longrightarrow> distinct (map fst (select_opens sel ctx))"
    and opens_capable_first: "sorted_wrt (\<lambda>x y. is_capable ctx (fst y) \<longrightarrow> is_capable ctx (fst x)) (select_opens sel ctx)"
begin

lemma open_addr_offered: "(a, k) \<in> set (select_opens sel ctx) \<Longrightarrow> \<exists>c\<in>set (ctx_open ctx). oc_addr c = a \<and> oc_key c = k"
  using opens_offered [of ctx] by (force simp: offer_def)

lemma closes_need_data:
  assumes "cid \<in> set (select_closes sel ctx)"
    and "\<And>c. c \<in> set (ctx_close ctx) \<Longrightarrow> ch_id (cc_channel c) = cid \<Longrightarrow> \<not> is_drained (ctx_cfg ctx) (cc_channel c)"
  shows "\<exists>c\<in>set (ctx_close ctx). ch_id (cc_channel c) = cid \<and> cc_key c \<noteq> None \<and> has_probing_data (cc_edge c)"
  using closes_offered [OF assms(1)] assms(2) by blast

lemma opens_capable_prefix:
  assumes "i < j" and "j < length (select_opens sel ctx)" and "is_capable ctx (fst (select_opens sel ctx ! j))"
  shows "is_capable ctx (fst (select_opens sel ctx ! i))"
  using opens_capable_first [of ctx] assms by (auto simp: sorted_wrt_iff_nth_less)

end

section \<open>The default selector meets it\<close>

lemma should_close_justified:
  "should_close c cfg e q \<Longrightarrow> is_drained cfg (cc_channel c) \<or> cc_key c \<noteq> None \<and> has_probing_data (cc_edge c)"
  by (auto simp: should_close_def is_drained_def split: if_splits)

lemma should_close_drained: "is_drained cfg (cc_channel c) \<Longrightarrow> should_close c cfg e q"
  by (simp add: should_close_def is_drained_def)

lemma partition_by_forwarding_sets:
  "partition_by_forwarding cs fv elig = (xs, ys) \<Longrightarrow> set xs \<union> set ys = set cs \<and> mset xs + mset ys = mset cs"
  by (auto simp: partition_by_forwarding_def Let_def partition_filter_conv split: if_splits)

lemma partition_capable:
  assumes "partition_by_forwarding (ctx_open ctx) (ctx_forwarding ctx) (eligibility (ctx_cfg ctx)) = (xs, ys)"
  shows "(\<forall>c\<in>set xs. is_capable ctx (oc_addr c)) \<and> (\<forall>c\<in>set ys. \<not> is_capable ctx (oc_addr c))"
  using assms by (auto simp: partition_by_forwarding_def is_capable_def Let_def split: if_splits)

lemma set_rank_tier [simp]: "set (rank_tier cfg xs) = offer ` set xs"
  by (simp add: rank_tier_def offer_def)

lemma mset_rank_tier: "mset (rank_tier cfg xs) = image_mset offer (mset xs)"
  by (simp add: rank_tier_def offer_def [abs_def])

lemma distinct_map_fst_iff_mset: "mset xs = mset ys \<Longrightarrow> distinct xs \<longleftrightarrow> distinct ys"
  by (rule mset_eq_imp_distinct_iff)

lemma capable_then_sinks:
  assumes "\<forall>x\<in>set xs. P (fst x)" and "\<forall>y\<in>set ys. \<not> P (fst y)"
  shows "sorted_wrt (\<lambda>x y. P (fst y) \<longrightarrow> P (fst x)) (xs @ ys)"
proof -
  have "sorted_wrt (\<lambda>x y. P (fst y) \<longrightarrow> P (fst x)) xs"
    using assms(1) by (induction xs) auto
  moreover have "sorted_wrt (\<lambda>x y. P (fst y) \<longrightarrow> P (fst x)) ys"
    using assms(2) by (induction ys) auto
  ultimately show ?thesis using assms by (auto simp: sorted_wrt_append)
qed

lemma default_select_opens_mset: "mset (default_select_opens ctx) = image_mset offer (mset (ctx_open ctx))"
proof -
  obtain xs ys where p: "partition_by_forwarding (ctx_open ctx) (ctx_forwarding ctx) (eligibility (ctx_cfg ctx)) = (xs, ys)"
    by fastforce
  then have "mset xs + mset ys = mset (ctx_open ctx)" using partition_by_forwarding_sets by blast
  with p show ?thesis by (simp add: default_select_opens_def mset_rank_tier flip: image_mset_union)
qed

interpretation default_sel: selector_contract default_selector
proof unfold_locales
  fix cid and ctx :: selector_context
  assume "cid \<in> set (select_closes default_selector ctx)"
  then show "\<exists>c\<in>set (ctx_close ctx). ch_id (cc_channel c) = cid \<and>
      (is_drained (ctx_cfg ctx) (cc_channel c) \<or> cc_key c \<noteq> None \<and> has_probing_data (cc_edge c))"
    using should_close_justified by (fastforce simp: default_selector_def default_select_closes_def)
next
  fix n and ctx :: selector_context
  assume "max_closes_per_tick default_selector = Some n"
  then show "length (select_closes default_selector ctx) \<le> n" by (simp add: default_selector_def)
next
  fix ctx :: selector_context
  have "set (default_select_opens ctx) = offer ` set (ctx_open ctx)"
    using arg_cong [OF default_select_opens_mset [of ctx], of set_mset] by simp
  then show "set (select_opens default_selector ctx) \<subseteq> offer ` set (ctx_open ctx)"
    by (simp add: default_selector_def)
next
  fix ctx :: selector_context
  assume d: "distinct (map oc_addr (ctx_open ctx))"
  have "image_mset fst (mset (default_select_opens ctx)) = mset (map oc_addr (ctx_open ctx))"
    by (simp add: default_select_opens_mset offer_def image_mset.compositionality comp_def)
  with d have "distinct (map fst (default_select_opens ctx))"
    by (metis mset_map distinct_map_fst_iff_mset)
  then show "distinct (map fst (select_opens default_selector ctx))" by (simp add: default_selector_def)
next
  fix ctx :: selector_context
  obtain xs ys where p: "partition_by_forwarding (ctx_open ctx) (ctx_forwarding ctx) (eligibility (ctx_cfg ctx)) = (xs, ys)"
    by fastforce
  with partition_capable [OF p] show "sorted_wrt (\<lambda>x y. is_capable ctx (fst y) \<longrightarrow> is_capable ctx (fst x)) (select_opens default_selector ctx)"
    by (auto simp: default_selector_def default_select_opens_def offer_def intro!: capable_then_sinks)
qed

end
