(* ===== verification/Multi_Objective.thy ===== *)
theory Multi_Objective
  imports Selector
begin

text \<open>
  The multi-objective selector of \<open>src/src/channel_lifecycle/selector/multi_objective.rs\<close>: the
  score of a candidate along the four axes, the two-stage open selection (\<open>fill_opens\<close>), and the
  close selection with its two anonymity-floor checks. Every loop of the source is a
  \<^const>\<open>for_loop\<close> over a named body; \<open>HashSet\<close>s are lists and \<open>HashMap\<close>s association lists.
\<close>

section \<open>Scores\<close>

definition latency_score :: "duration option \<Rightarrow> rat" where
  "latency_score lat =
     (if lat = None then unmeasured
      else case from_latency lat of
             VeryFast \<Rightarrow> 1
           | Fast \<Rightarrow> 75 / 100
           | Medium \<Rightarrow> 50 / 100
           | Slow \<Rightarrow> 25 / 100
           | VerySlow \<Rightarrow> 0)"

definition trust_score_open :: "open_candidate \<Rightarrow> mo_config \<Rightarrow> rat" where
  "trust_score_open c cfg =
     (let w = weights cfg
      in trust_probe w * probe_score (oc_edge c) + trust_ack w * ack_score (oc_edge c)
         + trust_ticket w * unwrap_or (oc_ticket_score c) 0)"

definition trust_score_close :: "close_candidate \<Rightarrow> mo_config \<Rightarrow> rat" where
  "trust_score_close c cfg =
     (let w = weights cfg
      in trust_probe w * probe_score (cc_edge c) + trust_ack w * ack_score (cc_edge c)
         + trust_ticket w * unwrap_or (cc_ticket_score c) 0)"

definition open_cell :: "open_candidate \<Rightarrow> bucket_cell" where
  "open_cell c = \<lparr>cell_latency = from_latency (average_latency (oc_edge c)), cell_subnet = oc_subnet c\<rparr>"

definition final_score_open :: "open_candidate \<Rightarrow> selector_context \<Rightarrow> mo_config \<Rightarrow> rat" where
  "final_score_open c ctx cfg =
     (let w = weights cfg;
          lat = latency_score (average_latency (oc_edge c));
          trust = trust_score_open c cfg;
          stake = stake_score (ctx_stake ctx) (oc_addr c);
          utility = w_latency w * lat + w_trust w * trust + w_stake w * stake;
          penalty = w_anonymity w * bucket_coverage (ctx_buckets ctx) (open_cell c)
      in utility - penalty)"

definition final_score_close :: "close_candidate \<Rightarrow> selector_context \<Rightarrow> mo_config \<Rightarrow> rat" where
  "final_score_close c ctx cfg =
     (let w = weights cfg;
          lat = latency_score (average_latency (cc_edge c));
          trust = trust_score_close c cfg;
          stake = stake_score (ctx_stake ctx) (ch_destination (cc_channel c));
          utility = w_latency w * lat + w_trust w * trust + w_stake w * stake;
          penalty = (case cell_for (ctx_buckets ctx) (ch_id (cc_channel c)) of
                       Some cell \<Rightarrow> w_anonymity w * bucket_coverage (ctx_buckets ctx) cell
                     | None \<Rightarrow> 0)
      in utility - penalty)"

section \<open>Open selection\<close>

record open_fill =
  of_result :: "(address \<times> offchain_key) list"
  of_picked :: "address list"
  of_counts :: "(bucket_cell \<times> nat) list"

definition fill_count :: "open_fill \<Rightarrow> bucket_cell \<Rightarrow> nat" where
  "fill_count f cell = unwrap_or (map_of (of_counts f) cell) 0"

definition pick :: "open_candidate \<Rightarrow> open_fill \<Rightarrow> open_fill" where
  "pick c f = f\<lparr>of_picked := oc_addr c # of_picked f, of_result := of_result f @ [(oc_addr c, oc_key c)]\<rparr>"

definition count_cell :: "bucket_cell \<Rightarrow> open_fill \<Rightarrow> open_fill" where
  "count_cell cell f = f\<lparr>of_counts := upsert cell Suc 1 (of_counts f)\<rparr>"

definition fill_k_step ::
    "nat \<Rightarrow> selector_context \<Rightarrow> nat \<Rightarrow> (open_candidate \<times> rat) list \<Rightarrow> open_candidate \<times> rat \<Rightarrow>
     bucket_cell list \<times> open_fill \<Rightarrow> (bucket_cell list \<times> open_fill) \<times> loop_ctl" where
  "fill_k_step k ctx limit scored cs st =
     (case st of (attempted, f) \<Rightarrow>
        let c = fst cs; cell = open_cell c
        in if limit \<le> length (of_result f) then ((attempted, f), Break)
           else if oc_subnet c = Unknown then ((attempted, f), Continue)
           else if cell \<in> set attempted then ((attempted, f), Continue)
           else
             let attempted' = cell # attempted;
                 existing = cell_count (ctx_buckets ctx) cell;
                 already_filling = fill_count f cell
             in if existing + already_filling < k then
                  (case find (\<lambda>(c2, _). oc_addr c2 \<notin> set (of_picked f) \<and> open_cell c2 = cell) scored of
                     Some (cand, _) \<Rightarrow> ((attempted', count_cell cell (pick cand f)), Continue)
                   | None \<Rightarrow> ((attempted', f), Continue))
                else ((attempted', f), Continue))"

definition utility_step :: "nat \<Rightarrow> open_candidate \<times> rat \<Rightarrow> open_fill \<Rightarrow> open_fill \<times> loop_ctl" where
  "utility_step limit cs f =
     (let c = fst cs
      in if limit \<le> length (of_result f) then (f, Break)
         else if oc_addr c \<in> set (of_picked f) then (f, Continue)
         else if oc_subnet c \<noteq> Unknown then (count_cell (open_cell c) (pick c f), Continue)
         else (pick c f, Continue))"

definition scored_tier :: "open_candidate list \<Rightarrow> selector_context \<Rightarrow> mo_config \<Rightarrow> (open_candidate \<times> rat) list" where
  "scored_tier tier ctx cfg = sort_key (\<lambda>cs. - snd cs) (map (\<lambda>c. (c, final_score_open c ctx cfg)) tier)"

definition fill_opens ::
    "mo_config \<Rightarrow> open_candidate list \<Rightarrow> selector_context \<Rightarrow> nat \<Rightarrow> open_fill \<Rightarrow> open_fill" where
  "fill_opens cfg tier ctx limit f =
     (if tier = [] \<or> limit \<le> length (of_result f) then f
      else
        let k = k_floor cfg;
            scored = scored_tier tier ctx cfg;
            f1 = (if 0 < k then snd (for_loop (fill_k_step k ctx limit scored) scored ([], f)) else f)
        in for_loop (utility_step limit) scored f1)"

definition mo_select_opens :: "mo_config \<Rightarrow> selector_context \<Rightarrow> (address \<times> offchain_key) list" where
  "mo_select_opens cfg ctx =
     (let limit = min (open_per_tick cfg) (ctx_deficit ctx)
      in case partition_by_forwarding (ctx_open ctx) (ctx_forwarding ctx) (eligibility (ctx_cfg ctx)) of
           (capable, sinks) \<Rightarrow>
             let f = fill_opens cfg capable ctx limit \<lparr>of_result = [], of_picked = [], of_counts = []\<rparr>
             in of_result (if length (of_result f) < limit then fill_opens cfg sinks ctx limit f else f))"

section \<open>Close selection\<close>

definition k_floor_veto :: "selector_context \<Rightarrow> close_candidate \<Rightarrow> bool" where
  \<comment> \<open>the second filter: keep the candidate?\<close>
  "k_floor_veto ctx c =
     (if ch_balance (cc_channel c) \<le> close_when_drained_below (closure (ctx_cfg ctx)) then True
      else case cell_for (ctx_buckets ctx) (ch_id (cc_channel c)) of
             Some cell \<Rightarrow>
               if cell_subnet cell = Unknown then True
               else \<not> cell_count (ctx_buckets ctx) cell \<le> 1
           | None \<Rightarrow> True)"

definition mo_scored_closes :: "mo_config \<Rightarrow> selector_context \<Rightarrow> (close_candidate \<times> rat) list" where
  "mo_scored_closes cfg ctx =
     (let effective = max (min_peer_quality_score (eligibility (ctx_cfg ctx)) - hysteresis_gap cfg) 0
      in sort_key snd
           (map (\<lambda>c. (c, final_score_close c ctx cfg))
             (filter (k_floor_veto ctx)
               (filter (\<lambda>c. should_close c (ctx_cfg ctx) (ctx_elapsed ctx) (Some effective)) (ctx_close ctx)))))"

definition simulated_counts :: "selector_context \<Rightarrow> (bucket_cell \<times> nat) list" where
  "simulated_counts ctx =
     fold (\<lambda>c m. case cell_for (ctx_buckets ctx) (ch_id (cc_channel c)) of
                    Some cell \<Rightarrow> upsert cell Suc 1 m
                  | None \<Rightarrow> m) (ctx_close ctx) []"

definition guarded_cell :: "selector_context \<Rightarrow> close_candidate \<Rightarrow> bucket_cell option" where
  "guarded_cell ctx c =
     (if ch_balance (cc_channel c) \<le> close_when_drained_below (closure (ctx_cfg ctx)) then None
      else case cell_for (ctx_buckets ctx) (ch_id (cc_channel c)) of
             Some cell \<Rightarrow> if cell_subnet cell = Unknown then None else Some cell
           | None \<Rightarrow> None)"

definition mo_close_step ::
    "mo_config \<Rightarrow> selector_context \<Rightarrow> close_candidate \<times> rat \<Rightarrow>
     channel_id list \<times> (bucket_cell \<times> nat) list \<Rightarrow> (channel_id list \<times> (bucket_cell \<times> nat) list) \<times> loop_ctl" where
  "mo_close_step cfg ctx cs st =
     (case st of (result, sim) \<Rightarrow>
        let cid = ch_id (cc_channel (fst cs))
        in if close_per_tick cfg \<le> length result then ((result, sim), Break)
           else case guarded_cell ctx (fst cs) of
                  Some cell \<Rightarrow>
                    if unwrap_or (map_of sim cell) 0 \<le> k_floor cfg then ((result, sim), Continue)
                    else ((result @ [cid], upsert cell (\<lambda>n. n - 1) 0 sim), Continue)
                | None \<Rightarrow> ((result @ [cid], sim), Continue))"

definition mo_select_closes :: "mo_config \<Rightarrow> selector_context \<Rightarrow> channel_id list" where
  "mo_select_closes cfg ctx =
     fst (for_loop (mo_close_step cfg ctx) (mo_scored_closes cfg ctx) ([], simulated_counts ctx))"

definition mo_required_signals :: "mo_config \<Rightarrow> signal_set" where
  "mo_required_signals cfg = (if 0 < w_stake (weights cfg) then signal_stake else signal_empty)"

definition multi_objective_selector :: "mo_config \<Rightarrow> selector" where
  "multi_objective_selector cfg =
     \<lparr>required_signals = mo_required_signals cfg, select_closes = mo_select_closes cfg,
      max_closes_per_tick = Some (close_per_tick cfg), select_opens = mo_select_opens cfg\<rparr>"

section \<open>Open selection: what is picked\<close>

text \<open>
  The picks of a tier extend what earlier tiers picked, come from the tier, name no address
  twice and never exceed the limit.
\<close>

definition fill_inv :: "nat \<Rightarrow> open_fill \<Rightarrow> open_candidate list \<Rightarrow> open_fill \<Rightarrow> bool" where
  "fill_inv limit f0 tier f \<longleftrightarrow>
     (\<exists>cs. of_result f = of_result f0 @ map offer cs \<and> set cs \<subseteq> set tier) \<and>
     distinct (map fst (of_result f)) \<and> set (of_picked f) = fst ` set (of_result f) \<and>
     length (of_result f) \<le> limit"

lemma fill_inv_count_cell [simp]: "fill_inv limit f0 tier (count_cell cell f) = fill_inv limit f0 tier f"
  by (simp add: fill_inv_def count_cell_def)

lemma offer_addr [simp]: "fst (offer c) = oc_addr c"
  by (simp add: offer_def)

lemma pick_simps [simp]:
  "of_result (pick c f) = of_result f @ [offer c]" "of_picked (pick c f) = oc_addr c # of_picked f"
  "of_counts (pick c f) = of_counts f"
  by (simp_all add: pick_def offer_def)

lemma fill_inv_pick:
  assumes "fill_inv limit f0 tier f" and "c \<in> set tier" and "oc_addr c \<notin> set (of_picked f)"
    and "length (of_result f) < limit"
  shows "fill_inv limit f0 tier (pick c f)"
proof -
  obtain cs where cs: "of_result f = of_result f0 @ map offer cs" "set cs \<subseteq> set tier"
    using assms(1) by (auto simp: fill_inv_def)
  then have "of_result (pick c f) = of_result f0 @ map offer (cs @ [c])" "set (cs @ [c]) \<subseteq> set tier"
    using assms(2) by simp_all
  then have "\<exists>cs. of_result (pick c f) = of_result f0 @ map offer cs \<and> set cs \<subseteq> set tier" by blast
  moreover have "distinct (map fst (of_result f))" "set (of_picked f) = fst ` set (of_result f)"
    using assms(1) by (simp_all add: fill_inv_def)
  ultimately show ?thesis using assms(3,4) unfolding fill_inv_def by simp
qed

lemma set_scored_tier: "fst ` set (scored_tier tier ctx cfg) = set tier"
  by (force simp: scored_tier_def)

lemma fill_k_step_inv:
  assumes "fill_inv limit f0 tier (snd st)" and "fst ` set scored = set tier"
  shows "fill_inv limit f0 tier (snd (fst (fill_k_step k ctx limit scored cs st)))"
proof -
  obtain attempted f where st: "st = (attempted, f)" by (cases st)
  let ?find = "find (\<lambda>(c2, _). oc_addr c2 \<notin> set (of_picked f) \<and> open_cell c2 = open_cell (fst cs)) scored"
  have "fill_inv limit f0 tier (pick cand f)"
    if "?find = Some (cand, sc)" and "\<not> limit \<le> length (of_result f)" for cand sc
  proof -
    from that(1) obtain i where i: "i < length scored" "scored ! i = (cand, sc)"
      "oc_addr cand \<notin> set (of_picked f)"
      by (auto simp: find_Some_iff)
    then have "(cand, sc) \<in> set scored" by (metis nth_mem)
    then have "cand \<in> set tier" using assms(2) by force
    with that(2) assms(1) st i(3) show ?thesis by (intro fill_inv_pick) simp_all
  qed
  with assms(1) show ?thesis
    by (auto simp: fill_k_step_def st Let_def split: option.splits)
qed

lemma utility_step_inv:
  assumes "fill_inv limit f0 tier f" and "fst cs \<in> set tier"
  shows "fill_inv limit f0 tier (fst (utility_step limit cs f))"
  using assms by (auto simp: utility_step_def Let_def fill_inv_pick)

interpretation fill_k_loop: loop_body "fill_k_step k ctx limit scored" "\<lambda>_. True"
    "\<lambda>st. fst ` set scored = set tier \<longrightarrow> fill_inv limit f0 tier (snd st)"
  by unfold_locales (simp add: fill_k_step_inv)

interpretation utility_loop: loop_body "utility_step limit" "\<lambda>cs. fst cs \<in> set tier" "fill_inv limit f0 tier"
  by unfold_locales (simp add: utility_step_inv)

lemma fill_opens_inv:
  assumes "fill_inv limit f0 tier f"
  shows "fill_inv limit f0 tier (fill_opens cfg tier ctx limit f)"
proof -
  let ?scored = "scored_tier tier ctx cfg"
  let ?f1 = "if 0 < k_floor cfg then snd (for_loop (fill_k_step (k_floor cfg) ctx limit ?scored) ?scored ([], f)) else f"
  have "fill_inv limit f0 tier ?f1"
    using assms fill_k_loop.loop_inv [of ?scored ?scored tier limit f0 "([], f)" "k_floor cfg" ctx] set_scored_tier
    by (simp add: set_scored_tier)
  moreover have "\<forall>cs\<in>set ?scored. fst cs \<in> set tier" using set_scored_tier by blast
  ultimately have "fill_inv limit f0 tier (for_loop (utility_step limit) ?scored ?f1)"
    by (intro utility_loop.loop_inv)
  with assms show ?thesis by (simp add: fill_opens_def Let_def)
qed

section \<open>Open selection: how much is picked\<close>

definition fill_le :: "open_fill \<Rightarrow> open_fill \<Rightarrow> bool" where
  "fill_le f g \<longleftrightarrow> set (of_picked f) \<subseteq> set (of_picked g) \<and> length (of_result f) \<le> length (of_result g)"

lemma utility_step_le: "fill_le f (fst (utility_step limit cs f))"
  by (auto simp: fill_le_def utility_step_def count_cell_def Let_def)

interpretation utility_mono: monotone_body "utility_step limit" fill_le
  by unfold_locales (auto simp: fill_le_def utility_step_le [unfolded fill_le_def])

definition fill_done :: "nat \<Rightarrow> open_candidate list \<Rightarrow> open_fill \<Rightarrow> bool" where
  "fill_done limit tier f \<longleftrightarrow> limit \<le> length (of_result f) \<or> oc_addr ` set tier \<subseteq> set (of_picked f)"

lemma utility_loop_done:
  "limit \<le> length (of_result (for_loop (utility_step limit) xs f)) \<or>
   (\<forall>cs\<in>set xs. oc_addr (fst cs) \<in> set (of_picked (for_loop (utility_step limit) xs f)))"
proof (induction xs arbitrary: f)
  case (Cons cs xs)
  let ?s = "utility_step limit cs f"
  have head: "limit \<le> length (of_result (fst ?s)) \<or> snd ?s = Continue \<and> oc_addr (fst cs) \<in> set (of_picked (fst ?s))"
    by (auto simp: utility_step_def count_cell_def Let_def)
  show ?case
  proof (cases "snd ?s")
    case Break
    with head show ?thesis by (cases ?s) simp
  next
    case Continue
    have "fill_le (fst ?s) (for_loop (utility_step limit) xs (fst ?s))" by (rule utility_mono.loop_le)
    with head Cons.IH [of "fst ?s"] Continue show ?thesis
      by (cases ?s) (auto simp: fill_le_def)
  qed
qed simp

lemma fill_opens_done: "fill_done limit tier (fill_opens cfg tier ctx limit f)"
proof (cases "tier = [] \<or> limit \<le> length (of_result f)")
  case True
  then show ?thesis by (auto simp: fill_done_def fill_opens_def)
next
  case False
  let ?sc = "scored_tier tier ctx cfg"
  have "oc_addr ` set tier \<subseteq> S" if "\<forall>cs\<in>set ?sc. oc_addr (fst cs) \<in> S" for S
    using that unfolding set_scored_tier [of tier ctx cfg, symmetric] by auto
  with False show ?thesis
    unfolding fill_done_def fill_opens_def Let_def
    using utility_loop_done by (simp only: if_False) blast
qed

text \<open>Both tiers together: what \<open>select_opens\<close> returns, decomposed into its two tiers.\<close>

lemma mo_select_opens_tiers:
  assumes p: "partition_by_forwarding (ctx_open ctx) (ctx_forwarding ctx) (eligibility (ctx_cfg ctx)) = (xs, ys)"
  obtains cs1 cs2 where "mo_select_opens cfg ctx = map offer cs1 @ map offer cs2"
    and "set cs1 \<subseteq> set xs" and "set cs2 \<subseteq> set ys"
    and "distinct (map fst (mo_select_opens cfg ctx))"
    and "length (mo_select_opens cfg ctx) \<le> min (open_per_tick cfg) (ctx_deficit ctx)"
    and "min (open_per_tick cfg) (ctx_deficit ctx) \<le> length (mo_select_opens cfg ctx) \<or>
      oc_addr ` set xs \<union> oc_addr ` set ys \<subseteq> fst ` set (mo_select_opens cfg ctx)"
    and "cs2 = [] \<or> oc_addr ` set xs \<subseteq> oc_addr ` set cs1"
proof -
  let ?limit = "min (open_per_tick cfg) (ctx_deficit ctx)"
  let ?f0 = "\<lparr>of_result = [], of_picked = [], of_counts = []\<rparr>"
  define f where "f = fill_opens cfg xs ctx ?limit ?f0"
  define g where "g = (if length (of_result f) < ?limit then fill_opens cfg ys ctx ?limit f else f)"
  have res: "mo_select_opens cfg ctx = of_result g"
    by (simp add: mo_select_opens_def p Let_def f_def g_def)
  have f: "fill_inv ?limit ?f0 xs f"
    unfolding f_def by (rule fill_opens_inv) (auto simp: fill_inv_def)
  have "fill_inv ?limit f ys f"
    using f by (auto simp: fill_inv_def intro!: exI [of _ "[]"])
  then have g: "fill_inv ?limit f ys g" by (simp add: g_def fill_opens_inv)
  obtain cs1 where cs1: "of_result f = map offer cs1" "set cs1 \<subseteq> set xs"
    using f by (auto simp: fill_inv_def)
  obtain cs2 where cs2: "of_result g = of_result f @ map offer cs2" "set cs2 \<subseteq> set ys"
    using g by (auto simp: fill_inv_def)
  have fd: "fill_done ?limit xs f" unfolding f_def by (rule fill_opens_done)
  have gd: "?limit \<le> length (of_result g) \<or> fill_done ?limit ys g"
    by (auto simp: g_def fill_opens_done)
  have pf: "set (of_picked f) = fst ` set (of_result f)" using f by (simp add: fill_inv_def)
  have pg: "set (of_picked g) = fst ` set (of_result g)" using g by (simp add: fill_inv_def)
  have "?limit \<le> length (of_result g) \<or> oc_addr ` set xs \<union> oc_addr ` set ys \<subseteq> fst ` set (of_result g)"
  proof (cases "?limit \<le> length (of_result g)")
    case False
    with cs2(1) have "\<not> ?limit \<le> length (of_result f)" by (metis le_trans length_append le_add1)
    with fd pf have "oc_addr ` set xs \<subseteq> fst ` set (of_result f)" by (simp only: fill_done_def simp_thms)
    moreover from False gd pg have "oc_addr ` set ys \<subseteq> fst ` set (of_result g)"
      by (simp only: fill_done_def simp_thms)
    ultimately show ?thesis using cs2(1) by auto
  qed simp
  moreover have "cs2 = [] \<or> oc_addr ` set xs \<subseteq> oc_addr ` set cs1"
  proof (cases "length (of_result f) < ?limit")
    case True
    then have "\<not> ?limit \<le> length (of_result f)" by (simp only: not_le)
    with fd pf have "oc_addr ` set xs \<subseteq> fst ` set (of_result f)" by (simp only: fill_done_def simp_thms)
    with cs1(1) show ?thesis by (simp add: image_image)
  next
    case False
    then have "g = f" by (simp only: g_def if_False)
    with cs2(1) show ?thesis by simp
  qed
  moreover have "distinct (map fst (of_result g))" "length (of_result g) \<le> ?limit"
    using g by (simp_all add: fill_inv_def)
  ultimately show thesis using cs1 cs2 by (intro that [of cs1 cs2]) (simp_all add: res)
qed

section \<open>Close selection: the anonymity floor\<close>

text \<open>How many of the channels offered for closing sit in a cell.\<close>

definition occupancy :: "selector_context \<Rightarrow> bucket_cell \<Rightarrow> nat" where
  "occupancy ctx cell =
     length (filter (\<lambda>c. cell_for (ctx_buckets ctx) (ch_id (cc_channel c)) = Some cell) (ctx_close ctx))"

definition guarded_in :: "selector_context \<Rightarrow> bucket_cell \<Rightarrow> close_candidate list \<Rightarrow> nat" where
  "guarded_in ctx cell cs = length (filter (\<lambda>c. guarded_cell ctx c = Some cell) cs)"

lemma simulated_counts_fold:
  "unwrap_or (map_of (fold (\<lambda>c m. case cell_for v (ch_id (cc_channel c)) of
        Some cell \<Rightarrow> upsert cell Suc 1 m | None \<Rightarrow> m) cs m) cell) 0 =
   unwrap_or (map_of m cell) 0 + length (filter (\<lambda>c. cell_for v (ch_id (cc_channel c)) = Some cell) cs)"
  by (induction cs arbitrary: m) (auto simp: alist_lookups unwrap_or_def split: option.splits)

lemma simulated_counts_occupancy: "unwrap_or (map_of (simulated_counts ctx) cell) 0 = occupancy ctx cell"
  unfolding simulated_counts_def occupancy_def simulated_counts_fold by (simp add: unwrap_or_def)

definition close_inv :: "mo_config \<Rightarrow> selector_context \<Rightarrow> channel_id list \<times> (bucket_cell \<times> nat) list \<Rightarrow> bool" where
  "close_inv cfg ctx st \<longleftrightarrow>
     (\<exists>cs. fst st = map (ch_id \<circ> cc_channel) cs \<and> set cs \<subseteq> fst ` set (mo_scored_closes cfg ctx) \<and>
        (\<forall>cell. unwrap_or (map_of (snd st) cell) 0 + guarded_in ctx cell cs = occupancy ctx cell \<and>
           (guarded_in ctx cell cs = 0 \<or> k_floor cfg \<le> unwrap_or (map_of (snd st) cell) 0))) \<and>
     length (fst st) \<le> close_per_tick cfg"

lemma close_invI:
  assumes "fst st = map (ch_id \<circ> cc_channel) cs" and "set cs \<subseteq> fst ` set (mo_scored_closes cfg ctx)"
    and "\<And>cell. unwrap_or (map_of (snd st) cell) 0 + guarded_in ctx cell cs = occupancy ctx cell \<and>
      (guarded_in ctx cell cs = 0 \<or> k_floor cfg \<le> unwrap_or (map_of (snd st) cell) 0)"
    and "length (fst st) \<le> close_per_tick cfg"
  shows "close_inv cfg ctx st"
  unfolding close_inv_def using assms by blast

lemma mo_close_step_inv:
  assumes "cs \<in> set (mo_scored_closes cfg ctx)" and inv: "close_inv cfg ctx st"
  shows "close_inv cfg ctx (fst (mo_close_step cfg ctx cs st))"
proof -
  obtain result sim where st: "st = (result, sim)" by (cases st)
  obtain picked where picked: "result = map (ch_id \<circ> cc_channel) picked"
      "set picked \<subseteq> fst ` set (mo_scored_closes cfg ctx)"
    and cells: "\<And>cell. unwrap_or (map_of sim cell) 0 + guarded_in ctx cell picked = occupancy ctx cell \<and>
      (guarded_in ctx cell picked = 0 \<or> k_floor cfg \<le> unwrap_or (map_of sim cell) 0)"
    and len: "length result \<le> close_per_tick cfg"
    using inv by (auto simp: close_inv_def st)
  let ?cs' = "picked @ [fst cs]"
  have mem: "set ?cs' \<subseteq> fst ` set (mo_scored_closes cfg ctx)" using assms(1) picked(2) by auto
  have guarded: "guarded_in ctx cell ?cs' = guarded_in ctx cell picked + (if guarded_cell ctx (fst cs) = Some cell then 1 else 0)"
    for cell by (simp add: guarded_in_def)
  consider "close_per_tick cfg \<le> length result" | "length result < close_per_tick cfg" "guarded_cell ctx (fst cs) = None"
    | cell where "length result < close_per_tick cfg" "guarded_cell ctx (fst cs) = Some cell"
    by (meson not_le option.exhaust)
  then show ?thesis
  proof cases
    case 1
    with inv show ?thesis by (simp add: mo_close_step_def st Let_def)
  next
    case 2
    then have "close_inv cfg ctx (result @ [ch_id (cc_channel (fst cs))], sim)"
      using mem cells guarded by (intro close_invI [of _ ?cs']) (simp_all add: picked(1))
    with 2 show ?thesis by (simp add: mo_close_step_def st Let_def)
  next
    case 3
    show ?thesis
    proof (cases "unwrap_or (map_of sim cell) 0 \<le> k_floor cfg")
      case True
      with 3 inv show ?thesis by (simp add: mo_close_step_def st Let_def)
    next
      case False
      let ?sim = "upsert cell (\<lambda>n. n - 1) 0 sim"
      have look: "unwrap_or (map_of ?sim cl) 0 = (if cl = cell then unwrap_or (map_of sim cell) 0 - 1 else unwrap_or (map_of sim cl) 0)"
        for cl by (auto simp: alist_lookups unwrap_or_def split: option.splits)
      have "unwrap_or (map_of ?sim cl) 0 + guarded_in ctx cl ?cs' = occupancy ctx cl \<and>
          (guarded_in ctx cl ?cs' = 0 \<or> k_floor cfg \<le> unwrap_or (map_of ?sim cl) 0)" for cl
        unfolding look guarded using cells [of cl] False 3(2) by auto
      then have "close_inv cfg ctx (result @ [ch_id (cc_channel (fst cs))], ?sim)"
        using mem 3(1) by (intro close_invI [of _ ?cs']) (simp_all add: picked(1))
      with 3 False show ?thesis by (simp add: mo_close_step_def st Let_def)
    qed
  qed
qed

interpretation mo_close_loop: loop_body "mo_close_step cfg ctx" "\<lambda>cs. cs \<in> set (mo_scored_closes cfg ctx)" "close_inv cfg ctx"
  by unfold_locales (rule mo_close_step_inv)

lemma mo_select_closes_inv:
  obtains cs where "mo_select_closes cfg ctx = map (ch_id \<circ> cc_channel) cs"
    and "set cs \<subseteq> fst ` set (mo_scored_closes cfg ctx)" and "length cs \<le> close_per_tick cfg"
    and "\<And>cell. guarded_in ctx cell cs = 0 \<or> guarded_in ctx cell cs + k_floor cfg \<le> occupancy ctx cell"
proof -
  have "close_inv cfg ctx ([], simulated_counts ctx)"
    by (auto simp: close_inv_def simulated_counts_occupancy guarded_in_def)
  then have "close_inv cfg ctx (for_loop (mo_close_step cfg ctx) (mo_scored_closes cfg ctx) ([], simulated_counts ctx))"
    by (intro mo_close_loop.loop_inv) simp_all
  then show thesis
    unfolding close_inv_def mo_select_closes_def [symmetric]
    by (metis that add.commute add_le_cancel_right length_map)
qed

lemma set_mo_scored_closes:
  "fst ` set (mo_scored_closes cfg ctx) =
     {c \<in> set (ctx_close ctx). k_floor_veto ctx c \<and>
        should_close c (ctx_cfg ctx) (ctx_elapsed ctx)
          (Some (max (min_peer_quality_score (eligibility (ctx_cfg ctx)) - hysteresis_gap cfg) 0))}"
  by (force simp: mo_scored_closes_def Let_def)

section \<open>The selector meets the contract\<close>

lemma offer_tier_addrs: "set cs \<subseteq> set xs \<Longrightarrow> x \<in> set (map offer cs) \<Longrightarrow> fst x \<in> oc_addr ` set xs"
  by auto

interpretation mo_sel: selector_contract "multi_objective_selector cfg"
proof unfold_locales
  fix cid and ctx :: selector_context
  assume "cid \<in> set (select_closes (multi_objective_selector cfg) ctx)"
  then have "cid \<in> set (mo_select_closes cfg ctx)" by (simp add: multi_objective_selector_def)
  then show "\<exists>c\<in>set (ctx_close ctx). ch_id (cc_channel c) = cid \<and>
      (is_drained (ctx_cfg ctx) (cc_channel c) \<or> cc_key c \<noteq> None \<and> has_probing_data (cc_edge c))"
    using mo_select_closes_inv [of cfg ctx] should_close_justified set_mo_scored_closes [of cfg ctx]
    by (smt (verit, ccfv_threshold) comp_apply image_iff in_mono list.set_map mem_Collect_eq)
next
  fix n and ctx :: selector_context
  assume "max_closes_per_tick (multi_objective_selector cfg) = Some n"
  then show "length (select_closes (multi_objective_selector cfg) ctx) \<le> n"
    using mo_select_closes_inv [of cfg ctx] by (simp add: multi_objective_selector_def) (metis length_map)
next
  fix ctx :: selector_context
  obtain xs ys where p: "partition_by_forwarding (ctx_open ctx) (ctx_forwarding ctx) (eligibility (ctx_cfg ctx)) = (xs, ys)"
    by fastforce
  have "set xs \<union> set ys = set (ctx_open ctx)" using partition_by_forwarding_sets [OF p] by blast
  moreover obtain cs1 cs2 where "mo_select_opens cfg ctx = map offer cs1 @ map offer cs2"
    and "set cs1 \<subseteq> set xs" and "set cs2 \<subseteq> set ys"
    by (rule mo_select_opens_tiers [OF p, of cfg])
  ultimately show "set (select_opens (multi_objective_selector cfg) ctx) \<subseteq> offer ` set (ctx_open ctx)"
    by (auto simp: multi_objective_selector_def)
next
  fix ctx :: selector_context
  obtain xs ys where p: "partition_by_forwarding (ctx_open ctx) (ctx_forwarding ctx) (eligibility (ctx_cfg ctx)) = (xs, ys)"
    by fastforce
  have "distinct (map fst (mo_select_opens cfg ctx))" by (rule mo_select_opens_tiers [OF p, of cfg])
  then show "distinct (map fst (select_opens (multi_objective_selector cfg) ctx))"
    by (simp add: multi_objective_selector_def)
next
  fix ctx :: selector_context
  obtain xs ys where p: "partition_by_forwarding (ctx_open ctx) (ctx_forwarding ctx) (eligibility (ctx_cfg ctx)) = (xs, ys)"
    by fastforce
  obtain cs1 cs2 where cs: "mo_select_opens cfg ctx = map offer cs1 @ map offer cs2"
    and "set cs1 \<subseteq> set xs" and "set cs2 \<subseteq> set ys"
    by (rule mo_select_opens_tiers [OF p, of cfg])
  then have "\<forall>x\<in>set (map offer cs1). is_capable ctx (fst x)" "\<forall>x\<in>set (map offer cs2). \<not> is_capable ctx (fst x)"
    using partition_capable [OF p] by auto
  with cs show "sorted_wrt (\<lambda>x y. is_capable ctx (fst y) \<longrightarrow> is_capable ctx (fst x)) (select_opens (multi_objective_selector cfg) ctx)"
    by (simp add: multi_objective_selector_def capable_then_sinks del: map_append)
qed

section \<open>Properties\<close>

text \<open>
  The multi-objective selector closes only channels it was offered, at most its per-tick cap,
  and keeps the anonymity floor: in every known cell, the channels it closes for anything but a
  drained balance leave at least \<open>k_floor\<close> of the cell's occupants, counted before the drained
  ones are taken away.
\<close>

theorem mo_closes_keep_floor:
  "\<exists>cs. mo_select_closes cfg ctx = map (ch_id \<circ> cc_channel) cs \<and> set cs \<subseteq> set (ctx_close ctx) \<and>
     length cs \<le> close_per_tick cfg \<and>
     (\<forall>cell. guarded_in ctx cell cs = 0 \<or> guarded_in ctx cell cs + k_floor cfg \<le> occupancy ctx cell)"
proof -
  obtain cs where cs: "mo_select_closes cfg ctx = map (ch_id \<circ> cc_channel) cs"
    "set cs \<subseteq> fst ` set (mo_scored_closes cfg ctx)" "length cs \<le> close_per_tick cfg"
    and floor: "\<And>cell. guarded_in ctx cell cs = 0 \<or> guarded_in ctx cell cs + k_floor cfg \<le> occupancy ctx cell"
    by (rule mo_select_closes_inv [of cfg ctx]) blast
  from cs(2) have "set cs \<subseteq> set (ctx_close ctx)" by (auto simp: set_mo_scored_closes)
  with cs(1,3) floor show ?thesis by blast
qed

text \<open>
  A configuration and four channels of one cell, the first of them drained, all of bad quality.
\<close>

definition bad_edge :: peer_edge_info where
  "bad_edge = \<lparr>edge_score = Some 0, last_update = secs 10, average_latency = Some 60000000,
     probe_success_rate = Some 0, ack_rate = Some 0\<rparr>"

definition crowded_cell :: bucket_cell where
  "crowded_cell = \<lparr>cell_latency = Fast, cell_subnet = V4Prefix (10, 0, 0)\<rparr>"

definition crowded_close :: "nat \<Rightarrow> balance \<Rightarrow> rat \<Rightarrow> close_candidate" where
  "crowded_close i b t =
     \<lparr>cc_channel = \<lparr>ch_id = i, ch_source = 0, ch_destination = 100 + i, ch_balance = b,
         ch_ticket_index = 0, ch_status = Open\<rparr>,
      cc_key = Some (200 + i), cc_edge = bad_edge, cc_ticket_score = Some t\<rparr>"

definition crowded_context :: selector_context where
  "crowded_context =
     \<lparr>ctx_cfg = lifecycle_default, ctx_deficit = 0, ctx_open = [],
      ctx_close = [crowded_close 1 0 (1 / 10), crowded_close 2 5 0, crowded_close 3 5 0, crowded_close 4 5 0],
      ctx_elapsed = secs 600,
      ctx_buckets = [(1, crowded_cell), (2, crowded_cell), (3, crowded_cell), (4, crowded_cell)],
      ctx_stake = [], ctx_forwarding = []\<rparr>"


text \<open>
  Open selection of the multi-objective selector fills up exactly: with candidates of
  distinct addresses it returns as many opens as the smaller of its own limit, the deficit and
  the number of candidates, none twice; forwarding-capable candidates come first and a sink is
  returned only after every capable candidate was.
\<close>

theorem mo_opens_fill_deficit:
  assumes d: "distinct (map oc_addr (ctx_open ctx))"
  shows "length (mo_select_opens cfg ctx) = min (min (open_per_tick cfg) (ctx_deficit ctx)) (length (ctx_open ctx)) \<and>
    distinct (map fst (mo_select_opens cfg ctx)) \<and>
    (\<forall>a\<in>fst ` set (mo_select_opens cfg ctx). \<not> is_capable ctx a \<longrightarrow>
       (\<forall>c\<in>set (ctx_open ctx). is_capable ctx (oc_addr c) \<longrightarrow> oc_addr c \<in> fst ` set (mo_select_opens cfg ctx)))"
proof -
  let ?r = "mo_select_opens cfg ctx" and ?limit = "min (open_per_tick cfg) (ctx_deficit ctx)"
  obtain xs ys where p: "partition_by_forwarding (ctx_open ctx) (ctx_forwarding ctx) (eligibility (ctx_cfg ctx)) = (xs, ys)"
    by fastforce
  have all: "set xs \<union> set ys = set (ctx_open ctx)" using partition_by_forwarding_sets [OF p] by blast
  note cap = partition_capable [OF p]
  obtain cs1 cs2 where r: "?r = map offer cs1 @ map offer cs2" and sub: "set cs1 \<subseteq> set xs" "set cs2 \<subseteq> set ys"
    and dist: "distinct (map fst ?r)" and le: "length ?r \<le> ?limit"
    and fill: "?limit \<le> length ?r \<or> oc_addr ` set xs \<union> oc_addr ` set ys \<subseteq> fst ` set ?r"
    and order: "cs2 = [] \<or> oc_addr ` set xs \<subseteq> oc_addr ` set cs1"
    by (rule mo_select_opens_tiers [OF p, of cfg])
  have sub_r: "fst ` set ?r \<subseteq> oc_addr ` set (ctx_open ctx)" using sub all by (auto simp: r image_image image_Un)
  have n: "length (ctx_open ctx) = card (oc_addr ` set (ctx_open ctx))"
    using d by (metis distinct_card length_map list.set_map)
  have m: "length ?r = card (fst ` set ?r)"
    using dist by (metis distinct_card length_map list.set_map)
  have "length ?r \<le> length (ctx_open ctx)" unfolding n m by (rule card_mono) (simp_all add: sub_r)
  moreover have "length (ctx_open ctx) \<le> length ?r" if "\<not> ?limit \<le> length ?r"
    unfolding n m using fill that all by (intro card_mono) (auto simp flip: image_Un)
  ultimately have "length ?r = min ?limit (length (ctx_open ctx))" using le by linarith
  moreover have "oc_addr c \<in> fst ` set ?r"
    if "a \<in> fst ` set ?r" "\<not> is_capable ctx a" "c \<in> set (ctx_open ctx)" "is_capable ctx (oc_addr c)" for a c
  proof -
    have "a \<in> oc_addr ` set cs2" using that(1,2) r sub cap by auto
    then have "oc_addr ` set xs \<subseteq> oc_addr ` set cs1" using order by auto
    moreover have "c \<in> set xs" using that(3,4) all cap by auto
    ultimately show ?thesis unfolding r by (auto simp: image_image image_Un)
  qed
  ultimately show ?thesis using dist by blast
qed

definition open_example :: selector_context where
  "open_example =
     \<lparr>ctx_cfg = lifecycle_default, ctx_deficit = 5,
      ctx_open = [\<lparr>oc_addr = 1, oc_key = 11, oc_edge = bad_edge, oc_ticket_score = None, oc_subnet = Unknown\<rparr>,
        \<lparr>oc_addr = 2, oc_key = 12, oc_edge = bad_edge, oc_ticket_score = None, oc_subnet = Unknown\<rparr>],
      ctx_close = [], ctx_elapsed = 0, ctx_buckets = [], ctx_stake = [], ctx_forwarding = [(2, 3)]\<rparr>"

theorem mo_opens_fill_deficit_witness:
  "length (mo_select_opens mo_balanced open_example) = 2"
  using mo_opens_fill_deficit [of open_example mo_balanced]
  by (simp add: open_example_def mo_balanced_def)

end
