(* ===== verification/Consolidation.thy ===== *)
theory Consolidation
  imports Strategy_Prelude Complex_Main "HOL-Library.Multiset"
begin

text \<open>
  \<open>src/src/channel_lifecycle/consolidation.rs\<close>: which under-funded channels to close so that
  the stake they return lifts the others to one winning-ticket face value. \<open>U256\<close> addition
  panics when it overflows; the sums here are sums of parts of one token supply, so they are
  written over \<^typ>\<open>nat\<close>. A rank is the finite float of the source as a rational.
\<close>

record consolidation_candidate =
  cn_id :: channel_id
  cn_balance :: balance
  cn_rank :: rat

definition consolidation_pool :: "consolidation_candidate list \<Rightarrow> balance \<Rightarrow> balance \<Rightarrow> nat" where
  "consolidation_pool underfunded safe_remaining reclaiming =
     fold (\<lambda>c acc. acc + cn_balance c) underfunded (safe_remaining + reclaiming)"

definition consolidation_closes ::
    "consolidation_candidate list \<Rightarrow> balance \<Rightarrow> balance \<Rightarrow> balance \<Rightarrow> channel_id list" where
  "consolidation_closes underfunded safe_remaining reclaiming face_value =
     (if face_value = 0 \<or> underfunded = [] then []
      else
        let pool = consolidation_pool underfunded safe_remaining reclaiming;
            achievable = pool div face_value
        in if achievable = 0 \<or> length underfunded \<le> achievable then []
           else
             let close_count = length underfunded - achievable;
                 ranked = sort_key cn_rank underfunded
             in map cn_id (take close_count ranked))"

text \<open>The stake missing to lift channels to the face value.\<close>

definition lift_cost :: "balance \<Rightarrow> consolidation_candidate list \<Rightarrow> nat" where
  "lift_cost face cs = (\<Sum>c\<leftarrow>cs. face - cn_balance c)"

definition stake_of :: "consolidation_candidate list \<Rightarrow> nat" where
  "stake_of cs = (\<Sum>c\<leftarrow>cs. cn_balance c)"

lemma fold_add_balance: "fold (\<lambda>c acc. acc + cn_balance c) cs a = a + stake_of cs"
  by (induction cs arbitrary: a) (simp_all add: stake_of_def)

lemma consolidation_pool_eq: "consolidation_pool cs s r = s + r + stake_of cs"
  by (simp add: consolidation_pool_def fold_add_balance)

lemma stake_of_mset: "mset xs = mset ys \<Longrightarrow> stake_of xs = stake_of ys"
  unfolding stake_of_def by (metis mset_map sum_mset_sum_list)

lemma stake_of_append [simp]: "stake_of (xs @ ys) = stake_of xs + stake_of ys"
  by (simp add: stake_of_def)

lemma lift_cost_stake: "\<forall>c\<in>set cs. cn_balance c \<le> face \<Longrightarrow> lift_cost face cs + stake_of cs = face * length cs"
  by (induction cs) (auto simp: lift_cost_def stake_of_def)

lemma sort_key_split_le:
  assumes "x \<in> set (take n (sort_key f xs))" and "y \<in> set (drop n (sort_key f xs))"
  shows "f x \<le> f y"
proof -
  have "sorted_wrt (\<lambda>a b. f a \<le> f b) (take n (sort_key f xs) @ drop n (sort_key f xs))"
    using sorted_sort_key [of f xs] by (simp add: sorted_map)
  with assms show ?thesis unfolding sorted_wrt_append by blast
qed

lemma consolidation_closes_nonempty:
  assumes "consolidation_closes u s r face \<noteq> []"
  defines "a \<equiv> (s + r + stake_of u) div face"
  shows "0 < face \<and> 0 < a \<and> a < length u \<and>
    consolidation_closes u s r face = map cn_id (take (length u - a) (sort_key cn_rank u))"
  using assms by (auto simp: consolidation_closes_def consolidation_pool_eq Let_def split: if_splits)

text \<open>
  When consolidation closes channels, it closes the right number of the right ones. With
  every candidate below the face value: the closed and the kept channels together are the
  candidates; at least one channel is kept; no closed channel outranks a kept one; the safe, the
  stake being reclaimed and the closed balances pay for lifting every kept channel to the face
  value; and no larger set of channels could be lifted by closing the rest.
\<close>

theorem consolidation_keeps_most:
  assumes "consolidation_closes u s r face \<noteq> []" and small: "\<forall>c\<in>set u. cn_balance c \<le> face"
  shows "\<exists>closed kept. consolidation_closes u s r face = map cn_id closed \<and>
     mset closed + mset kept = mset u \<and> kept \<noteq> [] \<and>
     (\<forall>x\<in>set closed. \<forall>y\<in>set kept. cn_rank x \<le> cn_rank y) \<and>
     lift_cost face kept \<le> s + r + stake_of closed \<and>
     (\<forall>ks rest. mset ks + mset rest = mset u \<longrightarrow> length kept < length ks \<longrightarrow>
        s + r + stake_of rest < lift_cost face ks)"
proof -
  let ?a = "(s + r + stake_of u) div face"
  let ?ranked = "sort_key cn_rank u"
  let ?closed = "take (length u - ?a) ?ranked" and ?kept = "drop (length u - ?a) ?ranked"
  have face: "0 < face" and a: "0 < ?a" "?a < length u"
    and res: "consolidation_closes u s r face = map cn_id ?closed"
    using consolidation_closes_nonempty [OF assms(1)] by blast+
  have split: "mset ?closed + mset ?kept = mset u"
    by (metis append_take_drop_id mset_append mset_sort)
  have len: "length ?kept = ?a" using a by simp
  have balance: "lift_cost face xs + stake_of xs = face * length xs \<and> stake_of xs + stake_of ys = stake_of u"
    if "mset xs + mset ys = mset u" for xs ys
  proof -
    have "set xs \<subseteq> set u" by (metis that set_mset_mset set_mset_union sup_ge1)
    then have "lift_cost face xs + stake_of xs = face * length xs"
      using small by (intro lift_cost_stake) blast
    moreover have "stake_of (xs @ ys) = stake_of u" by (rule stake_of_mset) (simp add: that)
    ultimately show ?thesis by simp
  qed
  have "lift_cost face ?kept \<le> s + r + stake_of ?closed"
  proof -
    have "face * ?a \<le> s + r + stake_of u" by simp
    moreover have "lift_cost face ?kept + stake_of ?kept = face * ?a \<and> stake_of ?kept + stake_of ?closed = stake_of u"
      using balance [of ?kept ?closed] split len by (simp add: add.commute)
    ultimately show ?thesis by linarith
  qed
  moreover have "s + r + stake_of rest < lift_cost face ks"
    if ks: "mset ks + mset rest = mset u" and more: "length ?kept < length ks" for ks rest
  proof -
    have "s + r + stake_of u < face * Suc ?a" using face by (simp add: dividend_less_times_div)
    also have "\<dots> \<le> face * length ks" using more len by (intro mult_le_mono2) simp
    finally show ?thesis using balance [OF ks] by linarith
  qed
  moreover have "?kept \<noteq> []" using len a(1) by fastforce
  moreover have "\<forall>x\<in>set ?closed. \<forall>y\<in>set ?kept. cn_rank x \<le> cn_rank y"
    by (intro ballI) (rule sort_key_split_le)
  ultimately show ?thesis
    using res split by - (rule exI [of _ ?closed], rule exI [of _ ?kept], blast)
qed

definition stranded_example :: "consolidation_candidate list" where
  "stranded_example =
     [\<lparr>cn_id = 1, cn_balance = 40, cn_rank = 9 / 10\<rparr>, \<lparr>cn_id = 2, cn_balance = 50, cn_rank = 1 / 10\<rparr>,
      \<lparr>cn_id = 3, cn_balance = 30, cn_rank = 5 / 10\<rparr>]"

lemma stranded_example_closes: "consolidation_closes stranded_example 0 0 100 = [2, 3]"
  by (simp add: consolidation_closes_def consolidation_pool_def stranded_example_def)

theorem consolidation_keeps_most_witness:
  "\<exists>closed kept. consolidation_closes stranded_example 0 0 100 = map cn_id closed \<and>
     mset closed + mset kept = mset stranded_example \<and> kept \<noteq> [] \<and>
     lift_cost 100 kept \<le> 0 + 0 + stake_of closed"
proof -
  have "\<forall>c\<in>set stranded_example. cn_balance c \<le> 100" by (simp add: stranded_example_def)
  moreover have "consolidation_closes stranded_example 0 0 100 \<noteq> []" by (simp add: stranded_example_closes)
  ultimately show ?thesis using consolidation_keeps_most [of stranded_example 0 0 100] by blast
qed

text \<open>
  Closing is never worse than useless: nothing is closed when the economics are unknown,
  when not even one channel could be sustained, or when the pooled stake already covers every
  candidate.
\<close>

theorem consolidation_idle:
  assumes "face = 0 \<or> s + r + stake_of u < face \<or> face * length u \<le> s + r + stake_of u"
  shows "consolidation_closes u s r face = []"
proof (rule ccontr)
  let ?pool = "s + r + stake_of u"
  assume "consolidation_closes u s r face \<noteq> []"
  from consolidation_closes_nonempty [OF this]
  have face: "0 < face" and pos: "0 < ?pool div face" and less: "?pool div face < length u" by blast+
  have "\<not> length u * face \<le> ?pool"
    using less less_eq_div_iff_mult_less_eq [OF face, of "length u" ?pool] by simp
  moreover have "\<not> ?pool < face" using pos by (auto dest: div_less)
  ultimately show False using assms face by (auto simp: mult.commute)
qed

theorem consolidation_idle_witness: "consolidation_closes stranded_example 200 0 100 = []"
  by (rule consolidation_idle) (simp add: stranded_example_def stake_of_def)

end
