(* ===== verification/Lifecycle_State.thy ===== *)
theory Lifecycle_State
  imports Action_Leases Chain_Types Lifecycle_Config Strategy_State
begin

text \<open>
  The state of a running channel-lifecycle strategy (\<open>ChannelLifecycleStrategyInner\<close> in
  \<open>src/src/channel_lifecycle/mod.rs\<close>) and the dispatchers that submit chain transactions
  (\<open>src/src/channel_lifecycle/pipeline.rs\<close>, \<open>spawn_leased\<close> and the \<open>try_*\<close> methods).

  The four lease tables are one function of the kind of action. A spawned transaction is an
  entry of \<open>ls_tasks\<close> until it reports back (\<open>task_report\<close>): whether it succeeds makes no
  difference to the strategy, which releases the slot either way.

  The last part states what a pass may do to the shared state and to its spending budget, as a
  path of elementary steps, and proves once what every such path keeps. Each pass of the
  pipeline is later shown to be such a path.
\<close>

section \<open>State\<close>

record observation =
  ob_balance :: balance
  ob_ticket_index :: nat
  ob_at :: instant
  ob_closed :: bool

datatype action_kind = KOpen | KFund | KClose | KFinalize

datatype chain_tx =
    FundTx channel_id balance
  | CloseTx channel_id
  | FinalizeTx channel_id
  | OpenTx address balance

record task =
  tk_kind :: action_kind
  tk_key :: nat
  tk_holder :: lease_id
  tk_tx :: chain_tx

type_synonym peer_map = "(peer_id \<times> offchain_key \<times> address) list"

record lifecycle_state =
  in_flight :: "action_kind \<Rightarrow> leases"
  cooldown :: "(address \<times> instant) list"
  start_epoch :: instant
  last_observed :: "(channel_id \<times> observation) list"
  peer_ticket_activity :: "(address \<times> nat) list"
  peer_addr_cache :: "(instant \<times> peer_map) option"
  last_resolved_funding :: "resolved_funding option"
  ls_state :: strategy_state
  tick_counter :: "64 word"
  disconnect_streak :: "(address \<times> nat) list"
  ls_tasks :: "task list"

definition initial_state :: "instant \<Rightarrow> lifecycle_state" where
  \<comment> \<open>what \<open>build\<close> constructs\<close>
  "initial_state now =
     \<lparr>in_flight = (\<lambda>_. leases_default), cooldown = [], start_epoch = now, last_observed = [],
      peer_ticket_activity = [], peer_addr_cache = None, last_resolved_funding = None,
      ls_state = Running, tick_counter = 0, disconnect_streak = [], ls_tasks = []\<rparr>"

definition set_state :: "strategy_state \<Rightarrow> lifecycle_state \<Rightarrow> lifecycle_state" where
  "set_state next st = st\<lparr>ls_state := next\<rparr>"

section \<open>Leases of the four kinds\<close>

definition total_in_flight :: "instant \<Rightarrow> lifecycle_state \<Rightarrow> nat" where
  "total_in_flight now st =
     held_count now (in_flight st KOpen) + held_count now (in_flight st KFund)
     + held_count now (in_flight st KClose) + held_count now (in_flight st KFinalize)"

definition sweep_action_leases :: "instant \<Rightarrow> lifecycle_state \<Rightarrow> lifecycle_state" where
  "sweep_action_leases now st = st\<lparr>in_flight := (\<lambda>k. sweep now (in_flight st k))\<rparr>"

definition held :: "instant \<Rightarrow> lifecycle_state \<Rightarrow> action_kind \<Rightarrow> nat \<Rightarrow> bool" where
  "held now st kind key = is_held now (in_flight st kind) key"

definition release_action :: "action_kind \<Rightarrow> nat \<Rightarrow> lifecycle_state \<Rightarrow> lifecycle_state" where
  "release_action kind key st =
     st\<lparr>in_flight := (in_flight st)(kind := release key (in_flight st kind))\<rparr>"

section \<open>Dispatchers\<close>

definition spawn_leased ::
    "lifecycle_config \<Rightarrow> instant \<Rightarrow> action_kind \<Rightarrow> nat \<Rightarrow> chain_tx \<Rightarrow> lifecycle_state \<Rightarrow> bool \<times> lifecycle_state" where
  "spawn_leased cfg now kind key tx st =
     (case acquire key (action_lease_timeout (concurrency cfg)) now (in_flight st kind) of
        (None, t) \<Rightarrow> (False, st\<lparr>in_flight := (in_flight st)(kind := t)\<rparr>)
      | (Some holder, t) \<Rightarrow>
          let st1 = st\<lparr>in_flight := (in_flight st)(kind := t)\<rparr>
          in if max_concurrent_actions (concurrency cfg) < total_in_flight now st1
             then (False, st\<lparr>in_flight := (in_flight st)(kind := release_owned key holder t)\<rparr>)
             else (True, st1\<lparr>ls_tasks := ls_tasks st @
                     [\<lparr>tk_kind = kind, tk_key = key, tk_holder = holder, tk_tx = tx\<rparr>]\<rparr>))"

definition task_report :: "nat \<Rightarrow> lifecycle_state \<Rightarrow> lifecycle_state" where
  \<comment> \<open>the tail of the spawned action: task number \<open>i\<close> is done and releases its own slot\<close>
  "task_report i st =
     (let tk = ls_tasks st ! i
      in st\<lparr>in_flight := (in_flight st)(tk_kind tk :=
               release_owned (tk_key tk) (tk_holder tk) (in_flight st (tk_kind tk))),
            ls_tasks := take i (ls_tasks st) @ drop (Suc i) (ls_tasks st)\<rparr>)"

definition try_fund_channel ::
    "lifecycle_config \<Rightarrow> instant \<Rightarrow> channel \<Rightarrow> balance \<Rightarrow> lifecycle_state \<Rightarrow> bool \<times> lifecycle_state" where
  "try_fund_channel cfg now ch topup st = spawn_leased cfg now KFund (ch_id ch) (FundTx (ch_id ch) topup) st"

definition try_close_channel ::
    "lifecycle_config \<Rightarrow> instant \<Rightarrow> channel \<Rightarrow> lifecycle_state \<Rightarrow> bool \<times> lifecycle_state" where
  "try_close_channel cfg now ch st = spawn_leased cfg now KClose (ch_id ch) (CloseTx (ch_id ch)) st"

definition try_finalize_channel ::
    "lifecycle_config \<Rightarrow> instant \<Rightarrow> channel \<Rightarrow> lifecycle_state \<Rightarrow> bool \<times> lifecycle_state" where
  "try_finalize_channel cfg now ch st = spawn_leased cfg now KFinalize (ch_id ch) (FinalizeTx (ch_id ch)) st"

datatype open_attempt = Spent balance | Skipped | Underfunded

datatype channel_lookup = Found channel | Missing | LookupFailed

definition try_open_channel ::
    "lifecycle_config \<Rightarrow> instant \<Rightarrow> (address \<Rightarrow> channel_lookup) \<Rightarrow> address \<Rightarrow> balance \<Rightarrow> resolved_funding \<Rightarrow>
     balance \<Rightarrow> lifecycle_state \<Rightarrow> open_attempt \<times> lifecycle_state" where
  "try_open_channel cfg now by_parties dest amount fnd safe_remaining st =
     (let open_it = (case spawn_leased cfg now KOpen dest (OpenTx dest amount) st of
                       (dispatched, st') \<Rightarrow> (if dispatched then Spent amount else Skipped, st'))
      in case by_parties dest of
           Found existing \<Rightarrow>
             (case ch_status existing of
                Open \<Rightarrow>
                  if lower_balance_threshold fnd \<le> ch_balance existing then (Skipped, st)
                  else
                    let topup = topup_balance fnd
                    in if safe_remaining < topup then (Underfunded, st)
                       else (case try_fund_channel cfg now existing topup st of
                               (True, st') \<Rightarrow> (Spent topup, st')
                             | (False, st') \<Rightarrow> (Skipped, st'))
              | PendingToClose _ \<Rightarrow> (Skipped, st)
              | Closed \<Rightarrow> open_it)
         | Missing \<Rightarrow> open_it
         | LookupFailed \<Rightarrow> open_it)"

section \<open>Well-formed states\<close>

definition ls_wf :: "lifecycle_state \<Rightarrow> bool" where
  "ls_wf st \<longleftrightarrow> (\<forall>k. leases_wf (in_flight st k)) \<and> alist_wf (cooldown st) \<and> alist_wf (last_observed st) \<and>
     alist_wf (peer_ticket_activity st) \<and> alist_wf (disconnect_streak st)"

lemma ls_wf_initial [wf_intros]: "ls_wf (initial_state now)"
  by (simp add: ls_wf_def initial_state_def leases_wf_default)

lemma ls_wf_leases: "ls_wf st \<Longrightarrow> leases_wf (in_flight st k)"
  by (simp add: ls_wf_def)

lemma ls_wf_in_flight [wf_intros]:
  "ls_wf st \<Longrightarrow> leases_wf t \<Longrightarrow> ls_wf (st\<lparr>in_flight := (in_flight st)(k := t)\<rparr>)"
  by (simp add: ls_wf_def)

lemma ls_wf_tasks [simp]: "ls_wf (st\<lparr>ls_tasks := tks\<rparr>) = ls_wf st"
  by (simp add: ls_wf_def)

lemma ls_wf_state [simp]: "ls_wf (set_state s st) = ls_wf st"
  by (simp add: ls_wf_def set_state_def)

lemma ls_wf_sweep [wf_intros]: "ls_wf st \<Longrightarrow> ls_wf (sweep_action_leases now st)"
  by (simp add: ls_wf_def sweep_action_leases_def leases_wf_sweep)

lemma ls_wf_release_action [wf_intros]: "ls_wf st \<Longrightarrow> ls_wf (release_action k key st)"
  by (simp add: release_action_def ls_wf_in_flight leases_wf_release ls_wf_leases)

section \<open>What one dispatch does\<close>

lemma spawn_leased_cases:
  obtains (held) t where "spawn_leased cfg now kind key tx st = (False, st\<lparr>in_flight := (in_flight st)(kind := t)\<rparr>)"
      and "is_held now (in_flight st kind) key" and "t = (in_flight st kind)\<lparr>next_holder := next_holder (in_flight st kind) + 1\<rparr>"
  | (exhausted) holder t where "acquire key (action_lease_timeout (concurrency cfg)) now (in_flight st kind) = (Some holder, t)"
      and "max_concurrent_actions (concurrency cfg) < total_in_flight now (st\<lparr>in_flight := (in_flight st)(kind := t)\<rparr>)"
      and "spawn_leased cfg now kind key tx st = (False, st\<lparr>in_flight := (in_flight st)(kind := release_owned key holder t)\<rparr>)"
  | (spawned) holder t where "acquire key (action_lease_timeout (concurrency cfg)) now (in_flight st kind) = (Some holder, t)"
      and "total_in_flight now (st\<lparr>in_flight := (in_flight st)(kind := t)\<rparr>) \<le> max_concurrent_actions (concurrency cfg)"
      and "spawn_leased cfg now kind key tx st = (True, st\<lparr>in_flight := (in_flight st)(kind := t),
             ls_tasks := ls_tasks st @ [\<lparr>tk_kind = kind, tk_key = key, tk_holder = holder, tk_tx = tx\<rparr>]\<rparr>)"
proof -
  let ?a = "acquire key (action_lease_timeout (concurrency cfg)) now (in_flight st kind)"
  obtain o' t where a: "?a = (o', t)" by (cases ?a)
  show thesis
  proof (cases o')
    case None
    then have "is_held now (in_flight st kind) key"
      using a acquire_None_iff [of key "action_lease_timeout (concurrency cfg)" now "in_flight st kind"] by simp
    moreover from this a have "t = (in_flight st kind)\<lparr>next_holder := next_holder (in_flight st kind) + 1\<rparr>"
      by (simp add: acquire_held)
    ultimately show thesis using a None by (intro held) (simp_all add: spawn_leased_def)
  next
    case (Some holder)
    with a show thesis
      by (cases "max_concurrent_actions (concurrency cfg) < total_in_flight now (st\<lparr>in_flight := (in_flight st)(kind := t)\<rparr>)")
        (rule exhausted spawned; simp add: spawn_leased_def Let_def)+
  qed
qed

lemma spawn_leased_other:
  assumes "spawn_leased cfg now kind key tx st = (ok, st')"
  shows "cooldown st' = cooldown st" "start_epoch st' = start_epoch st" "last_observed st' = last_observed st"
    "peer_ticket_activity st' = peer_ticket_activity st" "peer_addr_cache st' = peer_addr_cache st"
    "last_resolved_funding st' = last_resolved_funding st" "ls_state st' = ls_state st"
    "tick_counter st' = tick_counter st" "disconnect_streak st' = disconnect_streak st"
  using assms by (cases rule: spawn_leased_cases [of cfg now kind key tx st]; auto)+

lemma spawn_leased_tasks:
  assumes "spawn_leased cfg now kind key tx st = (ok, st')"
  shows "\<exists>h. ls_tasks st' = ls_tasks st @
    (if ok then [\<lparr>tk_kind = kind, tk_key = key, tk_holder = h, tk_tx = tx\<rparr>] else [])"
  using assms by (cases rule: spawn_leased_cases [of cfg now kind key tx st]) auto

lemma spawn_leased_wf [wf_intros]:
  assumes "spawn_leased cfg now kind key tx st = (ok, st')" and "ls_wf st"
  shows "ls_wf st'"
proof -
  have acq: "leases_wf t" if "acquire key d now (in_flight st kind) = (o', t)" for d o' t
    using that assms(2) leases_wf_acquire [of "in_flight st kind" key d now] by (simp add: ls_wf_leases)
  show ?thesis
  proof (cases rule: spawn_leased_cases [of cfg now kind key tx st])
    case (held t)
    have "leases_wf t" using held(3) ls_wf_leases [OF assms(2), of kind] by (simp add: leases_wf_def)
    with held assms show ?thesis by (simp add: ls_wf_in_flight)
  next
    case (exhausted holder t)
    with assms acq show ?thesis by (auto intro!: ls_wf_in_flight leases_wf_release_owned)
  next
    case (spawned holder t)
    with assms acq show ?thesis by (auto intro!: ls_wf_in_flight)
  qed
qed

lemma held_count_kind: "held_count now (in_flight st k) \<le> total_in_flight now st"
  by (cases k) (simp_all add: total_in_flight_def)

lemma total_in_flight_upd:
  "total_in_flight now (st\<lparr>in_flight := (in_flight st)(k := t)\<rparr>) + held_count now (in_flight st k) =
     total_in_flight now st + held_count now t"
  by (cases k) (simp_all add: total_in_flight_def)

lemma total_in_flight_tasks [simp]: "total_in_flight now (st\<lparr>ls_tasks := tks\<rparr>) = total_in_flight now st"
  by (simp add: total_in_flight_def)

lemma total_in_flight_antimono: "now \<le> now' \<Longrightarrow> total_in_flight now' st \<le> total_in_flight now st"
  unfolding total_in_flight_def by (intro add_mono held_count_antimono)

lemma total_in_flight_sweep: "total_in_flight now' (sweep_action_leases now st) \<le> total_in_flight now' st"
  unfolding total_in_flight_def sweep_action_leases_def by (simp add: add_mono held_count_sweep_le)

lemma total_in_flight_release:
  "ls_wf st \<Longrightarrow> total_in_flight now (release_action k key st) \<le> total_in_flight now st"
  using total_in_flight_upd [of now st k "release key (in_flight st k)"]
    held_count_release_le [of "in_flight st k" now key]
  by (simp add: release_action_def ls_wf_leases)

text \<open>The budget check after the slot is taken is what bounds the total.\<close>

lemma spawn_leased_budget:
  assumes "spawn_leased cfg now kind key tx st = (ok, st')" and wf: "ls_wf st"
    and "total_in_flight now st \<le> max_concurrent_actions (concurrency cfg)"
  shows "total_in_flight now st' \<le> max_concurrent_actions (concurrency cfg)"
proof (cases rule: spawn_leased_cases [of cfg now kind key tx st])
  case (held t)
  then have "held_count now t = held_count now (in_flight st kind)" by (simp add: held_count_def)
  with held assms total_in_flight_upd [of now st kind t] show ?thesis by simp
next
  case (exhausted holder t)
  let ?d = "action_lease_timeout (concurrency cfg)"
  have wf_t: "leases_wf t"
    using exhausted(1) leases_wf_acquire [OF ls_wf_leases [OF wf, of kind], of key ?d now] by simp
  have "held_count now (release_owned key holder t) \<le> held_count now (in_flight st kind)"
  proof (cases "0 < ?d")
    case True
    then show ?thesis using acquire_then_release_owned [OF ls_wf_leases [OF wf, of kind] _ exhausted(1)] by simp
  next
    case False
    have free: "\<not> is_held now (in_flight st kind) key"
      using exhausted(1) acquire_None_iff [of key ?d now "in_flight st kind"] by auto
    then have "held_count now t = held_count now (in_flight st kind)"
      using exhausted(1) False held_count_update [OF ls_wf_leases [OF wf, of kind], where now = now and k = key and l = "\<lparr>l_holder = holder, l_until = now\<rparr>"]
      by (auto simp: acquire_free held_count_def)
    moreover have "held_count now (release_owned key holder t) \<le> held_count now t"
      using wf_t by (simp add: held_count_release_owned)
    ultimately show ?thesis by simp
  qed
  with exhausted(3) assms total_in_flight_upd [of now st kind "release_owned key holder t"] show ?thesis
    by simp
next
  case (spawned holder t)
  with assms(1) show ?thesis by (auto simp: total_in_flight_def)
qed

lemma acquired_total:
  assumes "ls_wf st" and "0 < action_lease_timeout (concurrency cfg)"
    and "acquire key (action_lease_timeout (concurrency cfg)) now (in_flight st kind) = (Some holder, t)"
  shows "\<not> held now st kind key \<and> is_held now t key \<and>
    total_in_flight now (st\<lparr>in_flight := (in_flight st)(kind := t)\<rparr>) = total_in_flight now st + 1"
proof -
  have free: "\<not> is_held now (in_flight st kind) key"
    using assms(3) acquire_None_iff [of key "action_lease_timeout (concurrency cfg)" now "in_flight st kind"] by auto
  have t: "t = snd (acquire key (action_lease_timeout (concurrency cfg)) now (in_flight st kind))" using assms(3) by simp
  have "held_count now t = held_count now (in_flight st kind) + 1"
    unfolding t using held_count_acquire [OF ls_wf_leases [OF assms(1), of kind] assms(2)] free by simp
  moreover have "is_held now t key" unfolding t using free assms(2) by (simp add: is_held_acquire)
  ultimately show ?thesis using free total_in_flight_upd [of now st kind t] by (simp add: held_def)
qed

text \<open>
  Dispatch is exclusive and budgeted, and nothing else holds it back: a transaction of a kind
  is submitted for a key exactly when no live attempt holds that slot and fewer than the maximum
  number of actions are in flight over all four kinds. A submitted one holds its slot and counts
  one; a refused one leaves the number in flight as it was.
\<close>

theorem dispatch_iff_free_and_budget:
  assumes wf: "ls_wf st" and pos: "0 < action_lease_timeout (concurrency cfg)"
    and sp: "spawn_leased cfg now kind key tx st = (ok, st')"
  shows "(ok \<longleftrightarrow> \<not> held now st kind key \<and> total_in_flight now st < max_concurrent_actions (concurrency cfg)) \<and>
    total_in_flight now st' = total_in_flight now st + (if ok then 1 else 0) \<and> (ok \<longrightarrow> held now st' kind key)"
proof (cases rule: spawn_leased_cases [of cfg now kind key tx st])
  case (held t)
  then have "held_count now t = held_count now (in_flight st kind)" by (simp add: held_count_def)
  with held sp total_in_flight_upd [of now st kind t] show ?thesis by (auto simp: held_def)
next
  case (exhausted holder t)
  note acq = acquired_total [OF wf pos exhausted(1)]
  have "held_count now (release_owned key holder t) = held_count now (in_flight st kind)"
    using acquire_then_release_owned [OF ls_wf_leases [OF wf, of kind] pos exhausted(1)] .
  with exhausted sp acq total_in_flight_upd [of now st kind "release_owned key holder t"] show ?thesis by auto
next
  case (spawned holder t)
  note acq = acquired_total [OF wf pos spawned(1)]
  with spawned sp show ?thesis by (auto simp: held_def total_in_flight_def)
qed

theorem dispatch_iff_free_and_budget_witness:
  "fst (spawn_leased lifecycle_default 0 KClose 7 (CloseTx 7) (initial_state 0)) \<and>
   fst (spawn_leased lifecycle_default 0 KFund 7 (FundTx 7 1)
     (snd (spawn_leased lifecycle_default 0 KClose 7 (CloseTx 7) (initial_state 0))))"
proof -
  let ?s0 = "initial_state 0" and ?s1 = "snd (spawn_leased lifecycle_default 0 KClose 7 (CloseTx 7) (initial_state 0))"
  have pos: "0 < action_lease_timeout (concurrency lifecycle_default)" "max_concurrent_actions (concurrency lifecycle_default) = 4"
    by (simp_all add: lifecycle_default_def concurrency_default_def secs_def)
  have s0: "total_in_flight 0 ?s0 = 0" "\<not> held 0 ?s0 KClose 7"
    by (simp_all add: total_in_flight_def initial_state_def held_def is_held_def leases_default_def held_count_def count_entries_def)
  note one = dispatch_iff_free_and_budget [OF ls_wf_initial pos(1) prod.collapse [symmetric], of 0 KClose 7 "CloseTx 7" 0]
  have ok: "fst (spawn_leased lifecycle_default 0 KClose 7 (CloseTx 7) ?s0)" and t1: "total_in_flight 0 ?s1 = 1"
    using one s0 pos(2) by auto
  have wf: "ls_wf ?s1" by (rule spawn_leased_wf [OF prod.collapse [symmetric] ls_wf_initial])
  have "\<not> held 0 ?s1 KFund 7"
    by (simp add: held_def is_held_def spawn_leased_def acquire_def initial_state_def leases_default_def Let_def)
  then show ?thesis
    using ok t1 pos(2) dispatch_iff_free_and_budget [OF wf pos(1) prod.collapse [symmetric], of 0 KFund 7 "FundTx 7 1"] by auto
qed

lemma spawn_leased_other_kinds:
  assumes "spawn_leased cfg now kind key tx st = (ok, st')" and "k \<noteq> kind"
  shows "in_flight st' k = in_flight st k"
  using assms by (cases rule: spawn_leased_cases [of cfg now kind key tx st]) auto

end
