(* ===== verification/Dispatch_Path.thy ===== *)
theory Dispatch_Path
  imports Lifecycle_State
begin

text \<open>
  The abstract specification of a pass: what the passes of one tick may do to the shared state
  and to the spending budget of the tick. A pass tries dispatches, each charged against the
  budget when it goes through, and may raise the severity the tick will publish. Every such
  path keeps the action budget, spends no more than it is charged for, only adds transactions
  the pass is allowed to submit, and leaves everything but the leases alone.

  The locale \<open>pass_body\<close> is the contract of a loop body that is such a path; the passes of the
  pipeline are interpretations of it.
\<close>

record budget_run =
  br_st :: lifecycle_state
  br_safe :: balance
  br_severity :: strategy_state

fun tx_kind :: "chain_tx \<Rightarrow> action_kind" where
  "tx_kind (FundTx c b) = KFund"
| "tx_kind (CloseTx c) = KClose"
| "tx_kind (FinalizeTx c) = KFinalize"
| "tx_kind (OpenTx a b) = KOpen"

fun tx_key :: "chain_tx \<Rightarrow> nat" where
  "tx_key (FundTx c b) = c"
| "tx_key (CloseTx c) = c"
| "tx_key (FinalizeTx c) = c"
| "tx_key (OpenTx a b) = a"

fun tx_cost :: "chain_tx \<Rightarrow> balance" where
  "tx_cost (FundTx c b) = b"
| "tx_cost (CloseTx c) = 0"
| "tx_cost (FinalizeTx c) = 0"
| "tx_cost (OpenTx a b) = b"

definition spawn_tx :: "lifecycle_config \<Rightarrow> instant \<Rightarrow> chain_tx \<Rightarrow> lifecycle_state \<Rightarrow> bool \<times> lifecycle_state" where
  "spawn_tx cfg now tx st = spawn_leased cfg now (tx_kind tx) (tx_key tx) tx st"

lemma dispatchers_spawn_tx:
  "try_fund_channel cfg now ch b st = spawn_tx cfg now (FundTx (ch_id ch) b) st"
  "try_close_channel cfg now ch st = spawn_tx cfg now (CloseTx (ch_id ch)) st"
  "try_finalize_channel cfg now ch st = spawn_tx cfg now (FinalizeTx (ch_id ch)) st"
  by (simp_all add: spawn_tx_def try_fund_channel_def try_close_channel_def try_finalize_channel_def)

inductive pass_step ::
    "lifecycle_config \<Rightarrow> instant \<Rightarrow> (chain_tx \<Rightarrow> bool) \<Rightarrow> budget_run \<Rightarrow> budget_run \<Rightarrow> bool"
  for cfg now allowed where
  dispatched: "spawn_tx cfg now tx (br_st r) = (True, st') \<Longrightarrow> allowed tx \<Longrightarrow> tx_cost tx \<le> br_safe r \<Longrightarrow>
    pass_step cfg now allowed r (r\<lparr>br_st := st', br_safe := br_safe r - tx_cost tx\<rparr>)"
| throttled: "spawn_tx cfg now tx (br_st r) = (False, st') \<Longrightarrow> allowed tx \<Longrightarrow>
    pass_step cfg now allowed r (r\<lparr>br_st := st'\<rparr>)"
| raised: "pass_step cfg now allowed r (r\<lparr>br_severity := max (br_severity r) s\<rparr>)"

inductive pass_path ::
    "lifecycle_config \<Rightarrow> instant \<Rightarrow> (chain_tx \<Rightarrow> bool) \<Rightarrow> budget_run \<Rightarrow> budget_run \<Rightarrow> bool"
  for cfg now allowed where
  path_refl: "pass_path cfg now allowed r r"
| path_step: "pass_path cfg now allowed r s \<Longrightarrow> pass_step cfg now allowed s t \<Longrightarrow> pass_path cfg now allowed r t"

lemma pass_path_trans: "pass_path cfg now P s t \<Longrightarrow> pass_path cfg now P r s \<Longrightarrow> pass_path cfg now P r t"
  by (induction rule: pass_path.induct) (auto intro: pass_path.intros)

lemma pass_path_single: "pass_step cfg now P r s \<Longrightarrow> pass_path cfg now P r s"
  by (blast intro: pass_path.intros)

lemma pass_path_mono:
  assumes "pass_path cfg now P r s" and "\<And>tx. P tx \<Longrightarrow> Q tx"
  shows "pass_path cfg now Q r s"
  using assms(1)
proof induction
  case (path_step r s t)
  from path_step(2) have "pass_step cfg now Q s t"
    by cases (auto intro: pass_step.intros assms(2))
  with path_step(3) show ?case by (rule pass_path.path_step)
qed (rule path_refl)

lemma pass_path_raise: "pass_path cfg now P r (r\<lparr>br_severity := max (br_severity r) s\<rparr>)"
  by (intro pass_path_single raised)

text \<open>One dispatch, with the charge the code makes when it went through.\<close>

lemma pass_path_dispatch:
  assumes "spawn_tx cfg now tx (br_st r) = (ok, st')" and "P tx" and "tx_cost tx \<le> br_safe r"
  shows "pass_path cfg now P r (r\<lparr>br_st := st', br_safe := br_safe r - (if ok then tx_cost tx else 0)\<rparr>)"
proof (cases ok)
  case True
  with assms show ?thesis by (auto intro: pass_path_single dispatched)
next
  case False
  with assms have "pass_path cfg now P r (r\<lparr>br_st := st'\<rparr>)" by (auto intro: pass_path_single throttled)
  with False show ?thesis by simp
qed

section \<open>What every path keeps\<close>

definition path_kept :: "lifecycle_state \<Rightarrow> lifecycle_state \<Rightarrow> bool" where
  "path_kept st st' \<longleftrightarrow>
     cooldown st' = cooldown st \<and> start_epoch st' = start_epoch st \<and> last_observed st' = last_observed st \<and>
     peer_ticket_activity st' = peer_ticket_activity st \<and> peer_addr_cache st' = peer_addr_cache st \<and>
     last_resolved_funding st' = last_resolved_funding st \<and> ls_state st' = ls_state st \<and>
     tick_counter st' = tick_counter st \<and> disconnect_streak st' = disconnect_streak st"

lemma path_kept_spawn: "spawn_tx cfg now tx st = (ok, st') \<Longrightarrow> path_kept st st'"
  unfolding spawn_tx_def path_kept_def by (blast dest: spawn_leased_other)

lemma path_kept_trans: "path_kept r s \<Longrightarrow> path_kept s t \<Longrightarrow> path_kept r t"
  by (simp add: path_kept_def)

lemma path_kept_refl [simp]: "path_kept r r"
  by (simp add: path_kept_def)

lemma pass_path_kept: "pass_path cfg now P r s \<Longrightarrow> path_kept (br_st r) (br_st s)"
proof (induction rule: pass_path.induct)
  case (path_step r s t)
  from path_step(2) have "path_kept (br_st s) (br_st t)" by cases (auto dest: path_kept_spawn)
  with path_step(3) show ?case by (rule path_kept_trans)
qed simp

lemma pass_path_wf: "pass_path cfg now P r s \<Longrightarrow> ls_wf (br_st r) \<Longrightarrow> ls_wf (br_st s)"
proof (induction rule: pass_path.induct)
  case (path_step r s t)
  from path_step(2) have "ls_wf (br_st s) \<Longrightarrow> ls_wf (br_st t)"
    by cases (auto simp: spawn_tx_def intro: spawn_leased_wf)
  with path_step show ?case by blast
qed

lemma pass_path_budget:
  "pass_path cfg now P r s \<Longrightarrow> ls_wf (br_st r) \<Longrightarrow>
     total_in_flight now (br_st r) \<le> max_concurrent_actions (concurrency cfg) \<Longrightarrow>
     total_in_flight now (br_st s) \<le> max_concurrent_actions (concurrency cfg)"
proof (induction rule: pass_path.induct)
  case (path_step r s t)
  have "ls_wf (br_st s)" using path_step(1,4) by (rule pass_path_wf)
  with path_step(2) path_step show ?case
    by cases (auto simp: spawn_tx_def dest: spawn_leased_budget)
qed

lemma pass_path_severity: "pass_path cfg now P r s \<Longrightarrow> br_severity r \<le> br_severity s"
proof (induction rule: pass_path.induct)
  case (path_step r s t)
  from path_step(2) have "br_severity s \<le> br_severity t" by cases simp_all
  with path_step(3) show ?case by simp
qed simp

definition task_ok :: "(chain_tx \<Rightarrow> bool) \<Rightarrow> task \<Rightarrow> bool" where
  "task_ok P tk \<longleftrightarrow> P (tk_tx tk) \<and> tk_kind tk = tx_kind (tk_tx tk) \<and> tk_key tk = tx_key (tk_tx tk)"

definition spent :: "task list \<Rightarrow> nat" where
  "spent tks = (\<Sum>tk\<leftarrow>tks. tx_cost (tk_tx tk))"

text \<open>The new transactions are allowed ones, and the budget pays for exactly them.\<close>

lemma pass_path_tasks:
  "pass_path cfg now P r s \<Longrightarrow>
     \<exists>tks. ls_tasks (br_st s) = ls_tasks (br_st r) @ tks \<and> (\<forall>tk\<in>set tks. task_ok P tk) \<and>
       spent tks + br_safe s = br_safe r"
proof (induction rule: pass_path.induct)
  case (path_refl r)
  show ?case by (simp add: spent_def)
next
  case (path_step r s t)
  then obtain tks where tks: "ls_tasks (br_st s) = ls_tasks (br_st r) @ tks" "\<forall>tk\<in>set tks. task_ok P tk"
    "spent tks + br_safe s = br_safe r" by blast
  from path_step(2) show ?case
  proof cases
    case (dispatched tx st')
    obtain h where h: "ls_tasks st' = ls_tasks (br_st s) @
        [\<lparr>tk_kind = tx_kind tx, tk_key = tx_key tx, tk_holder = h, tk_tx = tx\<rparr>]"
      using spawn_leased_tasks dispatched(2) by (fastforce simp: spawn_tx_def)
    let ?tk = "\<lparr>tk_kind = tx_kind tx, tk_key = tx_key tx, tk_holder = h, tk_tx = tx\<rparr>"
    have "\<forall>tk\<in>set (tks @ [?tk]). task_ok P tk" using tks(2) dispatched(3) by (simp add: task_ok_def)
    moreover have "spent (tks @ [?tk]) + br_safe t = br_safe r"
      using tks(3) dispatched by (simp add: spent_def)
    moreover have "ls_tasks (br_st t) = ls_tasks (br_st r) @ (tks @ [?tk])" using tks(1) dispatched h by simp
    ultimately show ?thesis by blast
  next
    case (throttled tx st')
    then have "ls_tasks st' = ls_tasks (br_st s)"
      using spawn_leased_tasks by (fastforce simp: spawn_tx_def)
    with tks throttled show ?thesis by auto
  next
    case (raised s')
    with tks show ?thesis by auto
  qed
qed

section \<open>Loop bodies that are paths\<close>

locale pass_body =
  fixes cfg :: lifecycle_config
    and now :: instant
    and allowed :: "chain_tx \<Rightarrow> bool"
    and ok :: "'x \<Rightarrow> bool"
    and body :: "'x \<Rightarrow> budget_run \<times> 'e \<Rightarrow> (budget_run \<times> 'e) \<times> loop_ctl"
  assumes body_path: "ok x \<Longrightarrow> pass_path cfg now allowed (fst s) (fst (fst (body x s)))"

sublocale pass_body \<subseteq> path: loop_body body ok "\<lambda>s. pass_path cfg now allowed r0 (fst s)" for r0
  by unfold_locales (blast intro: pass_path_trans body_path)

context pass_body
begin

lemma loop_path: "\<forall>x\<in>set xs. ok x \<Longrightarrow> pass_path cfg now allowed (fst s) (fst (for_loop body xs s))"
  by (rule path.loop_inv) (simp_all add: path_refl)

end

end
