(* ===== verification/Lifecycle_Reads.thy ===== *)
theory Lifecycle_Reads
  imports Lifecycle_State Selector
begin

text \<open>
  The read side of the pipeline (\<open>src/src/channel_lifecycle/pipeline.rs\<close>): the safe's budget, the
  cached peer map, the edge data of a peer, the proactive drain estimate, and the two views the
  selectors rank with. What the chain, the graph and the network answer are arguments. A
  \<open>HashMap\<close> that is only looked up is an association list; \<open>collect\<close> into one keeps the last
  entry of a key, as \<^const>\<open>AList.update\<close> does.
\<close>

section \<open>Safe and economics\<close>

record safe_budget =
  sb_balance :: balance
  sb_spendable :: balance

record safe_reads =
  q_safe_info :: "address option read_op"
  q_safe_balance :: "address \<Rightarrow> balance read_op"
  q_safe_allowance :: "address \<Rightarrow> balance read_op"

definition safe_balance_budget :: "instant \<Rightarrow> safe_reads \<Rightarrow> safe_budget option" where
  "safe_balance_budget deadline q =
     (case chain_read deadline (q_safe_info q) of
        None \<Rightarrow> None
      | Some None \<Rightarrow> Some \<lparr>sb_balance = 0, sb_spendable = 0\<rparr>
      | Some (Some safe) \<Rightarrow>
          (case chain_read deadline (q_safe_balance q safe) of
             None \<Rightarrow> None
           | Some balance \<Rightarrow>
               (case chain_read deadline (q_safe_allowance q safe) of
                  None \<Rightarrow> None
                | Some allowance \<Rightarrow> Some \<lparr>sb_balance = balance, sb_spendable = min balance allowance\<rparr>)))"

lemma safe_balance_budget_spendable: "safe_balance_budget d q = Some b \<Longrightarrow> sb_spendable b \<le> sb_balance b"
  by (auto simp: safe_balance_budget_def split: option.splits)

definition est_tx_time :: "lifecycle_config \<Rightarrow> instant \<Rightarrow> duration read_op \<Rightarrow> duration" where
  "est_tx_time cfg deadline q =
     unwrap_or (chain_read deadline q) (fallback_chain_op_duration (proactive_funding cfg))"

definition read_deadline :: "lifecycle_config \<Rightarrow> instant \<Rightarrow> instant" where
  "read_deadline cfg now = now + chain_read_timeout (concurrency cfg)"

section \<open>Peers\<close>

record account =
  acc_key :: offchain_key
  acc_chain_addr :: address
  acc_safe :: "address option"

definition peer_addr_cache_ttl :: duration where
  "peer_addr_cache_ttl = secs (5 * 60)"

definition accounts_to_map :: "(offchain_key \<Rightarrow> peer_id) \<Rightarrow> account list \<Rightarrow> peer_map" where
  "accounts_to_map peer_of accounts =
     fold (\<lambda>a m. AList.update (peer_of (acc_key a)) (acc_key a, acc_chain_addr a) m) accounts []"

definition peer_addr_map ::
    "(offchain_key \<Rightarrow> peer_id) \<Rightarrow> instant \<Rightarrow> instant \<Rightarrow> account list read_op \<Rightarrow> lifecycle_state \<Rightarrow>
     peer_map option \<times> lifecycle_state" where
  "peer_addr_map peer_of now deadline q st =
     (let cached = (case peer_addr_cache st of
                      Some (refreshed_at, m) \<Rightarrow> if now - refreshed_at < peer_addr_cache_ttl then Some m else None
                    | None \<Rightarrow> None)
      in case cached of
           Some m \<Rightarrow> (Some m, st)
         | None \<Rightarrow>
             (case chain_read deadline q of
                None \<Rightarrow> (None, st)
              | Some accounts \<Rightarrow>
                  let m = accounts_to_map peer_of accounts
                  in (Some m, st\<lparr>peer_addr_cache := Some (now, m)\<rparr>)))"

record graph_edge =
  ge_score :: "rat option"
  ge_last_update :: duration
  ge_qos :: "(duration option \<times> rat option \<times> rat option) option"

definition peer_edge_info :: "(offchain_key \<Rightarrow> graph_edge option) \<Rightarrow> offchain_key \<Rightarrow> peer_edge_info" where
  "peer_edge_info edge pk =
     (case edge pk of
        Some e \<Rightarrow>
          (case (case ge_qos e of Some qos \<Rightarrow> qos | None \<Rightarrow> (None, None, None)) of
             (lat, probe, ack) \<Rightarrow>
               \<lparr>edge_score = ge_score e, last_update = ge_last_update e, average_latency = lat,
                probe_success_rate = probe, ack_rate = ack\<rparr>)
      | None \<Rightarrow> peer_edge_default)"

section \<open>The proactive estimate\<close>

definition as_secs_f64 :: "duration \<Rightarrow> rat" where
  "as_secs_f64 d = of_nat d / 1000000000"

definition proactive_fund_needed ::
    "lifecycle_config \<Rightarrow> instant \<Rightarrow> (channel_id \<times> observation) list \<Rightarrow> rat \<Rightarrow> rat \<Rightarrow> balance \<Rightarrow> channel \<Rightarrow> bool" where
  "proactive_fund_needed cfg now prev_obs est_tx_secs min_ticket_price_wei lower_threshold ch =
     (let pf = proactive_funding cfg
      in if \<not> pf_enabled pf then False
         else case map_of prev_obs (ch_id ch) of
                None \<Rightarrow> False
              | Some obs \<Rightarrow>
                  let lookback_secs = max (as_secs_f64 (depletion_lookback pf)) 1;
                      elapsed = max (as_secs_f64 (now - ob_at obs)) (1 / 100);
                      balance_prev = of_nat (low_u128 (ob_balance obs));
                      balance_current = of_nat (low_u128 (ch_balance ch));
                      balance_delta = max (balance_prev - balance_current) 0;
                      balance_drain_rate = max (balance_drain_weight pf * balance_delta / min elapsed lookback_secs) 0;
                      ticket_delta = of_nat (ch_ticket_index ch - ob_ticket_index obs);
                      ticket_drain_rate =
                        max (ticket_index_drain_weight pf * ticket_delta * min_ticket_price_wei / min elapsed lookback_secs) 0;
                      drain_rate = balance_drain_rate + ticket_drain_rate;
                      projected_drain = drain_rate * est_tx_secs * safety_margin pf;
                      balance_after = balance_current - projected_drain;
                      threshold = (of_nat (low_u128 lower_threshold) :: rat)
                  in balance_after < threshold)"

section \<open>Views for the selectors\<close>

definition forwards :: "address list \<Rightarrow> address \<Rightarrow> balance \<Rightarrow> channel \<Rightarrow> bool" where
  \<comment> \<open>the negation of the condition under which an edge is skipped\<close>
  "forwards addrs me min_onward ch \<longleftrightarrow>
     \<not> (ch_source ch \<notin> set addrs \<or> ch_balance ch < min_onward \<or> ch_destination ch = me)"

definition fetch_forwarding_view ::
    "address \<Rightarrow> instant \<Rightarrow> channel list read_op \<Rightarrow> open_candidate list \<Rightarrow> balance \<Rightarrow> forwarding_view" where
  "fetch_forwarding_view me deadline q cands min_onward =
     (let addrs = map oc_addr cands
      in if addrs = [] then []
         else case chain_read deadline q of
                None \<Rightarrow> []
              | Some chs \<Rightarrow>
                  fold (\<lambda>ch m. if \<not> forwards addrs me min_onward ch then m else upsert (ch_source ch) Suc 1 m) chs [])"

definition stake_amount :: "(address \<Rightarrow> balance outcome) \<Rightarrow> (address \<times> address) list \<Rightarrow> address \<Rightarrow> rat" where
  "stake_amount balance_of safe_map addr =
     (case map_of safe_map addr of
        None \<Rightarrow> 0
      | Some safe \<Rightarrow>
          (case balance_of safe of Answer b \<Rightarrow> of_nat (low_u128 b) | Failure \<Rightarrow> 0 | Timeout \<Rightarrow> 0))"

definition safe_map_of :: "account list \<Rightarrow> (address \<times> address) list" where
  "safe_map_of accounts =
     fold (\<lambda>a m. case acc_safe a of Some s \<Rightarrow> AList.update (acc_chain_addr a) s m | None \<Rightarrow> m) accounts []"

definition fetch_stake_view ::
    "platform \<Rightarrow> instant \<Rightarrow> account list read_op \<Rightarrow> (address \<Rightarrow> balance outcome) \<Rightarrow>
     close_candidate list \<Rightarrow> open_candidate list \<Rightarrow> stake_view" where
  "fetch_stake_view pf deadline q balance_of closes opens =
     (let addresses = remdups (map (ch_destination \<circ> cc_channel) closes @ map oc_addr opens)
      in if addresses = [] then []
         else case chain_read deadline q of
                None \<Rightarrow> []
              | Some accounts \<Rightarrow>
                  let raw = map (\<lambda>a. (a, stake_amount balance_of (safe_map_of accounts) a)) addresses;
                      max_amount = fold max (map snd raw) 0
                  in if max_amount > 0
                     then map (\<lambda>(a, amount). (a, min (ln_1p pf amount / ln_1p pf max_amount) 1)) raw
                     else [])"

section \<open>What the views say\<close>

lemma forwarding_fold:
  "unwrap_or (map_of (fold (\<lambda>ch m. if \<not> Q ch then m else upsert (ch_source ch) Suc 1 m) chs m) a) 0 =
     unwrap_or (map_of m a) 0 + length (filter (\<lambda>ch. Q ch \<and> ch_source ch = a) chs)"
  by (induction chs arbitrary: m) (auto simp: alist_lookups unwrap_or_def split: option.splits)

lemma outgoing_channels_unwrap: "outgoing_channels v a = unwrap_or (map_of v a) 0"
  by (simp add: outgoing_channels_def unwrap_or_def)

text \<open>
  The forwarding view counts, for every candidate, exactly its usable onward channels: the
  open channels it sources that hold at least one winning-ticket face value and do not lead back
  to this node. An address that is not a candidate counts zero.
\<close>

theorem forwarding_view_counts:
  assumes "chain_read deadline q = Some chs"
  shows "outgoing_channels (fetch_forwarding_view me deadline q cands min_onward) a =
    (if a \<in> oc_addr ` set cands
     then length (filter (\<lambda>ch. ch_source ch = a \<and> min_onward \<le> ch_balance ch \<and> ch_destination ch \<noteq> me) chs)
     else 0)"
proof (cases "cands = []")
  case True
  then show ?thesis by (simp add: fetch_forwarding_view_def outgoing_channels_def)
next
  case False
  let ?Q = "forwards (map oc_addr cands) me min_onward"
  have "outgoing_channels (fetch_forwarding_view me deadline q cands min_onward) a =
      length (filter (\<lambda>ch. ?Q ch \<and> ch_source ch = a) chs)"
    using False assms forwarding_fold [of ?Q chs "[]" a]
    by (simp add: fetch_forwarding_view_def outgoing_channels_unwrap Let_def unwrap_or_def)
  moreover have "(?Q ch \<and> ch_source ch = a) \<longleftrightarrow>
      (a \<in> oc_addr ` set cands \<and> ch_source ch = a \<and> min_onward \<le> ch_balance ch \<and> ch_destination ch \<noteq> me)" for ch
    by (auto simp: forwards_def)
  ultimately show ?thesis by simp
qed

definition onward_example :: "channel list" where
  "onward_example =
     [\<lparr>ch_id = 1, ch_source = 7, ch_destination = 8, ch_balance = 50, ch_ticket_index = 0, ch_status = Open\<rparr>,
      \<lparr>ch_id = 2, ch_source = 7, ch_destination = 9, ch_balance = 3, ch_ticket_index = 0, ch_status = Open\<rparr>,
      \<lparr>ch_id = 3, ch_source = 7, ch_destination = 1, ch_balance = 90, ch_ticket_index = 0, ch_status = Open\<rparr>]"

definition peer_7 :: open_candidate where
  "peer_7 = \<lparr>oc_addr = 7, oc_key = 70, oc_edge = peer_edge_default, oc_ticket_score = None, oc_subnet = Unknown\<rparr>"

theorem forwarding_view_counts_witness:
  "outgoing_channels (fetch_forwarding_view 1 10 (0, Answer onward_example) [peer_7] 10) 7 = 1"
  using forwarding_view_counts [of 10 "(0, Answer onward_example)" onward_example 1 "[peer_7]" 10 7]
  by (simp add: chain_read_Some onward_example_def peer_7_def)

lemma fold_max_ge_start: "a \<le> fold max xs (a :: 'a :: linorder)"
proof (induction xs arbitrary: a)
  case (Cons x xs)
  have "a \<le> max x a" by simp
  also have "\<dots> \<le> fold max xs (max x a)" by (rule Cons.IH)
  finally show ?case by simp
qed simp

lemma fold_max_ge: "x \<in> set xs \<Longrightarrow> x \<le> fold max xs (a :: 'a :: linorder)"
proof (induction xs arbitrary: a)
  case (Cons y xs)
  have "y \<le> fold max xs (max y a)" by (rule order_trans [OF _ fold_max_ge_start]) simp
  with Cons show ?case by auto
qed simp

lemma fold_max_in: "fold max xs (a :: 'a :: linorder) \<in> insert a (set xs)"
proof (induction xs arbitrary: a)
  case (Cons x xs)
  from Cons.IH [of "max x a"] show ?case by (auto simp: max_def split: if_splits)
qed simp

lemma stake_amount_nonneg: "0 \<le> stake_amount b m a"
  by (simp add: stake_amount_def split: option.splits outcome.splits)

lemma fetch_stake_view_cases:
  obtains (empty) "fetch_stake_view pf deadline q b closes opens = []"
  | (scores) accounts addresses mx where
      "fetch_stake_view pf deadline q b closes opens =
         map (\<lambda>a. (a, min (ln_1p pf (stake_amount b (safe_map_of accounts) a) / ln_1p pf mx) 1)) addresses"
      and "0 < mx" and "\<forall>a\<in>set addresses. stake_amount b (safe_map_of accounts) a \<le> mx"
      and "\<exists>a\<in>set addresses. stake_amount b (safe_map_of accounts) a = mx"
proof (cases "fetch_stake_view pf deadline q b closes opens = []")
  case False
  let ?as = "remdups (map (ch_destination \<circ> cc_channel) closes @ map oc_addr opens)"
  obtain accounts where acc: "chain_read deadline q = Some accounts"
    using False by (auto simp: fetch_stake_view_def Let_def split: if_splits option.splits)
  let ?amount = "stake_amount b (safe_map_of accounts)"
  let ?mx = "fold max (map ?amount ?as) 0"
  have eq: "fetch_stake_view pf deadline q b closes opens =
      map (\<lambda>a. (a, min (ln_1p pf (?amount a) / ln_1p pf ?mx) 1)) ?as" and pos: "0 < ?mx"
    using False acc by (auto simp: fetch_stake_view_def Let_def comp_def split: if_splits)
  have "\<forall>a\<in>set ?as. ?amount a \<le> ?mx" by (auto intro!: fold_max_ge)
  moreover have "\<exists>a\<in>set ?as. ?amount a = ?mx"
  proof -
    have "?mx \<in> set (map ?amount ?as)" using fold_max_in [of "map ?amount ?as" 0] pos by auto
    then show ?thesis unfolding list.set_map by fastforce
  qed
  ultimately show thesis by (rule scores [OF eq pos])
qed (rule empty)

text \<open>
  Stake scores are normalised: with a monotone logarithm every score lies between zero and
  one, an address that was not asked about scores zero, and when any safe holds stake the
  largest holder scores one. A chain that does not answer leaves every score at zero.
\<close>

theorem stake_scores_normalised:
  assumes ok: "platform_ok pf"
    and v_def: "v = fetch_stake_view pf deadline q b closes opens"
  shows "0 \<le> stake_score v a \<and> stake_score v a \<le> 1 \<and>
    (a \<notin> ch_destination ` cc_channel ` set closes \<union> oc_addr ` set opens \<longrightarrow> stake_score v a = 0) \<and>
    (v \<noteq> [] \<longrightarrow> (\<exists>x. stake_score v x = 1))"
proof (cases rule: fetch_stake_view_cases [of pf deadline q b closes opens])
  case empty
  then show ?thesis by (simp add: v_def stake_score_def)
next
  case (scores accounts addresses mx)
  let ?s = "\<lambda>a. min (ln_1p pf (stake_amount b (safe_map_of accounts) a) / ln_1p pf mx) 1"
  have ln0: "ln_1p pf 0 = 0" and mono: "\<And>x y. 0 \<le> x \<Longrightarrow> x < y \<Longrightarrow> ln_1p pf x < ln_1p pf y"
    using ok by (simp_all add: platform_ok_def)
  have pos: "0 < ln_1p pf mx" using mono [of 0 mx] scores(2) ln0 by simp
  have nonneg: "0 \<le> ?s x" for x
    using mono [of 0 "stake_amount b (safe_map_of accounts) x"] stake_amount_nonneg [of b "safe_map_of accounts" x] ln0 pos
    by (cases "stake_amount b (safe_map_of accounts) x = 0") (simp_all add: less_imp_le)
  have look: "stake_score v x = (if x \<in> set addresses then ?s x else 0)" for x
    by (auto simp: v_def scores(1) stake_score_def map_of_map_restrict restrict_map_def)
  have "set addresses = fst ` set v" by (force simp: v_def scores(1))
  also have "\<dots> \<subseteq> ch_destination ` cc_channel ` set closes \<union> oc_addr ` set opens"
    by (auto simp: v_def fetch_stake_view_def Let_def split: if_splits option.splits)
  finally have "a \<notin> ch_destination ` cc_channel ` set closes \<union> oc_addr ` set opens \<longrightarrow> stake_score v a = 0"
    using look by auto
  moreover obtain x where "x \<in> set addresses" "stake_amount b (safe_map_of accounts) x = mx"
    using scores(4) by blast
  then have "stake_score v x = 1" using look pos by simp
  then have "\<exists>x. stake_score v x = 1" by blast
  moreover have "0 \<le> stake_score v a \<and> stake_score v a \<le> 1" using look [of a] nonneg [of a] by auto
  ultimately show ?thesis by blast
qed

theorem stake_scores_normalised_witness:
  "stake_score (fetch_stake_view sample_platform 10 (0, Failure) (\<lambda>_. Timeout) [] [peer_7]) 7 \<le> 1"
  using stake_scores_normalised [OF sample_platform_ok refl, of 10 "(0, Failure)" "\<lambda>_. Timeout" "[]" "[peer_7]" 7]
  by blast

end
