(* ===== verification/Lifecycle_Events.thy ===== *)
theory Lifecycle_Events
  imports Lifecycle_Reads
begin

text \<open>
  The event lane of the channel-lifecycle strategy: the handlers of
  \<open>src/src/channel_lifecycle/events.rs\<close> and the dispatch of one chain event in the run loop of
  \<open>src/src/channel_lifecycle/strategy.rs\<close>. \<open>ChannelEntry::direction\<close> is the argument \<open>dir\<close>; each
  handler takes the instant it runs at.
\<close>

section \<open>Handlers\<close>

definition start_reopen_cooldown ::
    "lifecycle_config \<Rightarrow> instant \<Rightarrow> address \<Rightarrow> lifecycle_state \<Rightarrow> lifecycle_state" where
  "start_reopen_cooldown cfg now dest st =
     st\<lparr>cooldown := AList.update dest (now + peer_reopen_cooldown (population cfg)) (cooldown st)\<rparr>"

definition is_on_cooldown :: "instant \<Rightarrow> address \<Rightarrow> lifecycle_state \<Rightarrow> bool" where
  "is_on_cooldown now dest st = (case map_of (cooldown st) dest of Some until \<Rightarrow> now < until | None \<Rightarrow> False)"

definition on_balance_decreased ::
    "(channel \<Rightarrow> address \<Rightarrow> channel_direction option) \<Rightarrow> lifecycle_config \<Rightarrow> instant \<Rightarrow> safe_reads \<Rightarrow>
     channel \<Rightarrow> address \<Rightarrow> lifecycle_state \<Rightarrow> lifecycle_state" where
  "on_balance_decreased dir cfg now q ch me st =
     (if dir ch me \<noteq> Some Outgoing then st
      else if ch_status ch \<noteq> Open then st
      else if held now st KFund (ch_id ch) then st
      else
        let st1 = st\<lparr>last_observed :=
                       upsert (ch_id ch) (\<lambda>obs. obs\<lparr>ob_balance := ch_balance ch, ob_at := now\<rparr>)
                         \<lparr>ob_balance = ch_balance ch, ob_ticket_index = ch_ticket_index ch, ob_at = now,
                          ob_closed = False\<rparr> (last_observed st)\<rparr>
        in case last_resolved_funding st1 of
             None \<Rightarrow> st1
           | Some fnd \<Rightarrow>
               if ch_balance ch < lower_balance_threshold fnd then
                 (case safe_balance_budget (read_deadline cfg now) q of
                    Some budget \<Rightarrow>
                      if topup_balance fnd \<noteq> 0 \<and> topup_balance fnd \<le> sb_spendable budget
                      then snd (try_fund_channel cfg now ch (topup_balance fnd) st1)
                      else st1
                  | None \<Rightarrow> st1)
               else st1)"

definition on_balance_increased :: "channel \<Rightarrow> lifecycle_state \<Rightarrow> lifecycle_state" where
  "on_balance_increased ch st =
     (let st1 = release_action KFund (ch_id ch) st
      in st1\<lparr>last_observed := modify (ch_id ch) (\<lambda>obs. obs\<lparr>ob_balance := ch_balance ch\<rparr>) (last_observed st1)\<rparr>)"

definition on_channel_opened :: "channel \<Rightarrow> lifecycle_state \<Rightarrow> lifecycle_state" where
  "on_channel_opened ch st = release_action KOpen (ch_destination ch) st"

definition on_channel_closure_initiated :: "channel \<Rightarrow> lifecycle_state \<Rightarrow> lifecycle_state" where
  "on_channel_closure_initiated ch st = release_action KClose (ch_id ch) st"

definition on_channel_closed :: "lifecycle_config \<Rightarrow> instant \<Rightarrow> channel \<Rightarrow> lifecycle_state \<Rightarrow> lifecycle_state" where
  "on_channel_closed cfg now ch st =
     (let st1 = release_action KFinalize (ch_id ch) st;
          st2 = st1\<lparr>last_observed := AList.delete (ch_id ch) (last_observed st1)\<rparr>;
          st3 = st2\<lparr>peer_ticket_activity := AList.delete (ch_destination ch) (peer_ticket_activity st2)\<rparr>
      in start_reopen_cooldown cfg now (ch_destination ch) st3)"

definition on_ticket_redeemed :: "channel \<Rightarrow> lifecycle_state \<Rightarrow> lifecycle_state" where
  "on_ticket_redeemed ch st =
     (let st1 = st\<lparr>peer_ticket_activity := upsert (ch_destination ch) Suc 1 (peer_ticket_activity st)\<rparr>
      in st1\<lparr>last_observed := modify (ch_id ch) (\<lambda>obs. obs\<lparr>ob_ticket_index := ch_ticket_index ch\<rparr>) (last_observed st1)\<rparr>)"

section \<open>Dispatch in the run loop\<close>

fun event_channel :: "chain_event \<Rightarrow> channel option" where
  "event_channel (ChannelBalanceDecreased ch b) = Some ch"
| "event_channel (ChannelBalanceIncreased ch b) = Some ch"
| "event_channel (ChannelOpened ch) = Some ch"
| "event_channel (ChannelClosureInitiated ch) = Some ch"
| "event_channel (ChannelClosed ch) = Some ch"
| "event_channel (TicketRedeemed ch) = Some ch"
| "event_channel OtherEvent = None"

definition is_own_outgoing :: "(channel \<Rightarrow> address \<Rightarrow> channel_direction option) \<Rightarrow> address \<Rightarrow> chain_event \<Rightarrow> bool" where
  "is_own_outgoing dir me e =
     (case event_channel e of Some ch \<Rightarrow> dir ch me = Some Outgoing | None \<Rightarrow> False)"

definition handle_chain_event ::
    "(channel \<Rightarrow> address \<Rightarrow> channel_direction option) \<Rightarrow> lifecycle_config \<Rightarrow> instant \<Rightarrow> safe_reads \<Rightarrow>
     address \<Rightarrow> chain_event \<Rightarrow> lifecycle_state \<Rightarrow> lifecycle_state" where
  "handle_chain_event dir cfg now q me e st =
     (if \<not> is_own_outgoing dir me e then st
      else case e of
             ChannelBalanceDecreased ch _ \<Rightarrow> on_balance_decreased dir cfg now q ch me st
           | ChannelBalanceIncreased ch _ \<Rightarrow> on_balance_increased ch st
           | ChannelOpened ch \<Rightarrow> on_channel_opened ch st
           | ChannelClosureInitiated ch \<Rightarrow> on_channel_closure_initiated ch st
           | ChannelClosed ch \<Rightarrow> on_channel_closed cfg now ch st
           | TicketRedeemed ch \<Rightarrow> on_ticket_redeemed ch st
           | OtherEvent \<Rightarrow> st)"

section \<open>Well-formedness and the action budget\<close>

lemma release_action_fields [frame_simps]:
  "cooldown (release_action k key st) = cooldown st"
  "last_observed (release_action k key st) = last_observed st"
  "peer_ticket_activity (release_action k key st) = peer_ticket_activity st"
  "disconnect_streak (release_action k key st) = disconnect_streak st"
  "ls_tasks (release_action k key st) = ls_tasks st"
  "last_resolved_funding (release_action k key st) = last_resolved_funding st"
  "ls_state (release_action k key st) = ls_state st"
  by (simp_all add: release_action_def)

text \<open>Bookkeeping updates: anything that leaves the leases and the tasks alone.\<close>

lemma total_in_flight_cong: "in_flight st' = in_flight st \<Longrightarrow> total_in_flight now st' = total_in_flight now st"
  by (simp add: total_in_flight_def)

lemma ls_wf_cong:
  assumes "ls_wf st" and "in_flight st' = in_flight st" and "alist_wf (cooldown st')" and "alist_wf (last_observed st')"
    and "alist_wf (peer_ticket_activity st')" and "alist_wf (disconnect_streak st')"
  shows "ls_wf st'"
  using assms by (simp add: ls_wf_def)

lemma ls_wf_maps: "ls_wf st \<Longrightarrow> alist_wf (cooldown st) \<and> alist_wf (last_observed st) \<and>
    alist_wf (peer_ticket_activity st) \<and> alist_wf (disconnect_streak st)"
  by (simp add: ls_wf_def)

lemma start_reopen_cooldown_wf [wf_intros]: "ls_wf st \<Longrightarrow> ls_wf (start_reopen_cooldown cfg now d st)"
  by (simp add: start_reopen_cooldown_def ls_wf_def alist_wf_update)

lemma ls_wf_last_observed: "ls_wf st \<Longrightarrow> alist_wf m \<Longrightarrow> ls_wf (st\<lparr>last_observed := m\<rparr>)"
  by (simp add: ls_wf_def)

lemma ls_wf_activity: "ls_wf st \<Longrightarrow> alist_wf m \<Longrightarrow> ls_wf (st\<lparr>peer_ticket_activity := m\<rparr>)"
  by (simp add: ls_wf_def)

lemma handle_chain_event_wf [wf_intros]:
  assumes "ls_wf st" shows "ls_wf (handle_chain_event dir cfg now q me e st)"
proof -
  note maps = ls_wf_maps [OF assms]
  have obs: "ls_wf (st\<lparr>last_observed := upsert k f v (last_observed st)\<rparr>)" for k f v
    using assms maps by (simp add: ls_wf_last_observed alist_wf_upsert)
  have dec: "ls_wf (on_balance_decreased dir cfg now q ch me st)" for ch
    using assms obs
    by (auto simp: on_balance_decreased_def Let_def try_fund_channel_def split: option.splits
        intro: spawn_leased_wf [OF prod.collapse [symmetric]])
  have inc: "ls_wf (on_balance_increased ch st)" for ch
    using assms maps by (simp add: on_balance_increased_def Let_def ls_wf_last_observed ls_wf_release_action
        alist_wf_modify release_action_fields)
  have closed: "ls_wf (on_channel_closed cfg now ch st)" for ch
    unfolding on_channel_closed_def Let_def
    by (intro start_reopen_cooldown_wf ls_wf_activity ls_wf_last_observed ls_wf_release_action assms)
      (simp_all add: maps alist_wf_delete release_action_fields)
  have red: "ls_wf (on_ticket_redeemed ch st)" for ch
    unfolding on_ticket_redeemed_def Let_def
    by (intro ls_wf_activity ls_wf_last_observed assms) (simp_all add: maps alist_wf_modify alist_wf_upsert)
  show ?thesis
    using assms dec inc closed red
    by (auto simp: handle_chain_event_def on_channel_opened_def on_channel_closure_initiated_def
        ls_wf_release_action split: chain_event.splits)
qed

lemma handle_chain_event_budget:
  assumes wf: "ls_wf st" and le: "total_in_flight now st \<le> max_concurrent_actions (concurrency cfg)"
  shows "total_in_flight now (handle_chain_event dir cfg now q me e st) \<le> max_concurrent_actions (concurrency cfg)"
proof -
  have rel: "total_in_flight now (release_action k key st) \<le> max_concurrent_actions (concurrency cfg)" for k key
    using total_in_flight_release [OF wf, of now k key] le by simp
  have obs: "total_in_flight now (st'\<lparr>last_observed := m\<rparr>) = total_in_flight now st'" for st' m
    by (rule total_in_flight_cong) simp
  have dec: "total_in_flight now (on_balance_decreased dir cfg now q ch me st) \<le> max_concurrent_actions (concurrency cfg)" for ch
  proof -
    have "ls_wf (st\<lparr>last_observed := upsert k f v (last_observed st)\<rparr>)" for k f v
      using wf by (intro ls_wf_last_observed alist_wf_upsert) (simp_all add: ls_wf_def)
    then show ?thesis
      using le by (auto simp: on_balance_decreased_def Let_def try_fund_channel_def obs split: option.splits
          intro: spawn_leased_budget [OF prod.collapse [symmetric]])
  qed
  have closed: "total_in_flight now (on_channel_closed cfg now ch st) \<le> max_concurrent_actions (concurrency cfg)" for ch
    using rel [of KFinalize "ch_id ch"]
    by (subst total_in_flight_cong [of _ "release_action KFinalize (ch_id ch) st"])
      (simp_all add: on_channel_closed_def start_reopen_cooldown_def Let_def)
  have red: "total_in_flight now (on_ticket_redeemed ch st) \<le> max_concurrent_actions (concurrency cfg)" for ch
    using le by (subst total_in_flight_cong [of _ st]) (simp_all add: on_ticket_redeemed_def Let_def)
  show ?thesis
    using le rel dec closed red
    by (auto simp: handle_chain_event_def on_channel_opened_def on_channel_closure_initiated_def
        on_balance_increased_def obs Let_def split: chain_event.splits)
qed

section \<open>Properties of the event lane\<close>


definition needy_channel :: channel where
  "needy_channel = \<lparr>ch_id = 1, ch_source = 100, ch_destination = 200, ch_balance = 5, ch_ticket_index = 0, ch_status = Open\<rparr>"

definition resolved_example :: resolved_funding where
  "resolved_example = \<lparr>initial_balance = 100, topup_balance = 100, lower_balance_threshold = 50, face_value = 10\<rparr>"

definition source_direction :: "channel \<Rightarrow> address \<Rightarrow> channel_direction option" where
  "source_direction ch a =
     (if ch_source ch = a then Some Outgoing else if ch_destination ch = a then Some Incoming else None)"

definition rich_safe :: safe_reads where
  "rich_safe = \<lparr>q_safe_info = (0, Answer (Some 9)), q_safe_balance = (\<lambda>_. (0, Answer 1000)),
     q_safe_allowance = (\<lambda>_. (0, Answer 500))\<rparr>"


end
