(* ===== verification/Pipeline_Snapshot.thy ===== *)
theory Pipeline_Snapshot
  imports Lifecycle_Events Multi_Objective Dispatch_Path
begin

text \<open>
  The first half of a tick of \<open>src/src/channel_lifecycle/pipeline.rs\<close>: what the tick sees of the
  outside world (\<open>tick_env\<close>), the snapshot of the observations with its cooldown
  reconciliation, the economics, and the candidates and the context the selector is called with.

  A tick reads the clock at six points, each a field of the environment; reads carry the instant
  they start at, so a read late in the tick may find the shared deadline spent. The order in
  which a \<open>HashSet\<close> is iterated is an argument where it can matter.
\<close>

section \<open>The world one tick sees\<close>

record tick_env =
  env_me :: address
  env_platform :: platform
  t_begin :: instant
  t_snapshot :: instant
  t_peers :: instant
  t_fund :: instant
  t_select :: instant
  t_pass :: instant
  sys_now :: instant
  q_tx_time :: "duration read_op"
  q_safe :: safe_reads
  q_channels :: "channel list read_op"
  q_price :: "balance read_op"
  q_win_prob :: "f64 read_op"
  q_accounts :: "account list read_op"
  q_all_accounts :: "account list read_op"
  q_open_channels :: "channel list read_op"
  stake_balance :: "address \<Rightarrow> balance outcome"
  is_connected :: "peer_id \<Rightarrow> bool"
  connected_peers :: "peer_id list"
  multiaddress_of :: "peer_id \<Rightarrow> multiaddr list option"
  graph_edge_of :: "offchain_key \<Rightarrow> graph_edge option"
  peer_of :: "offchain_key \<Rightarrow> peer_id"
  by_parties :: "address \<Rightarrow> channel_lookup"
  set_order :: "channel_id list \<Rightarrow> channel_id list"

section \<open>Snapshot\<close>

definition prev_observations :: "lifecycle_state \<Rightarrow> channel list \<Rightarrow> (channel_id \<times> observation) list" where
  "prev_observations st chs =
     concat (map (\<lambda>ch. case map_of (last_observed st) (ch_id ch) of Some v \<Rightarrow> [(ch_id ch, v)] | None \<Rightarrow> []) chs)"

definition snapshot_step ::
    "lifecycle_config \<Rightarrow> instant \<Rightarrow> (channel_id \<times> observation) list \<Rightarrow> channel \<Rightarrow> lifecycle_state \<Rightarrow> lifecycle_state" where
  "snapshot_step cfg now prev ch st =
     (let cid = ch_id ch;
          is_closed = (ch_status ch = Closed);
          was_closed = (case map_of prev cid of Some obs \<Rightarrow> ob_closed obs | None \<Rightarrow> False);
          st1 = (if is_closed \<and> \<not> was_closed \<and> \<not> is_on_cooldown now (ch_destination ch) st
                 then start_reopen_cooldown cfg now (ch_destination ch) st else st)
      in st1\<lparr>last_observed :=
           upsert cid
             (\<lambda>obs. (if ob_balance obs \<noteq> ch_balance ch \<or> ob_ticket_index obs \<noteq> ch_ticket_index ch
                     then obs\<lparr>ob_balance := ch_balance ch, ob_ticket_index := ch_ticket_index ch, ob_at := now\<rparr>
                     else obs)\<lparr>ob_closed := is_closed\<rparr>)
             \<lparr>ob_balance = ch_balance ch, ob_ticket_index = ch_ticket_index ch, ob_at = now, ob_closed = is_closed\<rparr>
             (last_observed st1)\<rparr>)"

definition snapshot_channels ::
    "lifecycle_config \<Rightarrow> instant \<Rightarrow> channel list \<Rightarrow> lifecycle_state \<Rightarrow> lifecycle_state" where
  "snapshot_channels cfg now chs st = fold (snapshot_step cfg now (prev_observations st chs)) chs st"

section \<open>Economics\<close>

definition option_zip :: "'a option \<Rightarrow> 'b option \<Rightarrow> ('a \<times> 'b) option" where
  "option_zip x y = (case x of None \<Rightarrow> None | Some a \<Rightarrow> (case y of None \<Rightarrow> None | Some b \<Rightarrow> Some (a, b)))"

record economics =
  min_ticket_price_wei :: rat
  min_onward_balance :: balance
  resolved :: "resolved_funding option"

definition economics_of :: "lifecycle_config \<Rightarrow> platform \<Rightarrow> balance option \<Rightarrow> f64 option \<Rightarrow> economics" where
  "economics_of cfg pf price wp =
     \<lparr>min_ticket_price_wei = (case price of None \<Rightarrow> 0 | Some p \<Rightarrow> of_nat (low_u128 p)),
      min_onward_balance = (case option_zip price wp of
          None \<Rightarrow> 1 | Some (p, w) \<Rightarrow> winning_ticket_face_value pf p w (assumed_hops pf)),
      resolved = map_option (\<lambda>(p, w). resolve pf (funding cfg) p w) (option_zip price wp)\<rparr>"

definition share_economics :: "resolved_funding option \<Rightarrow> lifecycle_state \<Rightarrow> lifecycle_state" where
  "share_economics fnd st = (if fnd \<noteq> None then st\<lparr>last_resolved_funding := fnd\<rparr> else st)"

section \<open>Indexes over the peer map\<close>

definition map_entries :: "peer_map option \<Rightarrow> peer_map" where
  "map_entries m = (case m of None \<Rightarrow> [] | Some xs \<Rightarrow> xs)"

definition addr_to_key :: "peer_map option \<Rightarrow> (address \<times> offchain_key) list" where
  "addr_to_key m = fold (\<lambda>(_, pk, a) acc. AList.update a pk acc) (map_entries m) []"

definition addr_to_peer_id :: "peer_map option \<Rightarrow> (address \<times> peer_id) list" where
  "addr_to_peer_id m = fold (\<lambda>(peer, _, a) acc. AList.update a peer acc) (map_entries m) []"

definition max_activity :: "lifecycle_state \<Rightarrow> nat" where
  "max_activity st = max (fold max (map snd (peer_ticket_activity st)) 0) 1"

definition ticket_score_of :: "lifecycle_state \<Rightarrow> address \<Rightarrow> rat option" where
  "ticket_score_of st a =
     map_option (\<lambda>v. of_nat v / of_nat (max_activity st)) (map_of (peer_ticket_activity st) a)"

section \<open>Candidates\<close>

definition close_candidate_of ::
    "tick_env \<Rightarrow> lifecycle_state \<Rightarrow> (address \<times> offchain_key) list \<Rightarrow> channel \<Rightarrow> close_candidate" where
  "close_candidate_of env st a2k ch =
     (let key = map_of a2k (ch_destination ch)
      in \<lparr>cc_channel = ch, cc_key = key,
          cc_edge = (case key of Some pk \<Rightarrow> peer_edge_info (graph_edge_of env) pk | None \<Rightarrow> peer_edge_default),
          cc_ticket_score = ticket_score_of st (ch_destination ch)\<rparr>)"

definition existing_dests :: "channel list \<Rightarrow> address list" where
  "existing_dests chs = map ch_destination (filter (\<lambda>c. ch_status c \<noteq> Closed) chs)"

definition open_candidate_of ::
    "lifecycle_config \<Rightarrow> tick_env \<Rightarrow> lifecycle_state \<Rightarrow> peer_map option \<Rightarrow> channel list \<Rightarrow> peer_id \<Rightarrow> open_candidate option" where
  "open_candidate_of cfg env st peers chs peer =
     (case peers of
        None \<Rightarrow> None
      | Some m \<Rightarrow>
          (case map_of m peer of
             None \<Rightarrow> None
           | Some (key, addr) \<Rightarrow>
               if addr = env_me env then None
               else if addr \<in> set (existing_dests chs) then None
               else if held (t_fund env) st KOpen addr then None
               else if is_on_cooldown (t_fund env) addr st then None
               else if (case allowlist (eligibility cfg) of Some l \<Rightarrow> addr \<notin> set l | None \<Rightarrow> False) then None
               else if addr \<in> set (blocklist (eligibility cfg)) then None
               else
                 let edge = peer_edge_info (graph_edge_of env) key;
                     ticket_score = ticket_score_of st addr;
                     composite = composite_quality_score (eligibility cfg) (quality_score edge) ticket_score
                 in if composite < min_peer_quality_score (eligibility cfg) then None
                    else
                      let subnet = (case multiaddress_of env peer of Some addrs \<Rightarrow> from_multiaddrs addrs | None \<Rightarrow> Unknown)
                      in Some \<lparr>oc_addr = addr, oc_key = key, oc_edge = edge, oc_ticket_score = ticket_score,
                               oc_subnet = subnet\<rparr>))"

definition open_candidates_of ::
    "lifecycle_config \<Rightarrow> tick_env \<Rightarrow> lifecycle_state \<Rightarrow> peer_map option \<Rightarrow> channel list \<Rightarrow> open_candidate list" where
  "open_candidates_of cfg env st peers chs =
     (let connected = (case peers of Some _ \<Rightarrow> connected_peers env | None \<Rightarrow> [])
      in List.map_filter (open_candidate_of cfg env st peers chs) connected)"

definition bucket_cells :: "tick_env \<Rightarrow> peer_map option \<Rightarrow> close_candidate list \<Rightarrow> bucket_view" where
  "bucket_cells env peers closes =
     fold (\<lambda>c acc.
        case map_of (addr_to_peer_id peers) (ch_destination (cc_channel c)) of
          None \<Rightarrow> acc
        | Some peer \<Rightarrow>
            let addrs = unwrap_or (multiaddress_of env peer) [];
                cell = \<lparr>cell_latency = from_latency (average_latency (cc_edge c)), cell_subnet = from_multiaddrs addrs\<rparr>
            in AList.update (ch_id (cc_channel c)) cell acc) closes []"

definition selector_for :: "lifecycle_config \<Rightarrow> selector" where
  \<comment> \<open>the selector \<open>build\<close> constructs from the profile\<close>
  "selector_for cfg =
     (case multi_objective_config (selector_prof cfg) of
        Some mo \<Rightarrow> multi_objective_selector mo
      | None \<Rightarrow> default_selector)"

definition selector_ctx_of ::
    "lifecycle_config \<Rightarrow> tick_env \<Rightarrow> lifecycle_state \<Rightarrow> peer_map option \<Rightarrow> balance \<Rightarrow> nat \<Rightarrow>
     close_candidate list \<Rightarrow> open_candidate list \<Rightarrow> selector_context" where
  "selector_ctx_of cfg env st peers min_onward deficit closes opens =
     (let deadline = read_deadline cfg (t_begin env)
      in \<lparr>ctx_cfg = cfg, ctx_deficit = deficit, ctx_open = opens, ctx_close = closes,
          ctx_elapsed = t_select env - start_epoch st,
          ctx_buckets = bucket_cells env peers closes,
          ctx_stake = (if signals_contain (required_signals (selector_for cfg)) signal_stake
                       then fetch_stake_view (env_platform env) deadline (q_all_accounts env) (stake_balance env) closes opens
                       else []),
          ctx_forwarding = (if demote_non_forwarding_peers (eligibility cfg) \<and> 0 < deficit
                            then fetch_forwarding_view (env_me env) deadline (q_open_channels env) opens min_onward
                            else [])\<rparr>)"

section \<open>Building a strategy\<close>

definition build :: "lifecycle_config \<Rightarrow> instant \<Rightarrow> config_error list + selector \<times> lifecycle_state" where
  "build cfg now =
     (if validate_lifecycle cfg \<noteq> [] then Inl (validate_lifecycle cfg)
      else case multi_objective_config (selector_prof cfg) of
             Some mo \<Rightarrow>
               (case validate_trust_weights mo of
                  Inl e \<Rightarrow> Inl [e]
                | Inr _ \<Rightarrow> Inr (multi_objective_selector mo, initial_state now))
           | None \<Rightarrow> Inr (default_selector, initial_state now))"

lemma build_selector: "build cfg now = Inr (sel, st) \<Longrightarrow> sel = selector_for cfg \<and> st = initial_state now"
  by (auto simp: build_def selector_for_def split: if_splits option.splits sum.splits)

text \<open>
  A strategy is only ever built from a valid configuration: the restart windows are ordered,
  both timeouts are positive, a probabilistic sizing mode has its probability in range, and the
  trust weights of the selector in use sum to one within a hundredth. The three weights of every
  named profile pass, so only a custom profile can be refused for them.
\<close>

theorem build_validates:
  assumes "build cfg now = Inr (sel, st)"
  shows "startup_observation_period (restart cfg) \<le> startup_close_grace_period (restart cfg) \<and>
    0 < action_lease_timeout (concurrency cfg) \<and> 0 < chain_read_timeout (concurrency cfg) \<and>
    validate_sizing_mode (sizing_mode (funding cfg)) = Inr () \<and> sel = selector_for cfg \<and>
    (\<forall>mo. multi_objective_config (selector_prof cfg) = Some mo \<longrightarrow>
       \<bar>trust_probe (weights mo) + trust_ack (weights mo) + trust_ticket (weights mo) - 1\<bar> \<le> 1 / 100)"
proof -
  have "validate_lifecycle cfg = []" using assms by (simp add: build_def split: if_splits)
  moreover have "validate_trust_weights mo = Inr ()" if "multi_objective_config (selector_prof cfg) = Some mo" for mo
    using assms that by (auto simp: build_def split: if_splits sum.splits)
  then have "\<forall>mo. multi_objective_config (selector_prof cfg) = Some mo \<longrightarrow>
       \<bar>trust_probe (weights mo) + trust_ack (weights mo) + trust_ticket (weights mo) - 1\<bar> \<le> 1 / 100"
    by (auto simp: validate_trust_weights_def Let_def split: if_splits)
  ultimately show ?thesis using build_selector [OF assms] by (simp add: validate_lifecycle_ok)
qed

theorem build_validates_witness:
  "\<exists>sel st. build (lifecycle_default\<lparr>selector_prof := Dispersed\<rparr>) 0 = Inr (sel, st) \<and>
     sel = selector_for (lifecycle_default\<lparr>selector_prof := Dispersed\<rparr>)"
proof -
  have "validate_lifecycle (lifecycle_default\<lparr>selector_prof := Dispersed\<rparr>) = []"
    using validate_lifecycle_default by (simp add: validate_lifecycle_def)
  then have b: "build (lifecycle_default\<lparr>selector_prof := Dispersed\<rparr>) 0 =
      Inr (multi_objective_selector mo_dispersed, initial_state 0)"
    by (simp add: build_def validate_trust_weights_def mo_dispersed_def selector_weights_new_def Let_def)
  with build_validates [OF b] show ?thesis by blast
qed

section \<open>Facts about the snapshot and the candidates\<close>

lemma snapshot_step_wf: "ls_wf st \<Longrightarrow> ls_wf (snapshot_step cfg now prev ch st)"
  unfolding snapshot_step_def Let_def
  by (intro ls_wf_last_observed alist_wf_upsert) (auto intro: start_reopen_cooldown_wf simp: ls_wf_maps start_reopen_cooldown_wf)

lemma snapshot_channels_wf [wf_intros]: "ls_wf st \<Longrightarrow> ls_wf (snapshot_channels cfg now chs st)"
proof -
  have "ls_wf st \<Longrightarrow> ls_wf (fold (snapshot_step cfg now prev) chs st)" for prev
    by (induction chs arbitrary: st) (simp_all add: snapshot_step_wf)
  then show "ls_wf st \<Longrightarrow> ?thesis" by (simp add: snapshot_channels_def)
qed

lemma snapshot_step_fields [frame_simps]:
  "in_flight (snapshot_step cfg now prev ch st) = in_flight st"
  "ls_tasks (snapshot_step cfg now prev ch st) = ls_tasks st"
  "start_epoch (snapshot_step cfg now prev ch st) = start_epoch st"
  "last_resolved_funding (snapshot_step cfg now prev ch st) = last_resolved_funding st"
  "disconnect_streak (snapshot_step cfg now prev ch st) = disconnect_streak st"
  "peer_ticket_activity (snapshot_step cfg now prev ch st) = peer_ticket_activity st"
  by (simp_all add: snapshot_step_def start_reopen_cooldown_def Let_def)

lemma fold_field: "(\<And>x s. f (g x s) = f s) \<Longrightarrow> f (fold g xs s) = f s"
  by (induction xs arbitrary: s) simp_all

lemma snapshot_channels_fields [frame_simps]:
  "in_flight (snapshot_channels cfg now chs st) = in_flight st"
  "ls_tasks (snapshot_channels cfg now chs st) = ls_tasks st"
  "start_epoch (snapshot_channels cfg now chs st) = start_epoch st"
  "last_resolved_funding (snapshot_channels cfg now chs st) = last_resolved_funding st"
  "disconnect_streak (snapshot_channels cfg now chs st) = disconnect_streak st"
  "peer_ticket_activity (snapshot_channels cfg now chs st) = peer_ticket_activity st"
  unfolding snapshot_channels_def by (rule fold_field, simp add: frame_simps)+

lemma share_economics_fields [frame_simps]:
  "in_flight (share_economics f st) = in_flight st" "ls_tasks (share_economics f st) = ls_tasks st"
  "start_epoch (share_economics f st) = start_epoch st" "cooldown (share_economics f st) = cooldown st"
  "last_observed (share_economics f st) = last_observed st"
  "peer_ticket_activity (share_economics f st) = peer_ticket_activity st"
  "disconnect_streak (share_economics f st) = disconnect_streak st"
  by (simp_all add: share_economics_def)

lemma peer_addr_map_state:
  "snd (peer_addr_map po now d q st) = st\<lparr>peer_addr_cache := peer_addr_cache (snd (peer_addr_map po now d q st))\<rparr>"
  by (simp add: peer_addr_map_def Let_def split: option.splits)

lemma peer_addr_map_fields [frame_simps]:
  "in_flight (snd (peer_addr_map po now d q st)) = in_flight st"
  "ls_tasks (snd (peer_addr_map po now d q st)) = ls_tasks st"
  "start_epoch (snd (peer_addr_map po now d q st)) = start_epoch st"
  "cooldown (snd (peer_addr_map po now d q st)) = cooldown st"
  "last_observed (snd (peer_addr_map po now d q st)) = last_observed st"
  "peer_ticket_activity (snd (peer_addr_map po now d q st)) = peer_ticket_activity st"
  "disconnect_streak (snd (peer_addr_map po now d q st)) = disconnect_streak st"
  "last_resolved_funding (snd (peer_addr_map po now d q st)) = last_resolved_funding st"
  by (simp_all add: peer_addr_map_def Let_def split: option.splits)

text \<open>What an open candidate is, whoever selects it.\<close>

definition open_eligible :: "lifecycle_config \<Rightarrow> tick_env \<Rightarrow> lifecycle_state \<Rightarrow> peer_map option \<Rightarrow> channel list \<Rightarrow> address \<Rightarrow> bool" where
  "open_eligible cfg env st peers chs a \<longleftrightarrow>
     a \<noteq> env_me env \<and> a \<notin> set (existing_dests chs) \<and>
     \<not> is_on_cooldown (t_fund env) a st \<and>
     (\<forall>l. allowlist (eligibility cfg) = Some l \<longrightarrow> a \<in> set l) \<and> a \<notin> set (blocklist (eligibility cfg)) \<and>
     (\<exists>peer\<in>set (connected_peers env). \<exists>key. map_of (map_entries peers) peer = Some (key, a) \<and>
        min_peer_quality_score (eligibility cfg) \<le>
          composite_quality_score (eligibility cfg) (quality_score (peer_edge_info (graph_edge_of env) key))
            (ticket_score_of st a))"

lemma open_candidate_of_eligible:
  assumes "open_candidate_of cfg env st peers chs peer = Some c" and "peer \<in> set (connected_peers env)"
  shows "open_eligible cfg env st peers chs (oc_addr c)"
proof -
  obtain m key addr where m: "peers = Some m" "map_of m peer = Some (key, addr)" and c: "oc_addr c = addr"
    using assms(1) by (auto simp: open_candidate_of_def Let_def split: option.splits if_splits)
  have gates: "addr \<noteq> env_me env \<and> addr \<notin> set (existing_dests chs) \<and>
      \<not> is_on_cooldown (t_fund env) addr st \<and> (\<forall>l. allowlist (eligibility cfg) = Some l \<longrightarrow> addr \<in> set l) \<and>
      addr \<notin> set (blocklist (eligibility cfg)) \<and>
      min_peer_quality_score (eligibility cfg) \<le>
        composite_quality_score (eligibility cfg) (quality_score (peer_edge_info (graph_edge_of env) key)) (ticket_score_of st addr)"
    using assms(1) m by (auto simp: open_candidate_of_def Let_def not_less split: if_splits option.splits)
  moreover have "map_of (map_entries peers) peer = Some (key, addr)" using m by (simp add: map_entries_def)
  ultimately show ?thesis using assms(2) c unfolding open_eligible_def by blast
qed

lemma open_candidates_eligible:
  "c \<in> set (open_candidates_of cfg env st peers chs) \<Longrightarrow> open_eligible cfg env st peers chs (oc_addr c)"
  by (auto simp: open_candidates_of_def Let_def map_filter_def intro: open_candidate_of_eligible split: option.splits if_splits)

lemma open_eligible_cong:
  assumes "cooldown st' = cooldown st" and "peer_ticket_activity st' = peer_ticket_activity st"
  shows "open_eligible cfg env st' peers chs a = open_eligible cfg env st peers chs a"
  using assms by (simp add: open_eligible_def is_on_cooldown_def ticket_score_of_def max_activity_def)

end
