(* ===== verification/Pipeline_Passes.thy ===== *)
theory Pipeline_Passes
  imports Pipeline_Snapshot Consolidation
begin

text \<open>
  The passes of \<open>pipeline_inner\<close> in \<open>src/src/channel_lifecycle/pipeline.rs\<close>: fund, close,
  consolidation, finalize and open. Each loop is a \<^const>\<open>for_loop\<close> over a named body whose
  state is a \<^typ>\<open>budget_run\<close> (the shared state, \<open>safe_remaining\<close>, and the severity the
  \<open>StatePublisher\<close> collects) with the pass's own counters beside it. The lemmas show that every
  pass is a path of \<open>Dispatch_Path\<close> and which transactions it may submit.
\<close>

definition raise_state :: "strategy_state \<Rightarrow> budget_run \<Rightarrow> budget_run" where
  \<comment> \<open>\<open>StatePublisher::set\<close>\<close>
  "raise_state s r = r\<lparr>br_severity := max (br_severity r) s\<rparr>"

definition charge :: "bool \<times> lifecycle_state \<Rightarrow> balance \<Rightarrow> budget_run \<Rightarrow> budget_run" where
  \<comment> \<open>\<open>if self.try_...(..) { safe_remaining -= amount }\<close>\<close>
  "charge res amount r = r\<lparr>br_st := snd res, br_safe := br_safe r - (if fst res then amount else 0)\<rparr>"

section \<open>Fund pass\<close>

definition refundable ::
    "lifecycle_config \<Rightarrow> tick_env \<Rightarrow> (address \<times> offchain_key) list \<Rightarrow> lifecycle_state \<Rightarrow> channel \<Rightarrow> bool" where
  "refundable cfg env a2k st ch =
     (if close_when_drained_below (closure cfg) < ch_balance ch then True
      else if close_when_drained_below (closure cfg) \<noteq> 0 then False
      else
        let connected = (case map_of a2k (ch_destination ch) of
                           Some pk \<Rightarrow> is_connected env (peer_of env pk) | None \<Rightarrow> True);
            active = (case map_of (peer_ticket_activity st) (ch_destination ch) of Some v \<Rightarrow> 0 < v | None \<Rightarrow> False)
        in connected \<or> active)"

definition fund_candidates ::
    "lifecycle_config \<Rightarrow> tick_env \<Rightarrow> (address \<times> offchain_key) list \<Rightarrow> (channel_id \<times> observation) list \<Rightarrow>
     rat \<Rightarrow> rat \<Rightarrow> resolved_funding \<Rightarrow> channel list \<Rightarrow> lifecycle_state \<Rightarrow> channel list" where
  "fund_candidates cfg env a2k prev est_tx_secs price_wei fnd open_chs st =
     sort_key ch_balance
       (filter (\<lambda>ch. ch_balance ch \<le> lower_balance_threshold fnd \<or>
            proactive_fund_needed cfg (t_fund env) prev est_tx_secs price_wei (lower_balance_threshold fnd) ch)
         (filter (\<lambda>ch. \<not> held (t_fund env) st KFund (ch_id ch) \<and> \<not> held (t_fund env) st KClose (ch_id ch) \<and>
              refundable cfg env a2k st ch) open_chs))"

definition fund_step ::
    "lifecycle_config \<Rightarrow> instant \<Rightarrow> resolved_funding \<Rightarrow> bool \<Rightarrow> channel \<Rightarrow>
     budget_run \<times> channel_id list \<Rightarrow> (budget_run \<times> channel_id list) \<times> loop_ctl" where
  "fund_step cfg now fnd stranded ch s =
     (case s of (r, deferred) \<Rightarrow>
        if stranded \<and> ch_balance ch < face_value fnd then ((r, ch_id ch # deferred), Continue)
        else
          let amount = (if topup_balance fnd \<le> br_safe r then topup_balance fnd
                        else br_safe r - br_safe r mod face_value fnd)
          in if amount = 0 then ((raise_state Degraded r, deferred), Break)
             else
               let r1 = (if amount < topup_balance fnd then raise_state Degraded r else r)
               in ((charge (try_fund_channel cfg now ch amount (br_st r1)) amount r1, deferred), Continue))"

definition fund_pass ::
    "lifecycle_config \<Rightarrow> tick_env \<Rightarrow> (address \<times> offchain_key) list \<Rightarrow> (channel_id \<times> observation) list \<Rightarrow> rat \<Rightarrow> rat \<Rightarrow>
     resolved_funding option \<Rightarrow> balance option \<Rightarrow> channel list \<Rightarrow> nat \<Rightarrow> budget_run \<Rightarrow> budget_run \<times> channel_id list" where
  "fund_pass cfg env a2k prev est_tx_secs price_wei fnd_opt safe_opt open_chs open_count r =
     (case option_zip fnd_opt safe_opt of
        None \<Rightarrow> (raise_state Failed r, [])
      | Some (fnd, safe_balance) \<Rightarrow>
          let cands = fund_candidates cfg env a2k prev est_tx_secs price_wei fnd open_chs (br_st r);
              open_deficit = min_open_channels (population cfg) - open_count;
              stranded = safe_balance < required_safe_balance fnd (length cands) open_deficit
          in if topup_balance fnd = 0 \<or> face_value fnd = 0 then (r, [])
             else for_loop (fund_step cfg (t_fund env) fnd stranded) cands (r, []))"

section \<open>Close pass\<close>

definition disconnect_step ::
    "tick_env \<Rightarrow> (address \<times> peer_id) list \<Rightarrow> nat \<Rightarrow> channel \<Rightarrow>
     (address \<times> nat) list \<times> channel_id list \<Rightarrow> (address \<times> nat) list \<times> channel_id list" where
  "disconnect_step env a2p debounce ch s =
     (case s of (streaks, disconnected) \<Rightarrow>
        let disconnected_now = (case map_of a2p (ch_destination ch) of
                                  Some peer \<Rightarrow> \<not> is_connected env peer | None \<Rightarrow> False)
        in if disconnected_now then
             let streak = unwrap_or (map_of streaks (ch_destination ch)) 0 + 1;
                 streaks' = AList.update (ch_destination ch) streak streaks
             in if debounce \<le> streak then (streaks', disconnected @ [ch_id ch]) else (streaks', disconnected)
           else (AList.delete (ch_destination ch) streaks, disconnected))"

definition disconnected_channels ::
    "lifecycle_config \<Rightarrow> tick_env \<Rightarrow> (address \<times> peer_id) list \<Rightarrow> channel list \<Rightarrow> lifecycle_state \<Rightarrow>
     channel_id list \<times> lifecycle_state" where
  "disconnected_channels cfg env a2p open_chs st =
     (let debounce = max (close_after_disconnected_ticks (closure cfg)) 1;
          live = map ch_destination open_chs;
          retained = filter (\<lambda>(dest, _). dest \<in> set live) (disconnect_streak st)
      in case fold (disconnect_step env a2p debounce) open_chs (retained, []) of
           (streaks, disconnected) \<Rightarrow> (disconnected, st\<lparr>disconnect_streak := streaks\<rparr>))"

definition channel_by_id :: "channel list \<Rightarrow> channel_id \<Rightarrow> channel option" where
  "channel_by_id chs cid = map_of (rev (map (\<lambda>ch. (ch_id ch, ch)) chs)) cid"

definition close_step ::
    "lifecycle_config \<Rightarrow> instant \<Rightarrow> startup_phase \<Rightarrow> nat option \<Rightarrow> nat \<Rightarrow> channel list \<Rightarrow> channel_id list \<Rightarrow> channel_id \<Rightarrow>
     budget_run \<times> nat \<times> nat \<Rightarrow> (budget_run \<times> nat \<times> nat) \<times> loop_ctl" where
  "close_step cfg now phase cap open_count open_chs disconnected cid s =
     (case s of (r, close_count, dispatched) \<Rightarrow>
        if close_max_concurrent (closure cfg) \<le> close_count then (s, Break)
        else if (case cap of Some c \<Rightarrow> c \<le> dispatched | None \<Rightarrow> False) then (s, Break)
        else if open_count - close_count \<le> min_open_channels (population cfg) then (s, Break)
        else case channel_by_id open_chs cid of
               None \<Rightarrow> (s, Continue)
             | Some ch \<Rightarrow>
                 if held now (br_st r) KClose (ch_id ch) \<or> held now (br_st r) KFund (ch_id ch) then (s, Continue)
                 else if phase = ShieldingConnected \<and> cid \<notin> set disconnected then (s, Continue)
                 else
                   let res = try_close_channel cfg now ch (br_st r)
                   in if fst res then ((charge res 0 r, close_count + 1, dispatched + 1), Continue)
                      else ((charge res 0 r, close_count, dispatched), Continue))"

definition close_pass ::
    "lifecycle_config \<Rightarrow> tick_env \<Rightarrow> peer_map option \<Rightarrow> close_candidate list \<Rightarrow> channel list \<Rightarrow> nat \<Rightarrow> channel_id list \<Rightarrow>
     budget_run \<Rightarrow> budget_run" where
  "close_pass cfg env peers closes open_chs open_count closes_ranked r =
     (let now = t_pass env;
          phase = phase_at (restart cfg) (now - start_epoch (br_st r))
      in if phase = Observing then r
         else
           let r1 = (if peers = None \<and> closes \<noteq> [] then raise_state Degraded r else r);
               close_count = held_count now (in_flight (br_st r1) KClose)
           in case disconnected_channels cfg env (addr_to_peer_id peers) open_chs (br_st r1) of
                (disconnected, st2) \<Rightarrow>
                  let extra = set_order env (filter (\<lambda>c. c \<notin> set closes_ranked) (remdups disconnected))
                  in fst (for_loop
                       (close_step cfg now phase (max_closes_per_tick (selector_for cfg)) open_count open_chs disconnected)
                       (closes_ranked @ extra) (r1\<lparr>br_st := st2\<rparr>, close_count, 0)))"

section \<open>Consolidation pass\<close>

definition is_free :: "instant \<Rightarrow> lifecycle_state \<Rightarrow> channel_id list \<Rightarrow> close_candidate \<Rightarrow> bool" where
  "is_free now st deferred c \<longleftrightarrow>
     ch_id (cc_channel c) \<in> set deferred \<and> \<not> held now st KFund (ch_id (cc_channel c)) \<and>
     \<not> held now st KClose (ch_id (cc_channel c))"

definition candidate_of :: "lifecycle_config \<Rightarrow> close_candidate \<Rightarrow> consolidation_candidate" where
  "candidate_of cfg c =
     \<lparr>cn_id = ch_id (cc_channel c), cn_balance = ch_balance (cc_channel c),
      cn_rank = composite_quality_score (eligibility cfg) (quality_score (cc_edge c)) (cc_ticket_score c)\<rparr>"

definition consolidate_close_step ::
    "lifecycle_config \<Rightarrow> instant \<Rightarrow> close_candidate list \<Rightarrow> channel_id \<Rightarrow>
     budget_run \<times> nat \<Rightarrow> (budget_run \<times> nat) \<times> loop_ctl" where
  "consolidate_close_step cfg now closes cid s =
     (case s of (r, close_count) \<Rightarrow>
        if close_max_concurrent (closure cfg) \<le> close_count then (s, Break)
        else case map_of (rev (map (\<lambda>c. (ch_id (cc_channel c), c)) closes)) cid of
               None \<Rightarrow> (s, Continue)
             | Some c \<Rightarrow>
                 let res = try_close_channel cfg now (cc_channel c) (br_st r)
                 in if fst res then ((raise_state Degraded (charge res 0 r), close_count + 1), Continue)
                    else ((charge res 0 r, close_count), Continue))"

definition survivor_step ::
    "lifecycle_config \<Rightarrow> instant \<Rightarrow> balance \<Rightarrow> close_candidate \<Rightarrow> budget_run \<times> unit \<Rightarrow> (budget_run \<times> unit) \<times> loop_ctl" where
  "survivor_step cfg now face c s =
     (case s of (r, _) \<Rightarrow>
        let topup = face - ch_balance (cc_channel c)
        in if topup = 0 then ((r, ()), Continue)
           else if br_safe r < topup then ((raise_state Degraded r, ()), Break)
           else ((charge (try_fund_channel cfg now (cc_channel c) topup (br_st r)) topup r, ()), Continue))"

definition consolidate_stranded_stake ::
    "lifecycle_config \<Rightarrow> instant \<Rightarrow> close_candidate list \<Rightarrow> channel_id list \<Rightarrow> balance \<Rightarrow> balance \<Rightarrow> startup_phase \<Rightarrow> balance \<Rightarrow>
     budget_run \<Rightarrow> budget_run" where
  "consolidate_stranded_stake cfg now closes deferred face reclaiming phase safe_balance r =
     (if face = 0 \<or> deferred = [] then r
      else
        let underfunded = map (candidate_of cfg) (filter (is_free now (br_st r) deferred) closes)
        in if underfunded = [] then r
           else
             let closes_ranked = (if phase = Expired
                                  then consolidation_closes underfunded safe_balance reclaiming face else []);
                 close_count = held_count now (in_flight (br_st r) KClose);
                 r1 = fst (for_loop (consolidate_close_step cfg now closes) closes_ranked (r, close_count));
                 survivors = sort_key (\<lambda>c. - int (ch_balance (cc_channel c)))
                   (filter (\<lambda>c. is_free now (br_st r1) deferred c \<and> ch_id (cc_channel c) \<notin> set closes_ranked) closes)
             in fst (for_loop (survivor_step cfg now face) survivors (r1, ())))"

definition reclaiming_stake :: "instant \<Rightarrow> lifecycle_state \<Rightarrow> channel list \<Rightarrow> balance" where
  "reclaiming_stake now st chs =
     fold (\<lambda>c acc. bal_add acc (ch_balance c))
       (filter (\<lambda>c. is_pending (ch_status c) \<or> held now st KClose (ch_id c)) chs) 0"

definition consolidation_pass ::
    "lifecycle_config \<Rightarrow> tick_env \<Rightarrow> resolved_funding option \<Rightarrow> balance option \<Rightarrow> channel list \<Rightarrow> close_candidate list \<Rightarrow>
     channel_id list \<Rightarrow> budget_run \<Rightarrow> budget_run" where
  "consolidation_pass cfg env fnd_opt safe_opt chs closes deferred r =
     (case option_zip fnd_opt safe_opt of
        None \<Rightarrow> r
      | Some (fnd, safe_balance) \<Rightarrow>
          consolidate_stranded_stake cfg (t_pass env) closes deferred (face_value fnd)
            (reclaiming_stake (t_pass env) (br_st r) chs)
            (phase_at (restart cfg) (t_pass env - start_epoch (br_st r))) safe_balance r)"

section \<open>Finalize pass\<close>

definition finalize_step ::
    "lifecycle_config \<Rightarrow> tick_env \<Rightarrow> channel \<Rightarrow> budget_run \<times> nat \<Rightarrow> (budget_run \<times> nat) \<times> loop_ctl" where
  "finalize_step cfg env ch s =
     (case s of (r, n) \<Rightarrow>
        if finalize_max_concurrent (finalizer cfg) \<le> n then (s, Break)
        else if held (t_pass env) (br_st r) KFinalize (ch_id ch) then (s, Continue)
        else case ch_status ch of
               PendingToClose closure_time \<Rightarrow>
                 \<comment> \<open>\<open>elapsed()\<close> is an error while the closure time lies ahead\<close>
                 if closure_time \<le> sys_now env \<and> max_closure_overdue (finalizer cfg) \<le> sys_now env - closure_time then
                   let res = try_finalize_channel cfg (t_pass env) ch (br_st r)
                   in if fst res then ((charge res 0 r, n + 1), Continue) else ((charge res 0 r, n), Continue)
                 else (s, Continue)
             | Closed \<Rightarrow> (s, Continue)
             | Open \<Rightarrow> (s, Continue))"

definition finalize_pass :: "lifecycle_config \<Rightarrow> tick_env \<Rightarrow> channel list \<Rightarrow> budget_run \<Rightarrow> budget_run" where
  "finalize_pass cfg env chs r =
     (if fin_enabled (finalizer cfg)
      then fst (for_loop (finalize_step cfg env) chs
                  (r, held_count (t_pass env) (in_flight (br_st r) KFinalize)))
      else r)"

section \<open>Open pass\<close>

definition open_step ::
    "lifecycle_config \<Rightarrow> tick_env \<Rightarrow> resolved_funding \<Rightarrow> address \<times> offchain_key \<Rightarrow>
     budget_run \<times> unit \<Rightarrow> (budget_run \<times> unit) \<times> loop_ctl" where
  "open_step cfg env fnd ak s =
     (case s of (r, _) \<Rightarrow>
        if br_safe r < initial_balance fnd then ((raise_state Degraded r, ()), Break)
        else case try_open_channel cfg (t_pass env) (by_parties env) (fst ak) (initial_balance fnd) fnd (br_safe r) (br_st r) of
               (Spent committed, st') \<Rightarrow> ((r\<lparr>br_st := st', br_safe := br_safe r - committed\<rparr>, ()), Continue)
             | (Underfunded, st') \<Rightarrow> ((raise_state Degraded (r\<lparr>br_st := st'\<rparr>), ()), Continue)
             | (Skipped, st') \<Rightarrow> ((r\<lparr>br_st := st'\<rparr>, ()), Continue))"

definition open_pass ::
    "lifecycle_config \<Rightarrow> tick_env \<Rightarrow> peer_map option \<Rightarrow> resolved_funding option \<Rightarrow> balance option \<Rightarrow> nat \<Rightarrow>
     (address \<times> offchain_key) list \<Rightarrow> budget_run \<Rightarrow> budget_run" where
  "open_pass cfg env peers fnd_opt safe_opt deficit opens_ranked r =
     (if deficit = 0 then r
      else if peers = None then raise_state Failed r
      else case fnd_opt of
             None \<Rightarrow> r
           | Some fnd \<Rightarrow>
               if safe_opt = None then r
               else if initial_balance fnd = 0 then r
               else fst (for_loop (open_step cfg env fnd) (take deficit opens_ranked) (r, ())))"

end
