(* ===== verification/Pipeline_Paths.thy ===== *)
theory Pipeline_Paths
  imports Pipeline_Passes
begin

text \<open>
  Every pass of the pipeline is a path of \<open>Dispatch_Path\<close>, with the transactions it may submit
  named. The facts about a whole loop come from the interpretations of \<open>pass_body\<close>.
\<close>

lemma charge_path:
  assumes "res = spawn_tx cfg now tx (br_st r)" and "P tx" and "tx_cost tx \<le> br_safe r" and "c = tx_cost tx"
  shows "pass_path cfg now P r (charge res c r)"
  using assms pass_path_dispatch [of cfg now tx r "fst res" "snd res" P] by (simp add: charge_def)

lemma raise_path: "pass_path cfg now P r (raise_state s r)"
  by (simp add: raise_state_def pass_path_raise)

lemma raise_after: "pass_path cfg now P r r' \<Longrightarrow> pass_path cfg now P r (raise_state s r')"
  by (rule pass_path_trans [OF raise_path])

lemma raise_state_fields [simp]:
  "br_st (raise_state s r) = br_st r" "br_safe (raise_state s r) = br_safe r"
  "br_severity (raise_state s r) = max (br_severity r) s"
  by (simp_all add: raise_state_def)

section \<open>Fund pass\<close>

definition fund_allowed :: "resolved_funding \<Rightarrow> channel list \<Rightarrow> chain_tx \<Rightarrow> bool" where
  "fund_allowed fnd cands tx \<longleftrightarrow>
     (\<exists>ch\<in>set cands. \<exists>b. tx = FundTx (ch_id ch) b \<and> 0 < b \<and> b \<le> topup_balance fnd \<and>
        (b = topup_balance fnd \<or> face_value fnd dvd b))"

lemma whole_faces_dvd: "(f :: nat) dvd s - s mod f"
  by (simp add: minus_mod_eq_mult_div)

lemma fund_step_path:
  assumes "ch \<in> set cands"
  shows "pass_path cfg now (fund_allowed fnd cands) (fst s) (fst (fst (fund_step cfg now fnd stranded ch s)))"
proof -
  obtain r deferred where s: "s = (r, deferred)" by (cases s)
  let ?amount = "if topup_balance fnd \<le> br_safe r then topup_balance fnd else br_safe r - br_safe r mod face_value fnd"
  let ?r1 = "if ?amount < topup_balance fnd then raise_state Degraded r else r"
  have safe: "br_safe ?r1 = br_safe r" by simp
  have "pass_path cfg now (fund_allowed fnd cands) ?r1 (charge (try_fund_channel cfg now ch ?amount (br_st ?r1)) ?amount ?r1)"
    if "?amount \<noteq> 0"
  proof (rule charge_path [OF dispatchers_spawn_tx(1)])
    have le: "?amount \<le> br_safe r" "?amount \<le> topup_balance fnd" "?amount = topup_balance fnd \<or> face_value fnd dvd ?amount"
      using whole_faces_dvd [of "face_value fnd" "br_safe r"] by auto
    show "fund_allowed fnd cands (FundTx (ch_id ch) ?amount)"
      unfolding fund_allowed_def using that assms le by blast
    show "tx_cost (FundTx (ch_id ch) ?amount) \<le> br_safe ?r1" using le(1) by (simp only: safe tx_cost.simps)
  qed simp
  moreover have "pass_path cfg now (fund_allowed fnd cands) r ?r1" by (simp add: path_refl raise_path)
  ultimately have "pass_path cfg now (fund_allowed fnd cands) r
      (charge (try_fund_channel cfg now ch ?amount (br_st ?r1)) ?amount ?r1)" if "?amount \<noteq> 0"
    using that by (blast intro: pass_path_trans)
  then show ?thesis
    by (simp add: fund_step_def s Let_def path_refl raise_path)
qed

interpretation fund_body: pass_body cfg now "fund_allowed fnd cands" "\<lambda>ch. ch \<in> set cands" "fund_step cfg now fnd stranded"
  by unfold_locales (rule fund_step_path)

definition fund_pass_allowed ::
    "lifecycle_config \<Rightarrow> tick_env \<Rightarrow> (address \<times> offchain_key) list \<Rightarrow> (channel_id \<times> observation) list \<Rightarrow> rat \<Rightarrow> rat \<Rightarrow>
     resolved_funding option \<Rightarrow> channel list \<Rightarrow> lifecycle_state \<Rightarrow> chain_tx \<Rightarrow> bool" where
  "fund_pass_allowed cfg env a2k prev est price fnd_opt open_chs st tx \<longleftrightarrow>
     (\<exists>fnd. fnd_opt = Some fnd \<and> face_value fnd \<noteq> 0 \<and> fund_allowed fnd (fund_candidates cfg env a2k prev est price fnd open_chs st) tx)"

lemma fund_pass_path:
  "pass_path cfg (t_fund env) (fund_pass_allowed cfg env a2k prev est price fnd_opt open_chs (br_st r)) r
     (fst (fund_pass cfg env a2k prev est price fnd_opt safe_opt open_chs open_count r))"
proof (cases "option_zip fnd_opt safe_opt")
  case None
  then show ?thesis by (simp add: fund_pass_def raise_path)
next
  case (Some p)
  then obtain fnd safe where fnd: "fnd_opt = Some fnd" "safe_opt = Some safe"
    by (auto simp: option_zip_def split: option.splits)
  let ?cands = "fund_candidates cfg env a2k prev est price fnd open_chs (br_st r)"
  have "pass_path cfg (t_fund env) (fund_allowed fnd ?cands) r
      (fst (for_loop (fund_step cfg (t_fund env) fnd stranded) ?cands (r, [])))" for stranded
    using fund_body.loop_path [of ?cands ?cands cfg "t_fund env" fnd "(r, [])" stranded] by simp
  then have "pass_path cfg (t_fund env) (fund_pass_allowed cfg env a2k prev est price fnd_opt open_chs (br_st r)) r
      (fst (for_loop (fund_step cfg (t_fund env) fnd stranded) ?cands (r, [])))"
    if "face_value fnd \<noteq> 0" for stranded
    by (rule pass_path_mono) (use that in \<open>auto simp: fund_pass_allowed_def fnd\<close>)
  then show ?thesis by (simp add: fund_pass_def fnd option_zip_def Let_def path_refl)
qed

section \<open>Close pass\<close>

definition close_allowed :: "startup_phase \<Rightarrow> channel list \<Rightarrow> channel_id list \<Rightarrow> chain_tx \<Rightarrow> bool" where
  "close_allowed phase open_chs disconnected tx \<longleftrightarrow>
     (\<exists>ch\<in>set open_chs. tx = CloseTx (ch_id ch) \<and> (phase = ShieldingConnected \<longrightarrow> ch_id ch \<in> set disconnected))"

lemma channel_by_id_Some: "channel_by_id chs cid = Some ch \<Longrightarrow> ch \<in> set chs \<and> ch_id ch = cid"
  by (auto simp: channel_by_id_def dest!: map_of_SomeD)

lemma close_step_path:
  "pass_path cfg now (close_allowed phase open_chs disconnected) (fst s)
     (fst (fst (close_step cfg now phase cap open_count open_chs disconnected cid s)))"
proof -
  obtain r n d where s: "s = (r, n, d)" by (cases s) auto
  have "pass_path cfg now (close_allowed phase open_chs disconnected) r (charge (try_close_channel cfg now ch (br_st r)) 0 r)"
    if "channel_by_id open_chs cid = Some ch" "phase = ShieldingConnected \<longrightarrow> cid \<in> set disconnected" for ch
    using that channel_by_id_Some [OF that(1)]
    by (intro charge_path [OF dispatchers_spawn_tx(2)]) (auto simp: close_allowed_def)
  then show ?thesis
    by (auto simp: close_step_def s Let_def path_refl split: option.splits)
qed

interpretation close_body: pass_body cfg now "close_allowed phase open_chs disconnected" "\<lambda>_. True"
    "close_step cfg now phase cap open_count open_chs disconnected"
  by unfold_locales (rule close_step_path)

section \<open>Consolidation\<close>

definition consolidation_allowed :: "startup_phase \<Rightarrow> close_candidate list \<Rightarrow> balance \<Rightarrow> chain_tx \<Rightarrow> bool" where
  "consolidation_allowed phase closes face tx \<longleftrightarrow>
     (\<exists>c\<in>set closes. phase = Expired \<and> tx = CloseTx (ch_id (cc_channel c)) \<or>
        tx = FundTx (ch_id (cc_channel c)) (face - ch_balance (cc_channel c)) \<and> ch_balance (cc_channel c) < face)"

lemma candidate_by_id_Some:
  "map_of (rev (map (\<lambda>c. (ch_id (cc_channel c), c)) closes)) cid = Some c \<Longrightarrow> c \<in> set closes \<and> ch_id (cc_channel c) = cid"
  by (auto dest!: map_of_SomeD)

lemma consolidate_close_step_path:
  assumes "phase = Expired"
  shows "pass_path cfg now (consolidation_allowed phase closes face) (fst s)
    (fst (fst (consolidate_close_step cfg now closes cid s)))"
proof -
  obtain r n where s: "s = (r, n)" by (cases s)
  have "pass_path cfg now (consolidation_allowed phase closes face) r
      (charge (try_close_channel cfg now (cc_channel c) (br_st r)) 0 r)"
    if "map_of (rev (map (\<lambda>c. (ch_id (cc_channel c), c)) closes)) cid = Some c" for c
    using assms candidate_by_id_Some [OF that]
    by (intro charge_path [OF dispatchers_spawn_tx(2)]) (auto simp: consolidation_allowed_def)
  then show ?thesis
    by (auto simp: consolidate_close_step_def s Let_def path_refl raise_after split: option.splits)
qed

interpretation consolidate_close_body: pass_body cfg now "consolidation_allowed phase closes face"
    "\<lambda>_. phase = Expired" "consolidate_close_step cfg now closes"
  by unfold_locales (rule consolidate_close_step_path)

lemma survivor_step_path:
  assumes "c \<in> set closes"
  shows "pass_path cfg now (consolidation_allowed phase closes face) (fst s) (fst (fst (survivor_step cfg now face c s)))"
proof -
  obtain r u where s: "s = (r, u)" by (cases s)
  let ?topup = "face - ch_balance (cc_channel c)"
  have "pass_path cfg now (consolidation_allowed phase closes face) r
      (charge (try_fund_channel cfg now (cc_channel c) ?topup (br_st r)) ?topup r)"
    if "?topup \<noteq> 0" "\<not> br_safe r < ?topup"
    using assms that by (intro charge_path [OF dispatchers_spawn_tx(1)]) (auto simp: consolidation_allowed_def)
  then show ?thesis by (simp add: survivor_step_def s Let_def path_refl raise_path)
qed

interpretation survivor_body: pass_body cfg now "consolidation_allowed phase closes face" "\<lambda>c. c \<in> set closes"
    "survivor_step cfg now face"
  by unfold_locales (rule survivor_step_path)

lemma consolidate_path:
  "pass_path cfg now (consolidation_allowed phase closes face) r
     (consolidate_stranded_stake cfg now closes deferred face reclaiming phase safe r)"
proof (cases "face = 0 \<or> deferred = [] \<or> map (candidate_of cfg) (filter (is_free now (br_st r) deferred) closes) = []")
  case True
  then show ?thesis by (auto simp: consolidate_stranded_stake_def Let_def path_refl)
next
  case False
  let ?under = "map (candidate_of cfg) (filter (is_free now (br_st r) deferred) closes)"
  let ?ranked = "if phase = Expired then consolidation_closes ?under safe reclaiming face else []"
  let ?r1 = "fst (for_loop (consolidate_close_step cfg now closes) ?ranked (r, held_count now (in_flight (br_st r) KClose)))"
  let ?surv = "sort_key (\<lambda>c. - int (ch_balance (cc_channel c)))
      (filter (\<lambda>c. is_free now (br_st ?r1) deferred c \<and> ch_id (cc_channel c) \<notin> set ?ranked) closes)"
  have "pass_path cfg now (consolidation_allowed phase closes face) r ?r1"
    using consolidate_close_body.loop_path [of ?ranked phase cfg now closes face "(r, held_count now (in_flight (br_st r) KClose))"]
    by simp
  moreover have "pass_path cfg now (consolidation_allowed phase closes face) ?r1
      (fst (for_loop (survivor_step cfg now face) ?surv (?r1, ())))"
    using survivor_body.loop_path [of ?surv closes cfg now phase face "(?r1, ())"] by simp
  moreover have "consolidate_stranded_stake cfg now closes deferred face reclaiming phase safe r =
      fst (for_loop (survivor_step cfg now face) ?surv (?r1, ()))"
  proof -
    from False have "face \<noteq> 0" "deferred \<noteq> []" "?under \<noteq> []" by simp_all
    then show ?thesis by (simp only: consolidate_stranded_stake_def Let_def if_False simp_thms)
  qed
  ultimately show ?thesis by (simp only:) (rule pass_path_trans)
qed

section \<open>Finalize pass\<close>

definition finalize_allowed :: "lifecycle_config \<Rightarrow> tick_env \<Rightarrow> channel list \<Rightarrow> chain_tx \<Rightarrow> bool" where
  "finalize_allowed cfg env chs tx \<longleftrightarrow>
     (\<exists>ch\<in>set chs. \<exists>t. tx = FinalizeTx (ch_id ch) \<and> ch_status ch = PendingToClose t \<and>
        t + max_closure_overdue (finalizer cfg) \<le> sys_now env)"

lemma finalize_step_path:
  assumes "ch \<in> set chs"
  shows "pass_path cfg (t_pass env) (finalize_allowed cfg env chs) (fst s) (fst (fst (finalize_step cfg env ch s)))"
proof -
  obtain r n where s: "s = (r, n)" by (cases s)
  have "pass_path cfg (t_pass env) (finalize_allowed cfg env chs) r (charge (try_finalize_channel cfg (t_pass env) ch (br_st r)) 0 r)"
    if "ch_status ch = PendingToClose t" "t \<le> sys_now env" "max_closure_overdue (finalizer cfg) \<le> sys_now env - t" for t
    using assms that by (intro charge_path [OF dispatchers_spawn_tx(3)]) (auto simp: finalize_allowed_def)
  then show ?thesis
    by (auto simp: finalize_step_def s Let_def path_refl split: channel_status.splits)
qed

interpretation finalize_body: pass_body cfg "t_pass env" "finalize_allowed cfg env chs" "\<lambda>ch. ch \<in> set chs" "finalize_step cfg env"
  by unfold_locales (rule finalize_step_path)

lemma finalize_pass_path: "pass_path cfg (t_pass env) (finalize_allowed cfg env chs) r (finalize_pass cfg env chs r)"
  using finalize_body.loop_path [of chs chs cfg env "(r, held_count (t_pass env) (in_flight (br_st r) KFinalize))"]
  by (simp add: finalize_pass_def path_refl)

section \<open>Open pass\<close>

definition open_allowed :: "tick_env \<Rightarrow> resolved_funding \<Rightarrow> address list \<Rightarrow> chain_tx \<Rightarrow> bool" where
  "open_allowed env fnd addrs tx \<longleftrightarrow>
     (\<exists>a\<in>set addrs. tx = OpenTx a (initial_balance fnd) \<and> (\<forall>ch. by_parties env a = Found ch \<longrightarrow> ch_status ch = Closed) \<or>
        (\<exists>ch. by_parties env a = Found ch \<and> ch_status ch = Open \<and> ch_balance ch < lower_balance_threshold fnd \<and>
           tx = FundTx (ch_id ch) (topup_balance fnd)))"

lemma open_step_path:
  assumes "fst ak \<in> set addrs"
  shows "pass_path cfg (t_pass env) (open_allowed env fnd addrs) (fst s) (fst (fst (open_step cfg env fnd ak s)))"
proof -
  obtain r u where s: "s = (r, u)" by (cases s)
  let ?P = "pass_path cfg (t_pass env) (open_allowed env fnd addrs) r"
  have opened: "?P (r\<lparr>br_st := st', br_safe := br_safe r - (if ok then initial_balance fnd else 0)\<rparr>)"
    if "spawn_leased cfg (t_pass env) KOpen (fst ak) (OpenTx (fst ak) (initial_balance fnd)) (br_st r) = (ok, st')"
      "\<forall>ch. by_parties env (fst ak) = Found ch \<longrightarrow> ch_status ch = Closed" "initial_balance fnd \<le> br_safe r" for ok st'
    using that assms pass_path_dispatch [of cfg "t_pass env" "OpenTx (fst ak) (initial_balance fnd)" r ok st' "open_allowed env fnd addrs"]
    by (auto simp: open_allowed_def spawn_tx_def)
  have redirected: "?P (r\<lparr>br_st := st', br_safe := br_safe r - (if ok then topup_balance fnd else 0)\<rparr>)"
    if "try_fund_channel cfg (t_pass env) ch (topup_balance fnd) (br_st r) = (ok, st')" "by_parties env (fst ak) = Found ch"
      "ch_status ch = Open" "ch_balance ch < lower_balance_threshold fnd" "topup_balance fnd \<le> br_safe r" for ok st' ch
  proof -
    have "open_allowed env fnd addrs (FundTx (ch_id ch) (topup_balance fnd))"
      unfolding open_allowed_def using that assms by blast
    with that show ?thesis
      using pass_path_dispatch [of cfg "t_pass env" "FundTx (ch_id ch) (topup_balance fnd)" r ok st' "open_allowed env fnd addrs"]
      by (cases ok) (simp_all add: dispatchers_spawn_tx)
  qed
  show ?thesis
  proof (cases "br_safe r < initial_balance fnd")
    case True
    then show ?thesis by (simp add: open_step_def s raise_path)
  next
    case False
    have skip: "?P (r\<lparr>br_st := br_st r\<rparr>)" by (simp add: path_refl)
    obtain ok st' where sp: "spawn_leased cfg (t_pass env) KOpen (fst ak) (OpenTx (fst ak) (initial_balance fnd)) (br_st r) = (ok, st')"
      by fastforce
    consider (open_it) "\<forall>ch. by_parties env (fst ak) = Found ch \<longrightarrow> ch_status ch = Closed"
      | (pending) ch t where "by_parties env (fst ak) = Found ch" "ch_status ch = PendingToClose t"
      | (existing) ch where "by_parties env (fst ak) = Found ch" "ch_status ch = Open"
      by (metis channel_status.exhaust)
    then show ?thesis
    proof cases
      case open_it
      then have "try_open_channel cfg (t_pass env) (by_parties env) (fst ak) (initial_balance fnd) fnd (br_safe r) (br_st r)
          = (if ok then Spent (initial_balance fnd) else Skipped, st')"
        by (auto simp: try_open_channel_def sp Let_def split: channel_lookup.splits)
      with False opened [OF sp open_it] show ?thesis by (cases ok) (simp_all add: open_step_def s)
    next
      case pending
      with False skip show ?thesis by (simp add: open_step_def s try_open_channel_def Let_def)
    next
      case (existing ch)
      obtain ok2 st2 where f: "try_fund_channel cfg (t_pass env) ch (topup_balance fnd) (br_st r) = (ok2, st2)" by fastforce
      show ?thesis
        using False skip existing redirected [OF f existing] raise_path [of cfg "t_pass env" "open_allowed env fnd addrs" r Degraded]
        by (cases ok2) (auto simp: open_step_def s try_open_channel_def f Let_def)
    qed
  qed
qed

interpretation open_body: pass_body cfg "t_pass env" "open_allowed env fnd addrs" "\<lambda>ak. fst ak \<in> set addrs" "open_step cfg env fnd"
  by unfold_locales (rule open_step_path)

definition open_pass_allowed :: "tick_env \<Rightarrow> resolved_funding option \<Rightarrow> address list \<Rightarrow> chain_tx \<Rightarrow> bool" where
  "open_pass_allowed env fnd_opt addrs tx \<longleftrightarrow> (\<exists>fnd. fnd_opt = Some fnd \<and> open_allowed env fnd addrs tx)"

lemma open_pass_path:
  "pass_path cfg (t_pass env) (open_pass_allowed env fnd_opt (map fst opens)) r
     (open_pass cfg env peers fnd_opt safe_opt deficit opens r)"
proof (cases fnd_opt)
  case None
  then show ?thesis by (simp add: open_pass_def path_refl raise_path)
next
  case (Some fnd)
  have "pass_path cfg (t_pass env) (open_allowed env fnd (map fst opens)) r
      (fst (for_loop (open_step cfg env fnd) (take deficit opens) (r, ())))"
    using open_body.loop_path [of "take deficit opens" "map fst opens" cfg env fnd "(r, ())"]
    by (auto dest!: in_set_takeD)
  then have "pass_path cfg (t_pass env) (open_pass_allowed env fnd_opt (map fst opens)) r
      (fst (for_loop (open_step cfg env fnd) (take deficit opens) (r, ())))"
    by (rule pass_path_mono) (simp add: open_pass_allowed_def Some)
  then show ?thesis by (simp add: open_pass_def Some path_refl raise_path)
qed

end
