(* ===== verification/Close_Limits.thy ===== *)
theory Close_Limits
  imports Pipeline_Paths
begin

text \<open>
  What limits the close pass of \<open>src/src/channel_lifecycle/pipeline.rs\<close>: the population floor,
  the concurrency cap, the selector's per-tick cap, the staged startup and the debounce of the
  connectivity trigger.
\<close>

section \<open>The debounce of the connectivity trigger\<close>

definition streak_of :: "(address \<times> nat) list \<Rightarrow> address \<Rightarrow> nat" where
  "streak_of m a = unwrap_or (map_of m a) 0"

definition unreachable :: "tick_env \<Rightarrow> (address \<times> peer_id) list \<Rightarrow> address \<Rightarrow> bool" where
  "unreachable env a2p a \<longleftrightarrow> (\<exists>peer. map_of a2p a = Some peer \<and> \<not> is_connected env peer)"

lemma disconnect_step_eq:
  "disconnect_step env a2p debounce ch (streaks, disc) =
     (if unreachable env a2p (ch_destination ch)
      then (AList.update (ch_destination ch) (streak_of streaks (ch_destination ch) + 1) streaks,
            if debounce \<le> streak_of streaks (ch_destination ch) + 1 then disc @ [ch_id ch] else disc)
      else (AList.delete (ch_destination ch) streaks, disc))"
  by (auto simp: disconnect_step_def unreachable_def streak_of_def Let_def split: option.splits)

lemma streak_of_step:
  "a \<noteq> ch_destination ch \<Longrightarrow> streak_of (fst (disconnect_step env a2p n ch (m, d))) a = streak_of m a"
  by (simp add: disconnect_step_eq streak_of_def alist_lookups)

lemma disconnect_fold:
  assumes "distinct (map ch_destination chs)"
  shows "set (snd (fold (disconnect_step env a2p debounce) chs (m, disc))) = set disc \<union>
      ch_id ` {ch \<in> set chs. unreachable env a2p (ch_destination ch) \<and> debounce \<le> streak_of m (ch_destination ch) + 1} \<and>
    (\<forall>ch\<in>set chs. streak_of (fst (fold (disconnect_step env a2p debounce) chs (m, disc))) (ch_destination ch) =
       (if unreachable env a2p (ch_destination ch) then streak_of m (ch_destination ch) + 1 else 0)) \<and>
    (\<forall>a. a \<notin> ch_destination ` set chs \<longrightarrow>
       streak_of (fst (fold (disconnect_step env a2p debounce) chs (m, disc))) a = streak_of m a)"
  using assms
proof (induction chs arbitrary: m disc)
  case (Cons ch chs)
  obtain m1 d1 where s: "disconnect_step env a2p debounce ch (m, disc) = (m1, d1)" by fastforce
  have other: "streak_of m1 (ch_destination c) = streak_of m (ch_destination c)" if "c \<in> set chs" for c
  proof -
    have "ch_destination c \<noteq> ch_destination ch"
    proof
      assume "ch_destination c = ch_destination ch"
      then have "ch_destination ch \<in> ch_destination ` set chs" using that by (metis imageI)
      with Cons.prems show False by simp
    qed
    from streak_of_step [OF this, of env a2p debounce m disc] s show ?thesis by simp
  qed
  have own: "streak_of m1 (ch_destination ch) =
      (if unreachable env a2p (ch_destination ch) then streak_of m (ch_destination ch) + 1 else 0)"
    using s by (auto simp: disconnect_step_eq streak_of_def alist_lookups unwrap_or_def split: if_splits)
  have d1: "set d1 = set disc \<union> (if unreachable env a2p (ch_destination ch) \<and> debounce \<le> streak_of m (ch_destination ch) + 1
      then {ch_id ch} else {})"
    using s by (auto simp: disconnect_step_eq split: if_splits)
  have rest: "streak_of m1 a = streak_of m a" if "a \<noteq> ch_destination ch" for a
    using streak_of_step [OF that, of env a2p debounce m disc] s by simp
  have IH: "set (snd (fold (disconnect_step env a2p debounce) chs (m1, d1))) = set d1 \<union>
      ch_id ` {c \<in> set chs. unreachable env a2p (ch_destination c) \<and> debounce \<le> streak_of m1 (ch_destination c) + 1}"
    "\<forall>c\<in>set chs. streak_of (fst (fold (disconnect_step env a2p debounce) chs (m1, d1))) (ch_destination c) =
       (if unreachable env a2p (ch_destination c) then streak_of m1 (ch_destination c) + 1 else 0)"
    "\<forall>a. a \<notin> ch_destination ` set chs \<longrightarrow>
       streak_of (fst (fold (disconnect_step env a2p debounce) chs (m1, d1))) a = streak_of m1 a"
    using Cons.IH [of m1 d1] Cons.prems by simp_all
  have same: "{c \<in> set chs. unreachable env a2p (ch_destination c) \<and> debounce \<le> streak_of m1 (ch_destination c) + 1} =
      {c \<in> set chs. unreachable env a2p (ch_destination c) \<and> debounce \<le> streak_of m (ch_destination c) + 1}"
    using other by auto
  have notin: "ch_destination ch \<notin> ch_destination ` set chs" using Cons.prems by simp
  have part1: "set (snd (fold (disconnect_step env a2p debounce) (ch # chs) (m, disc))) = set disc \<union>
      ch_id ` {c \<in> set (ch # chs). unreachable env a2p (ch_destination c) \<and> debounce \<le> streak_of m (ch_destination c) + 1}"
    unfolding fold.simps comp_apply s IH(1) same d1 by auto
  show ?case
    using part1 IH(2,3) own other rest notin by (simp add: s)
qed simp

lemma retained_streak:
  "alist_wf m \<Longrightarrow> a \<in> set live \<Longrightarrow> streak_of (filter (\<lambda>(dest, _). dest \<in> set live) m) a = streak_of m a"
  by (simp add: streak_of_def map_of_filter_wf split: option.splits)

text \<open>
  The connectivity trigger is debounced and resets: with one channel per destination, a
  channel counts as disconnected exactly when its peer is resolvable, not connected now, and was
  already seen so on enough ticks in a row; every unreachable destination's streak goes up by
  one, every other one's is back to zero, and an unresolvable peer never counts.
\<close>

theorem disconnect_debounced:
  assumes "distinct (map ch_destination chs)" and "alist_wf (disconnect_streak st)"
    and "disconnected_channels cfg env a2p chs st = (disconnected, st')"
  shows "set disconnected = ch_id ` {ch \<in> set chs. unreachable env a2p (ch_destination ch) \<and>
      max (close_after_disconnected_ticks (closure cfg)) 1 \<le> streak_of (disconnect_streak st) (ch_destination ch) + 1} \<and>
    (\<forall>ch\<in>set chs. streak_of (disconnect_streak st') (ch_destination ch) =
       (if unreachable env a2p (ch_destination ch) then streak_of (disconnect_streak st) (ch_destination ch) + 1 else 0))"
proof -
  let ?live = "map ch_destination chs" and ?n = "max (close_after_disconnected_ticks (closure cfg)) 1"
  let ?m = "filter (\<lambda>(dest, _). dest \<in> set ?live) (disconnect_streak st)"
  obtain streaks disc where f: "fold (disconnect_step env a2p ?n) chs (?m, []) = (streaks, disc)" by fastforce
  with assms(3) have eq: "disconnected = disc" "disconnect_streak st' = streaks"
    by (auto simp: disconnected_channels_def Let_def)
  have same: "streak_of ?m (ch_destination ch) = streak_of (disconnect_streak st) (ch_destination ch)" if "ch \<in> set chs" for ch
    using retained_streak [OF assms(2), of "ch_destination ch" ?live] that by simp
  then have sets: "{ch \<in> set chs. unreachable env a2p (ch_destination ch) \<and> ?n \<le> streak_of ?m (ch_destination ch) + 1} =
      {ch \<in> set chs. unreachable env a2p (ch_destination ch) \<and> ?n \<le> streak_of (disconnect_streak st) (ch_destination ch) + 1}"
    by auto
  note fold = disconnect_fold [OF assms(1), of env a2p ?n ?m "[]", unfolded f fst_conv snd_conv]
  have "set disc = ch_id ` {ch \<in> set chs. unreachable env a2p (ch_destination ch) \<and>
      ?n \<le> streak_of (disconnect_streak st) (ch_destination ch) + 1}"
    using fold sets by (simp only: list.set Un_empty_left)
  moreover have "\<forall>ch\<in>set chs. streak_of streaks (ch_destination ch) =
       (if unreachable env a2p (ch_destination ch) then streak_of (disconnect_streak st) (ch_destination ch) + 1 else 0)"
    using fold same by simp
  ultimately show ?thesis unfolding eq by blast
qed

section \<open>The limits of the close loop\<close>

definition close_loop_inv ::
    "lifecycle_config \<Rightarrow> nat option \<Rightarrow> nat \<Rightarrow> task list \<Rightarrow> nat \<Rightarrow> budget_run \<times> nat \<times> nat \<Rightarrow> bool" where
  "close_loop_inv cfg cap open_count base held0 s \<longleftrightarrow>
     (case s of (r, n, d) \<Rightarrow>
        n = held0 + d \<and> (\<exists>tks. ls_tasks (br_st r) = base @ tks \<and> length tks = d) \<and>
        (d = 0 \<or> n \<le> close_max_concurrent (closure cfg) \<and> min_open_channels (population cfg) + n \<le> open_count \<and>
           (\<forall>c. cap = Some c \<longrightarrow> d \<le> c)))"

lemma close_step_limits:
  assumes "close_loop_inv cfg cap open_count base held0 s"
  shows "close_loop_inv cfg cap open_count base held0 (fst (close_step cfg now phase cap open_count open_chs disconnected cid s))"
proof -
  obtain r n d where s: "s = (r, n, d)" by (cases s) auto
  obtain tks where inv: "n = held0 + d" "ls_tasks (br_st r) = base @ tks" "length tks = d"
    and lim: "d = 0 \<or> n \<le> close_max_concurrent (closure cfg) \<and> min_open_channels (population cfg) + n \<le> open_count \<and>
           (\<forall>c. cap = Some c \<longrightarrow> d \<le> c)"
    using assms by (auto simp: close_loop_inv_def s)
  have same: "close_loop_inv cfg cap open_count base held0 (charge res 0 r, n, d)"
    if "res = try_close_channel cfg now ch (br_st r)" "\<not> fst res" for res ch
  proof -
    have "ls_tasks (snd res) = ls_tasks (br_st r)"
      using spawn_leased_tasks [of cfg now KClose "ch_id ch" "CloseTx (ch_id ch)" "br_st r" "fst res" "snd res"] that
      by (simp add: try_close_channel_def)
    with inv lim show ?thesis by (simp add: close_loop_inv_def charge_def)
  qed
  have more: "close_loop_inv cfg cap open_count base held0 (charge res 0 r, n + 1, d + 1)"
    if "res = try_close_channel cfg now ch (br_st r)" "fst res" "\<not> close_max_concurrent (closure cfg) \<le> n"
      "\<not> (case cap of Some c \<Rightarrow> c \<le> d | None \<Rightarrow> False)" "\<not> open_count - n \<le> min_open_channels (population cfg)" for res ch
  proof -
    have "spawn_leased cfg now KClose (ch_id ch) (CloseTx (ch_id ch)) (br_st r) = (True, snd res)"
      using that(1,2) by (simp add: try_close_channel_def prod_eq_iff)
    from spawn_leased_tasks [OF this] obtain h where "ls_tasks (snd res) = ls_tasks (br_st r) @
        [\<lparr>tk_kind = KClose, tk_key = ch_id ch, tk_holder = h, tk_tx = CloseTx (ch_id ch)\<rparr>]"
      by auto
    with inv that show ?thesis by (auto simp: close_loop_inv_def charge_def split: option.splits)
  qed
  show ?thesis
    using assms same [OF refl] more [OF refl]
    by (cases "channel_by_id open_chs cid") (simp_all add: close_step_def s Let_def)
qed

interpretation close_limits: loop_body "close_step cfg now phase cap open_count open_chs disconnected" "\<lambda>_. True"
    "close_loop_inv cfg cap open_count base held0"
  by unfold_locales (rule close_step_limits)

lemma disconnected_channels_state:
  "snd (disconnected_channels cfg env a2p chs st) =
     st\<lparr>disconnect_streak := disconnect_streak (snd (disconnected_channels cfg env a2p chs st))\<rparr>"
  by (simp add: disconnected_channels_def Let_def split: prod.splits)

lemma disconnect_streak_wf:
  "alist_wf m \<Longrightarrow> alist_wf (fst (fold (disconnect_step env a2p n) chs (m, d)))"
proof (induction chs arbitrary: m d)
  case (Cons ch chs)
  show ?case
    using Cons.IH [OF alist_wf_update [OF Cons.prems]] Cons.IH [OF alist_wf_delete [OF Cons.prems]]
    by (simp add: disconnect_step_eq)
qed simp

lemma disconnected_channels_wf: "ls_wf st \<Longrightarrow> ls_wf (snd (disconnected_channels cfg env a2p chs st))"
proof -
  assume wf: "ls_wf st"
  have "alist_wf (disconnect_streak (snd (disconnected_channels cfg env a2p chs st)))"
    using disconnect_streak_wf [OF alist_wf_filter, of "disconnect_streak st"] ls_wf_maps [OF wf]
    by (simp add: disconnected_channels_def Let_def split: prod.splits) (metis fst_conv)
  with wf show ?thesis
    by (subst disconnected_channels_state) (simp add: ls_wf_def)
qed

text \<open>The two shapes of a close pass.\<close>

definition phase_of :: "lifecycle_config \<Rightarrow> tick_env \<Rightarrow> lifecycle_state \<Rightarrow> startup_phase" where
  "phase_of cfg env st = phase_at (restart cfg) (t_pass env - start_epoch st)"

lemma close_pass_cases:
  obtains (observing) "phase_of cfg env (br_st r) = Observing" "close_pass cfg env peers closes open_chs open_count ranked r = r"
  | (active) disconnected st2 r1 cands where "phase_of cfg env (br_st r) \<noteq> Observing"
      and "disconnected_channels cfg env (addr_to_peer_id peers) open_chs (br_st r) = (disconnected, st2)"
      and "br_st r1 = st2" "br_safe r1 = br_safe r" "br_severity r \<le> br_severity r1"
      and "peers = None \<and> closes \<noteq> [] \<longrightarrow> Degraded \<le> br_severity r1"
      and "close_pass cfg env peers closes open_chs open_count ranked r =
        fst (for_loop (close_step cfg (t_pass env) (phase_of cfg env (br_st r)) (max_closes_per_tick (selector_for cfg))
               open_count open_chs disconnected) cands (r1, held_count (t_pass env) (in_flight (br_st r) KClose), 0))"
proof (cases "phase_of cfg env (br_st r) = Observing")
  case True
  then show thesis by (intro observing) (simp_all add: close_pass_def phase_of_def)
next
  case False
  obtain disconnected st2 where d: "disconnected_channels cfg env (addr_to_peer_id peers) open_chs (br_st r) = (disconnected, st2)"
    by fastforce
  let ?r1 = "(if peers = None \<and> closes \<noteq> [] then raise_state Degraded r else r)\<lparr>br_st := st2\<rparr>"
  show thesis
    using False d
    by (intro active [of disconnected st2 ?r1 "ranked @ set_order env (filter (\<lambda>c. c \<notin> set ranked) (remdups disconnected))"])
      (cases peers; simp add: close_pass_def phase_of_def Let_def)+
qed

definition closes_in_flight :: "tick_env \<Rightarrow> budget_run \<Rightarrow> nat" where
  "closes_in_flight env r = held_count (t_pass env) (in_flight (br_st r) KClose)"

lemma close_loop_start: "close_loop_inv cfg cap open_count (ls_tasks (br_st r)) held0 (r, held0, 0)"
  by (simp add: close_loop_inv_def)

text \<open>
  C9. The close pass respects every limit it is under. It never runs while the strategy is still
  observing. When it submits closures, they are for open channels only and, together with those
  already in flight, leave at least the minimum population; they stay within the concurrency
  cap and the selector's per-tick cap; and while connected peers are shielded every one of them
  is for a channel whose peer has been disconnected through the debounce window.
\<close>

theorem close_pass_limits:
  "\<exists>tks. ls_tasks (br_st (close_pass cfg env peers closes open_chs open_count ranked r)) = ls_tasks (br_st r) @ tks \<and>
    (phase_of cfg env (br_st r) = Observing \<longrightarrow> tks = []) \<and>
    (tks \<noteq> [] \<longrightarrow> min_open_channels (population cfg) + (closes_in_flight env r + length tks) \<le> open_count \<and>
       closes_in_flight env r + length tks \<le> close_max_concurrent (closure cfg) \<and>
       (\<forall>c. max_closes_per_tick (selector_for cfg) = Some c \<longrightarrow> length tks \<le> c)) \<and>
    (\<forall>tk\<in>set tks. \<exists>ch\<in>set open_chs. tk_tx tk = CloseTx (ch_id ch) \<and>
       (phase_of cfg env (br_st r) = ShieldingConnected \<longrightarrow>
          ch_id ch \<in> set (fst (disconnected_channels cfg env (addr_to_peer_id peers) open_chs (br_st r)))))"
proof (cases rule: close_pass_cases [of cfg env r peers closes open_chs open_count ranked])
  case observing
  then show ?thesis by simp
next
  case (active disconnected st2 r1 cands)
  let ?phase = "phase_of cfg env (br_st r)" and ?cap = "max_closes_per_tick (selector_for cfg)"
  let ?loop = "for_loop (close_step cfg (t_pass env) ?phase ?cap open_count open_chs disconnected) cands (r1, closes_in_flight env r, 0)"
  have base: "ls_tasks (br_st r1) = ls_tasks (br_st r)"
    using active(2,3) disconnected_channels_state [of cfg env "addr_to_peer_id peers" open_chs "br_st r"]
    by (metis lifecycle_state.ext_inject lifecycle_state.surjective lifecycle_state.update_convs(10) snd_conv)
  have "close_loop_inv cfg ?cap open_count (ls_tasks (br_st r)) (closes_in_flight env r) ?loop"
    using close_limits.loop_inv [of cands cfg ?cap open_count "ls_tasks (br_st r)" "closes_in_flight env r" "(r1, closes_in_flight env r, 0)"]
      close_loop_start [of cfg ?cap open_count r1 "closes_in_flight env r"] by (simp add: base)
  then obtain tks where tks: "ls_tasks (br_st (fst ?loop)) = ls_tasks (br_st r) @ tks"
    and lim: "tks \<noteq> [] \<longrightarrow> closes_in_flight env r + length tks \<le> close_max_concurrent (closure cfg) \<and>
      min_open_channels (population cfg) + (closes_in_flight env r + length tks) \<le> open_count \<and> (\<forall>c. ?cap = Some c \<longrightarrow> length tks \<le> c)"
    by (auto simp: close_loop_inv_def split: prod.splits)
  have "pass_path cfg (t_pass env) (close_allowed ?phase open_chs disconnected) r1 (fst ?loop)"
    using close_body.loop_path [of cands cfg "t_pass env" ?phase open_chs disconnected "(r1, closes_in_flight env r, 0)"] by simp
  from pass_path_tasks [OF this] obtain tks' where "ls_tasks (br_st (fst ?loop)) = ls_tasks (br_st r1) @ tks'"
    "\<forall>tk\<in>set tks'. task_ok (close_allowed ?phase open_chs disconnected) tk" by blast
  with tks base have "\<forall>tk\<in>set tks. task_ok (close_allowed ?phase open_chs disconnected) tk" by simp
  then have "\<forall>tk\<in>set tks. \<exists>ch\<in>set open_chs. tk_tx tk = CloseTx (ch_id ch) \<and>
       (?phase = ShieldingConnected \<longrightarrow> ch_id ch \<in> set disconnected)"
    by (auto simp: task_ok_def close_allowed_def)
  moreover have "close_pass cfg env peers closes open_chs open_count ranked r = fst ?loop"
    using active(7) by (simp add: closes_in_flight_def)
  ultimately show ?thesis using tks lim active(1,2) by auto
qed

end
