(* ===== verification/Lifecycle_Tick.thy ===== *)
theory Lifecycle_Tick
  imports Close_Limits
begin

text \<open>
  One tick of the channel-lifecycle strategy: \<open>run_pipeline\<close> and \<open>pipeline_inner\<close> of
  \<open>src/src/channel_lifecycle/pipeline.rs\<close>, composed of the snapshot and the passes. A tick first
  gathers what it sees (\<open>tick_view\<close>), then runs the five passes over it, and publishes the
  severity it collected, whichever exit it takes.
\<close>

record tick_view =
  tv_channels :: "channel list"
  tv_prev :: "(channel_id \<times> observation) list"
  tv_est_tx_secs :: rat
  tv_econ :: economics
  tv_peers :: "peer_map option"
  tv_safe :: "safe_budget option"
  tv_open :: "channel list"
  tv_open_count :: nat
  tv_deficit :: nat

definition gather :: "lifecycle_config \<Rightarrow> tick_env \<Rightarrow> channel list \<Rightarrow> lifecycle_state \<Rightarrow> tick_view \<times> lifecycle_state" where
  "gather cfg env chs st =
     (let deadline = read_deadline cfg (t_begin env);
          prev = prev_observations st chs;
          st2 = snapshot_channels cfg (t_snapshot env) chs st;
          econ = economics_of cfg (env_platform env) (chain_read deadline (q_price env)) (chain_read deadline (q_win_prob env));
          st3 = share_economics (resolved econ) st2;
          pm = peer_addr_map (peer_of env) (t_peers env) deadline (q_accounts env) st3;
          open_chs = filter (\<lambda>c. ch_status c = Open) chs;
          open_count = length open_chs + held_count (t_fund env) (in_flight (snd pm) KOpen)
      in (\<lparr>tv_channels = chs, tv_prev = prev, tv_est_tx_secs = as_secs_f64 (est_tx_time cfg deadline (q_tx_time env)),
           tv_econ = econ, tv_peers = fst pm, tv_safe = safe_balance_budget deadline (q_safe env),
           tv_open = open_chs, tv_open_count = open_count,
           tv_deficit = target_open_channels (population cfg) - open_count\<rparr>, snd pm))"

definition initial_run :: "tick_view \<Rightarrow> lifecycle_state \<Rightarrow> budget_run" where
  "initial_run v st =
     \<lparr>br_st = st, br_safe = (case tv_safe v of Some b \<Rightarrow> sb_spendable b | None \<Rightarrow> 0), br_severity = Running\<rparr>"

definition run_passes :: "lifecycle_config \<Rightarrow> tick_env \<Rightarrow> tick_view \<Rightarrow> lifecycle_state \<Rightarrow> budget_run" where
  "run_passes cfg env v st =
     (let fnd = resolved (tv_econ v);
          safe_balance = map_option sb_balance (tv_safe v);
          a2k = addr_to_key (tv_peers v)
      in case fund_pass cfg env a2k (tv_prev v) (tv_est_tx_secs v) (min_ticket_price_wei (tv_econ v)) fnd safe_balance
                (tv_open v) (tv_open_count v) (initial_run v st) of
           (r1, deferred) \<Rightarrow>
             let closes = map (close_candidate_of env (br_st r1) a2k) (tv_open v);
                 opens = open_candidates_of cfg env (br_st r1) (tv_peers v) (tv_channels v);
                 ctx = selector_ctx_of cfg env (br_st r1) (tv_peers v) (min_onward_balance (tv_econ v)) (tv_deficit v) closes opens;
                 closes_ranked = select_closes (selector_for cfg) ctx;
                 opens_ranked = select_opens (selector_for cfg) ctx;
                 r2 = close_pass cfg env (tv_peers v) closes (tv_open v) (tv_open_count v) closes_ranked r1;
                 r3 = consolidation_pass cfg env fnd safe_balance (tv_channels v) closes deferred r2;
                 r4 = finalize_pass cfg env (tv_channels v) r3
             in open_pass cfg env (tv_peers v) fnd safe_balance (tv_deficit v) opens_ranked r4)"

definition pipeline_inner :: "lifecycle_config \<Rightarrow> tick_env \<Rightarrow> lifecycle_state \<Rightarrow> lifecycle_state" where
  "pipeline_inner cfg env st =
     (let st1 = sweep_action_leases (t_begin env) st
      in case chain_read (read_deadline cfg (t_begin env)) (q_channels env) of
           None \<Rightarrow> set_state (max Running Failed) st1
         | Some chs \<Rightarrow>
             (case gather cfg env chs st1 of
                (v, st2) \<Rightarrow> let r = run_passes cfg env v st2 in set_state (br_severity r) (br_st r)))"

definition run_pipeline :: "lifecycle_config \<Rightarrow> tick_env \<Rightarrow> lifecycle_state \<Rightarrow> lifecycle_state" where
  "run_pipeline cfg env st = pipeline_inner cfg env (st\<lparr>tick_counter := tick_counter st + 1\<rparr>)"

section \<open>What a stretch of a tick keeps\<close>

definition tick_wf :: "tick_env \<Rightarrow> bool" where
  \<comment> \<open>the clock does not run backwards during a tick\<close>
  "tick_wf env \<longleftrightarrow> t_begin env \<le> t_snapshot env \<and> t_snapshot env \<le> t_peers env \<and> t_peers env \<le> t_fund env \<and>
     t_fund env \<le> t_select env \<and> t_select env \<le> t_pass env"

definition stretch ::
    "lifecycle_config \<Rightarrow> instant \<Rightarrow> instant \<Rightarrow> (chain_tx \<Rightarrow> bool) \<Rightarrow> budget_run \<Rightarrow> budget_run \<Rightarrow> bool" where
  "stretch cfg t t' P r s \<longleftrightarrow>
     (ls_wf (br_st r) \<longrightarrow> ls_wf (br_st s)) \<and>
     (ls_wf (br_st r) \<and> total_in_flight t (br_st r) \<le> max_concurrent_actions (concurrency cfg) \<longrightarrow>
        total_in_flight t' (br_st s) \<le> max_concurrent_actions (concurrency cfg)) \<and>
     br_severity r \<le> br_severity s \<and> start_epoch (br_st s) = start_epoch (br_st r) \<and>
     cooldown (br_st s) = cooldown (br_st r) \<and> peer_ticket_activity (br_st s) = peer_ticket_activity (br_st r) \<and>
     (\<exists>tks. ls_tasks (br_st s) = ls_tasks (br_st r) @ tks \<and> (\<forall>tk\<in>set tks. task_ok P tk) \<and> spent tks + br_safe s = br_safe r)"

lemma stretch_path: "pass_path cfg t P r s \<Longrightarrow> stretch cfg t t P r s"
  using pass_path_wf [of cfg t P r s] pass_path_budget [of cfg t P r s] pass_path_severity [of cfg t P r s]
    pass_path_tasks [of cfg t P r s] pass_path_kept [of cfg t P r s]
  by (simp add: stretch_def path_kept_def)

lemma spent_append [simp]: "spent (xs @ ys) = spent xs + spent ys"
  by (simp add: spent_def)

lemma stretch_trans:
  assumes "stretch cfg t t' P r s" and "stretch cfg t' t'' P s u"
  shows "stretch cfg t t'' P r u"
proof -
  obtain xs where "ls_tasks (br_st s) = ls_tasks (br_st r) @ xs" "\<forall>tk\<in>set xs. task_ok P tk" "spent xs + br_safe s = br_safe r"
    using assms(1) by (auto simp: stretch_def)
  moreover obtain ys where "ls_tasks (br_st u) = ls_tasks (br_st s) @ ys" "\<forall>tk\<in>set ys. task_ok P tk" "spent ys + br_safe u = br_safe s"
    using assms(2) by (auto simp: stretch_def)
  ultimately have "ls_tasks (br_st u) = ls_tasks (br_st r) @ (xs @ ys) \<and> (\<forall>tk\<in>set (xs @ ys). task_ok P tk) \<and>
      spent (xs @ ys) + br_safe u = br_safe r" by auto
  then have "\<exists>zs. ls_tasks (br_st u) = ls_tasks (br_st r) @ zs \<and> (\<forall>tk\<in>set zs. task_ok P tk) \<and> spent zs + br_safe u = br_safe r"
    by blast
  moreover have "ls_wf (br_st r) \<longrightarrow> ls_wf (br_st u)" "start_epoch (br_st u) = start_epoch (br_st r)"
    "cooldown (br_st u) = cooldown (br_st r)" "peer_ticket_activity (br_st u) = peer_ticket_activity (br_st r)"
    using assms by (simp_all add: stretch_def)
  moreover have "br_severity r \<le> br_severity u"
    using assms order_trans [of "br_severity r" "br_severity s" "br_severity u"] by (simp add: stretch_def)
  moreover have "ls_wf (br_st r) \<and> total_in_flight t (br_st r) \<le> max_concurrent_actions (concurrency cfg) \<longrightarrow>
      total_in_flight t'' (br_st u) \<le> max_concurrent_actions (concurrency cfg)"
    using assms by (simp add: stretch_def)
  ultimately show ?thesis unfolding stretch_def by blast
qed

lemma stretch_mono: "stretch cfg t t' P r s \<Longrightarrow> (\<And>tx. P tx \<Longrightarrow> Q tx) \<Longrightarrow> stretch cfg t t' Q r s"
  unfolding stretch_def task_ok_def by metis

lemma stretch_wait: "t \<le> t' \<Longrightarrow> stretch cfg t t' P r r"
proof -
  assume "t \<le> t'"
  then have "total_in_flight t' (br_st r) \<le> total_in_flight t (br_st r)" by (rule total_in_flight_antimono)
  then show ?thesis by (auto simp: stretch_def spent_def)
qed

text \<open>Bookkeeping between the passes: the leases and the tasks are left alone.\<close>

lemma stretch_bookkeeping:
  assumes "in_flight (br_st s) = in_flight (br_st r)" and "ls_tasks (br_st s) = ls_tasks (br_st r)"
    and "br_safe s = br_safe r" and "br_severity r \<le> br_severity s" and "ls_wf (br_st r) \<Longrightarrow> ls_wf (br_st s)"
    and "start_epoch (br_st s) = start_epoch (br_st r)" "cooldown (br_st s) = cooldown (br_st r)"
    "peer_ticket_activity (br_st s) = peer_ticket_activity (br_st r)"
  shows "stretch cfg t t P r s"
  using assms total_in_flight_cong [OF assms(1), of t] by (auto simp: stretch_def spent_def)

section \<open>What the passes of a tick may submit\<close>

definition tick_allowed :: "lifecycle_config \<Rightarrow> tick_env \<Rightarrow> tick_view \<Rightarrow> lifecycle_state \<Rightarrow> chain_tx \<Rightarrow> bool" where
  "tick_allowed cfg env v st tx \<longleftrightarrow>
     (case tx of
        FundTx cid b \<Rightarrow> resolved (tv_econ v) \<noteq> None \<and>
          ((\<exists>ch\<in>set (tv_open v). ch_id ch = cid) \<or> (\<exists>a ch. by_parties env a = Found ch \<and> ch_status ch = Open \<and> ch_id ch = cid))
      | CloseTx cid \<Rightarrow>
          phase_of cfg env st \<noteq> Observing \<and>
          (\<exists>ch\<in>set (tv_open v). ch_id ch = cid \<and>
             (phase_of cfg env st = ShieldingConnected \<longrightarrow> (\<exists>ch'\<in>set (tv_open v). ch_id ch' = cid \<and>
                unreachable env (addr_to_peer_id (tv_peers v)) (ch_destination ch'))))
      | FinalizeTx cid \<Rightarrow>
          fin_enabled (finalizer cfg) \<and>
          (\<exists>ch\<in>set (tv_channels v). \<exists>t. ch_id ch = cid \<and> ch_status ch = PendingToClose t \<and>
             t + max_closure_overdue (finalizer cfg) \<le> sys_now env)
      | OpenTx a b \<Rightarrow>
          0 < tv_deficit v \<and> open_eligible cfg env st (tv_peers v) (tv_channels v) a \<and>
          (\<forall>ch. by_parties env a = Found ch \<longrightarrow> ch_status ch = Closed) \<and>
          (\<exists>fnd. resolved (tv_econ v) = Some fnd \<and> b = initial_balance fnd))"

section \<open>The passes of a tick together\<close>

lemma selector_for_contract: "selector_contract (selector_for cfg)"
  by (cases "multi_objective_config (selector_prof cfg)")
    (simp_all add: selector_for_def default_sel.selector_contract_axioms mo_sel.selector_contract_axioms)

interpretation sel: selector_contract "selector_for cfg" for cfg
  by (rule selector_for_contract)

lemma disconnect_fold_unreachable:
  "cid \<in> set (snd (fold (disconnect_step env a2p n) chs (m, d))) \<Longrightarrow>
     cid \<in> set d \<or> (\<exists>ch\<in>set chs. ch_id ch = cid \<and> unreachable env a2p (ch_destination ch))"
proof (induction chs arbitrary: m d)
  case (Cons ch chs)
  from Cons.prems show ?case
    by (auto simp: disconnect_step_eq split: if_splits dest!: Cons.IH)
qed simp

lemma disconnected_unreachable:
  assumes "cid \<in> set (fst (disconnected_channels cfg env a2p chs st))"
  shows "\<exists>ch\<in>set chs. ch_id ch = cid \<and> unreachable env a2p (ch_destination ch)"
proof -
  let ?m = "filter (\<lambda>(dest, _). dest \<in> set (map ch_destination chs)) (disconnect_streak st)"
  let ?n = "max (close_after_disconnected_ticks (closure cfg)) 1"
  have "cid \<in> set (snd (fold (disconnect_step env a2p ?n) chs (?m, [])))"
    using assms by (simp add: disconnected_channels_def Let_def split: prod.splits)
  then show ?thesis by (auto dest: disconnect_fold_unreachable)
qed

lemma close_pass_stretch:
  "stretch cfg (t_pass env) (t_pass env)
     (\<lambda>tx. phase_of cfg env (br_st r) \<noteq> Observing \<and>
        close_allowed (phase_of cfg env (br_st r)) open_chs
          (fst (disconnected_channels cfg env (addr_to_peer_id peers) open_chs (br_st r))) tx)
     r (close_pass cfg env peers closes open_chs open_count ranked r)"
proof (cases rule: close_pass_cases [of cfg env r peers closes open_chs open_count ranked])
  case observing
  then show ?thesis by (simp add: stretch_wait)
next
  case (active disconnected st2 r1 cands)
  let ?phase = "phase_of cfg env (br_st r)"
  let ?P = "\<lambda>tx. ?phase \<noteq> Observing \<and> close_allowed ?phase open_chs disconnected tx"
  have st2: "st2 = (br_st r)\<lparr>disconnect_streak := disconnect_streak st2\<rparr>"
    using disconnected_channels_state [of cfg env "addr_to_peer_id peers" open_chs "br_st r"] active(2) by simp
  have fields: "in_flight st2 = in_flight (br_st r)" "ls_tasks st2 = ls_tasks (br_st r)" "start_epoch st2 = start_epoch (br_st r)"
    "cooldown st2 = cooldown (br_st r)" "peer_ticket_activity st2 = peer_ticket_activity (br_st r)"
    by (subst st2, simp)+
  have wf: "ls_wf (br_st r) \<Longrightarrow> ls_wf st2"
    using disconnected_channels_wf [of "br_st r" cfg env "addr_to_peer_id peers" open_chs] active(2) by simp
  have "stretch cfg (t_pass env) (t_pass env) ?P r r1"
    using active(3-5) fields wf by (intro stretch_bookkeeping) simp_all
  moreover have "pass_path cfg (t_pass env) (close_allowed ?phase open_chs disconnected) r1
      (close_pass cfg env peers closes open_chs open_count ranked r)"
    unfolding active(7)
    using close_body.loop_path [of cands cfg "t_pass env" ?phase open_chs disconnected
        "(r1, held_count (t_pass env) (in_flight (br_st r) KClose), 0)"] by simp
  then have "stretch cfg (t_pass env) (t_pass env) ?P r1 (close_pass cfg env peers closes open_chs open_count ranked r)"
    using active(1) by (intro stretch_path) (rule pass_path_mono, simp_all)
  ultimately have "stretch cfg (t_pass env) (t_pass env) ?P r (close_pass cfg env peers closes open_chs open_count ranked r)"
    by (rule stretch_trans)
  then show ?thesis by (simp add: active(2))
qed

lemma consolidation_pass_stretch:
  "stretch cfg (t_pass env) (t_pass env)
     (\<lambda>tx. \<exists>fnd. fnd_opt = Some fnd \<and> consolidation_allowed (phase_of cfg env (br_st r)) closes (face_value fnd) tx)
     r (consolidation_pass cfg env fnd_opt safe_opt chs closes deferred r)"
proof (cases "option_zip fnd_opt safe_opt")
  case None
  then show ?thesis by (simp add: consolidation_pass_def stretch_wait)
next
  case (Some p)
  then obtain fnd safe where fnd: "fnd_opt = Some fnd" "safe_opt = Some safe"
    by (auto simp: option_zip_def split: option.splits)
  have "stretch cfg (t_pass env) (t_pass env) (consolidation_allowed (phase_of cfg env (br_st r)) closes (face_value fnd)) r
      (consolidate_stranded_stake cfg (t_pass env) closes deferred (face_value fnd)
        (reclaiming_stake (t_pass env) (br_st r) chs) (phase_of cfg env (br_st r)) safe r)"
    by (intro stretch_path consolidate_path)
  then show ?thesis
    by (simp add: consolidation_pass_def fnd option_zip_def phase_of_def [symmetric])
qed

definition view_ok :: "tick_view \<Rightarrow> bool" where
  "view_ok v \<longleftrightarrow> tv_open v = filter (\<lambda>c. ch_status c = Open) (tv_channels v)"

lemma gather_view_ok: "gather cfg env chs st = (v, st') \<Longrightarrow> view_ok v \<and> tv_channels v = chs"
  by (auto simp: gather_def view_ok_def Let_def)

lemma phase_of_cong: "start_epoch st' = start_epoch st \<Longrightarrow> phase_of cfg env st' = phase_of cfg env st"
  by (simp add: phase_of_def)

lemma stretch_same: "stretch cfg t t' P r s \<Longrightarrow> start_epoch (br_st s) = start_epoch (br_st r) \<and>
    cooldown (br_st s) = cooldown (br_st r) \<and> peer_ticket_activity (br_st s) = peer_ticket_activity (br_st r)"
  by (simp add: stretch_def)

lemma fund_candidates_open: "set (fund_candidates cfg env a2k prev est price fnd open_chs st) \<subseteq> set open_chs"
  by (auto simp: fund_candidates_def)

lemma selector_ctx_open: "ctx_open (selector_ctx_of cfg env st peers m d closes opens) = opens"
  by (simp add: selector_ctx_of_def Let_def)

lemma fund_allowed_tick:
  assumes "fund_pass_allowed cfg env a2k prev est price (resolved (tv_econ v)) (tv_open v) st0 tx"
  shows "tick_allowed cfg env v st tx"
proof -
  obtain fnd ch b where tx: "resolved (tv_econ v) = Some fnd" "tx = FundTx (ch_id ch) b"
    and "ch \<in> set (fund_candidates cfg env a2k prev est price fnd (tv_open v) st0)"
    using assms unfolding fund_pass_allowed_def fund_allowed_def by blast
  then have "ch \<in> set (tv_open v)" using fund_candidates_open by blast
  with tx show ?thesis by (auto simp: tick_allowed_def)
qed

lemma close_allowed_tick:
  assumes "phase_of cfg env st \<noteq> Observing \<and> close_allowed (phase_of cfg env st) (tv_open v)
    (fst (disconnected_channels cfg env (addr_to_peer_id (tv_peers v)) (tv_open v) st1)) tx"
  shows "tick_allowed cfg env v st tx"
proof -
  obtain ch where "ch \<in> set (tv_open v)" "tx = CloseTx (ch_id ch)"
    and "phase_of cfg env st = ShieldingConnected \<longrightarrow>
      ch_id ch \<in> set (fst (disconnected_channels cfg env (addr_to_peer_id (tv_peers v)) (tv_open v) st1))"
    using assms unfolding close_allowed_def by blast
  with assms show ?thesis
    using disconnected_unreachable [of "ch_id ch" cfg env "addr_to_peer_id (tv_peers v)" "tv_open v" st1]
    by (simp add: tick_allowed_def) blast
qed

lemma finalize_allowed_tick:
  assumes "finalize_allowed cfg env (tv_channels v) tx" and "fin_enabled (finalizer cfg)"
  shows "tick_allowed cfg env v st tx"
proof -
  obtain ch t where "ch \<in> set (tv_channels v)" "ch_status ch = PendingToClose t" "tx = FinalizeTx (ch_id ch)"
    "t + max_closure_overdue (finalizer cfg) \<le> sys_now env"
    using assms(1) unfolding finalize_allowed_def by blast
  with assms(2) show ?thesis by (simp add: tick_allowed_def) blast
qed

lemma open_allowed_tick:
  assumes "open_pass_allowed env (resolved (tv_econ v)) addrs tx" and "0 < tv_deficit v"
    and elig: "\<And>a. a \<in> set addrs \<Longrightarrow> open_eligible cfg env st (tv_peers v) (tv_channels v) a"
  shows "tick_allowed cfg env v st tx"
proof -
  obtain fnd a where fnd: "resolved (tv_econ v) = Some fnd" and a: "a \<in> set addrs"
    and tx: "tx = OpenTx a (initial_balance fnd) \<and> (\<forall>ch. by_parties env a = Found ch \<longrightarrow> ch_status ch = Closed) \<or>
        (\<exists>ch. by_parties env a = Found ch \<and> ch_status ch = Open \<and> ch_balance ch < lower_balance_threshold fnd \<and>
           tx = FundTx (ch_id ch) (topup_balance fnd))"
    using assms(1) unfolding open_pass_allowed_def open_allowed_def by blast
  from tx show ?thesis
  proof
    assume "tx = OpenTx a (initial_balance fnd) \<and> (\<forall>ch. by_parties env a = Found ch \<longrightarrow> ch_status ch = Closed)"
    with fnd a assms(2) elig [OF a] show ?thesis by (simp add: tick_allowed_def)
  next
    assume "\<exists>ch. by_parties env a = Found ch \<and> ch_status ch = Open \<and> ch_balance ch < lower_balance_threshold fnd \<and>
           tx = FundTx (ch_id ch) (topup_balance fnd)"
    then obtain ch where "by_parties env a = Found ch" "ch_status ch = Open" "tx = FundTx (ch_id ch) (topup_balance fnd)"
      by blast
    moreover from this(1,2) have "\<exists>a ch'. by_parties env a = Found ch' \<and> ch_status ch' = Open \<and> ch_id ch' = ch_id ch" by blast
    ultimately show ?thesis using fnd by (simp add: tick_allowed_def)
  qed
qed

lemma run_passes_stretch:
  assumes clock: "tick_wf env"
  shows "stretch cfg (t_fund env) (t_pass env) (tick_allowed cfg env v st) (initial_run v st) (run_passes cfg env v st)"
proof -
  let ?P = "tick_allowed cfg env v st" and ?r0 = "initial_run v st"
  let ?fnd = "resolved (tv_econ v)" and ?safe = "map_option sb_balance (tv_safe v)" and ?a2k = "addr_to_key (tv_peers v)"
  obtain r1 deferred where f: "fund_pass cfg env ?a2k (tv_prev v) (tv_est_tx_secs v) (min_ticket_price_wei (tv_econ v)) ?fnd ?safe
      (tv_open v) (tv_open_count v) ?r0 = (r1, deferred)" by fastforce
  let ?closes = "map (close_candidate_of env (br_st r1) ?a2k) (tv_open v)"
  let ?opens = "open_candidates_of cfg env (br_st r1) (tv_peers v) (tv_channels v)"
  let ?ctx = "selector_ctx_of cfg env (br_st r1) (tv_peers v) (min_onward_balance (tv_econ v)) (tv_deficit v) ?closes ?opens"
  let ?r2 = "close_pass cfg env (tv_peers v) ?closes (tv_open v) (tv_open_count v) (select_closes (selector_for cfg) ?ctx) r1"
  let ?r3 = "consolidation_pass cfg env ?fnd ?safe (tv_channels v) ?closes deferred ?r2"
  let ?r4 = "finalize_pass cfg env (tv_channels v) ?r3"
  let ?r5 = "open_pass cfg env (tv_peers v) ?fnd ?safe (tv_deficit v) (select_opens (selector_for cfg) ?ctx) ?r4"
  have res: "run_passes cfg env v st = ?r5" by (simp add: run_passes_def f Let_def)
  have st0: "br_st ?r0 = st" by (simp add: initial_run_def)
  have s1: "stretch cfg (t_fund env) (t_fund env) ?P ?r0 r1"
  proof (rule stretch_mono [OF stretch_path])
    show "pass_path cfg (t_fund env) (fund_pass_allowed cfg env ?a2k (tv_prev v) (tv_est_tx_secs v)
        (min_ticket_price_wei (tv_econ v)) ?fnd (tv_open v) (br_st ?r0)) ?r0 r1"
      using fund_pass_path [of cfg env ?a2k "tv_prev v" "tv_est_tx_secs v" "min_ticket_price_wei (tv_econ v)" ?fnd "tv_open v" ?r0 ?safe "tv_open_count v"]
      by (simp add: f)
  next
    fix tx
    assume "fund_pass_allowed cfg env ?a2k (tv_prev v) (tv_est_tx_secs v) (min_ticket_price_wei (tv_econ v)) ?fnd (tv_open v) (br_st ?r0) tx"
    then show "?P tx" by (rule fund_allowed_tick)
  qed
  have s1': "stretch cfg (t_fund env) (t_pass env) ?P ?r0 r1"
    using clock by (intro stretch_trans [OF s1] stretch_wait) (simp add: tick_wf_def)
  note same1 = stretch_same [OF s1', unfolded st0]
  have ph1: "phase_of cfg env (br_st r1) = phase_of cfg env st" using same1 by (simp add: phase_of_def)
  have s2: "stretch cfg (t_pass env) (t_pass env) ?P r1 ?r2"
  proof (rule stretch_mono [OF close_pass_stretch])
    fix tx
    assume "phase_of cfg env (br_st r1) \<noteq> Observing \<and> close_allowed (phase_of cfg env (br_st r1)) (tv_open v)
      (fst (disconnected_channels cfg env (addr_to_peer_id (tv_peers v)) (tv_open v) (br_st r1))) tx"
    then show "?P tx" unfolding ph1 by (rule close_allowed_tick)
  qed
  have ph2: "phase_of cfg env (br_st ?r2) = phase_of cfg env st"
    using stretch_same [OF s2] ph1 by (simp add: phase_of_def)
  have s3: "stretch cfg (t_pass env) (t_pass env) ?P ?r2 ?r3"
    by (rule stretch_mono [OF consolidation_pass_stretch])
      (auto simp: tick_allowed_def consolidation_allowed_def ph2 close_candidate_of_def Let_def)
  have s4: "stretch cfg (t_pass env) (t_pass env) ?P ?r3 ?r4"
  proof (cases "fin_enabled (finalizer cfg)")
    case True
    then show ?thesis
      by (intro stretch_mono [OF stretch_path [OF finalize_pass_path]]) (rule finalize_allowed_tick)
  next
    case False
    then show ?thesis by (simp add: finalize_pass_def stretch_wait)
  qed
  have s5: "stretch cfg (t_pass env) (t_pass env) ?P ?r4 ?r5"
  proof (cases "tv_deficit v = 0")
    case True
    then show ?thesis by (simp add: open_pass_def stretch_wait)
  next
    case False
    have elig: "open_eligible cfg env st (tv_peers v) (tv_channels v) a"
      if ranked: "a \<in> set (map fst (select_opens (selector_for cfg) ?ctx))" for a
    proof -
      obtain k where "(a, k) \<in> set (select_opens (selector_for cfg) ?ctx)" using ranked by auto
      from sel.open_addr_offered [OF this] obtain c where "c \<in> set ?opens" "oc_addr c = a"
        unfolding selector_ctx_open by blast
      then have "open_eligible cfg env (br_st r1) (tv_peers v) (tv_channels v) a" using open_candidates_eligible by blast
      then show ?thesis using same1 open_eligible_cong [of "br_st r1" st cfg env "tv_peers v" "tv_channels v" a] by simp
    qed
    show ?thesis
    proof (rule stretch_mono [OF stretch_path [OF open_pass_path]])
      fix tx
      assume "open_pass_allowed env ?fnd (map fst (select_opens (selector_for cfg) ?ctx)) tx"
      moreover have "0 < tv_deficit v" using False by simp
      ultimately show "?P tx" using elig by (rule open_allowed_tick)
    qed
  qed
  show ?thesis unfolding res by (rule stretch_trans [OF stretch_trans [OF stretch_trans [OF stretch_trans [OF s1' s2] s3] s4] s5])
qed

end
