(* ===== verification/Lifecycle_Step.thy ===== *)
theory Lifecycle_Step
  imports Lifecycle_Tick
begin

text \<open>
  What one call of \<open>run_pipeline\<close> did, from the outside: its two exits, the transactions it added,
  and that it keeps the well-formedness of the state and the action budget.
\<close>

section \<open>What one tick did\<close>

lemma gather_fields:
  assumes "gather cfg env chs st = (v, st')"
  shows "in_flight st' = in_flight st" "ls_tasks st' = ls_tasks st" "start_epoch st' = start_epoch st"
    "peer_ticket_activity st' = peer_ticket_activity st"
  using assms by (auto simp: gather_def Let_def frame_simps)

lemma peer_addr_map_wf: "ls_wf st \<Longrightarrow> ls_wf (snd (peer_addr_map po now d q st))"
  by (simp add: ls_wf_def frame_simps)

lemma share_economics_wf: "ls_wf st \<Longrightarrow> ls_wf (share_economics f st)"
  by (simp add: ls_wf_def frame_simps)

lemma gather_wf: "gather cfg env chs st = (v, st') \<Longrightarrow> ls_wf st \<Longrightarrow> ls_wf st'"
  by (auto simp: gather_def Let_def peer_addr_map_wf share_economics_wf snapshot_channels_wf)

lemma gather_safe:
  "gather cfg env chs st = (v, st') \<Longrightarrow> tv_safe v = safe_balance_budget (read_deadline cfg (t_begin env)) (q_safe env)"
  by (auto simp: gather_def Let_def)

lemma gather_econ:
  "gather cfg env chs st = (v, st') \<Longrightarrow> tv_econ v = economics_of cfg (env_platform env)
     (chain_read (read_deadline cfg (t_begin env)) (q_price env)) (chain_read (read_deadline cfg (t_begin env)) (q_win_prob env))"
  by (auto simp: gather_def Let_def)

lemma set_state_fields [simp]:
  "in_flight (set_state s st) = in_flight st" "ls_tasks (set_state s st) = ls_tasks st"
  "ls_state (set_state s st) = s" "start_epoch (set_state s st) = start_epoch st"
  by (simp_all add: set_state_def)

lemma sweep_fields [simp]:
  "ls_tasks (sweep_action_leases now st) = ls_tasks st" "start_epoch (sweep_action_leases now st) = start_epoch st"
  "cooldown (sweep_action_leases now st) = cooldown st"
  by (simp_all add: sweep_action_leases_def)

text \<open>The two exits of a tick.\<close>

definition tick_start :: "tick_env \<Rightarrow> lifecycle_state \<Rightarrow> lifecycle_state" where
  "tick_start env st = sweep_action_leases (t_begin env) (st\<lparr>tick_counter := tick_counter st + 1\<rparr>)"

definition tick_channels :: "lifecycle_config \<Rightarrow> tick_env \<Rightarrow> channel list option" where
  "tick_channels cfg env = chain_read (read_deadline cfg (t_begin env)) (q_channels env)"

lemma run_pipeline_cases:
  obtains (no_channels) "tick_channels cfg env = None" "run_pipeline cfg env st = set_state Failed (tick_start env st)"
  | (passes) chs v st2 where "tick_channels cfg env = Some chs" "gather cfg env chs (tick_start env st) = (v, st2)"
      "run_pipeline cfg env st = set_state (br_severity (run_passes cfg env v st2)) (br_st (run_passes cfg env v st2))"
proof (cases "tick_channels cfg env")
  case None
  then show thesis
    by (intro no_channels) (simp_all add: run_pipeline_def pipeline_inner_def tick_channels_def tick_start_def Let_def)
next
  case (Some chs)
  obtain v st2 where "gather cfg env chs (tick_start env st) = (v, st2)" by fastforce
  with Some show thesis
    by (intro passes) (simp_all add: run_pipeline_def pipeline_inner_def tick_channels_def tick_start_def Let_def)
qed

lemma tick_start_fields [simp]:
  "ls_tasks (tick_start env st) = ls_tasks st" "start_epoch (tick_start env st) = start_epoch st"
  "cooldown (tick_start env st) = cooldown st"
  by (simp_all add: tick_start_def)

lemma tick_start_wf: "ls_wf st \<Longrightarrow> ls_wf (tick_start env st)"
proof -
  assume "ls_wf st"
  then have "ls_wf (st\<lparr>tick_counter := tick_counter st + 1\<rparr>)" by (simp add: ls_wf_def)
  then show ?thesis unfolding tick_start_def by (rule ls_wf_sweep)
qed

lemma tick_start_budget: "total_in_flight now (tick_start env st) \<le> total_in_flight now st"
  using total_in_flight_sweep [of now "t_begin env" "st\<lparr>tick_counter := tick_counter st + 1\<rparr>"]
    total_in_flight_cong [of "st\<lparr>tick_counter := tick_counter st + 1\<rparr>" st now]
  by (simp add: tick_start_def)

lemma run_pipeline_wf:
  assumes "tick_wf env" and "ls_wf st"
  shows "ls_wf (run_pipeline cfg env st)"
proof (cases rule: run_pipeline_cases [of cfg env st])
  case no_channels
  with assms show ?thesis by (simp add: tick_start_wf)
next
  case (passes chs v st2)
  have "ls_wf st2" using gather_wf [OF passes(2)] tick_start_wf [OF assms(2)] by blast
  with run_passes_stretch [OF assms(1), of cfg v st2] show ?thesis
    by (simp add: passes(3) stretch_def initial_run_def)
qed

lemma run_pipeline_budget:
  assumes clock: "tick_wf env" and wf: "ls_wf st"
    and le: "total_in_flight (t_begin env) st \<le> max_concurrent_actions (concurrency cfg)"
  shows "total_in_flight (t_pass env) (run_pipeline cfg env st) \<le> max_concurrent_actions (concurrency cfg)"
proof -
  have beg: "total_in_flight now (tick_start env st) \<le> max_concurrent_actions (concurrency cfg)" if "t_begin env \<le> now" for now
    using tick_start_budget [of now env st] total_in_flight_antimono [OF that, of st] le by linarith
  have times: "t_begin env \<le> t_fund env" "t_begin env \<le> t_pass env" using clock by (simp_all add: tick_wf_def)
  show ?thesis
  proof (cases rule: run_pipeline_cases [of cfg env st])
    case no_channels
    then show ?thesis using beg [OF times(2)] by (simp add: total_in_flight_def)
  next
    case (passes chs v st2)
    have "ls_wf st2" using gather_wf [OF passes(2)] tick_start_wf [OF wf] by blast
    moreover have "total_in_flight (t_fund env) st2 \<le> max_concurrent_actions (concurrency cfg)"
      using beg [OF times(1)] total_in_flight_cong [OF gather_fields(1) [OF passes(2)], of "t_fund env"] by simp
    ultimately have "total_in_flight (t_pass env) (br_st (run_passes cfg env v st2)) \<le> max_concurrent_actions (concurrency cfg)"
      using run_passes_stretch [OF clock, of cfg v st2] by (simp add: stretch_def initial_run_def)
    then show ?thesis by (simp add: passes(3) total_in_flight_def)
  qed
qed

text \<open>The new transactions of a tick.\<close>

lemma run_pipeline_tasks:
  assumes clock: "tick_wf env"
  obtains (idle) "tick_channels cfg env = None" "ls_tasks (run_pipeline cfg env st) = ls_tasks st"
  | (active) chs v st2 tks where "tick_channels cfg env = Some chs" "gather cfg env chs (tick_start env st) = (v, st2)"
      "ls_tasks (run_pipeline cfg env st) = ls_tasks st @ tks" "\<forall>tk\<in>set tks. task_ok (tick_allowed cfg env v st2) tk"
      "spent tks \<le> (case tv_safe v of Some b \<Rightarrow> sb_spendable b | None \<Rightarrow> 0)"
proof (cases rule: run_pipeline_cases [of cfg env st])
  case no_channels
  then show thesis by (intro idle) simp_all
next
  case (passes chs v st2)
  obtain tks where "ls_tasks (br_st (run_passes cfg env v st2)) = ls_tasks st2 @ tks"
    "\<forall>tk\<in>set tks. task_ok (tick_allowed cfg env v st2) tk"
    "spent tks + br_safe (run_passes cfg env v st2) = br_safe (initial_run v st2)"
    using run_passes_stretch [OF clock, of cfg v st2] by (auto simp: stretch_def initial_run_def)
  then show thesis
    using passes gather_fields(2) [OF passes(2)] by (intro active [of chs v st2 tks]) (simp_all add: initial_run_def)
qed

section \<open>The severity a tick publishes\<close>

lemma stretch_severity: "stretch cfg t t' P r s \<Longrightarrow> br_severity r \<le> br_severity s"
  by (simp add: stretch_def)

lemma run_passes_severity:
  "br_severity (fst (fund_pass cfg env (addr_to_key (tv_peers v)) (tv_prev v) (tv_est_tx_secs v)
      (min_ticket_price_wei (tv_econ v)) (resolved (tv_econ v)) (map_option sb_balance (tv_safe v))
      (tv_open v) (tv_open_count v) (initial_run v st))) \<le> br_severity (run_passes cfg env v st)"
proof -
  have chain: "br_severity r \<le> br_severity (open_pass cfg env peers fnd safe d opens
      (finalize_pass cfg env chs (consolidation_pass cfg env fnd safe chs closes deferred
        (close_pass cfg env peers closes open_chs n ranked r))))"
    for r peers fnd safe d opens chs closes deferred open_chs n ranked
    by (rule order_trans [OF stretch_severity [OF close_pass_stretch]
          order_trans [OF stretch_severity [OF consolidation_pass_stretch]
            order_trans [OF pass_path_severity [OF finalize_pass_path] pass_path_severity [OF open_pass_path]]]])
  show ?thesis by (simp add: run_passes_def Let_def chain split: prod.splits)
qed

lemma fund_pass_Failed:
  "fnd = None \<or> safe = None \<Longrightarrow> br_severity (fst (fund_pass cfg env a2k prev est price fnd safe open_chs n r)) = Failed"
  by (auto simp: fund_pass_def option_zip_def split: option.splits)

lemma run_passes_Failed:
  assumes "resolved (tv_econ v) = None \<or> tv_safe v = None"
  shows "br_severity (run_passes cfg env v st) = Failed"
proof -
  have "Failed \<le> br_severity (run_passes cfg env v st)"
    using run_passes_severity [of cfg env v st] assms by (simp add: fund_pass_Failed)
  then show ?thesis by (simp add: order_antisym)
qed

text \<open>Without economics nothing is allowed that costs anything.\<close>

lemma spent_zero: "\<forall>tk\<in>set tks. tx_cost (tk_tx tk) = 0 \<Longrightarrow> spent tks = 0"
  by (simp add: spent_def)

lemma no_economics_no_cost: "tick_allowed cfg env v st tx \<Longrightarrow> resolved (tv_econ v) = None \<Longrightarrow> tx_cost tx = 0"
  by (cases tx) (simp_all add: tick_allowed_def)

end
