(* ===== verification/Lifecycle_Example.thy ===== *)
theory Lifecycle_Example
  imports Lifecycle_Step
begin

text \<open>
  One tick evaluated from end to end on a small node, used by the witnesses of the properties of
  the pipeline: the tick closes a drained channel, finalizes an overdue one and opens one new
  channel.
\<close>

section \<open>A concrete tick\<close>

text \<open>
  A node whose one channel is drained, whose peer has gone, and which sees one good new peer; the
  startup guard has elapsed.
\<close>

definition example_edge :: graph_edge where
  "example_edge = \<lparr>ge_score = Some (9 / 10), ge_last_update = secs 5, ge_qos = None\<rparr>"

definition drained_channel :: channel where
  "drained_channel = \<lparr>ch_id = 70, ch_source = 1, ch_destination = 7, ch_balance = 0, ch_ticket_index = 0, ch_status = Open\<rparr>"

definition overdue_channel :: channel where
  "overdue_channel = \<lparr>ch_id = 80, ch_source = 1, ch_destination = 8, ch_balance = 4, ch_ticket_index = 0, ch_status = PendingToClose 10\<rparr>"

definition example_env :: tick_env where
  "example_env =
     \<lparr>env_me = 1, env_platform = sample_platform, t_begin = secs 1000, t_snapshot = secs 1000, t_peers = secs 1001,
      t_fund = secs 1001, t_select = secs 1002, t_pass = secs 1002, sys_now = secs 5000,
      q_tx_time = (secs 1000, Answer (secs 20)),
      q_safe = \<lparr>q_safe_info = (secs 1000, Answer (Some 99)), q_safe_balance = (\<lambda>_. (secs 1000, Answer 1000)),
                q_safe_allowance = (\<lambda>_. (secs 1000, Answer 700))\<rparr>,
      q_channels = (secs 1000, Answer [drained_channel, overdue_channel]), q_price = (secs 1000, Answer 100),
      q_win_prob = (secs 1000, Answer (Fin 1)),
      q_accounts = (secs 1001, Answer [\<lparr>acc_key = 20, acc_chain_addr = 2, acc_safe = None\<rparr>,
                                       \<lparr>acc_key = 27, acc_chain_addr = 7, acc_safe = None\<rparr>]),
      q_all_accounts = (secs 1001, Failure), q_open_channels = (secs 1001, Answer []),
      stake_balance = (\<lambda>_. Timeout), is_connected = (\<lambda>p. p = 20), connected_peers = [20],
      multiaddress_of = (\<lambda>_. None), graph_edge_of = (\<lambda>_. Some example_edge), peer_of = (\<lambda>k. k),
      by_parties = (\<lambda>_. Missing), set_order = (\<lambda>xs. xs)\<rparr>"

definition example_cfg :: lifecycle_config where
  "example_cfg = lifecycle_default
     \<lparr>population := \<lparr>min_open_channels = 0, target_open_channels = 8, peer_reopen_cooldown = secs 900\<rparr>,
      funding := \<lparr>initial_capacity = 2072, topup_capacity = 2072, lower_capacity_threshold = 1036,
                  sizing_mode = Deterministic\<rparr>\<rparr>"

lemma example_env_wf: "tick_wf example_env"
  by (simp add: tick_wf_def example_env_def secs_def)

definition example_funding :: resolved_funding where
  "example_funding = \<lparr>initial_balance = 600, topup_balance = 600, lower_balance_threshold = 300, face_value = 300\<rparr>"

lemma sample_face: "winning_ticket_face_value sample_platform 100 (Fin 1) 3 = 300"
  by (simp add: winning_ticket_face_value_def clamped_win_prob_def f64_epsilon_def sample_platform_def u256_max_def)

lemma whole_tickets_numeral [simp]: "whole_tickets (numeral n) = numeral n" "whole_tickets 1 = 1"
  using whole_tickets_of_int [of "numeral n"] whole_tickets_of_int [of 1] by simp_all

lemma example_capacity:
  "capacity_to_balance sample_platform 2072 100 (Fin 1) 3 Deterministic = 600"
  "capacity_to_balance sample_platform 1036 100 (Fin 1) 3 Deterministic = 300"
  by (simp_all add: capacity_to_balance_def Let_def sample_face)
    (simp_all add: sample_platform_def drain_target_def div_ceil_def clamped_win_prob_def f64_epsilon_def low_u128_def
      f64_max_def winning_ticket_face_value_wei_def as_u128_def u256_max_def)

lemma example_econ:
  "economics_of example_cfg sample_platform (Some 100) (Some (Fin 1)) =
     \<lparr>min_ticket_price_wei = 100, min_onward_balance = 300, resolved = Some example_funding\<rparr>"
proof -
  have hops: "assumed_hops sample_platform = 3" by (simp add: sample_platform_def)
  show ?thesis
    by (simp add: economics_of_def option_zip_def resolve_def hops sample_face example_capacity example_cfg_def
        example_funding_def low_u128_def)
qed

definition example_peers :: peer_map where
  "example_peers = [(20, 20, 2), (27, 27, 7)]"

definition example_view :: tick_view where
  "example_view =
     \<lparr>tv_channels = [drained_channel, overdue_channel], tv_prev = [], tv_est_tx_secs = 20,
      tv_econ = \<lparr>min_ticket_price_wei = 100, min_onward_balance = 300, resolved = Some example_funding\<rparr>,
      tv_peers = Some example_peers, tv_safe = Some \<lparr>sb_balance = 1000, sb_spendable = 700\<rparr>,
      tv_open = [drained_channel], tv_open_count = 1, tv_deficit = 7\<rparr>"

lemma example_deadline: "read_deadline example_cfg (secs 1000) = secs 1030"
  by (simp add: read_deadline_def example_cfg_def lifecycle_default_def concurrency_default_def secs_def)

lemma example_gather:
  "fst (gather example_cfg example_env [drained_channel, overdue_channel] (tick_start example_env (initial_state 0))) = example_view"
proof -
  have env: "t_begin example_env = secs 1000" "env_platform example_env = sample_platform"
    "q_price example_env = (secs 1000, Answer 100)" "q_win_prob example_env = (secs 1000, Answer (Fin 1))"
    by (simp_all add: example_env_def)
  have read: "chain_read (secs 1030) (secs 1000, Answer x) = Some x" "chain_read (secs 1030) (secs 1001, Answer x) = Some x" for x
    by (simp_all add: chain_read_Some secs_def)
  show ?thesis
    by (simp add: gather_def Let_def env example_deadline read example_econ)
      (simp add: example_env_def chain_read_def prev_observations_def tick_start_def sweep_action_leases_def initial_state_def
        peer_addr_map_def snapshot_channels_def snapshot_step_def share_economics_def drained_channel_def overdue_channel_def
        est_tx_time_def unwrap_or_def as_secs_f64_def secs_def safe_balance_budget_def accounts_to_map_def
        example_funding_def proactive_funding_default_def lifecycle_default_def example_view_def example_peers_def held_count_def sweep_def leases_default_def count_entries_def
        example_cfg_def Let_def)
qed

definition fresh_state :: "lifecycle_state \<Rightarrow> bool" where
  "fresh_state st \<longleftrightarrow> in_flight st = (\<lambda>_. leases_default) \<and> start_epoch st = 0 \<and> cooldown st = [] \<and>
     peer_ticket_activity st = [] \<and> disconnect_streak st = [] \<and> ls_tasks st = []"

lemma example_gather_fresh:
  "fresh_state (snd (gather example_cfg example_env [drained_channel, overdue_channel] (tick_start example_env (initial_state 0))))"
proof -
  obtain v st2 where g: "gather example_cfg example_env [drained_channel, overdue_channel]
      (tick_start example_env (initial_state 0)) = (v, st2)" by fastforce
  have "cooldown st2 = []"
    using g by (auto simp: gather_def Let_def frame_simps snapshot_channels_def snapshot_step_def drained_channel_def
        overdue_channel_def initial_state_def)
  then show ?thesis
    using g gather_fields [OF g]
    by (auto simp: fresh_state_def tick_start_def initial_state_def sweep_action_leases_def sweep_def leases_default_def
        gather_def Let_def frame_simps)
qed

lemma example_fund:
  assumes "fresh_state st"
  shows "fund_pass example_cfg example_env (addr_to_key (Some example_peers)) [] 20 100 (Some example_funding) (Some 1000)
    [drained_channel] 1 (initial_run example_view st) = (initial_run example_view st, [])"
  using assms
  by (simp add: fund_pass_def option_zip_def Let_def fund_candidates_def refundable_def example_funding_def
      addr_to_key_def map_entries_def example_peers_def drained_channel_def example_cfg_def lifecycle_default_def
      closure_default_def example_env_def fresh_state_def initial_run_def)

definition example_closes :: "close_candidate list" where
  "example_closes =
     [\<lparr>cc_channel = drained_channel, cc_key = Some 27,
       cc_edge = \<lparr>edge_score = Some (9 / 10), last_update = secs 5, average_latency = None, probe_success_rate = None, ack_rate = None\<rparr>,
       cc_ticket_score = None\<rparr>]"

definition example_opens :: "open_candidate list" where
  "example_opens =
     [\<lparr>oc_addr = 2, oc_key = 20,
       oc_edge = \<lparr>edge_score = Some (9 / 10), last_update = secs 5, average_latency = None, probe_success_rate = None, ack_rate = None\<rparr>,
       oc_ticket_score = None, oc_subnet = Unknown\<rparr>]"

lemma example_candidates:
  assumes "fresh_state st"
  shows "map (close_candidate_of example_env st (addr_to_key (Some example_peers))) [drained_channel] = example_closes"
    and "open_candidates_of example_cfg example_env st (Some example_peers) [drained_channel, overdue_channel] = example_opens"
  using assms
  by (simp_all add: close_candidate_of_def Let_def addr_to_key_def map_entries_def example_peers_def drained_channel_def
      example_closes_def peer_edge_info_def example_env_def example_edge_def ticket_score_of_def fresh_state_def
      open_candidates_of_def map_filter_def open_candidate_of_def existing_dests_def overdue_channel_def held_def is_held_def
      leases_default_def is_on_cooldown_def example_cfg_def lifecycle_default_def eligibility_default_def
      composite_quality_score_def quality_score_def unwrap_or_def example_opens_def)

lemma example_selector: "selector_for example_cfg = default_selector"
  by (simp add: selector_for_def example_cfg_def lifecycle_default_def)

lemma example_ranked:
  "default_select_closes (selector_ctx_of example_cfg env st p m d example_closes example_opens) = [70]"
  "default_select_opens (selector_ctx_of example_cfg env st p m d example_closes example_opens) = [(2, 20)]"
proof -
  let ?ctx = "selector_ctx_of example_cfg env st p m d example_closes example_opens"
  have "ctx_close ?ctx = example_closes" "ctx_open ?ctx = example_opens" "ctx_cfg ?ctx = example_cfg"
    by (simp_all add: selector_ctx_of_def Let_def)
  then show "default_select_closes ?ctx = [70]"
    by (simp add: default_select_closes_def example_closes_def should_close_def drained_channel_def)
  have "mset (default_select_opens ?ctx) = mset [(2, 20)]"
    using \<open>ctx_open ?ctx = example_opens\<close> by (simp add: default_select_opens_mset example_opens_def offer_def)
  then show "default_select_opens ?ctx = [(2, 20)]" by simp
qed


definition example_at :: "nat \<Rightarrow> chain_tx list \<Rightarrow> action_kind set \<Rightarrow> lifecycle_state \<Rightarrow> bool" where
  "example_at n txs free st \<longleftrightarrow> ls_wf st \<and> total_in_flight (secs 1002) st = n \<and> map tk_tx (ls_tasks st) = txs \<and>
     start_epoch st = 0 \<and> (\<forall>k\<in>free. in_flight st k = leases_default)"

lemma example_dispatch:
  assumes "example_at n txs free st" and "kind \<in> free" and "n < 4"
  obtains st' where "spawn_leased example_cfg (secs 1002) kind key tx st = (True, st')"
    and "example_at (n + 1) (txs @ [tx]) (free - {kind}) st'"
proof -
  obtain ok st' where sp: "spawn_leased example_cfg (secs 1002) kind key tx st = (ok, st')" by fastforce
  have cfg: "0 < action_lease_timeout (concurrency example_cfg)" "max_concurrent_actions (concurrency example_cfg) = 4"
    by (simp_all add: example_cfg_def lifecycle_default_def concurrency_default_def secs_def)
  have wf: "ls_wf st" using assms(1) by (simp add: example_at_def)
  have "\<not> held (secs 1002) st kind key"
    using assms(1,2) by (simp add: example_at_def held_def is_held_def leases_default_def)
  with dispatch_iff_free_and_budget [OF wf cfg(1) sp] assms(1,3) cfg(2)
  have ok: "ok" and total: "total_in_flight (secs 1002) st' = n + 1" by (simp_all add: example_at_def)
  moreover have "map tk_tx (ls_tasks st') = txs @ [tx]"
    using spawn_leased_tasks [OF sp] assms(1) ok by (auto simp: example_at_def)
  ultimately have "example_at (n + 1) (txs @ [tx]) (free - {kind}) st'"
    using assms(1) spawn_leased_wf [OF sp wf] spawn_leased_other(2) [OF sp] spawn_leased_other_kinds [OF sp]
    by (simp add: example_at_def)
  with sp ok show thesis by (intro that) simp_all
qed

lemma example_close:
  assumes "example_at 0 [] UNIV st" and "disconnect_streak st = []"
  obtains st' where "close_pass example_cfg example_env (Some example_peers) example_closes [drained_channel] 1 [70]
      (initial_run example_view st) = (initial_run example_view st)\<lparr>br_st := st'\<rparr>"
    and "example_at 1 [CloseTx 70] (- {KClose}) st'"
proof -
  let ?st1 = "st\<lparr>disconnect_streak := [(7, 1)]\<rparr>"
  have at1: "example_at 0 [] UNIV ?st1"
    using assms(1) by (simp add: example_at_def ls_wf_def total_in_flight_def alist_wf_def leases_wf_default)
  obtain st' where sp: "spawn_leased example_cfg (secs 1002) KClose 70 (CloseTx 70) ?st1 = (True, st')"
    and at2: "example_at 1 [CloseTx 70] (- {KClose}) st'"
    using example_dispatch [OF at1, of KClose 70 "CloseTx 70"] by (auto simp: Compl_eq_Diff_UNIV)
  have disc: "disconnected_channels example_cfg example_env (addr_to_peer_id (Some example_peers)) [drained_channel] st
      = ([], ?st1)"
    using assms(2) by (simp add: disconnected_channels_def example_cfg_def lifecycle_default_def closure_default_def
        disconnect_step_def addr_to_peer_id_def map_entries_def example_peers_def drained_channel_def example_env_def
        unwrap_or_def Let_def)
  have ph: "phase_at (restart example_cfg) (secs 1002 - start_epoch st) = Expired" "t_pass example_env = secs 1002"
    using assms(1) by (simp_all add: example_at_def phase_at_def example_cfg_def lifecycle_default_def restart_default_def
        secs_def example_env_def)
  have free: "in_flight ?st1 k = leases_default" "in_flight st k = leases_default" for k
    using at1 by (simp_all add: example_at_def)
  have lim: "close_max_concurrent (closure example_cfg) = 2" "min_open_channels (population example_cfg) = 0"
    by (simp_all add: example_cfg_def lifecycle_default_def closure_default_def)
  have id: "ch_id drained_channel = 70" by (simp add: drained_channel_def)
  have "close_pass example_cfg example_env (Some example_peers) example_closes [drained_channel] 1 [70]
      (initial_run example_view st) = (initial_run example_view st)\<lparr>br_st := st'\<rparr>"
    by (simp add: close_pass_def Let_def ph initial_run_def disc example_selector default_selector_def del: One_nat_def)
      (simp add: example_env_def close_step_def lim channel_by_id_def id held_def is_held_def free leases_default_def
        try_close_channel_def sp charge_def held_count_def count_entries_def Let_def del: One_nat_def)
  with at2 show thesis by (rule that [rotated])
qed

lemma example_finalize:
  assumes "example_at 1 [CloseTx 70] (- {KClose}) (br_st r)"
  obtains st' where "finalize_pass example_cfg example_env [drained_channel, overdue_channel] r = r\<lparr>br_st := st'\<rparr>"
    and "example_at 2 [CloseTx 70, FinalizeTx 80] {KFund, KOpen} st'"
proof -
  obtain st' where sp: "spawn_leased example_cfg (secs 1002) KFinalize 80 (FinalizeTx 80) (br_st r) = (True, st')"
    and at2: "example_at 2 [CloseTx 70, FinalizeTx 80] (- {KClose} - {KFinalize}) st'"
    using example_dispatch [OF assms, of KFinalize 80 "FinalizeTx 80"] by (auto simp: numeral_2_eq_2)
  have "KFund \<in> - {KClose} - {KFinalize}" "KOpen \<in> - {KClose} - {KFinalize}" by simp_all
  with at2 have at3: "example_at 2 [CloseTx 70, FinalizeTx 80] {KFund, KOpen} st'" by (simp add: example_at_def)
  have free: "in_flight (br_st r) KFinalize = leases_default" using assms by (simp add: example_at_def)
  have "finalize_pass example_cfg example_env [drained_channel, overdue_channel] r = r\<lparr>br_st := st'\<rparr>"
    by (simp add: finalize_pass_def example_cfg_def lifecycle_default_def finalizer_default_def)
      (simp add: finalize_step_def drained_channel_def overdue_channel_def held_def is_held_def free leases_default_def
        try_finalize_channel_def charge_def held_count_def count_entries_def example_env_def secs_def
        sp [unfolded secs_def example_cfg_def lifecycle_default_def finalizer_default_def, simplified])
  with at3 show thesis by (rule that [rotated])
qed

lemma example_open:
  assumes "example_at 2 [CloseTx 70, FinalizeTx 80] {KFund, KOpen} (br_st r)" and "br_safe r = 700"
  obtains st' where "br_st (open_pass example_cfg example_env (Some example_peers) (Some example_funding) (Some 1000) 7 [(2, 20)] r) = st'"
    and "example_at 3 [CloseTx 70, FinalizeTx 80, OpenTx 2 600] {KFund} st'"
proof -
  obtain st' where sp: "spawn_leased example_cfg (secs 1002) KOpen 2 (OpenTx 2 600) (br_st r) = (True, st')"
    and at2: "example_at 3 [CloseTx 70, FinalizeTx 80, OpenTx 2 600] ({KFund, KOpen} - {KOpen}) st'"
    using example_dispatch [OF assms(1), of KOpen 2 "OpenTx 2 600"] by (auto simp: eval_nat_numeral)
  have "KFund \<in> {KFund, KOpen} - {KOpen}" by simp
  with at2 have at3: "example_at 3 [CloseTx 70, FinalizeTx 80, OpenTx 2 600] {KFund} st'" by (simp add: example_at_def)
  have env: "by_parties example_env = (\<lambda>_. Missing)" "t_pass example_env = secs 1002" by (simp_all add: example_env_def)
  have "br_st (open_pass example_cfg example_env (Some example_peers) (Some example_funding) (Some 1000) 7 [(2, 20)] r) = st'"
    by (simp add: open_pass_def example_funding_def open_step_def assms(2) env try_open_channel_def sp)
  with at3 show thesis by (rule that [rotated])
qed

lemma example_passes:
  assumes fresh: "fresh_state st" and wf: "ls_wf st"
  shows "example_at 3 [CloseTx 70, FinalizeTx 80, OpenTx 2 600] {KFund} (br_st (run_passes example_cfg example_env example_view st))"
proof -
  have view: "tv_peers example_view = Some example_peers" "tv_open example_view = [drained_channel]"
    "tv_channels example_view = [drained_channel, overdue_channel]" "tv_open_count example_view = 1"
    "tv_deficit example_view = 7" "resolved (tv_econ example_view) = Some example_funding"
    "tv_prev example_view = []" "tv_est_tx_secs example_view = 20" "min_ticket_price_wei (tv_econ example_view) = 100"
    "map_option sb_balance (tv_safe example_view) = Some 1000"
    by (simp_all add: example_view_def)
  let ?r0 = "initial_run example_view st"
  have st: "br_st ?r0 = st" and safe: "br_safe ?r0 = 700" by (simp_all add: initial_run_def example_view_def)
  have at0: "example_at 0 [] UNIV st"
    using fresh wf by (simp add: example_at_def fresh_state_def total_in_flight_def)
  have streak: "disconnect_streak st = []" using fresh by (simp add: fresh_state_def)
  obtain st1 where c: "close_pass example_cfg example_env (Some example_peers) example_closes [drained_channel] 1 [70] ?r0
      = ?r0\<lparr>br_st := st1\<rparr>" and at1: "example_at 1 [CloseTx 70] (- {KClose}) st1"
    by (rule example_close [OF at0 streak])
  have con: "consolidation_pass example_cfg example_env fnd safe chs closes [] r = r" for fnd safe chs closes r
    by (simp add: consolidation_pass_def consolidate_stranded_stake_def split: option.splits)
  obtain st2 where f: "finalize_pass example_cfg example_env [drained_channel, overdue_channel] (?r0\<lparr>br_st := st1\<rparr>) =
      ?r0\<lparr>br_st := st2\<rparr>" and at2: "example_at 2 [CloseTx 70, FinalizeTx 80] {KFund, KOpen} st2"
    using example_finalize [of "?r0\<lparr>br_st := st1\<rparr>"] at1 by auto
  obtain st3 where o: "br_st (open_pass example_cfg example_env (Some example_peers) (Some example_funding) (Some 1000) 7 [(2, 20)]
      (?r0\<lparr>br_st := st2\<rparr>)) = st3" and at3: "example_at 3 [CloseTx 70, FinalizeTx 80, OpenTx 2 600] {KFund} st3"
    using example_open [of "?r0\<lparr>br_st := st2\<rparr>"] at2 safe by auto
  have "br_st (run_passes example_cfg example_env example_view st) = st3"
    by (simp add: run_passes_def view example_fund [OF fresh] st example_candidates [OF fresh] example_selector
        default_selector_def example_ranked Let_def c con f o del: list.map One_nat_def)
  with at3 show ?thesis by simp
qed

lemma example_tick:
  "tick_channels example_cfg example_env = Some [drained_channel, overdue_channel] \<and>
     map tk_tx (ls_tasks (run_pipeline example_cfg example_env (initial_state 0))) = [CloseTx 70, FinalizeTx 80, OpenTx 2 600]"
proof -
  have chs: "tick_channels example_cfg example_env = Some [drained_channel, overdue_channel]"
    by (simp add: tick_channels_def example_env_def example_deadline chain_read_Some secs_def
        example_deadline [unfolded secs_def, simplified])
  obtain v st2 where g: "gather example_cfg example_env [drained_channel, overdue_channel]
      (tick_start example_env (initial_state 0)) = (v, st2)" by fastforce
  have v: "v = example_view" and fresh: "fresh_state st2" using example_gather example_gather_fresh g by simp_all
  have "ls_wf st2" by (rule gather_wf [OF g tick_start_wf [OF ls_wf_initial]])
  from example_passes [OF fresh this] show ?thesis
    using chs g by (cases rule: run_pipeline_cases [of example_cfg example_env "initial_state 0"]) (auto simp: v example_at_def)
qed

end
