(* ===== verification/Lifecycle_System.thy ===== *)
theory Lifecycle_System
  imports Lifecycle_Example
begin

text \<open>
  The channel-lifecycle strategy as a transition system: ticks, chain events and the reports of
  the transactions it spawned, interleaved in any order (the arms of the run loop in
  \<open>src/src/channel_lifecycle/strategy.rs\<close> and the tail of the spawned action in \<open>spawn_leased\<close>).
  A tick and an event handler run to completion on the strategy's own task; reports of spawned
  transactions are steps between them.
\<close>

section \<open>Properties of one tick\<close>

text \<open>
  C2. No tick promises more than the safe can pay: the stakes of all transactions one tick
  submits, over the fund, consolidation and open passes together, add up to at most the lesser of
  the safe's balance and its allowance as read in that tick, and to nothing when the safe could
  not be read in time.
\<close>

theorem tick_spends_within_safe:
  assumes "tick_wf env"
  shows "\<exists>tks. ls_tasks (run_pipeline cfg env st) = ls_tasks st @ tks \<and>
    spent tks \<le> (case safe_balance_budget (read_deadline cfg (t_begin env)) (q_safe env) of
                    Some b \<Rightarrow> sb_spendable b | None \<Rightarrow> 0)"
proof (cases rule: run_pipeline_tasks [OF assms, of cfg st, case_names idle active])
  case idle
  then show ?thesis by (auto simp: spent_def)
next
  case (active chs v st2 tks)
  with gather_safe [OF active(2)] show ?thesis by auto
qed

text \<open>
  C3. A channel is only ever opened to an eligible peer. Every opening transaction of a tick is
  for an address that is not this node, holds no open or closing channel from it, is not in its
  reopen cooldown, passes the allow and block lists, and belongs to a connected peer of
  sufficient quality; the channel was re-read just before and found absent, closed or unreadable.
\<close>

theorem tick_opens_only_eligible:
  assumes "tick_wf env" and "tk \<in> set (drop (length (ls_tasks st)) (ls_tasks (run_pipeline cfg env st)))"
    and "tk_tx tk = OpenTx a b"
  shows "\<exists>chs v st2. tick_channels cfg env = Some chs \<and> gather cfg env chs (tick_start env st) = (v, st2) \<and>
    a \<noteq> env_me env \<and> (\<forall>ch\<in>set chs. ch_destination ch = a \<longrightarrow> ch_status ch = Closed) \<and>
    \<not> is_on_cooldown (t_fund env) a st2 \<and>
    (\<forall>l. allowlist (eligibility cfg) = Some l \<longrightarrow> a \<in> set l) \<and> a \<notin> set (blocklist (eligibility cfg)) \<and>
    (\<forall>ch. by_parties env a = Found ch \<longrightarrow> ch_status ch = Closed) \<and>
    (\<exists>peer\<in>set (connected_peers env). \<exists>key. map_of (map_entries (tv_peers v)) peer = Some (key, a) \<and>
        min_peer_quality_score (eligibility cfg) \<le>
          composite_quality_score (eligibility cfg) (quality_score (peer_edge_info (graph_edge_of env) key)) (ticket_score_of st2 a))"
proof (cases rule: run_pipeline_tasks [OF assms(1), of cfg st, case_names idle active])
  case idle
  with assms show ?thesis by simp
next
  case (active chs v st2 tks)
  then have "tick_allowed cfg env v st2 (OpenTx a b)" using assms(2,3) by (auto simp: task_ok_def)
  then have "open_eligible cfg env st2 (tv_peers v) (tv_channels v) a"
    "\<forall>ch. by_parties env a = Found ch \<longrightarrow> ch_status ch = Closed" by (simp_all add: tick_allowed_def)
  moreover have "tv_channels v = chs" using gather_view_ok [OF active(2)] by simp
  ultimately show ?thesis using active(1,2) unfolding open_eligible_def existing_dests_def by auto
qed

text \<open>
  C4. Closures wait for the startup guard. A tick closes nothing before the observation period
  is over, and until the grace period is over it closes only channels whose destination is
  resolvable and not connected; what it closes is one of its own open channels.
\<close>

theorem tick_closes_guarded:
  assumes "tick_wf env" and "tk \<in> set (drop (length (ls_tasks st)) (ls_tasks (run_pipeline cfg env st)))"
    and "tk_tx tk = CloseTx cid"
  shows "startup_observation_period (restart cfg) \<le> t_pass env - start_epoch st \<and>
    (\<exists>chs v st2. tick_channels cfg env = Some chs \<and> gather cfg env chs (tick_start env st) = (v, st2) \<and>
       (\<exists>ch\<in>set chs. ch_id ch = cid \<and> ch_status ch = Open \<and>
          (t_pass env - start_epoch st < startup_close_grace_period (restart cfg) \<longrightarrow>
             (\<exists>ch'\<in>set chs. ch_id ch' = cid \<and> unreachable env (addr_to_peer_id (tv_peers v)) (ch_destination ch')))))"
proof (cases rule: run_pipeline_tasks [OF assms(1), of cfg st, case_names idle active])
  case idle
  with assms show ?thesis by simp
next
  case (active chs v st2 tks)
  have "tick_allowed cfg env v st2 (CloseTx cid)" using active assms(2,3) by (auto simp: task_ok_def)
  moreover have "tv_open v = filter (\<lambda>c. ch_status c = Open) chs"
    using gather_view_ok [OF active(2)] by (simp add: view_ok_def)
  moreover have ep: "start_epoch st2 = start_epoch st" using gather_fields(3) [OF active(2)] by simp
  ultimately have guard: "phase_of cfg env st \<noteq> Observing"
    and ch: "\<exists>ch\<in>set chs. ch_id ch = cid \<and> ch_status ch = Open \<and> (phase_of cfg env st = ShieldingConnected \<longrightarrow>
       (\<exists>ch'\<in>set chs. ch_id ch' = cid \<and> unreachable env (addr_to_peer_id (tv_peers v)) (ch_destination ch')))"
    by (auto simp: tick_allowed_def phase_of_def)
  have "startup_observation_period (restart cfg) \<le> t_pass env - start_epoch st"
    using guard by (simp add: phase_of_def phase_at_def split: if_splits)
  moreover from this have "t_pass env - start_epoch st < startup_close_grace_period (restart cfg) \<longrightarrow>
      phase_of cfg env st = ShieldingConnected" by (simp add: phase_of_def phase_at_def)
  ultimately show ?thesis using ch active(1,2) by blast
qed

text \<open>
  Only closures that are really overdue are finalized: every finalizing transaction of a tick
  is for a channel listed as pending closure whose deadline passed at least the configured
  overdue period ago by the system clock, and only while the finalizer is enabled.
\<close>

theorem tick_finalizes_overdue:
  assumes "tick_wf env" and "tk \<in> set (drop (length (ls_tasks st)) (ls_tasks (run_pipeline cfg env st)))"
    and "tk_tx tk = FinalizeTx cid"
  shows "fin_enabled (finalizer cfg) \<and> (\<exists>chs. tick_channels cfg env = Some chs \<and>
    (\<exists>ch\<in>set chs. \<exists>t. ch_id ch = cid \<and> ch_status ch = PendingToClose t \<and>
       t + max_closure_overdue (finalizer cfg) \<le> sys_now env))"
proof (cases rule: run_pipeline_tasks [OF assms(1), of cfg st, case_names idle active])
  case idle
  with assms show ?thesis by simp
next
  case (active chs v st2 tks)
  have "tick_allowed cfg env v st2 (FinalizeTx cid)" using active assms(2,3) by (auto simp: task_ok_def)
  moreover have "tv_channels v = chs" using gather_view_ok [OF active(2)] by simp
  ultimately show ?thesis using active(1) by (simp add: tick_allowed_def)
qed

text \<open>
  C5. A tick that cannot read its inputs says so and spends nothing. When the channel list, the
  safe, the ticket price or the winning probability cannot be read before the deadline, the tick
  publishes the failed state and submits no transaction that costs anything; without the channel
  list it submits none at all.
\<close>

theorem tick_reports_missing_inputs:
  assumes "tick_wf env"
    and "tick_channels cfg env = None \<or> safe_balance_budget (read_deadline cfg (t_begin env)) (q_safe env) = None \<or>
      chain_read (read_deadline cfg (t_begin env)) (q_price env) = None \<or>
      chain_read (read_deadline cfg (t_begin env)) (q_win_prob env) = None"
  shows "ls_state (run_pipeline cfg env st) = Failed \<and>
    (\<exists>tks. ls_tasks (run_pipeline cfg env st) = ls_tasks st @ tks \<and> spent tks = 0 \<and>
       (tick_channels cfg env = None \<longrightarrow> tks = []))"
proof (cases rule: run_pipeline_cases [of cfg env st])
  case no_channels
  then show ?thesis by (simp add: spent_def)
next
  case (passes chs v st2)
  have missing: "resolved (tv_econ v) = None \<or> tv_safe v = None"
    using assms(2) passes(1) gather_safe [OF passes(2)] gather_econ [OF passes(2)]
    by (auto simp: economics_of_def option_zip_def split: option.splits)
  then have failed: "ls_state (run_pipeline cfg env st) = Failed"
    using passes(3) by (simp add: run_passes_Failed)
  show ?thesis
  proof (cases rule: run_pipeline_tasks [OF assms(1), of cfg st, case_names idle active])
    case idle
    with passes show ?thesis by simp
  next
    case (active chs' v' st2' tks)
    then have same: "v' = v" "st2' = st2" using passes by simp_all
    have "spent tks = 0"
    proof (cases "tv_safe v = None")
      case True
      with active(5) same show ?thesis by simp
    next
      case False
      with missing have "\<forall>tk\<in>set tks. tx_cost (tk_tx tk) = 0"
        using active(4) same no_economics_no_cost by (auto simp: task_ok_def)
      then show ?thesis by (rule spent_zero)
    qed
    with active(1,3) failed show ?thesis by auto
  qed
qed

section \<open>Witnesses on the example tick\<close>

lemma example_new_task:
  assumes "tx \<in> {CloseTx 70, FinalizeTx 80, OpenTx 2 600}"
  obtains tk where "tk \<in> set (drop (length (ls_tasks (initial_state 0))) (ls_tasks (run_pipeline example_cfg example_env (initial_state 0))))"
    and "tk_tx tk = tx"
proof -
  have "tx \<in> set (map tk_tx (ls_tasks (run_pipeline example_cfg example_env (initial_state 0))))"
    using example_tick assms by auto
  then show thesis using that by (auto simp: initial_state_def)
qed

lemma example_channels: "tick_channels example_cfg example_env = Some [drained_channel, overdue_channel]"
  using example_tick by blast

theorem tick_spends_within_safe_witness:
  "\<exists>tks. ls_tasks (run_pipeline example_cfg example_env (initial_state 0)) = tks \<and> spent tks \<le> 700"
proof -
  have "safe_balance_budget (read_deadline example_cfg (t_begin example_env)) (q_safe example_env) =
      Some \<lparr>sb_balance = 1000, sb_spendable = 700\<rparr>"
    by (simp add: example_env_def example_deadline safe_balance_budget_def chain_read_def secs_def
        example_deadline [unfolded secs_def, simplified])
  with tick_spends_within_safe [OF example_env_wf, of example_cfg "initial_state 0"] show ?thesis
    by (auto simp: initial_state_def)
qed

theorem tick_opens_only_eligible_witness:
  "2 \<noteq> env_me example_env \<and> 2 \<notin> set (blocklist (eligibility example_cfg)) \<and>
   (\<exists>peer\<in>set (connected_peers example_env). \<exists>m key. map_of (map_entries m) peer = Some (key, 2))"
proof -
  obtain tk where "tk \<in> set (drop (length (ls_tasks (initial_state 0))) (ls_tasks (run_pipeline example_cfg example_env (initial_state 0))))"
    "tk_tx tk = OpenTx 2 600"
    using example_new_task [of "OpenTx 2 600"] by blast
  from tick_opens_only_eligible [OF example_env_wf this] show ?thesis by blast
qed

theorem tick_closes_guarded_witness:
  "startup_observation_period (restart example_cfg) \<le> t_pass example_env - start_epoch (initial_state 0)"
proof -
  obtain tk where "tk \<in> set (drop (length (ls_tasks (initial_state 0))) (ls_tasks (run_pipeline example_cfg example_env (initial_state 0))))"
    "tk_tx tk = CloseTx 70"
    using example_new_task [of "CloseTx 70"] by blast
  from tick_closes_guarded [OF example_env_wf this] show ?thesis by blast
qed

theorem tick_finalizes_overdue_witness:
  "\<exists>ch\<in>set [drained_channel, overdue_channel]. \<exists>t. ch_id ch = 80 \<and> ch_status ch = PendingToClose t \<and>
     t + max_closure_overdue (finalizer example_cfg) \<le> sys_now example_env"
proof -
  obtain tk where "tk \<in> set (drop (length (ls_tasks (initial_state 0))) (ls_tasks (run_pipeline example_cfg example_env (initial_state 0))))"
    "tk_tx tk = FinalizeTx 80"
    using example_new_task [of "FinalizeTx 80"] by blast
  from tick_finalizes_overdue [OF example_env_wf this] show ?thesis by (simp add: example_channels)
qed

theorem disconnect_debounced_witness:
  "set (fst (disconnected_channels example_cfg example_env [(7, 27)] [drained_channel]
      ((initial_state 0)\<lparr>disconnect_streak := [(7, 2)]\<rparr>))) = {70}"
proof -
  let ?st = "(initial_state 0)\<lparr>disconnect_streak := [(7, 2)]\<rparr>"
  obtain d st' where d: "disconnected_channels example_cfg example_env [(7, 27)] [drained_channel] ?st = (d, st')" by fastforce
  have "set d = ch_id ` {ch \<in> set [drained_channel]. unreachable example_env [(7, 27)] (ch_destination ch) \<and>
      max (close_after_disconnected_ticks (closure example_cfg)) 1 \<le> streak_of (disconnect_streak ?st) (ch_destination ch) + 1}"
    using disconnect_debounced [OF _ _ d] by (simp add: alist_wf_def)
  moreover have "unreachable example_env [(7, 27)] 7" by (simp add: unreachable_def example_env_def)
  moreover have "close_after_disconnected_ticks (closure example_cfg) = 3"
    by (simp add: example_cfg_def lifecycle_default_def closure_default_def)
  ultimately have "set d = {70}" by (auto simp: drained_channel_def streak_of_def unwrap_or_def)
  with d show ?thesis by simp
qed

theorem close_pass_limits_witness:
  "\<exists>tks. ls_tasks (br_st (close_pass example_cfg example_env (Some example_peers) example_closes [drained_channel] 1 [70]
      (initial_run example_view (initial_state 0)))) = tks \<and> length tks \<le> 2"
proof -
  have "close_max_concurrent (closure example_cfg) = 2" by (simp add: example_cfg_def lifecycle_default_def closure_default_def)
  moreover have "ls_tasks (br_st (initial_run example_view (initial_state 0))) = []" by (simp add: initial_run_def initial_state_def)
  ultimately show ?thesis
    using close_pass_limits [of example_cfg example_env "Some example_peers" example_closes "[drained_channel]" 1 "[70]"
        "initial_run example_view (initial_state 0)"] by fastforce
qed

definition mute_env :: tick_env where
  "mute_env = example_env\<lparr>q_price := (secs 1000, Timeout)\<rparr>"

theorem tick_reports_missing_inputs_witness:
  "ls_state (run_pipeline example_cfg mute_env (initial_state 0)) = Failed"
proof -
  have "tick_wf mute_env" using example_env_wf by (simp add: tick_wf_def mute_env_def)
  moreover have "chain_read (read_deadline example_cfg (t_begin mute_env)) (q_price mute_env) = None"
    by (simp add: chain_read_def mute_env_def)
  ultimately show ?thesis using tick_reports_missing_inputs [of mute_env example_cfg "initial_state 0"] by blast
qed

section \<open>Ticks, events and reports interleaved\<close>

record system =
  sys_clock :: instant
  sys_state :: lifecycle_state

datatype system_act = Tick tick_env | ChainEvent chain_event safe_reads instant | Report nat | Pass duration

inductive system_step ::
    "(channel \<Rightarrow> address \<Rightarrow> channel_direction option) \<Rightarrow> lifecycle_config \<Rightarrow> address \<Rightarrow> system \<Rightarrow> system_act \<Rightarrow> system \<Rightarrow> bool"
  for dir cfg me where
  tick: "tick_wf env \<Longrightarrow> sys_clock s \<le> t_begin env \<Longrightarrow>
    system_step dir cfg me s (Tick env) \<lparr>sys_clock = t_pass env, sys_state = run_pipeline cfg env (sys_state s)\<rparr>"
| chain_event: "sys_clock s \<le> now \<Longrightarrow>
    system_step dir cfg me s (ChainEvent e q now)
      \<lparr>sys_clock = now, sys_state = handle_chain_event dir cfg now q me e (sys_state s)\<rparr>"
| reported: "i < length (ls_tasks (sys_state s)) \<Longrightarrow>
    system_step dir cfg me s (Report i) (s\<lparr>sys_state := task_report i (sys_state s)\<rparr>)"
| passed: "system_step dir cfg me s (Pass d) (s\<lparr>sys_clock := sys_clock s + d\<rparr>)"

inductive system_reachable ::
    "(channel \<Rightarrow> address \<Rightarrow> channel_direction option) \<Rightarrow> lifecycle_config \<Rightarrow> address \<Rightarrow> system \<Rightarrow> bool"
  for dir cfg me where
  built: "build cfg now = Inr (sel, st) \<Longrightarrow> system_reachable dir cfg me \<lparr>sys_clock = now, sys_state = st\<rparr>"
| stepped: "system_reachable dir cfg me s \<Longrightarrow> system_step dir cfg me s a s' \<Longrightarrow> system_reachable dir cfg me s'"

inductive_cases system_stepE: "system_step dir cfg me s a s'"

definition system_inv :: "lifecycle_config \<Rightarrow> system \<Rightarrow> bool" where
  "system_inv cfg s \<longleftrightarrow> ls_wf (sys_state s) \<and>
     total_in_flight (sys_clock s) (sys_state s) \<le> max_concurrent_actions (concurrency cfg)"

lemma task_report_wf: "ls_wf st \<Longrightarrow> ls_wf (task_report i st)"
  by (simp add: task_report_def Let_def ls_wf_in_flight leases_wf_release_owned ls_wf_leases)

lemma task_report_budget: "ls_wf st \<Longrightarrow> total_in_flight now (task_report i st) \<le> total_in_flight now st"
proof -
  assume wf: "ls_wf st"
  let ?tk = "ls_tasks st ! i"
  let ?t = "release_owned (tk_key ?tk) (tk_holder ?tk) (in_flight st (tk_kind ?tk))"
  have "held_count now ?t \<le> held_count now (in_flight st (tk_kind ?tk))"
    by (simp add: held_count_release_owned [OF ls_wf_leases [OF wf]])
  moreover have "total_in_flight now (task_report i st) = total_in_flight now (st\<lparr>in_flight := (in_flight st)(tk_kind ?tk := ?t)\<rparr>)"
    by (rule total_in_flight_cong) (simp add: task_report_def Let_def)
  ultimately show ?thesis using total_in_flight_upd [of now st "tk_kind ?tk" ?t] by linarith
qed

lemma system_inv_step: "system_step dir cfg me s a s' \<Longrightarrow> system_inv cfg s \<Longrightarrow> system_inv cfg s'"
proof (induction rule: system_step.induct)
  case (tick env s)
  then have "total_in_flight (t_begin env) (sys_state s) \<le> max_concurrent_actions (concurrency cfg)"
    using total_in_flight_antimono [of "sys_clock s" "t_begin env" "sys_state s"] by (simp add: system_inv_def)
  with tick show ?case by (simp add: system_inv_def run_pipeline_wf run_pipeline_budget)
next
  case (chain_event s now e q)
  then have "total_in_flight now (sys_state s) \<le> max_concurrent_actions (concurrency cfg)"
    using total_in_flight_antimono [of "sys_clock s" now "sys_state s"] by (simp add: system_inv_def)
  with chain_event show ?case by (simp add: system_inv_def handle_chain_event_wf handle_chain_event_budget)
next
  case (reported i s)
  then show ?case
    using task_report_budget [of "sys_state s" "sys_clock s" i] by (simp add: system_inv_def task_report_wf)
next
  case (passed s d)
  then show ?case
    using total_in_flight_antimono [of "sys_clock s" "sys_clock s + d" "sys_state s"] by (simp add: system_inv_def)
qed

lemma system_inv_built: "build cfg now = Inr (sel, st) \<Longrightarrow> system_inv cfg \<lparr>sys_clock = now, sys_state = st\<rparr>"
  using build_selector [of cfg now sel st] ls_wf_initial [of now]
  by (simp add: system_inv_def total_in_flight_def initial_state_def)

text \<open>
  C1. The action budget is never exceeded. Whatever ticks, chain events, reports and waiting
  times follow each other after a strategy is built, the number of live transactions over all
  four kinds never rises above \<open>max_concurrent_actions\<close>.
\<close>

theorem action_budget_never_exceeded:
  assumes "system_reachable dir cfg me s"
  shows "total_in_flight (sys_clock s) (sys_state s) \<le> max_concurrent_actions (concurrency cfg)"
proof -
  have "system_inv cfg s"
    using assms by induction (blast intro: system_inv_built system_inv_step)+
  then show ?thesis by (simp add: system_inv_def)
qed

theorem action_budget_never_exceeded_witness:
  "total_in_flight (t_pass example_env) (run_pipeline example_cfg example_env (initial_state 0)) \<le> 4"
proof -
  have "validate_lifecycle example_cfg = []"
    using validate_lifecycle_default
    by (simp add: validate_lifecycle_def example_cfg_def validate_sizing_mode_def lifecycle_default_def)
  then have "build example_cfg 0 = Inr (default_selector, initial_state 0)"
    by (simp add: build_def example_cfg_def lifecycle_default_def)
  from system_reachable.built [OF this] have "system_reachable source_direction example_cfg 1
      \<lparr>sys_clock = t_pass example_env, sys_state = run_pipeline example_cfg example_env (initial_state 0)\<rparr>"
    using system_step.tick [OF example_env_wf, of "\<lparr>sys_clock = 0, sys_state = initial_state 0\<rparr>" source_direction example_cfg 1]
    by (auto intro: system_reachable.stepped)
  from action_budget_never_exceeded [OF this] show ?thesis
    by (simp add: example_cfg_def lifecycle_default_def concurrency_default_def)
qed

end
