(* ===== verification/Lifecycle_Run.thy ===== *)
theory Lifecycle_Run
  imports Lifecycle_System
begin

text \<open>
  The run loop of the channel-lifecycle strategy (\<open>run\<close> in
  \<open>src/src/channel_lifecycle/strategy.rs\<close>) as a function of what its merged stream yields: the
  startup tick, then ticks and chain events in the order they arrive, with the reports of spawned
  transactions between them. Every run is shown to be a path of the transition system of
  \<open>Lifecycle_System\<close>, whose invariants it therefore keeps.
\<close>

definition jitter_offset :: "lifecycle_config \<Rightarrow> nat \<Rightarrow> duration" where
  \<comment> \<open>\<open>unix_now\<close> is the system time since the epoch; the cast is to \<open>u64\<close>\<close>
  "jitter_offset cfg unix_now =
     (if 0 < jitter cfg then (unix_now mod jitter cfg) mod 2 ^ 64 else 0)"

definition effective_interval :: "lifecycle_config \<Rightarrow> nat \<Rightarrow> duration" where
  "effective_interval cfg unix_now = tick_interval cfg + jitter_offset cfg unix_now"

lemma effective_interval_bounds:
  "tick_interval cfg \<le> effective_interval cfg unix_now \<and>
   effective_interval cfg unix_now \<le> tick_interval cfg + (jitter cfg - 1)"
proof (cases "0 < jitter cfg")
  case True
  have "(unix_now mod jitter cfg) mod 2 ^ 64 \<le> unix_now mod jitter cfg" by (rule mod_less_eq_dividend)
  also have "\<dots> \<le> jitter cfg - 1" using mod_less_divisor [OF True, of unix_now] by linarith
  finally show ?thesis using True by (simp add: effective_interval_def jitter_offset_def)
next
  case False
  then show ?thesis by (simp add: effective_interval_def jitter_offset_def)
qed

datatype loop_event =
    LoopTick tick_env
  | LoopChain chain_event safe_reads instant
  | LoopReport nat

fun loop_step ::
    "(channel \<Rightarrow> address \<Rightarrow> channel_direction option) \<Rightarrow> lifecycle_config \<Rightarrow> address \<Rightarrow> loop_event \<Rightarrow>
     lifecycle_state \<Rightarrow> lifecycle_state" where
  "loop_step dir cfg me (LoopTick env) st = run_pipeline cfg env st"
| "loop_step dir cfg me (LoopChain e q now) st = handle_chain_event dir cfg now q me e st"
| "loop_step dir cfg me (LoopReport i) st = (if i < length (ls_tasks st) then task_report i st else st)"

definition lifecycle_run ::
    "(channel \<Rightarrow> address \<Rightarrow> channel_direction option) \<Rightarrow> lifecycle_config \<Rightarrow> address \<Rightarrow> string option \<Rightarrow> tick_env \<Rightarrow>
     loop_event list \<Rightarrow> lifecycle_state \<Rightarrow> (strategy_error + unit) \<times> lifecycle_state" where
  "lifecycle_run dir cfg me subscribe_error startup evs st =
     (case subscribe_error of
        Some e \<Rightarrow> (Inl (OtherError (Text e)), set_state Failed st)
      | None \<Rightarrow> (Inr (), fold (loop_step dir cfg me) evs (run_pipeline cfg startup st)))"

fun timed :: "instant \<Rightarrow> loop_event list \<Rightarrow> bool" where
  \<comment> \<open>the events happen in this order on one clock that has reached \<open>now\<close>\<close>
  "timed now [] \<longleftrightarrow> True"
| "timed now (LoopTick env # evs) \<longleftrightarrow> tick_wf env \<and> now \<le> t_begin env \<and> timed (t_pass env) evs"
| "timed now (LoopChain e q t # evs) \<longleftrightarrow> now \<le> t \<and> timed t evs"
| "timed now (LoopReport i # evs) \<longleftrightarrow> timed now evs"

lemma run_path_reachable:
  assumes "timed now evs" and "system_reachable dir cfg me \<lparr>sys_clock = now, sys_state = st\<rparr>"
  shows "\<exists>clock. system_reachable dir cfg me \<lparr>sys_clock = clock, sys_state = fold (loop_step dir cfg me) evs st\<rparr>"
  using assms
proof (induction now evs arbitrary: st rule: timed.induct)
  case (1 now)
  then show ?case by auto
next
  case (2 now env evs)
  have "system_step dir cfg me \<lparr>sys_clock = now, sys_state = st\<rparr> (Tick env)
      \<lparr>sys_clock = t_pass env, sys_state = run_pipeline cfg env st\<rparr>"
    using system_step.tick [of env "\<lparr>sys_clock = now, sys_state = st\<rparr>" dir cfg me] "2.prems"(1) by simp
  from "2.IH" [OF _ system_reachable.stepped [OF "2.prems"(2) this]] "2.prems"(1) show ?case by simp
next
  case (3 now e q t evs)
  have "system_step dir cfg me \<lparr>sys_clock = now, sys_state = st\<rparr> (ChainEvent e q t)
      \<lparr>sys_clock = t, sys_state = handle_chain_event dir cfg t q me e st\<rparr>"
    using system_step.chain_event [of "\<lparr>sys_clock = now, sys_state = st\<rparr>" t dir cfg me e q] "3.prems"(1) by simp
  from "3.IH" [OF _ system_reachable.stepped [OF "3.prems"(2) this]] "3.prems"(1) show ?case by simp
next
  case (4 now i evs)
  show ?case
  proof (cases "i < length (ls_tasks st)")
    case True
    have "system_step dir cfg me \<lparr>sys_clock = now, sys_state = st\<rparr> (Report i) \<lparr>sys_clock = now, sys_state = task_report i st\<rparr>"
      using system_step.reported [of i "\<lparr>sys_clock = now, sys_state = st\<rparr>" dir cfg me] True by simp
    from "4.IH" [OF _ system_reachable.stepped [OF "4.prems"(2) this]] "4.prems"(1) True show ?thesis by simp
  next
    case False
    with 4 show ?thesis by simp
  qed
qed

text \<open>
  C8. The run loop refines the transition system: a run fails only when the subscription fails,
  and then the published state is \<open>Failed\<close>; otherwise its state after any timed sequence of
  ticks, events and reports is a reachable state of the system, at some time at which the action
  budget holds.
\<close>

theorem run_refines_system:
  assumes "build cfg now = Inr (sel, st)" and "timed now (LoopTick startup # evs)"
  shows "case lifecycle_run dir cfg me subscribe_error startup evs st of
     (Inl e, st') \<Rightarrow> subscribe_error \<noteq> None \<and> ls_state st' = Failed
   | (Inr _, st') \<Rightarrow> subscribe_error = None \<and>
       (\<exists>clock. system_reachable dir cfg me \<lparr>sys_clock = clock, sys_state = st'\<rparr> \<and>
                total_in_flight clock st' \<le> max_concurrent_actions (concurrency cfg))"
proof (cases subscribe_error)
  case None
  have "system_reachable dir cfg me \<lparr>sys_clock = now, sys_state = st\<rparr>"
    using assms(1) by (rule system_reachable.built)
  from run_path_reachable [OF assms(2) this]
  obtain clock where reach: "system_reachable dir cfg me
      \<lparr>sys_clock = clock, sys_state = fold (loop_step dir cfg me) evs (run_pipeline cfg startup st)\<rparr>"
    by auto
  have "system_inv cfg \<lparr>sys_clock = clock, sys_state = fold (loop_step dir cfg me) evs (run_pipeline cfg startup st)\<rparr>"
    using reach by induction (blast intro: system_inv_built system_inv_step)+
  with reach None show ?thesis by (auto simp: lifecycle_run_def system_inv_def)
next
  case (Some e)
  then show ?thesis by (simp add: lifecycle_run_def set_state_def)
qed

theorem run_refines_system_witness:
  "\<exists>clock. total_in_flight clock (snd (lifecycle_run source_direction example_cfg 1 None example_env
      [LoopReport 0, LoopChain OtherEvent rich_safe (t_pass example_env)] (initial_state 0))) \<le> 4"
proof -
  have "validate_lifecycle example_cfg = []"
    using validate_lifecycle_default
    by (simp add: validate_lifecycle_def example_cfg_def validate_sizing_mode_def lifecycle_default_def)
  then have b: "build example_cfg 0 = Inr (default_selector, initial_state 0)"
    by (simp add: build_def example_cfg_def lifecycle_default_def)
  have t: "timed 0 (LoopTick example_env # [LoopReport 0, LoopChain OtherEvent rich_safe (t_pass example_env)])"
    using example_env_wf by simp
  from run_refines_system [OF b t, where dir = source_direction and me = 1 and subscribe_error = None] show ?thesis
    by (auto simp: lifecycle_run_def example_cfg_def lifecycle_default_def concurrency_default_def)
qed

end
