(* ===== verification/Auto_Funding.thy ===== *)
theory Auto_Funding
  imports Chain_Types Strategy_State
begin

text \<open>
  The legacy auto-funding strategy (\<open>src/src/auto_funding.rs\<close>): a tick that scans the node's open
  outgoing channels and re-stakes those at or below the threshold, the reaction to a balance
  decrease, and the in-flight set that keeps one channel from being funded twice.

  The in-flight \<open>DashSet\<close> is a set. A spawned funding future is an entry of \<open>af_tasks\<close> until it
  ends (\<open>funding_report\<close>). Futures may end while a tick is waiting for the next channel of the
  stream: every item of the stream carries the reports that arrive before it.
\<close>

section \<open>Configuration and state\<close>

record auto_funding_config =
  min_stake_threshold :: balance
  funding_amount :: balance

definition auto_funding_default :: auto_funding_config where
  "auto_funding_default = \<lparr>min_stake_threshold = 10 ^ 18, funding_amount = 10 * 10 ^ 18\<rparr>"

definition validate_funding_amount :: "balance \<Rightarrow> string + unit" where
  "validate_funding_amount amount =
     (if amount = 0 then Inl ''funding_amount must be greater than zero'' else Inr ())"

record funding_state =
  af_in_flight :: "channel_id set"
  af_tasks :: "(channel_id \<times> balance) list"

definition auto_funding_build :: "auto_funding_config \<Rightarrow> strategy_error + funding_state" where
  "auto_funding_build cfg =
     (case validate_funding_amount (funding_amount cfg) of
        Inl e \<Rightarrow> Inl (InvalidConfiguration e)
      | Inr _ \<Rightarrow> Inr \<lparr>af_in_flight = {}, af_tasks = []\<rparr>)"

record funding_summary =
  fs_scanned :: nat
  fs_below_threshold :: nat
  fs_started :: nat
  fs_in_flight :: nat
  fs_unaffordable :: nat
  fs_failed :: nat

definition funding_summary_default :: funding_summary where
  "funding_summary_default =
     \<lparr>fs_scanned = 0, fs_below_threshold = 0, fs_started = 0, fs_in_flight = 0, fs_unaffordable = 0, fs_failed = 0\<rparr>"

definition is_notable :: "funding_summary \<Rightarrow> bool" where
  "is_notable s \<longleftrightarrow> 0 < fs_started s \<or> 0 < fs_unaffordable s \<or> 0 < fs_failed s"

section \<open>Funding one channel\<close>

definition fund_one :: "auto_funding_config \<Rightarrow> channel \<Rightarrow> funding_state \<Rightarrow> (strategy_error + bool) \<times> funding_state" where
  \<comment> \<open>\<open>try_fund_channel\<close>\<close>
  "fund_one cfg ch st =
     (if ch_id ch \<in> af_in_flight st then (Inr False, st)
      else (Inr True, st\<lparr>af_in_flight := insert (ch_id ch) (af_in_flight st),
                         af_tasks := af_tasks st @ [(ch_id ch, funding_amount cfg)]\<rparr>))"

datatype funding_end = EnqueueFailed | ConfirmFailed | Confirmed

definition funding_report :: "nat \<times> funding_end \<Rightarrow> funding_state \<Rightarrow> funding_state" where
  \<comment> \<open>spawned future number \<open>i\<close> ends: only a failure gives the slot back\<close>
  "funding_report r st =
     (case r of (i, e) \<Rightarrow>
        if length (af_tasks st) \<le> i then st
        else
          let c = fst (af_tasks st ! i);
              done = st\<lparr>af_tasks := take i (af_tasks st) @ drop (Suc i) (af_tasks st)\<rparr>
          in case e of
               Confirmed \<Rightarrow> done
             | ConfirmFailed \<Rightarrow> done\<lparr>af_in_flight := af_in_flight st - {c}\<rparr>
             | EnqueueFailed \<Rightarrow> done\<lparr>af_in_flight := af_in_flight st - {c}\<rparr>)"

section \<open>The tick\<close>

record funding_reads =
  fr_safe_info :: "string + address option"
  fr_balance :: "address \<Rightarrow> string + balance"
  fr_allowance :: "address \<Rightarrow> string + balance"

definition funding_budget :: "funding_reads \<Rightarrow> strategy_error + balance" where
  \<comment> \<open>\<open>safe_balance_budget\<close>\<close>
  "funding_budget q =
     (case fr_safe_info q of
        Inl e \<Rightarrow> Inl (OtherError (Text e))
      | Inr None \<Rightarrow> Inr 0
      | Inr (Some safe) \<Rightarrow>
          (case fr_balance q safe of
             Inl e \<Rightarrow> Inl (OtherError (Text e))
           | Inr balance \<Rightarrow>
               (case fr_allowance q safe of
                  Inl e \<Rightarrow> Inl (OtherError (Text e))
                | Inr allowance \<Rightarrow> Inr (min balance allowance))))"

type_synonym funding_poll = "(nat \<times> funding_end) list \<times> channel"

definition own_open :: "address \<Rightarrow> channel \<Rightarrow> bool" where
  \<comment> \<open>the \<open>ChannelSelector\<close> of the scan\<close>
  "own_open me ch \<longleftrightarrow> ch_source ch = me \<and> ch_status ch = Open"

definition scan_channel ::
    "auto_funding_config \<Rightarrow> channel \<Rightarrow> funding_state \<times> balance \<times> funding_summary \<Rightarrow>
     funding_state \<times> balance \<times> funding_summary" where
  \<comment> \<open>the body of the \<open>while let\<close>\<close>
  "scan_channel cfg ch acc =
     (case acc of (st, budget, s0) \<Rightarrow>
        let s = s0\<lparr>fs_scanned := fs_scanned s0 + 1\<rparr>
        in if ch_balance ch \<le> min_stake_threshold cfg then
             let s = s\<lparr>fs_below_threshold := fs_below_threshold s + 1\<rparr>
             in if ch_id ch \<in> af_in_flight st then (st, budget, s\<lparr>fs_in_flight := fs_in_flight s + 1\<rparr>)
                else if budget < funding_amount cfg then (st, budget, s\<lparr>fs_unaffordable := fs_unaffordable s + 1\<rparr>)
                else case fund_one cfg ch st of
                       (Inr True, st') \<Rightarrow> (st', budget - funding_amount cfg, s\<lparr>fs_started := fs_started s + 1\<rparr>)
                     | (Inr False, st') \<Rightarrow> (st', budget, s\<lparr>fs_in_flight := fs_in_flight s + 1\<rparr>)
                     | (Inl e, st') \<Rightarrow> (st', budget, s\<lparr>fs_failed := fs_failed s + 1\<rparr>)
           else (st\<lparr>af_in_flight := af_in_flight st - {ch_id ch}\<rparr>, budget, s))"

definition scan_poll ::
    "auto_funding_config \<Rightarrow> address \<Rightarrow> funding_poll \<Rightarrow> funding_state \<times> balance \<times> funding_summary \<Rightarrow>
     (funding_state \<times> balance \<times> funding_summary) \<times> loop_ctl" where
  "scan_poll cfg me p acc =
     (case p of (reports, ch) \<Rightarrow>
        case acc of (st, budget, s) \<Rightarrow>
          let st1 = fold funding_report reports st
          in (if own_open me ch then scan_channel cfg ch (st1, budget, s) else (st1, budget, s), Continue))"

definition funding_tick ::
    "auto_funding_config \<Rightarrow> address \<Rightarrow> funding_reads \<Rightarrow> string + funding_poll list \<Rightarrow> funding_state \<Rightarrow>
     (strategy_error + funding_summary) \<times> funding_state" where
  \<comment> \<open>\<open>on_tick\<close>\<close>
  "funding_tick cfg me q stream st =
     (case funding_budget q of
        Inl e \<Rightarrow> (Inl e, st)
      | Inr safe_balance \<Rightarrow>
          (case stream of
             Inl e \<Rightarrow> (Inl (OtherError (Text e)), st)
           | Inr polls \<Rightarrow>
               (case for_loop (scan_poll cfg me) polls (st, safe_balance, funding_summary_default) of
                  (st', budget, summary) \<Rightarrow> (Inr summary, st'))))"

section \<open>The run loop\<close>

datatype funding_event =
    FundingTick funding_reads "string + funding_poll list"
  | FundingChain funding_reads chain_event
  | FundingReport "nat \<times> funding_end"

definition on_funding_event ::
    "(channel \<Rightarrow> address \<Rightarrow> channel_direction option) \<Rightarrow> auto_funding_config \<Rightarrow> address \<Rightarrow> funding_reads \<Rightarrow>
     chain_event \<Rightarrow> funding_state \<Rightarrow> funding_state" where
  "on_funding_event dir cfg me q ev st =
     (case ev of
        ChannelBalanceDecreased ch _ \<Rightarrow>
          if dir ch me = Some Outgoing \<and> ch_balance ch \<le> min_stake_threshold cfg \<and> ch_status ch = Open
          then case funding_budget q of
                 Inr budget \<Rightarrow> if budget < funding_amount cfg then st else snd (fund_one cfg ch st)
               | Inl e \<Rightarrow> st
          else st
      | ChannelBalanceIncreased ch _ \<Rightarrow> st\<lparr>af_in_flight := af_in_flight st - {ch_id ch}\<rparr>
      | _ \<Rightarrow> st)"

fun funding_step ::
    "(channel \<Rightarrow> address \<Rightarrow> channel_direction option) \<Rightarrow> auto_funding_config \<Rightarrow> address \<Rightarrow> funding_event \<Rightarrow>
     funding_state \<Rightarrow> funding_state" where
  "funding_step dir cfg me (FundingTick q stream) st = snd (funding_tick cfg me q stream st)"
| "funding_step dir cfg me (FundingChain q ev) st = on_funding_event dir cfg me q ev st"
| "funding_step dir cfg me (FundingReport r) st = funding_report r st"

definition funding_run ::
    "(channel \<Rightarrow> address \<Rightarrow> channel_direction option) \<Rightarrow> auto_funding_config \<Rightarrow> address \<Rightarrow>
     funding_reads \<times> (string + funding_poll list) \<Rightarrow> string option \<Rightarrow> funding_event list \<Rightarrow> funding_state \<Rightarrow>
     (strategy_error + unit) \<times> funding_state" where
  \<comment> \<open>\<open>run\<close>: the startup scan, then the merged stream unless the subscription fails\<close>
  "funding_run dir cfg me startup subscribe_error evs st =
     (let st1 = snd (funding_tick cfg me (fst startup) (snd startup) st)
      in case subscribe_error of
           Some e \<Rightarrow> (Inl (OtherError (Text e)), st1)
         | None \<Rightarrow> (Inr (), fold (funding_step dir cfg me) evs st1))"

section \<open>What one tick adds up to\<close>

definition needy :: "auto_funding_config \<Rightarrow> address \<Rightarrow> channel \<Rightarrow> bool" where
  "needy cfg me ch \<longleftrightarrow> own_open me ch \<and> ch_balance ch \<le> min_stake_threshold cfg"

definition scan_inv :: "auto_funding_config \<Rightarrow> balance \<Rightarrow> funding_state \<times> balance \<times> funding_summary \<Rightarrow> bool" where
  "scan_inv cfg safe acc =
     (case acc of (st, budget, s) \<Rightarrow>
        fs_below_threshold s = fs_started s + fs_in_flight s + fs_unaffordable s \<and> fs_failed s = 0 \<and>
        budget + fs_started s * funding_amount cfg = safe)"

lemma scan_poll_continues [simp]: "snd (scan_poll cfg me p acc) = Continue"
  by (simp add: scan_poll_def Let_def split: prod.splits)

lemma scan_poll_inv: "scan_inv cfg safe acc \<Longrightarrow> scan_inv cfg safe (fst (scan_poll cfg me p acc))"
  by (auto simp: scan_inv_def scan_poll_def scan_channel_def fund_one_def Let_def split: prod.splits)

interpretation scan_loop: loop_body "scan_poll cfg me" "\<lambda>_. True" "scan_inv cfg safe" for cfg me safe
  by unfold_locales (rule scan_poll_inv)

definition counts_of :: "funding_state \<times> balance \<times> funding_summary \<Rightarrow> nat \<times> nat" where
  "counts_of acc = (case acc of (st, budget, s) \<Rightarrow> (fs_scanned s, fs_below_threshold s))"

lemma scan_poll_counts:
  "counts_of (fst (scan_poll cfg me p acc)) =
     (fst (counts_of acc) + of_bool (own_open me (snd p)), snd (counts_of acc) + of_bool (needy cfg me (snd p)))"
  by (auto simp: counts_of_def scan_poll_def scan_channel_def fund_one_def needy_def Let_def split: prod.splits)

lemma scan_counts:
  "counts_of (for_loop (scan_poll cfg me) polls acc) =
     (fst (counts_of acc) + length (filter (own_open me \<circ> snd) polls),
      snd (counts_of acc) + length (filter (needy cfg me \<circ> snd) polls))"
  by (induction polls arbitrary: acc) (simp_all add: for_loop_step scan_poll_counts del: for_loop.simps(2))

text \<open>
  The summary of an auto-funding tick adds up: it counts every open outgoing channel of the
  stream, every one of them at or below the threshold is in exactly one outcome, none of them in
  \<open>failed\<close>, and all the transactions started are covered by the safe balance read at the start
  of the tick. A tick whose safe read fails changes nothing.
\<close>

theorem funding_tick_adds_up:
  "case funding_tick cfg me q (Inr polls) st of
     (Inr s, st') \<Rightarrow>
       fs_scanned s = length (filter (own_open me \<circ> snd) polls) \<and>
       fs_below_threshold s = length (filter (needy cfg me \<circ> snd) polls) \<and>
       fs_below_threshold s = fs_started s + fs_in_flight s + fs_unaffordable s \<and> fs_failed s = 0 \<and>
       (\<exists>safe. funding_budget q = Inr safe \<and> fs_started s * funding_amount cfg \<le> safe)
   | (Inl e, st') \<Rightarrow> st' = st \<and> funding_budget q = Inl e"
proof (cases "funding_budget q")
  case (Inl e)
  then show ?thesis by (simp add: funding_tick_def)
next
  case (Inr safe)
  let ?init = "(st, safe, funding_summary_default)"
  obtain st' budget s where res: "for_loop (scan_poll cfg me) polls ?init = (st', budget, s)"
    by (metis prod.exhaust)
  have "scan_inv cfg safe (st', budget, s)"
    unfolding res [symmetric] by (rule scan_loop.loop_inv) (simp_all add: scan_inv_def funding_summary_default_def)
  moreover have "counts_of (st', budget, s) =
      (length (filter (own_open me \<circ> snd) polls), length (filter (needy cfg me \<circ> snd) polls))"
    unfolding res [symmetric] scan_counts by (simp add: counts_of_def funding_summary_default_def)
  ultimately show ?thesis
    using Inr res by (simp add: funding_tick_def scan_inv_def counts_of_def)
qed

section \<open>No channel is funded twice\<close>

definition fundings_of :: "channel_id \<Rightarrow> funding_state \<Rightarrow> nat" where
  \<comment> \<open>funding transactions of channel \<open>c\<close> that have not ended\<close>
  "fundings_of c st = length (filter (\<lambda>t. fst t = c) (af_tasks st))"

definition clears :: "auto_funding_config \<Rightarrow> address \<Rightarrow> channel_id \<Rightarrow> funding_poll \<Rightarrow> nat" where
  "clears cfg me c p =
     of_bool (own_open me (snd p) \<and> min_stake_threshold cfg < ch_balance (snd p) \<and> ch_id (snd p) = c)"

fun releases :: "auto_funding_config \<Rightarrow> address \<Rightarrow> channel_id \<Rightarrow> funding_event \<Rightarrow> nat" where
  \<comment> \<open>observations that channel \<open>c\<close> has been funded, in one event\<close>
  "releases cfg me c (FundingTick q stream) = (case stream of Inl e \<Rightarrow> 0 | Inr polls \<Rightarrow> sum_list (map (clears cfg me c) polls))"
| "releases cfg me c (FundingChain q ev) =
     (case ev of ChannelBalanceIncreased ch b \<Rightarrow> of_bool (ch_id ch = c) | _ \<Rightarrow> 0)"
| "releases cfg me c (FundingReport r) = 0"

definition excess_inv :: "channel_id \<Rightarrow> nat \<Rightarrow> funding_state \<Rightarrow> bool" where
  "excess_inv c n st \<longleftrightarrow> fundings_of c st \<le> n + of_bool (c \<in> af_in_flight st)"

lemma length_filter_remove_nth:
  "i < length xs \<Longrightarrow>
     length (filter P (take i xs @ drop (Suc i) xs)) + of_bool (P (xs ! i)) = length (filter P xs)"
  by (subst (4) id_take_nth_drop [of i xs]) simp_all

lemma excess_mono: "excess_inv c n st \<Longrightarrow> n \<le> m \<Longrightarrow> excess_inv c m st"
  by (simp add: excess_inv_def)

lemma excess_fund_one: "excess_inv c n st \<Longrightarrow> excess_inv c n (snd (fund_one cfg ch st))"
  by (auto simp: excess_inv_def fund_one_def fundings_of_def)

lemma excess_report: "excess_inv c n st \<Longrightarrow> excess_inv c n (funding_report r st)"
proof -
  assume inv: "excess_inv c n st"
  obtain i e where r: "r = (i, e)" by (cases r)
  show ?thesis
  proof (cases "i < length (af_tasks st)")
    case True
    then show ?thesis
      using inv length_filter_remove_nth [OF True, of "\<lambda>t. fst t = c"]
      by (cases e) (auto simp: r funding_report_def excess_inv_def fundings_of_def Let_def of_bool_def split: if_splits)
  next
    case False
    with inv show ?thesis by (simp add: r funding_report_def)
  qed
qed

lemma excess_reports: "excess_inv c n st \<Longrightarrow> excess_inv c n (fold funding_report rs st)"
  by (induction rs arbitrary: st) (simp_all add: excess_report)

lemma excess_release:
  "excess_inv c n st \<Longrightarrow> excess_inv c (n + of_bool (k = c)) (st\<lparr>af_in_flight := af_in_flight st - {k}\<rparr>)"
  by (auto simp: excess_inv_def fundings_of_def of_bool_def split: if_splits)

lemma excess_scan_channel:
  assumes "excess_inv c n st"
  shows "excess_inv c (n + of_bool (min_stake_threshold cfg < ch_balance ch \<and> ch_id ch = c))
           (fst (scan_channel cfg ch (st, budget, s)))"
  using assms excess_fund_one [OF assms, of cfg ch] excess_release [OF assms, of "ch_id ch"]
  by (auto simp: scan_channel_def Let_def split: prod.splits sum.splits bool.splits)

lemma excess_scan_poll:
  assumes "excess_inv c n (fst acc)"
  shows "excess_inv c (n + clears cfg me c p) (fst (fst (scan_poll cfg me p acc)))"
proof -
  obtain st budget s where acc: "acc = (st, budget, s)" by (cases acc)
  show ?thesis
    using assms excess_scan_channel [OF excess_reports [of c n st "fst p"], of cfg "snd p" budget s]
      excess_reports [of c n st "fst p"]
    by (auto simp: acc scan_poll_def clears_def Let_def split: prod.splits)
qed

lemma excess_scan:
  "excess_inv c n (fst acc) \<Longrightarrow>
     excess_inv c (n + sum_list (map (clears cfg me c) polls)) (fst (for_loop (scan_poll cfg me) polls acc))"
proof (induction polls arbitrary: acc n)
  case (Cons p polls)
  from Cons.IH [OF excess_scan_poll [OF Cons.prems, of cfg me p]]
  show ?case by (simp add: for_loop_step add.assoc del: for_loop.simps(2))
qed simp

lemma excess_step:
  assumes "excess_inv c n st"
  shows "excess_inv c (n + releases cfg me c ev) (funding_step dir cfg me ev st)"
proof (cases ev)
  case (FundingTick q stream)
  note same = excess_mono [OF assms le_add1]
  show ?thesis
  proof (cases "funding_budget q")
    case (Inl e)
    with same show ?thesis by (simp add: FundingTick funding_tick_def)
  next
    case (Inr safe)
    have "excess_inv c n (fst (st, safe, funding_summary_default))" using assms by simp
    from excess_scan [OF this] assms show ?thesis
      by (cases stream) (simp_all add: FundingTick funding_tick_def Inr case_prod_unfold)
  qed
next
  case (FundingChain q e)
  with assms show ?thesis
    by (cases e) (auto simp: on_funding_event_def excess_fund_one excess_release split: sum.splits)
next
  case (FundingReport r)
  with assms show ?thesis by (simp add: excess_report)
qed

text \<open>
  C32. Funding is not repeated while it is unsettled: over any history of ticks, chain events and
  ending transactions, interleaved in any way, the unfinished funding transactions of a channel
  exceed by at most one the number of times the strategy saw the channel funded since it was
  built: a balance increase, or a scan that finds it above the threshold.
\<close>

theorem funding_not_repeated:
  assumes "auto_funding_build cfg = Inr st"
  shows "fundings_of c (fold (funding_step dir cfg me) evs st) \<le> 1 + sum_list (map (releases cfg me c) evs)"
proof -
  have "excess_inv c n st \<Longrightarrow>
      excess_inv c (n + sum_list (map (releases cfg me c) evs)) (fold (funding_step dir cfg me) evs st)" for n st
  proof (induction evs arbitrary: n st)
    case (Cons ev evs)
    from Cons.IH [OF excess_step [OF Cons.prems, of cfg me ev dir]] show ?case by (simp add: add.assoc)
  qed simp
  moreover have "excess_inv c 0 st"
    using assms by (auto simp: auto_funding_build_def excess_inv_def fundings_of_def split: sum.splits)
  ultimately have "excess_inv c (sum_list (map (releases cfg me c) evs)) (fold (funding_step dir cfg me) evs st)"
    by (metis add_0)
  then show ?thesis by (simp add: excess_inv_def of_bool_def split: if_splits)
qed

text \<open>Two balance drops of one channel, then a failed confirmation, then a third drop.\<close>

definition example_funding_reads :: funding_reads where
  "example_funding_reads =
     \<lparr>fr_safe_info = Inr (Some 9), fr_balance = (\<lambda>_. Inr (50 * 10 ^ 18)), fr_allowance = (\<lambda>_. Inr (15 * 10 ^ 18))\<rparr>"

definition example_drained :: channel where
  "example_drained =
     \<lparr>ch_id = 4, ch_source = 1, ch_destination = 2, ch_balance = 10 ^ 17, ch_ticket_index = 0, ch_status = Open\<rparr>"

definition example_drop :: funding_event where
  "example_drop = FundingChain example_funding_reads (ChannelBalanceDecreased example_drained 3)"

definition example_direction :: "channel \<Rightarrow> address \<Rightarrow> channel_direction option" where
  "example_direction ch me =
     (if ch_source ch = me then Some Outgoing else if ch_destination ch = me then Some Incoming else None)"

lemmas example_funding_defs =
  example_funding_reads_def example_drained_def example_drop_def example_direction_def
  auto_funding_build_def auto_funding_default_def validate_funding_amount_def
  on_funding_event_def funding_budget_def fund_one_def funding_report_def

theorem funding_not_repeated_witness:
  "fundings_of 4 (fold (funding_step example_direction auto_funding_default 1)
       [example_drop, example_drop, FundingReport (0, ConfirmFailed), example_drop] \<lparr>af_in_flight = {}, af_tasks = []\<rparr>) = 1 \<and>
   fundings_of 4 (fold (funding_step example_direction auto_funding_default 1)
       [example_drop, example_drop, FundingReport (0, ConfirmFailed), example_drop] \<lparr>af_in_flight = {}, af_tasks = []\<rparr>)
     \<le> 1 + sum_list (map (releases auto_funding_default 1 4)
              [example_drop, example_drop, FundingReport (0, ConfirmFailed), example_drop])"
proof (rule conjI)
  show "fundings_of 4 (fold (funding_step example_direction auto_funding_default 1)
       [example_drop, example_drop, FundingReport (0, ConfirmFailed), example_drop] \<lparr>af_in_flight = {}, af_tasks = []\<rparr>) = 1"
    by (simp add: example_funding_defs fundings_of_def)
  show "fundings_of 4 (fold (funding_step example_direction auto_funding_default 1)
       [example_drop, example_drop, FundingReport (0, ConfirmFailed), example_drop] \<lparr>af_in_flight = {}, af_tasks = []\<rparr>)
     \<le> 1 + sum_list (map (releases auto_funding_default 1 4)
              [example_drop, example_drop, FundingReport (0, ConfirmFailed), example_drop])"
    by (rule funding_not_repeated) (simp add: example_funding_defs)
qed

section \<open>What is funded\<close>

text \<open>
  The reason for a funding transaction of channel \<open>c\<close> in one event: a channel in need that the
  event shows, on a budget of at least one funding.
\<close>

fun funding_reason ::
    "(channel \<Rightarrow> address \<Rightarrow> channel_direction option) \<Rightarrow> auto_funding_config \<Rightarrow> address \<Rightarrow> channel_id \<Rightarrow>
     funding_event \<Rightarrow> bool" where
  "funding_reason dir cfg me c (FundingTick q stream) =
     (case (funding_budget q, stream) of
        (Inr budget, Inr polls) \<Rightarrow>
          funding_amount cfg \<le> budget \<and> list_ex (\<lambda>p. needy cfg me (snd p) \<and> ch_id (snd p) = c) polls
      | _ \<Rightarrow> False)"
| "funding_reason dir cfg me c (FundingChain q ev) =
     (case (funding_budget q, ev) of
        (Inr budget, ChannelBalanceDecreased ch b) \<Rightarrow>
          funding_amount cfg \<le> budget \<and> ch_id ch = c \<and> dir ch me = Some Outgoing \<and>
          ch_balance ch \<le> min_stake_threshold cfg \<and> ch_status ch = Open
      | _ \<Rightarrow> False)"
| "funding_reason dir cfg me c (FundingReport r) = False"

definition tasks_from :: "(channel_id \<Rightarrow> bool) \<Rightarrow> auto_funding_config \<Rightarrow> funding_state \<Rightarrow> bool" where
  "tasks_from R cfg st \<longleftrightarrow> (\<forall>t\<in>set (af_tasks st). snd t = funding_amount cfg \<and> R (fst t))"

lemma tasks_from_fund_one:
  "tasks_from R cfg st \<Longrightarrow> R (ch_id ch) \<Longrightarrow> tasks_from R cfg (snd (fund_one cfg ch st))"
  by (auto simp: tasks_from_def fund_one_def)

lemma tasks_from_mono: "tasks_from R cfg st \<Longrightarrow> (\<And>c. R c \<Longrightarrow> S c) \<Longrightarrow> tasks_from S cfg st"
  by (auto simp: tasks_from_def)

lemma tasks_from_report: "tasks_from R cfg st \<Longrightarrow> tasks_from R cfg (funding_report r st)"
proof -
  assume tf: "tasks_from R cfg st"
  have "set (af_tasks (funding_report r st)) \<subseteq> set (af_tasks st)"
    using set_remove_nth_subset [of "fst r" "af_tasks st"]
    by (cases r; cases "snd r") (simp_all add: funding_report_def Let_def)
  with tf show ?thesis by (auto simp: tasks_from_def)
qed

lemma tasks_from_reports: "tasks_from R cfg st \<Longrightarrow> tasks_from R cfg (fold funding_report rs st)"
  by (induction rs arbitrary: st) (simp_all add: tasks_from_report)

definition scan_tasks :: "(channel_id \<Rightarrow> bool) \<Rightarrow> auto_funding_config \<Rightarrow> balance \<Rightarrow>
    funding_state \<times> balance \<times> funding_summary \<Rightarrow> bool" where
  "scan_tasks R cfg safe acc \<longleftrightarrow> tasks_from R cfg (fst acc) \<and> fst (snd acc) \<le> safe"

lemma tasks_from_in_flight [simp]: "tasks_from R cfg (st\<lparr>af_in_flight := x\<rparr>) = tasks_from R cfg st"
  by (simp add: tasks_from_def)

lemma scan_channel_tasks:
  assumes "needy cfg me ch \<Longrightarrow> funding_amount cfg \<le> safe \<Longrightarrow> R (ch_id ch)" "own_open me ch"
    and "scan_tasks R cfg safe (st, budget, s)"
  shows "scan_tasks R cfg safe (scan_channel cfg ch (st, budget, s))"
  using assms tasks_from_fund_one [of R cfg st ch]
  by (auto simp: scan_tasks_def scan_channel_def needy_def Let_def split: prod.splits sum.splits bool.splits)

lemma scan_poll_tasks:
  assumes "needy cfg me (snd p) \<Longrightarrow> funding_amount cfg \<le> safe \<Longrightarrow> R (ch_id (snd p))"
    and "scan_tasks R cfg safe acc"
  shows "scan_tasks R cfg safe (fst (scan_poll cfg me p acc))"
proof -
  obtain st budget s where acc: "acc = (st, budget, s)" by (cases acc)
  let ?st = "fold funding_report (fst p) st"
  from assms(2) have reported: "scan_tasks R cfg safe (?st, budget, s)"
    by (simp add: acc scan_tasks_def tasks_from_reports)
  with scan_channel_tasks [of cfg me "snd p" safe R ?st budget s] assms(1) show ?thesis
    by (simp add: acc scan_poll_def Let_def case_prod_unfold)
qed

interpretation funded_loop: loop_body "scan_poll cfg me"
    "\<lambda>p. needy cfg me (snd p) \<longrightarrow> funding_amount cfg \<le> safe \<longrightarrow> R (ch_id (snd p))" "scan_tasks R cfg safe" for cfg me safe R
  by unfold_locales (simp add: scan_poll_tasks)

lemma tasks_from_step:
  assumes "tasks_from R cfg st" and "\<And>c. funding_reason dir cfg me c ev \<Longrightarrow> R c"
  shows "tasks_from R cfg (funding_step dir cfg me ev st)"
proof (cases ev)
  case (FundingTick q stream)
  show ?thesis
  proof (cases "funding_budget q")
    case (Inl e)
    with assms show ?thesis by (simp add: FundingTick funding_tick_def)
  next
    case (Inr safe)
    have "scan_tasks R cfg safe (for_loop (scan_poll cfg me) polls (st, safe, funding_summary_default))"
      if "stream = Inr polls" for polls
      using assms that by (intro funded_loop.loop_inv) (auto simp: FundingTick Inr scan_tasks_def list_ex_iff)
    with assms(1) show ?thesis
      by (cases stream) (simp_all add: FundingTick funding_tick_def Inr case_prod_unfold scan_tasks_def)
  qed
next
  case (FundingChain q e)
  with assms show ?thesis
    by (cases e) (auto simp: on_funding_event_def intro!: tasks_from_fund_one split: sum.splits)
next
  case (FundingReport r)
  with assms show ?thesis by (simp add: tasks_from_report)
qed

lemma tasks_from_run:
  assumes "tasks_from R cfg st" and "\<And>c ev. ev \<in> set evs \<Longrightarrow> funding_reason dir cfg me c ev \<Longrightarrow> R c"
  shows "tasks_from R cfg (fold (funding_step dir cfg me) evs st)"
  using assms
proof (induction evs arbitrary: st)
  case (Cons ev evs)
  have step: "tasks_from R cfg (funding_step dir cfg me ev st)"
    by (rule tasks_from_step) (use Cons.prems in auto)
  show ?case
    using Cons.IH [OF step] Cons.prems(2) by (metis fold_simps(2) list.set_intros(2))
qed simp

text \<open>
  C33. Every funding transaction has a reason: over any history, a transaction the strategy has
  started is for the configured amount, and some event of the history showed its channel open,
  outgoing and at or below the threshold while the safe could pay at least one funding.
\<close>

theorem funding_has_reason:
  assumes "auto_funding_build cfg = Inr st"
    and "t \<in> set (af_tasks (fold (funding_step dir cfg me) evs st))"
  shows "snd t = funding_amount cfg \<and> 0 < snd t \<and> (\<exists>ev\<in>set evs. funding_reason dir cfg me (fst t) ev)"
proof -
  let ?R = "\<lambda>c. \<exists>ev\<in>set evs. funding_reason dir cfg me c ev"
  have "tasks_from ?R cfg st"
    using assms(1) by (auto simp: auto_funding_build_def tasks_from_def split: sum.splits)
  then have "tasks_from ?R cfg (fold (funding_step dir cfg me) evs st)"
    by (rule tasks_from_run) blast
  with assms(2) have "snd t = funding_amount cfg \<and> (\<exists>ev\<in>set evs. funding_reason dir cfg me (fst t) ev)"
    unfolding tasks_from_def by simp
  moreover have "0 < funding_amount cfg"
    using assms(1) by (simp add: auto_funding_build_def validate_funding_amount_def split: if_splits)
  ultimately show ?thesis by simp
qed

theorem funding_has_reason_witness:
  "(4, 10 * 10 ^ 18) \<in> set (af_tasks (fold (funding_step example_direction auto_funding_default 1) [example_drop]
      \<lparr>af_in_flight = {}, af_tasks = []\<rparr>)) \<and>
   (\<exists>ev\<in>set [example_drop]. funding_reason example_direction auto_funding_default 1 4 ev)"
proof -
  have t: "(4, 10 * 10 ^ 18) \<in> set (af_tasks (fold (funding_step example_direction auto_funding_default 1) [example_drop]
      \<lparr>af_in_flight = {}, af_tasks = []\<rparr>))"
    by (simp add: example_funding_defs)
  moreover have "auto_funding_build auto_funding_default = Inr \<lparr>af_in_flight = {}, af_tasks = []\<rparr>"
    by (simp add: example_funding_defs)
  ultimately show ?thesis
    using funding_has_reason [of auto_funding_default "\<lparr>af_in_flight = {}, af_tasks = []\<rparr>" "(4, 10 * 10 ^ 18)"
        example_direction 1 "[example_drop]"]
    by simp
qed

section \<open>No channel in need is passed over\<close>

definition quiet :: "funding_poll \<Rightarrow> bool" where
  "quiet p \<longleftrightarrow> fst p = []"

lemma quiet_scan_poll:
  assumes "quiet p" and "scan_poll cfg me p (st, budget, s) = ((st', budget', s'), ctl)"
  shows "fs_unaffordable s \<le> fs_unaffordable s'"
    and "c \<noteq> ch_id (snd p) \<Longrightarrow> c \<in> af_in_flight st' \<longleftrightarrow> c \<in> af_in_flight st"
    and "needy cfg me (snd p) \<Longrightarrow> ch_id (snd p) \<in> af_in_flight st' \<or> fs_unaffordable s < fs_unaffordable s'"
  using assms
  by (auto simp: quiet_def scan_poll_def scan_channel_def fund_one_def needy_def Let_def split: prod.splits if_splits)

lemma quiet_scan_keeps:
  "\<forall>p\<in>set polls. quiet p \<and> ch_id (snd p) \<noteq> c \<Longrightarrow>
     for_loop (scan_poll cfg me) polls (st, budget, s) = (st', budget', s') \<Longrightarrow>
     fs_unaffordable s \<le> fs_unaffordable s' \<and> (c \<in> af_in_flight st' \<longleftrightarrow> c \<in> af_in_flight st)"
proof (induction polls arbitrary: st budget s)
  case (Cons p polls)
  obtain st1 budget1 s1 where one: "scan_poll cfg me p (st, budget, s) = ((st1, budget1, s1), Continue)"
    using scan_poll_continues [of cfg me p "(st, budget, s)"] by (metis prod.exhaust snd_conv)
  with Cons.prems(2) have "for_loop (scan_poll cfg me) polls (st1, budget1, s1) = (st', budget', s')" by simp
  from Cons.IH [OF _ this] quiet_scan_poll(1,2) [OF _ one] Cons.prems(1) show ?case by force
qed simp

lemma quiet_scan_covers:
  "\<forall>p\<in>set polls. quiet p \<Longrightarrow> distinct (map (ch_id \<circ> snd) polls) \<Longrightarrow>
     for_loop (scan_poll cfg me) polls (st, budget, s) = (st', budget', s') \<Longrightarrow>
     \<forall>p\<in>set polls. needy cfg me (snd p) \<longrightarrow> ch_id (snd p) \<in> af_in_flight st' \<or> fs_unaffordable s < fs_unaffordable s'"
proof (induction polls arbitrary: st budget s)
  case (Cons p polls)
  obtain st1 budget1 s1 where one: "scan_poll cfg me p (st, budget, s) = ((st1, budget1, s1), Continue)"
    using scan_poll_continues [of cfg me p "(st, budget, s)"] by (metis prod.exhaust snd_conv)
  with Cons.prems(3) have rest: "for_loop (scan_poll cfg me) polls (st1, budget1, s1) = (st', budget', s')" by simp
  have q: "quiet p" using Cons.prems(1) by simp
  have "ch_id (snd r) \<noteq> ch_id (snd p)" if "r \<in> set polls" for r
  proof -
    have "(ch_id \<circ> snd) p \<notin> (ch_id \<circ> snd) ` set polls" using Cons.prems(2) by simp
    moreover have "(ch_id \<circ> snd) r \<in> (ch_id \<circ> snd) ` set polls" using that by (rule imageI)
    ultimately show ?thesis by (metis comp_apply)
  qed
  then have apart: "\<forall>r\<in>set polls. quiet r \<and> ch_id (snd r) \<noteq> ch_id (snd p)" using Cons.prems(1) by simp
  from quiet_scan_keeps [OF apart rest] quiet_scan_poll(1,3) [OF q one]
  have head: "needy cfg me (snd p) \<longrightarrow> ch_id (snd p) \<in> af_in_flight st' \<or> fs_unaffordable s < fs_unaffordable s'"
    by auto
  have "\<forall>r\<in>set polls. needy cfg me (snd r) \<longrightarrow> ch_id (snd r) \<in> af_in_flight st' \<or> fs_unaffordable s1 < fs_unaffordable s'"
    using Cons.IH [OF _ _ rest] Cons.prems(1,2) by simp
  with quiet_scan_poll(1) [OF q one] head show ?case by auto
qed simp

text \<open>
  No channel in need is passed over: when no earlier transaction ends while the scan runs
  and the chain streams every channel once, a tick leaves each open outgoing channel at or below
  the threshold in flight, or its summary reports that the safe could not pay.
\<close>

theorem funding_tick_covers:
  assumes "funding_tick cfg me q (Inr polls) st = (Inr s, st')"
    and "\<forall>p\<in>set polls. quiet p" and "distinct (map (ch_id \<circ> snd) polls)"
    and "p \<in> set polls" and "needy cfg me (snd p)"
  shows "ch_id (snd p) \<in> af_in_flight st' \<or> 0 < fs_unaffordable s"
proof -
  obtain safe budget where "for_loop (scan_poll cfg me) polls (st, safe, funding_summary_default) = (st', budget, s)"
    using assms(1) by (auto simp: funding_tick_def split: sum.splits prod.splits)
  from quiet_scan_covers [OF assms(2,3) this] assms(4,5) show ?thesis
    by (simp add: funding_summary_default_def)
qed

theorem funding_tick_covers_witness:
  "\<exists>s st'. funding_tick auto_funding_default 1 example_funding_reads (Inr [([], example_drained), ([], example_drained\<lparr>ch_id := 5\<rparr>)])
      \<lparr>af_in_flight = {}, af_tasks = []\<rparr> = (Inr s, st') \<and> fs_started s = 1 \<and> (5 \<in> af_in_flight st' \<or> 0 < fs_unaffordable s)"
proof -
  let ?polls = "[([], example_drained), ([], example_drained\<lparr>ch_id := 5\<rparr>)]"
  let ?st' = "\<lparr>af_in_flight = {4}, af_tasks = [(4, 10 * 10 ^ 18)]\<rparr>"
  let ?s = "\<lparr>fs_scanned = 2, fs_below_threshold = 2, fs_started = 1, fs_in_flight = 0, fs_unaffordable = 1, fs_failed = 0\<rparr>"
  have run: "funding_tick auto_funding_default 1 example_funding_reads (Inr ?polls) \<lparr>af_in_flight = {}, af_tasks = []\<rparr> = (Inr ?s, ?st')"
    by (simp add: example_funding_defs funding_tick_def scan_poll_def scan_channel_def own_open_def
        funding_summary_default_def Let_def)
  have "5 \<in> af_in_flight ?st' \<or> 0 < fs_unaffordable ?s"
    using funding_tick_covers [OF run, of "([], example_drained\<lparr>ch_id := 5\<rparr>)"]
    by (simp add: quiet_def needy_def own_open_def example_funding_defs)
  with run show ?thesis by auto
qed

end
