(* ===== verification/Auto_Redeeming.thy ===== *)
theory Auto_Redeeming
  imports Chain_Types Strategy_State Lifecycle_Config
begin

text \<open>
  The auto-redeeming strategy (\<open>src/src/auto_redeeming.rs\<close>): redemption tasks per channel,
  started for a winning ticket, for a channel that starts closing, or periodically, and
  registered in a cache with a time limit.

  The cache (\<open>moka\<close>, a third-party crate) is modelled by its documented behaviour: an entry
  older than the time to live is not found any more; maintenance evicts it at some later point;
  an entry may be evicted for size at any point; every removal but one for size calls the
  listener, which aborts the task of the entry. A task is a pair of its abort handle and its
  channel in \<open>rd_live\<close> until it completes or is aborted. A task may even complete before the
  strategy has put its handle into the cache: the argument \<open>early\<close> of \<open>enqueue_redemption\<close>.
\<close>

section \<open>Configuration and state\<close>

definition redemption_timeout :: duration where
  "redemption_timeout = secs 300"

record auto_redeeming_config =
  redeem_all_on_close :: bool
  minimum_redeem_ticket_value :: balance
  redeem_on_winning :: bool

definition auto_redeeming_default :: auto_redeeming_config where
  "auto_redeeming_default =
     \<lparr>redeem_all_on_close = True, minimum_redeem_ticket_value = 10 ^ 18, redeem_on_winning = False\<rparr>"

type_synonym handle = nat

record redeem_state =
  rd_running :: "(channel_id \<times> (handle \<times> instant)) list"
  rd_live :: "(handle \<times> channel_id) list"
  rd_next :: handle

definition redeem_initial :: redeem_state where
  "redeem_initial = \<lparr>rd_running = [], rd_live = [], rd_next = 0\<rparr>"

section \<open>The cache of running redemptions\<close>

definition abort :: "handle \<Rightarrow> redeem_state \<Rightarrow> redeem_state" where
  "abort h st = st\<lparr>rd_live := filter (\<lambda>t. fst t \<noteq> h) (rd_live st)\<rparr>"

datatype removal_cause = Expired | Size | Explicit | Replaced

fun on_evict :: "removal_cause \<Rightarrow> handle \<Rightarrow> redeem_state \<Rightarrow> redeem_state" where
  \<comment> \<open>the \<open>eviction_listener\<close>\<close>
  "on_evict Expired h st = abort h st"
| "on_evict Size h st = st"
| "on_evict Explicit h st = abort h st"
| "on_evict Replaced h st = abort h st"

definition evict :: "removal_cause \<Rightarrow> channel_id \<Rightarrow> redeem_state \<Rightarrow> redeem_state" where
  "evict cause c st =
     (case map_of (rd_running st) c of
        None \<Rightarrow> st
      | Some (h, since) \<Rightarrow> on_evict cause h (st\<lparr>rd_running := AList.delete c (rd_running st)\<rparr>))"

definition expired :: "instant \<Rightarrow> handle \<times> instant \<Rightarrow> bool" where
  "expired now e \<longleftrightarrow> redemption_timeout \<le> now - snd e"

definition contains_key :: "instant \<Rightarrow> channel_id \<Rightarrow> redeem_state \<Rightarrow> bool" where
  "contains_key now c st = (case map_of (rd_running st) c of None \<Rightarrow> False | Some e \<Rightarrow> \<not> expired now e)"

definition cache_insert :: "instant \<Rightarrow> channel_id \<Rightarrow> handle \<Rightarrow> redeem_state \<Rightarrow> redeem_state" where
  "cache_insert now c h st =
     (let st1 = evict Replaced c st in st1\<lparr>rd_running := AList.update c (h, now) (rd_running st1)\<rparr>)"

definition maintain :: "instant \<Rightarrow> redeem_state \<Rightarrow> redeem_state" where
  "maintain now st = fold (\<lambda>(c, e) s. if expired now e then evict Expired c s else s) (rd_running st) st"

section \<open>Starting and ending a redemption\<close>

definition redemption_done :: "handle \<Rightarrow> redeem_state \<Rightarrow> redeem_state" where
  \<comment> \<open>the end of the spawned task: it invalidates the entry of its channel\<close>
  "redemption_done h st =
     (case map_of (rd_live st) h of
        None \<Rightarrow> st
      | Some c \<Rightarrow> evict Explicit c (abort h st))"

definition enqueue_redemption ::
    "instant \<Rightarrow> bool \<Rightarrow> channel_id \<Rightarrow> redeem_state \<Rightarrow> (strategy_error + unit) \<times> redeem_state" where
  "enqueue_redemption now early c st =
     (if contains_key now c st then (Inl InProgress, st)
      else
        let h = rd_next st;
            spawned = st\<lparr>rd_live := (h, c) # rd_live st, rd_next := h + 1\<rparr>;
            before_insert = (if early then redemption_done h spawned else spawned)
        in (Inr (), cache_insert now c h before_insert))"

definition drop_strategy :: "redeem_state \<Rightarrow> redeem_state" where
  "drop_strategy st = fold (\<lambda>e s. abort (fst (snd e)) s) (rd_running st) st"

section \<open>Handlers\<close>

record verified_ticket =
  vt_channel_id :: channel_id
  vt_amount :: balance
  vt_index :: nat

definition on_acknowledged_winning_ticket ::
    "auto_redeeming_config \<Rightarrow> instant \<Rightarrow> bool \<Rightarrow> (channel_id \<Rightarrow> string + channel option) \<Rightarrow> verified_ticket \<Rightarrow>
     redeem_state \<Rightarrow> (strategy_error + unit) \<times> redeem_state" where
  "on_acknowledged_winning_ticket cfg now early channel_by_id ack st =
     (if redeem_on_winning cfg \<and> minimum_redeem_ticket_value cfg \<le> vt_amount ack then
        case channel_by_id (vt_channel_id ack) of
          Inl e \<Rightarrow> (Inl (OtherError (Text e)), st)
        | Inr None \<Rightarrow> (Inl CriteriaNotSatisfied, st)
        | Inr (Some ch) \<Rightarrow>
            if vt_index ack < ch_ticket_index ch then (Inl CriteriaNotSatisfied, st)
            else enqueue_redemption now early (ch_id ch) st
      else (Inl CriteriaNotSatisfied, st))"

datatype channel_change = StatusChange channel_status channel_status | OtherChange

definition on_own_channel_changed ::
    "auto_redeeming_config \<Rightarrow> instant \<Rightarrow> bool \<Rightarrow> channel \<Rightarrow> channel_direction \<Rightarrow> channel_change \<Rightarrow>
     redeem_state \<Rightarrow> (strategy_error + unit) \<times> redeem_state" where
  "on_own_channel_changed cfg now early ch direction change st =
     (if direction \<noteq> Incoming \<or> \<not> redeem_all_on_close cfg then (Inr (), st)
      else case change of
             StatusChange old new \<Rightarrow>
               if old \<noteq> Open \<or> \<not> is_pending new then (Inr (), st)
               else enqueue_redemption now early (ch_id ch) st
           | OtherChange \<Rightarrow> (Inl CriteriaNotSatisfied, st))"

definition redeem_tick ::
    "auto_redeeming_config \<Rightarrow> instant \<Rightarrow> (channel_id \<Rightarrow> bool) \<Rightarrow> address \<Rightarrow> (channel \<Rightarrow> bool) \<Rightarrow> string + channel list \<Rightarrow>
     redeem_state \<Rightarrow> (strategy_error + unit) \<times> redeem_state" where
  \<comment> \<open>\<open>on_tick\<close>; \<open>redeemable\<close> is the selector's \<open>with_redeemable_channels\<close>\<close>
  "redeem_tick cfg now early me redeemable channels st =
     (if \<not> redeem_on_winning cfg then
        case channels of
          Inl e \<Rightarrow> (Inl (OtherError (Text e)), st)
        | Inr chs \<Rightarrow>
            (Inr (), fold (\<lambda>ch s. snd (enqueue_redemption now (early (ch_id ch)) (ch_id ch) s))
                       (filter (\<lambda>ch. ch_destination ch = me \<and> redeemable ch) chs) st)
      else (Inl CriteriaNotSatisfied, st))"

section \<open>The run loop\<close>

record redeem_env =
  re_now :: instant
  re_early :: "channel_id \<Rightarrow> bool"

datatype redeem_event =
    RedeemTick "string + channel list"
  | WinningTicket "channel_id \<Rightarrow> string + channel option" verified_ticket
  | RedeemChain chain_event
  | TaskDone handle
  | CacheMaintenance
  | SizeEviction channel_id

definition on_redeem_chain_event ::
    "(channel \<Rightarrow> address \<Rightarrow> channel_direction option) \<Rightarrow> auto_redeeming_config \<Rightarrow> redeem_env \<Rightarrow> address \<Rightarrow>
     chain_event \<Rightarrow> redeem_state \<Rightarrow> redeem_state" where
  "on_redeem_chain_event direction cfg env me ev st =
     (case ev of
        ChannelClosureInitiated ch \<Rightarrow>
          (case direction ch me of
             Some d \<Rightarrow> snd (on_own_channel_changed cfg (re_now env) (re_early env (ch_id ch)) ch d (StatusChange Open (ch_status ch)) st)
           | None \<Rightarrow> st)
      | _ \<Rightarrow> st)"

fun redeem_step ::
    "(channel \<Rightarrow> address \<Rightarrow> channel_direction option) \<Rightarrow> auto_redeeming_config \<Rightarrow> address \<Rightarrow> (channel \<Rightarrow> bool) \<Rightarrow>
     redeem_env \<times> redeem_event \<Rightarrow> redeem_state \<Rightarrow> redeem_state" where
  "redeem_step direction cfg me redeemable (env, RedeemTick channels) st =
     snd (redeem_tick cfg (re_now env) (re_early env) me redeemable channels st)"
| "redeem_step direction cfg me redeemable (env, WinningTicket channel_by_id ack) st =
     snd (on_acknowledged_winning_ticket cfg (re_now env) (re_early env (vt_channel_id ack)) channel_by_id ack st)"
| "redeem_step direction cfg me redeemable (env, RedeemChain ev) st = on_redeem_chain_event direction cfg env me ev st"
| "redeem_step direction cfg me redeemable (env, TaskDone h) st = redemption_done h st"
| "redeem_step direction cfg me redeemable (env, CacheMaintenance) st = maintain (re_now env) st"
| "redeem_step direction cfg me redeemable (env, SizeEviction c) st = evict Size c st"

section \<open>At most one redemption per channel\<close>

definition live_in :: "channel_id \<Rightarrow> redeem_state \<Rightarrow> nat" where
  "live_in c st = length (filter (\<lambda>t. snd t = c) (rd_live st))"

definition registered :: "redeem_state \<Rightarrow> channel_id \<Rightarrow> handle option" where
  "registered st c = map_option fst (map_of (rd_running st) c)"

definition redeem_wf :: "redeem_state \<Rightarrow> bool" where
  "redeem_wf st \<longleftrightarrow> distinct (map fst (rd_live st)) \<and> (\<forall>t\<in>set (rd_live st). fst t < rd_next st) \<and>
     (\<forall>c e. map_of (rd_running st) c = Some e \<longrightarrow> fst e < rd_next st)"

definition strays :: "channel_id \<Rightarrow> redeem_state \<Rightarrow> nat" where
  \<comment> \<open>live redemptions of \<open>c\<close> the cache does not know\<close>
  "strays c st = length (filter (\<lambda>t. snd t = c \<and> registered st c \<noteq> Some (fst t)) (rd_live st))"

lemma length_filter_mono: "(\<And>x. x \<in> set xs \<Longrightarrow> P x \<Longrightarrow> Q x) \<Longrightarrow> length (filter P xs) \<le> length (filter Q xs)"
  by (induction xs) auto

lemma length_filter_single:
  "distinct (map fst xs) \<Longrightarrow> length (filter (\<lambda>t. fst t = h \<and> P t) xs) \<le> 1"
proof (induction xs)
  case (Cons x xs)
  show ?case
  proof (cases "fst x = h")
    case True
    with Cons.prems have "filter (\<lambda>t. fst t = h \<and> P t) xs = []"
      unfolding filter_empty_conv by (metis distinct.simps(2) image_eqI list.set_map list.simps(9))
    then show ?thesis by simp
  next
    case False
    with Cons show ?thesis by simp
  qed
qed simp

lemma length_filter_disj:
  "(\<And>x. P x \<Longrightarrow> Q x \<or> R x) \<Longrightarrow> length (filter P xs) \<le> length (filter Q xs) + length (filter R xs)"
  by (induction xs) force+

lemma live_in_strays: "redeem_wf st \<Longrightarrow> live_in c st \<le> 1 + strays c st"
proof -
  assume "redeem_wf st"
  then have "distinct (map fst (rd_live st))" by (simp add: redeem_wf_def)
  then have one: "length (filter (\<lambda>t. fst t = the (registered st c) \<and> snd t = c) (rd_live st)) \<le> 1"
    by (rule length_filter_single)
  have "live_in c st \<le> strays c st + length (filter (\<lambda>t. fst t = the (registered st c) \<and> snd t = c) (rd_live st))"
    unfolding live_in_def strays_def by (rule length_filter_disj) auto
  with one show ?thesis by simp
qed

lemma redeem_fields [simp]:
  "rd_running (abort h st) = rd_running st" "rd_next (abort h st) = rd_next st"
  "rd_live (abort h st) = filter (\<lambda>t. fst t \<noteq> h) (rd_live st)"
  "registered (abort h st) = registered st"
  by (simp_all add: abort_def registered_def fun_eq_iff)

lemma redeem_wf_abort [wf_intros]: "redeem_wf st \<Longrightarrow> redeem_wf (abort h st)"
  by (simp add: redeem_wf_def distinct_map_filter)

lemma on_evict_cases: "on_evict cause h st = (if cause = Size then st else abort h st)"
  by (cases cause) simp_all

lemma evict_fields [simp]:
  "rd_running (evict cause c st) = AList.delete c (rd_running st)" "rd_next (evict cause c st) = rd_next st"
  by (auto simp: evict_def on_evict_cases delete_id map_of_eq_None_iff split: option.splits)

lemma evict_live:
  "rd_live (evict cause c st) =
     (case registered st c of
        Some h \<Rightarrow> if cause = Size then rd_live st else filter (\<lambda>t. fst t \<noteq> h) (rd_live st)
      | None \<Rightarrow> rd_live st)"
  by (auto simp: evict_def on_evict_cases registered_def split: option.splits)

lemma registered_evict: "registered (evict cause c st) k = (if k = c then None else registered st k)"
  by (simp add: registered_def map_of_delete)

lemma redeem_wf_evict [wf_intros]: "redeem_wf st \<Longrightarrow> redeem_wf (evict cause c st)"
  by (auto simp: redeem_wf_def evict_live map_of_delete distinct_map_filter split: option.splits if_splits)

text \<open>Evicting an entry makes a stray of its task only when the cause is the size of the cache.\<close>

lemma strays_evict:
  assumes "redeem_wf st"
  shows "strays k (evict cause c st) \<le> strays k st + of_bool (cause = Size \<and> k = c)"
proof (cases "registered st c")
  case None
  then have "rd_live (evict cause c st) = rd_live st" and "registered (evict cause c st) k = registered st k"
    by (auto simp: evict_live registered_evict)
  then show ?thesis by (simp add: strays_def)
next
  case (Some h)
  show ?thesis
  proof (cases "cause = Size \<and> k = c")
    case True
    have "distinct (map fst (rd_live st))" using assms by (simp add: redeem_wf_def)
    then have one: "length (filter (\<lambda>t. fst t = h \<and> snd t = c) (rd_live st)) \<le> 1"
      by (rule length_filter_single)
    have "strays k (evict cause c st) \<le> strays k st + length (filter (\<lambda>t. fst t = h \<and> snd t = c) (rd_live st))"
      unfolding strays_def using True Some
      by (simp add: evict_live registered_evict) (rule length_filter_disj, auto)
    with one True show ?thesis by simp
  next
    case False
    then show ?thesis
      using Some unfolding strays_def
      by (auto simp: evict_live registered_evict intro!: length_filter_mono)
  qed
qed

lemma strays_abort: "strays k (abort h st) \<le> strays k st"
  by (auto simp: strays_def intro!: length_filter_mono)

lemma redeem_wf_done [wf_intros]: "redeem_wf st \<Longrightarrow> redeem_wf (redemption_done h st)"
  by (auto simp: redemption_done_def intro: wf_intros split: option.splits)

lemma strays_done: "redeem_wf st \<Longrightarrow> strays k (redemption_done h st) \<le> strays k st"
proof -
  assume wf: "redeem_wf st"
  have "strays k (evict Explicit c (abort h st)) \<le> strays k (abort h st)" for c
    using strays_evict [OF redeem_wf_abort [OF wf], of k Explicit c h] by simp
  with strays_abort [of k h st] order_trans show ?thesis
    by (auto simp: redemption_done_def split: option.splits)
qed

lemma redeem_wf_insert:
  "redeem_wf st \<Longrightarrow> h < rd_next st \<Longrightarrow> redeem_wf (cache_insert now c h st)"
  using redeem_wf_evict [of st Replaced c]
  by (auto simp: redeem_wf_def cache_insert_def Let_def map_of_update map_of_delete split: if_splits)

lemma strays_insert:
  assumes "\<And>t. t \<in> set (rd_live st) \<Longrightarrow> fst t = h \<Longrightarrow> snd t = c"
  shows "strays k (cache_insert now c h st)
           \<le> length (filter (\<lambda>t. snd t = k \<and> registered st k \<noteq> Some (fst t) \<and> fst t \<noteq> h) (rd_live st))"
proof -
  have reg: "registered (cache_insert now c h st) k = (if k = c then Some h else registered st k)"
    by (simp add: registered_def cache_insert_def Let_def map_of_update map_of_delete)
  have live: "rd_live (cache_insert now c h st) = rd_live (evict Replaced c st)"
    by (simp add: cache_insert_def Let_def)
  show ?thesis
  proof (cases "registered st c")
    case None
    with assms show ?thesis
      unfolding strays_def reg live evict_live by (auto intro!: length_filter_mono)
  next
    case (Some h')
    have "rd_live (evict Replaced c st) = filter (\<lambda>t. fst t \<noteq> h') (rd_live st)"
      by (simp add: evict_live Some)
    with assms Some show ?thesis
      unfolding strays_def reg live by (auto intro!: length_filter_mono)
  qed
qed

lemma redeem_wf_spawn:
  "redeem_wf st \<Longrightarrow> redeem_wf (st\<lparr>rd_live := (rd_next st, c) # rd_live st, rd_next := Suc (rd_next st)\<rparr>)"
  by (fastforce simp: redeem_wf_def)

lemma rd_next_done [simp]: "rd_next (redemption_done h st) = rd_next st"
  by (simp add: redemption_done_def split: option.splits)

lemma redeem_wf_enqueue [wf_intros]: "redeem_wf st \<Longrightarrow> redeem_wf (snd (enqueue_redemption now early c st))"
  by (auto simp: enqueue_redemption_def Let_def intro!: redeem_wf_insert redeem_wf_done redeem_wf_spawn)

lemma strays_enqueue:
  assumes wf: "redeem_wf st"
  shows "strays k (snd (enqueue_redemption now early c st)) \<le> strays k st"
proof (cases "contains_key now c st")
  case True
  then show ?thesis by (simp add: enqueue_redemption_def)
next
  case False
  let ?h = "rd_next st"
  let ?sp = "st\<lparr>rd_live := (?h, c) # rd_live st, rd_next := Suc ?h\<rparr>"
  have fresh: "fst t \<noteq> ?h" if "t \<in> set (rd_live st)" for t
    using wf that by (auto simp: redeem_wf_def)
  have reg: "registered ?sp k = registered st k" for k by (simp add: registered_def)
  show ?thesis
  proof (cases early)
    case False
    have "strays k (cache_insert now c ?h ?sp)
        \<le> length (filter (\<lambda>t. snd t = k \<and> registered ?sp k \<noteq> Some (fst t) \<and> fst t \<noteq> ?h) (rd_live ?sp))"
      by (rule strays_insert) (use fresh in auto)
    also have "\<dots> \<le> strays k st"
      by (auto simp: strays_def reg intro!: length_filter_mono)
    finally show ?thesis
      using \<open>\<not> contains_key now c st\<close> False by (simp add: enqueue_redemption_def Let_def)
  next
    case True
    have same: "filter (\<lambda>t. fst t \<noteq> ?h) (rd_live st) = rd_live st"
      using fresh by (simp add: filter_id_conv)
    have wf': "redeem_wf (abort ?h ?sp)" by (intro redeem_wf_abort redeem_wf_spawn wf)
    let ?dn = "redemption_done ?h ?sp"
    have dn: "?dn = evict Explicit c (abort ?h ?sp)" by (simp add: redemption_done_def)
    have gone: "fst t \<noteq> ?h" if "t \<in> set (rd_live ?dn)" for t
      using that fresh by (auto simp: dn evict_live same split: option.splits if_splits)
    have "strays k (cache_insert now c ?h ?dn)
        \<le> length (filter (\<lambda>t. snd t = k \<and> registered ?dn k \<noteq> Some (fst t) \<and> fst t \<noteq> ?h) (rd_live ?dn))"
      by (rule strays_insert) (use gone in auto)
    also have "\<dots> \<le> strays k ?dn" by (auto simp: strays_def intro!: length_filter_mono)
    also have "\<dots> \<le> strays k (abort ?h ?sp)" using strays_evict [OF wf', of k Explicit c] by (simp add: dn)
    also have "\<dots> = strays k st" by (simp add: strays_def reg same)
    finally show ?thesis
      using \<open>\<not> contains_key now c st\<close> True by (simp add: enqueue_redemption_def Let_def)
  qed
qed

lemma maintain_kept:
  "redeem_wf s \<Longrightarrow>
     redeem_wf (fold (\<lambda>(c, e) s. if expired now e then evict Expired c s else s) es s) \<and>
     strays k (fold (\<lambda>(c, e) s. if expired now e then evict Expired c s else s) es s) \<le> strays k s"
proof (induction es arbitrary: s)
  case (Cons ce es)
  let ?s1 = "(\<lambda>(c, e) s. if expired now e then evict Expired c s else s) ce s"
  have "redeem_wf ?s1" and "strays k ?s1 \<le> strays k s"
    using Cons.prems strays_evict [OF Cons.prems, of k Expired "fst ce"]
    by (auto simp: redeem_wf_evict split: prod.splits)
  with Cons.IH [of ?s1] show ?case by simp
qed simp

lemma tick_kept:
  fixes chs :: "channel list"
  shows "redeem_wf s \<Longrightarrow>
     redeem_wf (fold (\<lambda>ch s. snd (enqueue_redemption now (early (ch_id ch)) (ch_id ch) s)) chs s) \<and>
     strays k (fold (\<lambda>ch s. snd (enqueue_redemption now (early (ch_id ch)) (ch_id ch) s)) chs s) \<le> strays k s"
proof (induction chs arbitrary: s)
  case (Cons ch chs)
  let ?s1 = "snd (enqueue_redemption now (early (ch_id ch)) (ch_id ch) s)"
  have "redeem_wf ?s1" and "strays k ?s1 \<le> strays k s"
    using redeem_wf_enqueue [OF Cons.prems] strays_enqueue [OF Cons.prems] by simp_all
  with Cons.IH [of ?s1] show ?case by simp
qed simp

fun size_evictions :: "channel_id \<Rightarrow> redeem_event \<Rightarrow> nat" where
  "size_evictions c (SizeEviction k) = of_bool (k = c)"
| "size_evictions c (RedeemTick chs) = 0"
| "size_evictions c (WinningTicket f ack) = 0"
| "size_evictions c (RedeemChain ev) = 0"
| "size_evictions c (TaskDone h) = 0"
| "size_evictions c CacheMaintenance = 0"

lemma redeem_step_kept:
  assumes wf: "redeem_wf st"
  shows "redeem_wf (redeem_step direction cfg me redeemable ev st) \<and>
     strays c (redeem_step direction cfg me redeemable ev st) \<le> strays c st + size_evictions c (snd ev)"
proof -
  obtain env e where ev: "ev = (env, e)" by (cases ev)
  show ?thesis
  proof (cases e)
    case (RedeemTick chs)
    with wf tick_kept [OF wf, where now = "re_now env" and early = "re_early env" and k = c] show ?thesis
      by (cases chs) (simp_all add: ev redeem_tick_def)
  next
    case (WinningTicket f ack)
    with wf show ?thesis
      by (simp add: ev on_acknowledged_winning_ticket_def redeem_wf_enqueue strays_enqueue split: sum.splits option.splits)
  next
    case (RedeemChain x)
    with wf show ?thesis
      by (cases x) (simp_all add: ev on_redeem_chain_event_def on_own_channel_changed_def redeem_wf_enqueue
          strays_enqueue split: option.splits)
  next
    case (TaskDone h)
    with wf show ?thesis by (simp add: ev redeem_wf_done strays_done)
  next
    case CacheMaintenance
    with wf maintain_kept [OF wf, of "re_now env" "rd_running st" c] show ?thesis
      by (simp add: ev maintain_def)
  next
    case (SizeEviction k)
    with wf strays_evict [OF wf, of c Size k] show ?thesis by (simp add: ev redeem_wf_evict eq_commute)
  qed
qed


section \<open>When a redemption starts, and when it is refused\<close>

text \<open>
  Every outcome of a winning ticket: a redemption starts exactly when the strategy redeems
  on winning, the ticket is worth the minimum, its channel is known, the ticket is not older than
  the channel and no redemption of that channel is registered; it is refused as in progress only
  in the last case, a failed lookup is passed on, every other refusal is
  \<open>CriteriaNotSatisfied\<close>, and a refusal changes nothing.
\<close>

theorem winning_ticket_outcomes:
  "case on_acknowledged_winning_ticket cfg now early channel_by_id ack st of
     (res, st') \<Rightarrow>
       let wanted = redeem_on_winning cfg \<and> minimum_redeem_ticket_value cfg \<le> vt_amount ack;
           usable = (\<lambda>ch. ch_ticket_index ch \<le> vt_index ack)
       in (res = Inr () \<longleftrightarrow>
             wanted \<and> (\<exists>ch. channel_by_id (vt_channel_id ack) = Inr (Some ch) \<and> usable ch \<and> \<not> contains_key now (ch_id ch) st)) \<and>
          (res = Inl InProgress \<longleftrightarrow>
             wanted \<and> (\<exists>ch. channel_by_id (vt_channel_id ack) = Inr (Some ch) \<and> usable ch \<and> contains_key now (ch_id ch) st)) \<and>
          (res = Inl CriteriaNotSatisfied \<longleftrightarrow>
             (if wanted
              then channel_by_id (vt_channel_id ack) = Inr None \<or>
                   (\<exists>ch. channel_by_id (vt_channel_id ack) = Inr (Some ch) \<and> vt_index ack < ch_ticket_index ch)
              else True)) \<and>
          (res = Inr () \<or> st' = st)"
  by (auto simp: on_acknowledged_winning_ticket_def enqueue_redemption_def Let_def not_le
      split: sum.splits option.splits)

lemma contains_key_enqueue:
  "contains_key now k st \<or> k = c \<Longrightarrow> contains_key now k (snd (enqueue_redemption now early c st))"
  by (auto simp: enqueue_redemption_def contains_key_def cache_insert_def Let_def map_of_update map_of_delete
      expired_def redemption_timeout_def secs_def redemption_done_def split: option.splits)

lemma contains_key_tick:
  fixes chs :: "channel list"
  assumes "contains_key now k st \<or> k \<in> ch_id ` set chs"
  shows "contains_key now k (fold (\<lambda>ch s. snd (enqueue_redemption now (early (ch_id ch)) (ch_id ch) s)) chs st)"
  using assms
proof (induction chs arbitrary: st)
  case (Cons ch chs)
  then have "contains_key now k (snd (enqueue_redemption now (early (ch_id ch)) (ch_id ch) st)) \<or> k \<in> ch_id ` set chs"
    using contains_key_enqueue [of now k st "ch_id ch" "early (ch_id ch)"] by auto
  with Cons.IH show ?case by simp
qed simp

lemma redeem_tick_registers_all:
  "case redeem_tick cfg now early me redeemable (Inr chs) st of
     (Inr _, st') \<Rightarrow> list_all (\<lambda>ch. contains_key now (ch_id ch) st') (filter (\<lambda>ch. ch_destination ch = me \<and> redeemable ch) chs)
   | (Inl e, st') \<Rightarrow> redeem_on_winning cfg \<and> e = CriteriaNotSatisfied \<and> st' = st"
  by (auto simp: redeem_tick_def list_all_iff intro!: contains_key_tick)

section \<open>Two gaps of the bookkeeping\<close>

text \<open>
  A redemption that completes before its handle is inserted leaves an entry nobody removes: for
  the whole timeout the channel is refused as in progress although nothing runs.
\<close>

lemma early_completion_blocks_channel:
  "let st = snd (enqueue_redemption now True c redeem_initial)
   in rd_live st = [] \<and>
      (enqueue_redemption (now + d) early c st = (Inl InProgress, st) \<longleftrightarrow> d < redemption_timeout)"
  by (auto simp: enqueue_redemption_def contains_key_def cache_insert_def redemption_done_def redeem_initial_def
      evict_def expired_def redemption_timeout_def secs_def Let_def)

text \<open>
  A redemption whose entry was dropped for size removes the entry of its successor when it
  completes, and the listener aborts the successor although it is still running.
\<close>

lemma completion_aborts_successor:
  "let st1 = snd (enqueue_redemption t False c redeem_initial);
       st2 = snd (enqueue_redemption t' False c (evict Size c st1))
   in rd_live st2 = [(1, c), (0, c)] \<and> rd_live (redemption_done 0 st2) = []"
  by (simp add: enqueue_redemption_def contains_key_def cache_insert_def redemption_done_def redeem_initial_def
      evict_def abort_def Let_def)

end
