(* ===== verification/Closure_Finalizer.thy ===== *)
theory Closure_Finalizer
  imports Chain_Types Strategy_State Lifecycle_Config
begin

text \<open>
  The legacy closure finalizer (\<open>src/src/channel_finalizer.rs\<close>): a tick that submits the final
  close transaction for every outgoing channel whose grace period ended not longer ago than
  \<open>max_closure_overdue\<close>. The strategy keeps no state between ticks. The tick returns its summary
  and the close transactions it submitted, in order; whether the chain accepts one is an
  argument. \<open>now.sub(max_closure_overdue)\<close> is subtraction on \<^typ>\<open>nat\<close>, which stops at the origin
  of the clock.
\<close>

record closure_finalizer_config =
  max_closure_overdue :: duration

definition closure_finalizer_default :: closure_finalizer_config where
  "closure_finalizer_default = \<lparr>max_closure_overdue = secs 300\<rparr>"

record finalizer_summary =
  zs_due :: nat
  zs_submitted :: nat
  zs_failed :: nat

definition closure_in_range :: "instant \<Rightarrow> instant \<Rightarrow> channel_status \<Rightarrow> bool" where
  \<comment> \<open>\<open>with_allowed_states(PendingToClose)\<close> and \<open>with_closure_time_range\<close>\<close>
  "closure_in_range lo hi s = (case s of PendingToClose t \<Rightarrow> lo \<le> t \<and> t \<le> hi | _ \<Rightarrow> False)"

definition due_for_closure :: "closure_finalizer_config \<Rightarrow> address \<Rightarrow> instant \<Rightarrow> channel \<Rightarrow> bool" where
  \<comment> \<open>the \<open>ChannelSelector\<close> of the tick\<close>
  "due_for_closure cfg me now ch \<longleftrightarrow>
     ch_source ch = me \<and> closure_in_range (now - max_closure_overdue cfg) now (ch_status ch)"

definition finalize_due ::
    "(channel_id \<Rightarrow> string + unit) \<Rightarrow> channel \<Rightarrow> finalizer_summary \<times> channel_id list \<Rightarrow>
     finalizer_summary \<times> channel_id list" where
  \<comment> \<open>the body of the \<open>while let\<close>\<close>
  "finalize_due close ch acc =
     (case acc of (s0, done) \<Rightarrow>
        let s = s0\<lparr>zs_due := zs_due s0 + 1\<rparr>
        in case close (ch_id ch) of
             Inr _ \<Rightarrow> (s\<lparr>zs_submitted := zs_submitted s + 1\<rparr>, done @ [ch_id ch])
           | Inl e \<Rightarrow> (s\<lparr>zs_failed := zs_failed s + 1\<rparr>, done))"

definition finalizer_tick ::
    "closure_finalizer_config \<Rightarrow> address \<Rightarrow> instant \<Rightarrow> string + channel list \<Rightarrow> (channel_id \<Rightarrow> string + unit) \<Rightarrow>
     strategy_error + finalizer_summary \<times> channel_id list" where
  \<comment> \<open>\<open>on_tick\<close>\<close>
  "finalizer_tick cfg me now channels close =
     (case channels of
        Inl e \<Rightarrow> Inl (OtherError (Text e))
      | Inr chs \<Rightarrow>
          Inr (fold (finalize_due close) (filter (due_for_closure cfg me now) chs)
                 (\<lparr>zs_due = 0, zs_submitted = 0, zs_failed = 0\<rparr>, [])))"

record finalizer_reads =
  zr_now :: instant
  zr_channels :: "string + channel list"
  zr_close :: "channel_id \<Rightarrow> string + unit"

definition finalizer_run ::
    "closure_finalizer_config \<Rightarrow> address \<Rightarrow> finalizer_reads list \<Rightarrow> (strategy_error + finalizer_summary \<times> channel_id list) list" where
  \<comment> \<open>\<open>run\<close>: the startup scan and one scan per interval; an error is logged and the loop goes on\<close>
  "finalizer_run cfg me rs = map (\<lambda>r. finalizer_tick cfg me (zr_now r) (zr_channels r) (zr_close r)) rs"

section \<open>What one tick does\<close>

definition accepted :: "(channel_id \<Rightarrow> string + unit) \<Rightarrow> channel \<Rightarrow> bool" where
  "accepted close ch = (case close (ch_id ch) of Inr _ \<Rightarrow> True | Inl _ \<Rightarrow> False)"

lemma finalize_due_fold:
  "fold (finalize_due close) chs (s, done) =
     (\<lparr>zs_due = zs_due s + length chs, zs_submitted = zs_submitted s + length (filter (accepted close) chs),
       zs_failed = zs_failed s + length (filter (\<lambda>ch. \<not> accepted close ch) chs)\<rparr>,
      done @ map ch_id (filter (accepted close) chs))"
  by (induction chs arbitrary: s "done") (auto simp: finalize_due_def accepted_def Let_def split: sum.splits)

text \<open>
  A closure-finalizer tick attempts exactly the node's own channels whose grace period has
  ended within the allowed lateness, each once and in stream order: the transactions submitted
  are those the chain accepted, one refusal does not stop the scan, and the summary adds up.
\<close>

theorem finalizer_tick_attempts_due:
  "case finalizer_tick cfg me now (Inr chs) close of
     Inl e \<Rightarrow> False
   | Inr (s, txs) \<Rightarrow>
       let due = filter (\<lambda>ch. ch_source ch = me \<and>
                   (\<exists>t. ch_status ch = PendingToClose t \<and> now - max_closure_overdue cfg \<le> t \<and> t \<le> now)) chs
       in txs = map ch_id (filter (accepted close) due) \<and> zs_due s = length due \<and>
          zs_submitted s = length txs \<and> zs_due s = zs_submitted s + zs_failed s"
proof -
  have "due_for_closure cfg me now = (\<lambda>ch. ch_source ch = me \<and>
          (\<exists>t. ch_status ch = PendingToClose t \<and> now - max_closure_overdue cfg \<le> t \<and> t \<le> now))"
    by (rule ext) (auto simp: due_for_closure_def closure_in_range_def split: channel_status.splits)
  then show ?thesis
    using sum_length_filter_compl [of "accepted close" "filter (due_for_closure cfg me now) chs"]
    by (simp add: finalizer_tick_def finalize_due_fold Let_def del: filter_filter)
qed

end
