(* ===== verification/Pix_Ledger.thy ===== *)
theory Pix_Ledger
  imports Strategy_Prelude "HOL-Library.Word"
begin

text \<open>
  \<open>SpendEntry\<close> and \<open>SpendLedger\<close> of \<open>src/src/pix/strategy.rs\<close>: the rolling record of deposits
  that counts against \<open>max_spend_per_window\<close>. Reservations are numbered by a 64-bit counter that
  wraps; \<open>std::time::Instant\<close> never runs backwards, and \<open>duration_since\<close> is zero at least.

  The ledger is an approximation of a history: the list of all reservations ever committed and the
  set of those handed back. \<open>ledger_inv\<close> relates the two, each operation is shown to keep it, and
  \<open>window_sum_le\<close> is what the relation is for: the ledger's total is never below what the history
  has committed within the window.
\<close>

section \<open>The code\<close>

record spend_entry =
  se_at :: instant
  se_amount :: balance
  se_seqs :: "64 word \<times> 64 word"

record spend_ledger =
  sl_entries :: "spend_entry list"
  sl_seq :: "64 word"
  sl_refunded :: "64 word set"

definition spend_ledger_capacity :: nat where
  "spend_ledger_capacity = 4096"

definition ledger_default :: spend_ledger where
  "ledger_default = \<lparr>sl_entries = [], sl_seq = 0, sl_refunded = {}\<rparr>"

definition se_contains :: "spend_entry \<Rightarrow> 64 word \<Rightarrow> bool" where
  "se_contains e s \<longleftrightarrow> fst (se_seqs e) \<le> s \<and> s \<le> snd (se_seqs e)"

fun drop_expired :: "duration \<Rightarrow> instant \<Rightarrow> spend_entry list \<Rightarrow> spend_entry list" where
  "drop_expired w now [] = []"
| "drop_expired w now (e # es) = (if now - se_at e < w then e # es else drop_expired w now es)"

definition prune_refunded :: "spend_entry list \<Rightarrow> 64 word set \<Rightarrow> 64 word set" where
  "prune_refunded es R =
     (if R = {} then R
      else case es of
        oldest # _ \<Rightarrow> {s \<in> R. fst (se_seqs oldest) \<le> s}
      | [] \<Rightarrow> {})"

definition ledger_total :: "spend_entry list \<Rightarrow> balance" where
  "ledger_total es = foldl (\<lambda>total e. bal_add total (se_amount e)) 0 es"

definition ledger_spent :: "duration \<Rightarrow> instant \<Rightarrow> spend_ledger \<Rightarrow> balance \<times> spend_ledger" where
  "ledger_spent w now l =
     (let es = drop_expired w now (sl_entries l) in
      (ledger_total es,
       l\<lparr>sl_entries := es, sl_refunded := prune_refunded es (sl_refunded l)\<rparr>))"

definition fold_oldest :: "spend_entry list \<Rightarrow> spend_entry list" where
  "fold_oldest es =
     (case es of
        oldest # next # rest \<Rightarrow>
          next\<lparr>se_amount := bal_add (se_amount next) (se_amount oldest),
               se_seqs := (min (fst (se_seqs oldest)) (fst (se_seqs next)),
                           max (snd (se_seqs oldest)) (snd (se_seqs next)))\<rparr> # rest
      | [oldest] \<Rightarrow> []
      | [] \<Rightarrow> [])"

definition ledger_commit :: "balance \<Rightarrow> instant \<Rightarrow> spend_ledger \<Rightarrow> spend_entry \<times> spend_ledger" where
  "ledger_commit amount now l =
     (let entry = \<lparr>se_at = now, se_amount = amount, se_seqs = (sl_seq l, sl_seq l)\<rparr>;
          es = sl_entries l @ [entry] in
      (entry,
       l\<lparr>sl_seq := sl_seq l + 1,
         sl_entries := (if spend_ledger_capacity < length es then fold_oldest es else es)\<rparr>))"

fun update_first :: "('a \<Rightarrow> bool) \<Rightarrow> ('a \<Rightarrow> 'a) \<Rightarrow> 'a list \<Rightarrow> 'a list" where
  \<comment> \<open>\<open>iter_mut().find(p)\<close> followed by an update of what was found\<close>
  "update_first p f [] = []"
| "update_first p f (x # xs) = (if p x then f x # xs else x # update_first p f xs)"

definition ledger_release :: "spend_entry \<Rightarrow> spend_ledger \<Rightarrow> spend_ledger" where
  "ledger_release entry l =
     (let s = fst (se_seqs entry) in
      if s \<in> sl_refunded l then l
      else l\<lparr>sl_refunded := insert s (sl_refunded l),
             sl_entries := update_first (\<lambda>e. se_contains e s)
               (\<lambda>e. e\<lparr>se_amount := se_amount e - se_amount entry\<rparr>) (sl_entries l)\<rparr>)"

section \<open>What the entries account for\<close>

text \<open>
  \<open>covers C R lo es\<close>: the entries \<open>es\<close> partition the reservations from number \<open>lo\<close> on, each
  holding the sum of those of its range that are not in \<open>R\<close>, and none older than the newest it
  accounts for.
\<close>

fun covers :: "spend_entry list \<Rightarrow> nat set \<Rightarrow> nat \<Rightarrow> spend_entry list \<Rightarrow> bool" where
  "covers C R lo [] \<longleftrightarrow> lo = length C"
| "covers C R lo (e # es) \<longleftrightarrow>
     unat (fst (se_seqs e)) = lo \<and> lo \<le> unat (snd (se_seqs e)) \<and> unat (snd (se_seqs e)) < length C \<and>
     (\<forall>i \<in> {lo..unat (snd (se_seqs e))}. se_at (C ! i) \<le> se_at e) \<and>
     se_amount e = (\<Sum>i \<in> {lo..unat (snd (se_seqs e))} - R. se_amount (C ! i)) \<and>
     covers C R (Suc (unat (snd (se_seqs e)))) es"

lemma unat_of_nat_64: "n < 2 ^ 64 \<Longrightarrow> unat (word_of_nat n :: 64 word) = n"
  by (simp add: unsigned_of_nat take_bit_nat_eq_self)

lemma covers_le: "covers C R lo es \<Longrightarrow> lo \<le> length C"
  by (cases es) auto

lemma covers_sum:
  "covers C R lo es \<Longrightarrow> sum_list (map se_amount es) = (\<Sum>i \<in> {lo..<length C} - R. se_amount (C ! i))"
proof (induction es arbitrary: lo)
  case Nil
  then show ?case by simp
next
  case (Cons e es)
  let ?hi = "unat (snd (se_seqs e))"
  have le: "lo \<le> ?hi" "?hi < length C" using Cons.prems by auto
  then have split: "{lo..<length C} - R = ({lo..?hi} - R) \<union> ({Suc ?hi..<length C} - R)" by auto
  have "(\<Sum>i \<in> {lo..<length C} - R. se_amount (C ! i)) =
      (\<Sum>i \<in> {lo..?hi} - R. se_amount (C ! i)) + (\<Sum>i \<in> {Suc ?hi..<length C} - R. se_amount (C ! i))"
    unfolding split by (rule sum.union_disjoint) auto
  with Cons show ?case by simp
qed

lemma covers_snoc:
  assumes "covers C R lo es" and "length C \<notin> R" and "length C < 2 ^ 64"
    and "se_seqs e = (word_of_nat (length C), word_of_nat (length C))"
  shows "covers (C @ [e]) R lo (es @ [e])"
  using assms(1)
proof (induction es arbitrary: lo)
  case Nil
  moreover have "{length C} - R = {length C}" using assms(2) by auto
  ultimately show ?case using assms(3,4) by (simp add: unat_of_nat_64)
next
  case (Cons d es)
  then have "(\<Sum>i \<in> {lo..unat (snd (se_seqs d))} - R. se_amount ((C @ [e]) ! i)) =
      (\<Sum>i \<in> {lo..unat (snd (se_seqs d))} - R. se_amount (C ! i))"
    by (intro sum.cong) (auto simp: nth_append)
  with Cons show ?case by (auto simp: nth_append)
qed

lemma covers_fold:
  assumes "covers C R lo es" and "sorted (map se_at es)" and "sum_list (map se_amount es) \<le> u256_max"
    and "1 < length es"
  shows "covers C R lo (fold_oldest es)"
proof -
  obtain a b rest where es: "es = a # b # rest"
    using assms(4) by (cases es; cases "tl es") auto
  let ?m = "unat (snd (se_seqs a))" and ?h = "unat (snd (se_seqs b))"
  have a: "unat (fst (se_seqs a)) = lo" "lo \<le> ?m" "unat (fst (se_seqs b)) = Suc ?m" "Suc ?m \<le> ?h"
    "?h < length C" "covers C R (Suc ?h) rest" "se_at a \<le> se_at b"
    using assms(1,2) by (auto simp: es)
  have mn: "min (fst (se_seqs a)) (fst (se_seqs b)) = fst (se_seqs a)"
    "max (snd (se_seqs a)) (snd (se_seqs b)) = snd (se_seqs b)"
    using a by (auto simp: min_def max_def word_le_nat_alt)
  have split: "{lo..?h} - R = ({Suc ?m..?h} - R) \<union> ({lo..?m} - R)" using a by auto
  have "bal_add (se_amount b) (se_amount a) = se_amount b + se_amount a"
    using assms(3) by (simp add: es bal_add_def)
  also have "\<dots> = (\<Sum>i \<in> {lo..?h} - R. se_amount (C ! i))"
    unfolding split using assms(1) by (subst sum.union_disjoint) (auto simp: es)
  finally have amt: "bal_add (se_amount b) (se_amount a) = (\<Sum>i \<in> {lo..?h} - R. se_amount (C ! i))" .
  have ats: "se_at (C ! i) \<le> se_at b" if "lo \<le> i" "i \<le> ?h" for i
  proof (cases "i \<le> ?m")
    case True
    with that assms(1) have "se_at (C ! i) \<le> se_at a" by (simp add: es)
    with a show ?thesis by simp
  next
    case False
    with that assms(1) show ?thesis by (simp add: es)
  qed
  show ?thesis using a by (simp add: es fold_oldest_def mn amt ats)
qed

lemma covers_drop:
  assumes "covers C R lo es"
  shows "\<exists>lo' \<ge> lo. covers C R lo' (drop_expired w now es) \<and> (\<forall>i \<in> {lo..<lo'}. w \<le> now - se_at (C ! i))"
  using assms
proof (induction es arbitrary: lo)
  case Nil
  then show ?case by (auto intro!: exI [of _ lo])
next
  case (Cons e es)
  let ?hi = "unat (snd (se_seqs e))"
  show ?case
  proof (cases "now - se_at e < w")
    case True
    with Cons.prems show ?thesis by (auto intro!: exI [of _ lo])
  next
    case False
    from Cons.prems have "covers C R (Suc ?hi) es" by simp
    from Cons.IH [OF this] obtain lo' where
      lo': "Suc ?hi \<le> lo'" "covers C R lo' (drop_expired w now es)"
      "\<forall>i \<in> {Suc ?hi..<lo'}. w \<le> now - se_at (C ! i)" by auto
    have "w \<le> now - se_at (C ! i)" if "i \<in> {lo..<lo'}" for i
    proof (cases "i \<le> ?hi")
      case True
      with that Cons.prems have "se_at (C ! i) \<le> se_at e" by simp
      with False show ?thesis by linarith
    next
      case f: False
      with that lo'(3) show ?thesis by simp
    qed
    moreover have "lo \<le> lo'" using Cons.prems lo'(1) by simp
    ultimately show ?thesis using False lo'(2) by auto
  qed
qed

lemma covers_refund_outside: "i < lo \<Longrightarrow> covers C R lo es \<Longrightarrow> covers C (insert i R) lo es"
proof (induction es arbitrary: lo)
  case Nil
  then show ?case by simp
next
  case (Cons e es)
  then have "{lo..unat (snd (se_seqs e))} - insert i R = {lo..unat (snd (se_seqs e))} - R" by auto
  with Cons show ?case by simp
qed

lemma covers_release:
  assumes "covers C R lo es" and "lo \<le> i" and "i < length C" and "i \<notin> R" and "length C \<le> 2 ^ 64"
  shows "covers C (insert i R) lo (update_first (\<lambda>e. se_contains e (word_of_nat i))
           (\<lambda>e. e\<lparr>se_amount := se_amount e - se_amount (C ! i)\<rparr>) es)"
  using assms(1,2)
proof (induction es arbitrary: lo)
  case Nil
  with assms(3) show ?case by simp
next
  case (Cons e es)
  let ?hi = "unat (snd (se_seqs e))"
  have u: "unat (word_of_nat i :: 64 word) = i" using assms(3,5) by (intro unat_of_nat_64) simp
  have c: "se_contains e (word_of_nat i) \<longleftrightarrow> i \<le> ?hi"
    using Cons.prems by (simp add: se_contains_def word_le_nat_alt u)
  show ?case
  proof (cases "i \<le> ?hi")
    case True
    have d: "{lo..?hi} - insert i R = ({lo..?hi} - R) - {i}" by auto
    have "i \<in> {lo..?hi} - R" using True Cons.prems assms(4) by simp
    then have "(\<Sum>j \<in> {lo..?hi} - R. se_amount (C ! j)) =
        se_amount (C ! i) + (\<Sum>j \<in> {lo..?hi} - insert i R. se_amount (C ! j))"
      unfolding d by (intro sum.remove) auto
    moreover have "covers C (insert i R) (Suc ?hi) es"
      using Cons.prems True by (intro covers_refund_outside) auto
    ultimately show ?thesis using Cons.prems c True by simp
  next
    case False
    then have "{lo..?hi} - insert i R = {lo..?hi} - R" by auto
    with False Cons c show ?thesis by simp
  qed
qed

section \<open>The ledger against its history\<close>

text \<open>
  \<open>C\<close> is the list of all reservations ever committed, \<open>R\<close> the numbers of those handed back, \<open>clk\<close>
  the time of the last operation. A reservation below \<open>lo\<close> has left the window for good.
\<close>

definition window_sum :: "duration \<Rightarrow> instant \<Rightarrow> spend_entry list \<Rightarrow> nat set \<Rightarrow> nat" where
  "window_sum w now C R =
     (\<Sum>i \<in> {i. i < length C \<and> i \<notin> R \<and> now - se_at (C ! i) < w}. se_amount (C ! i))"

definition ledger_inv :: "duration \<Rightarrow> instant \<Rightarrow> spend_entry list \<Rightarrow> nat set \<Rightarrow> spend_ledger \<Rightarrow> bool" where
  "ledger_inv w clk C R l \<longleftrightarrow>
     (\<exists>lo. covers C R lo (sl_entries l) \<and> (\<forall>i < lo. w \<le> clk - se_at (C ! i)) \<and>
           (\<forall>i \<in> R. lo \<le> i \<longrightarrow> word_of_nat i \<in> sl_refunded l)) \<and>
     (\<forall>s \<in> sl_refunded l. unat s \<in> R) \<and> R \<subseteq> {..<length C} \<and> length C \<le> 2 ^ 64 \<and>
     sl_seq l = word_of_nat (length C) \<and> sorted (map se_at (sl_entries l)) \<and>
     (\<forall>e \<in> set (sl_entries l). se_at e \<le> clk) \<and>
     (\<forall>i < length C. se_seqs (C ! i) = (word_of_nat i, word_of_nat i))"

lemma ledger_inv_default: "ledger_inv w clk [] {} ledger_default"
  by (simp add: ledger_inv_def ledger_default_def)

lemma ledger_inv_later:
  "ledger_inv w clk C R l \<Longrightarrow> clk \<le> now \<Longrightarrow> ledger_inv w now C R l"
  unfolding ledger_inv_def
  by (meson diff_le_mono le_trans)

lemma window_sum_le:
  assumes "ledger_inv w clk C R l" and "clk \<le> now"
  shows "window_sum w now C R \<le> sum_list (map se_amount (sl_entries l))"
proof -
  obtain lo where lo: "covers C R lo (sl_entries l)" "\<forall>i < lo. w \<le> clk - se_at (C ! i)"
    using assms(1) by (auto simp: ledger_inv_def)
  have "{i. i < length C \<and> i \<notin> R \<and> now - se_at (C ! i) < w} \<subseteq> {lo..<length C} - R"
  proof
    fix i
    assume i: "i \<in> {i. i < length C \<and> i \<notin> R \<and> now - se_at (C ! i) < w}"
    have "lo \<le> i"
    proof (rule ccontr)
      assume "\<not> lo \<le> i"
      with lo(2) have "w \<le> clk - se_at (C ! i)" by simp
      with assms(2) i show False by auto
    qed
    with i show "i \<in> {lo..<length C} - R" by simp
  qed
  then show ?thesis
    unfolding window_sum_def covers_sum [OF lo(1)] by (intro sum_mono2) auto
qed

subsection \<open>Expiry\<close>

lemma drop_expired_subset: "set (drop_expired w now es) \<subseteq> set es"
  by (induction es) auto

lemma drop_expired_sorted: "sorted (map se_at es) \<Longrightarrow> sorted (map se_at (drop_expired w now es))"
  by (induction es) auto

lemma drop_expired_sum:
  "sum_list (map se_amount (drop_expired w now es)) \<le> sum_list (map se_amount es)"
  by (induction es) auto

lemma ledger_total_eq: "ledger_total es = min (sum_list (map se_amount es)) u256_max"
proof -
  have "foldl (\<lambda>t e. bal_add t (se_amount e)) (min t u256_max) es =
      min (t + sum_list (map se_amount es)) u256_max" for t
  proof (induction es arbitrary: t)
    case (Cons e es)
    have "bal_add (min t u256_max) (se_amount e) = min (t + se_amount e) u256_max"
      by (auto simp: bal_add_def)
    with Cons show ?case by (simp add: add.assoc)
  qed simp
  from this [of 0] show ?thesis by (simp add: ledger_total_def)
qed

lemma ledger_inv_spent:
  assumes "ledger_inv w clk C R l" and "clk \<le> now"
  shows "ledger_inv w now C R (snd (ledger_spent w now l))"
proof -
  obtain lo where lo: "covers C R lo (sl_entries l)" "\<forall>i < lo. w \<le> clk - se_at (C ! i)"
    "\<forall>i \<in> R. lo \<le> i \<longrightarrow> word_of_nat i \<in> sl_refunded l"
    using assms(1) by (auto simp: ledger_inv_def)
  let ?es = "drop_expired w now (sl_entries l)"
  obtain lo' where lo': "lo \<le> lo'" "covers C R lo' ?es" "\<forall>i \<in> {lo..<lo'}. w \<le> now - se_at (C ! i)"
    using covers_drop [OF lo(1)] by blast
  have old: "w \<le> now - se_at (C ! i)" if "i < lo'" for i
  proof (cases "i < lo")
    case True
    with lo(2) assms(2) show ?thesis by (meson diff_le_mono le_trans)
  next
    case False
    with that lo'(3) show ?thesis by simp
  qed
  have len: "length C \<le> 2 ^ 64" and sub: "R \<subseteq> {..<length C}"
    using assms(1) by (auto simp: ledger_inv_def)
  have keep: "word_of_nat i \<in> prune_refunded ?es (sl_refunded l)" if "i \<in> R" "lo' \<le> i" for i
  proof -
    have "i < length C" using that sub by auto
    with len have u: "unat (word_of_nat i :: 64 word) = i" by (intro unat_of_nat_64) simp
    have "word_of_nat i \<in> sl_refunded l" using that lo(3) lo'(1) by simp
    moreover have "?es \<noteq> []" using that sub lo'(2) by auto
    ultimately show ?thesis
      using lo'(2) that u by (auto simp: prune_refunded_def word_le_nat_alt split: list.splits)
  qed
  have pr: "prune_refunded ?es (sl_refunded l) \<subseteq> sl_refunded l"
    by (auto simp: prune_refunded_def split: list.splits)
  have ages: "se_at e \<le> now" if "e \<in> set ?es" for e
  proof -
    have "e \<in> set (sl_entries l)" using that drop_expired_subset by blast
    then have "se_at e \<le> clk" using assms(1) by (simp add: ledger_inv_def)
    with assms(2) show ?thesis by simp
  qed
  have ex: "\<exists>lo. covers C R lo ?es \<and> (\<forall>i < lo. w \<le> now - se_at (C ! i)) \<and>
      (\<forall>i \<in> R. lo \<le> i \<longrightarrow> word_of_nat i \<in> prune_refunded ?es (sl_refunded l))"
    using lo'(2) old keep by blast
  show ?thesis
    unfolding ledger_inv_def ledger_spent_def Let_def snd_conv
  proof (intro conjI)
    show "sorted (map se_at (sl_entries (l\<lparr>sl_entries := ?es, sl_refunded := prune_refunded ?es (sl_refunded l)\<rparr>)))"
      using assms(1) drop_expired_sorted by (simp add: ledger_inv_def)
    show "\<forall>s \<in> sl_refunded (l\<lparr>sl_entries := ?es, sl_refunded := prune_refunded ?es (sl_refunded l)\<rparr>). unat s \<in> R"
      using assms(1) pr by (auto simp: ledger_inv_def)
  qed (use assms(1) ex ages in \<open>simp_all add: ledger_inv_def\<close>)
qed

lemma ledger_spent_total:
  "fst (ledger_spent w now l) = min (sum_list (map se_amount (sl_entries (snd (ledger_spent w now l))))) u256_max"
  by (simp add: ledger_spent_def Let_def ledger_total_eq)

subsection \<open>Commitment\<close>

lemma fold_oldest_sum:
  assumes "sum_list (map se_amount es) \<le> u256_max" and "1 < length es"
  shows "sum_list (map se_amount (fold_oldest es)) = sum_list (map se_amount es)"
  using assms by (auto simp: fold_oldest_def bal_add_def split: list.splits)

lemma fold_oldest_sorted: "sorted (map se_at es) \<Longrightarrow> sorted (map se_at (fold_oldest es))"
  by (auto simp: fold_oldest_def split: list.splits)

lemma fold_oldest_ages: "\<forall>e \<in> set es. se_at e \<le> clk \<Longrightarrow> \<forall>e \<in> set (fold_oldest es). se_at e \<le> clk"
  by (auto simp: fold_oldest_def split: list.splits)

lemma ledger_commit_entry:
  "fst (ledger_commit amount now l) = \<lparr>se_at = now, se_amount = amount, se_seqs = (sl_seq l, sl_seq l)\<rparr>"
  by (simp add: ledger_commit_def Let_def)

lemma ledger_inv_commit:
  assumes inv: "ledger_inv w clk C R l" and now: "clk \<le> now" and len: "length C < 2 ^ 64"
    and room: "sum_list (map se_amount (sl_entries l)) + amount \<le> u256_max"
  shows "ledger_inv w now (C @ [fst (ledger_commit amount now l)]) R (snd (ledger_commit amount now l))"
    and "sum_list (map se_amount (sl_entries (snd (ledger_commit amount now l)))) =
         sum_list (map se_amount (sl_entries l)) + amount"
proof -
  define e where "e = \<lparr>se_at = now, se_amount = amount, se_seqs = (sl_seq l, sl_seq l)\<rparr>"
  define es where "es = sl_entries l @ [e]"
  define es' where "es' = (if spend_ledger_capacity < length es then fold_oldest es else es)"
  have commit: "ledger_commit amount now l = (e, l\<lparr>sl_seq := sl_seq l + 1, sl_entries := es'\<rparr>)"
    by (simp add: ledger_commit_def Let_def e_def es_def es'_def)
  have seq: "se_seqs e = (word_of_nat (length C), word_of_nat (length C))"
    using inv by (simp add: ledger_inv_def e_def)
  obtain lo where lo: "covers C R lo (sl_entries l)" "\<forall>i < lo. w \<le> clk - se_at (C ! i)"
    "\<forall>i \<in> R. lo \<le> i \<longrightarrow> word_of_nat i \<in> sl_refunded l"
    using inv by (auto simp: ledger_inv_def)
  have sub: "R \<subseteq> {..<length C}" using inv by (simp add: ledger_inv_def)
  have c: "covers (C @ [e]) R lo es"
    unfolding es_def using lo(1) sub len seq by (intro covers_snoc) auto
  have srt: "sorted (map se_at es)"
    using inv now by (force simp: es_def e_def ledger_inv_def sorted_append)
  have ages: "\<forall>d \<in> set es. se_at d \<le> now"
    using inv now by (force simp: es_def e_def ledger_inv_def)
  have sm: "sum_list (map se_amount es) = sum_list (map se_amount (sl_entries l)) + amount"
    by (simp add: es_def e_def)
  have big: "1 < length es" if "spend_ledger_capacity < length es"
    using that by (simp add: spend_ledger_capacity_def)
  have c': "covers (C @ [e]) R lo es'"
    unfolding es'_def using c srt sm room big by (auto intro: covers_fold)
  have old: "w \<le> now - se_at ((C @ [e]) ! i)" if "i < lo" for i
  proof -
    have "i < length C" using that covers_le [OF lo(1)] by simp
    moreover have "w \<le> now - se_at (C ! i)" using lo(2) that now by (meson diff_le_mono le_trans)
    ultimately show ?thesis by (simp add: nth_append)
  qed
  have "ledger_inv w now (C @ [e]) R (l\<lparr>sl_seq := sl_seq l + 1, sl_entries := es'\<rparr>)"
    unfolding ledger_inv_def
  proof (intro conjI)
    show "\<exists>lo. covers (C @ [e]) R lo (sl_entries (l\<lparr>sl_seq := sl_seq l + 1, sl_entries := es'\<rparr>)) \<and>
        (\<forall>i < lo. w \<le> now - se_at ((C @ [e]) ! i)) \<and>
        (\<forall>i \<in> R. lo \<le> i \<longrightarrow> word_of_nat i \<in> sl_refunded (l\<lparr>sl_seq := sl_seq l + 1, sl_entries := es'\<rparr>))"
      using c' old lo(3) by (intro exI [of _ lo]) simp
    show "sorted (map se_at (sl_entries (l\<lparr>sl_seq := sl_seq l + 1, sl_entries := es'\<rparr>)))"
      using srt fold_oldest_sorted by (simp add: es'_def)
    show "\<forall>d \<in> set (sl_entries (l\<lparr>sl_seq := sl_seq l + 1, sl_entries := es'\<rparr>)). se_at d \<le> now"
      using ages fold_oldest_ages by (simp add: es'_def)
    show "\<forall>i < length (C @ [e]). se_seqs ((C @ [e]) ! i) = (word_of_nat i, word_of_nat i)"
      using inv seq by (auto simp: ledger_inv_def nth_append less_Suc_eq)
    show "R \<subseteq> {..<length (C @ [e])}" using sub by auto
    show "sl_seq (l\<lparr>sl_seq := sl_seq l + 1, sl_entries := es'\<rparr>) = word_of_nat (length (C @ [e]))"
      using inv by (simp add: ledger_inv_def add.commute)
    show "\<forall>s \<in> sl_refunded (l\<lparr>sl_seq := sl_seq l + 1, sl_entries := es'\<rparr>). unat s \<in> R"
      using inv by (simp add: ledger_inv_def)
  qed (use len in simp)
  then show "ledger_inv w now (C @ [fst (ledger_commit amount now l)]) R (snd (ledger_commit amount now l))"
    by (simp add: commit)
  have "sum_list (map se_amount es') = sum_list (map se_amount es)"
    unfolding es'_def using fold_oldest_sum big sm room by simp
  then show "sum_list (map se_amount (sl_entries (snd (ledger_commit amount now l)))) =
      sum_list (map se_amount (sl_entries l)) + amount"
    by (simp add: commit sm)
qed

subsection \<open>Refund\<close>

lemma update_first_amount_facts:
  "map se_at (update_first p (\<lambda>e. e\<lparr>se_amount := f e\<rparr>) es) = map se_at es"
  by (induction es) auto

lemma update_first_amount_sum:
  "sum_list (map se_amount (update_first p (\<lambda>e. e\<lparr>se_amount := se_amount e - k\<rparr>) es)) \<le>
   sum_list (map se_amount es)"
  by (induction es) auto

lemma update_first_none: "\<forall>e \<in> set es. \<not> p e \<Longrightarrow> update_first p f es = es"
  by (induction es) auto

lemma covers_below: "covers C R lo es \<Longrightarrow> unat s < lo \<Longrightarrow> \<forall>e \<in> set es. \<not> se_contains e s"
  by (induction es arbitrary: lo) (auto simp: se_contains_def word_le_nat_alt)

lemma ledger_release_sum:
  "sum_list (map se_amount (sl_entries (ledger_release e l))) \<le> sum_list (map se_amount (sl_entries l))"
  by (simp add: ledger_release_def Let_def update_first_amount_sum)

lemma ledger_inv_release:
  assumes inv: "ledger_inv w clk C R l" and i: "i < length C"
  shows "ledger_inv w clk C (insert i R) (ledger_release (C ! i) l)"
proof -
  let ?s = "word_of_nat i :: 64 word"
  have len: "length C \<le> 2 ^ 64" and sub: "R \<subseteq> {..<length C}" and sq: "fst (se_seqs (C ! i)) = ?s"
    using inv i by (auto simp: ledger_inv_def)
  have u: "unat ?s = i" using len i by (intro unat_of_nat_64) simp
  obtain lo where lo: "covers C R lo (sl_entries l)" "\<forall>i < lo. w \<le> clk - se_at (C ! i)"
    "\<forall>i \<in> R. lo \<le> i \<longrightarrow> word_of_nat i \<in> sl_refunded l"
    using inv by (auto simp: ledger_inv_def)
  show ?thesis
  proof (cases "?s \<in> sl_refunded l")
    case True
    then have "i \<in> R" using inv u by (force simp: ledger_inv_def)
    with True inv show ?thesis by (simp add: ledger_release_def sq insert_absorb)
  next
    case False
    define es where "es = update_first (\<lambda>e. se_contains e ?s)
        (\<lambda>e. e\<lparr>se_amount := se_amount e - se_amount (C ! i)\<rparr>) (sl_entries l)"
    have c: "covers C (insert i R) lo es"
    proof (cases "lo \<le> i")
      case True
      with False lo(3) have "i \<notin> R" by blast
      then show ?thesis unfolding es_def using True lo(1) i len by (intro covers_release) auto
    next
      case below: False
      then have "es = sl_entries l"
        unfolding es_def using covers_below [OF lo(1), of ?s] u by (intro update_first_none) simp
      then show ?thesis using covers_refund_outside [OF _ lo(1)] below by simp
    qed
    have mp: "map se_at es = map se_at (sl_entries l)"
      unfolding es_def by (rule update_first_amount_facts)
    have ages: "\<forall>e \<in> set es. se_at e \<le> clk"
    proof -
      have "\<forall>t \<in> set (map se_at (sl_entries l)). t \<le> clk" using inv by (auto simp: ledger_inv_def)
      then have "\<forall>t \<in> set (map se_at es). t \<le> clk" by (simp only: mp)
      then show ?thesis by simp
    qed
    have r: "ledger_release (C ! i) l = l\<lparr>sl_refunded := insert ?s (sl_refunded l), sl_entries := es\<rparr>"
      using False by (simp add: ledger_release_def Let_def sq es_def)
    show ?thesis
      unfolding r ledger_inv_def
    proof (intro conjI)
      show "\<exists>lo. covers C (insert i R) lo (sl_entries (l\<lparr>sl_refunded := insert ?s (sl_refunded l), sl_entries := es\<rparr>)) \<and>
          (\<forall>i < lo. w \<le> clk - se_at (C ! i)) \<and>
          (\<forall>j \<in> insert i R. lo \<le> j \<longrightarrow>
             word_of_nat j \<in> sl_refunded (l\<lparr>sl_refunded := insert ?s (sl_refunded l), sl_entries := es\<rparr>))"
        using c lo by (intro exI [of _ lo]) auto
      show "\<forall>s \<in> sl_refunded (l\<lparr>sl_refunded := insert ?s (sl_refunded l), sl_entries := es\<rparr>). unat s \<in> insert i R"
        using inv u by (auto simp: ledger_inv_def)
    qed (use inv i sub ages in \<open>auto simp: ledger_inv_def mp\<close>)
  qed
qed

end
