(* ===== verification/Pix_Recovery_Store.thy ===== *)
theory Pix_Recovery_Store
  imports Strategy_State "HOL-Library.List_Lexorder"
begin

text \<open>
  \<open>src/src/pix/recovery_store.rs\<close>: the encrypted store of recovered keys. The record \<open>crypto\<close>
  holds what other crates provide: the key derivation, the authenticated cipher (key, nonce,
  associated data, message), and the byte form of a \<open>PixAddressId\<close>. Random salts and nonces are
  arguments. A \<open>redb\<close> transaction may fail when it begins or when it commits and then leaves the
  database as it was; a table is iterated in the order of its keys.

  The code copies cipher texts and plain texts into arrays of fixed size; the cipher adds a tag of
  16 bytes, so the sizes fit, and the arrays are byte lists here.
\<close>

type_synonym byte = "8 word"
type_synonym bytes = "byte list"

record crypto =
  cr_scrypt :: "string \<Rightarrow> bytes \<Rightarrow> bytes"
  cr_seal :: "bytes \<Rightarrow> bytes \<Rightarrow> bytes \<Rightarrow> bytes \<Rightarrow> bytes option"
  cr_open :: "bytes \<Rightarrow> bytes \<Rightarrow> bytes \<Rightarrow> bytes \<Rightarrow> bytes option"
  cr_id_bytes :: "pix_id \<Rightarrow> bytes"
  cr_parse_id :: "bytes \<Rightarrow> string + pix_id"

datatype store_error =
    DatabaseError string
  | Io string
  | Encryption
  | Decryption
  | CorruptKey string
  | WrongPassword

fun show_store_error :: "store_error \<Rightarrow> string" where
  "show_store_error (DatabaseError m) = ''database error: '' @ m"
| "show_store_error (Io m) = ''I/O error: '' @ m"
| "show_store_error Encryption = ''encryption error''"
| "show_store_error Decryption = ''decryption error''"
| "show_store_error (CorruptKey m) = ''corrupt key: '' @ m"
| "show_store_error WrongPassword = ''the configured password does not match this recovery store''"

definition other_store :: "store_error \<Rightarrow> strategy_error" where
  \<comment> \<open>\<open>StrategyError::other\<close> on an error of the store\<close>
  "other_store e = OtherError (Text (show_store_error e))"

record store_db =
  db_salt :: "bytes option"
  db_verifier :: "bytes option"
  db_rows :: "(bytes \<times> bytes) list"

record recovery_store =
  rs_key :: bytes
  rs_db :: store_db

record tx_io =
  tx_begin :: "store_error option"
  tx_commit :: "store_error option"

definition nonce_size :: nat where
  "nonce_size = 12"

definition verifier_plaintext :: bytes where
  "verifier_plaintext =
     map of_char ''hopr-pix-recovery-store-verifier''"

definition verifier_aad :: bytes where
  "verifier_aad = replicate 14 0"

definition decode_key :: "crypto \<Rightarrow> bytes \<Rightarrow> store_error + pix_id" where
  "decode_key cr b = (case cr_parse_id cr b of Inl e \<Rightarrow> Inl (CorruptKey e) | Inr i \<Rightarrow> Inr i)"

definition encrypt :: "crypto \<Rightarrow> bytes \<Rightarrow> bytes \<Rightarrow> bytes \<Rightarrow> bytes \<Rightarrow> store_error + bytes" where
  "encrypt cr nonce key aad plaintext =
     (case cr_seal cr key nonce aad plaintext of
        None \<Rightarrow> Inl Encryption
      | Some ciphertext \<Rightarrow> Inr (nonce @ ciphertext))"

definition decrypt :: "crypto \<Rightarrow> bytes \<Rightarrow> bytes \<Rightarrow> bytes \<Rightarrow> store_error + bytes" where
  "decrypt cr key aad stored =
     (case cr_open cr key (take nonce_size stored) aad (drop nonce_size stored) of
        None \<Rightarrow> Inl Decryption
      | Some plaintext \<Rightarrow> Inr plaintext)"

section \<open>Operations\<close>

definition init_salt :: "bytes \<Rightarrow> store_db \<Rightarrow> bytes \<times> store_db" where
  \<comment> \<open>the first transaction of \<open>open\<close>\<close>
  "init_salt fresh db =
     (let s = (case db_salt db of Some s \<Rightarrow> s | None \<Rightarrow> fresh) in (s, db\<lparr>db_salt := Some s\<rparr>))"

definition check_verifier :: "crypto \<Rightarrow> bytes \<Rightarrow> bytes \<Rightarrow> store_db \<Rightarrow> store_error + store_db" where
  \<comment> \<open>the body of the second transaction of \<open>open\<close>\<close>
  "check_verifier cr nonce key db =
     (case db_verifier db of
        Some stored \<Rightarrow>
          (case decrypt cr key verifier_aad stored of
             Inl _ \<Rightarrow> Inl WrongPassword
           | Inr plaintext \<Rightarrow> if plaintext \<noteq> verifier_plaintext then Inl WrongPassword else Inr db)
      | None \<Rightarrow>
          (case encrypt cr nonce key verifier_aad verifier_plaintext of
             Inl e \<Rightarrow> Inl e
           | Inr v \<Rightarrow> Inr (db\<lparr>db_verifier := Some v\<rparr>)))"

definition in_tx :: "tx_io \<Rightarrow> 's \<Rightarrow> (store_error + 'a \<times> 's) \<Rightarrow> (store_error + 'a) \<times> 's" where
  \<comment> \<open>a write transaction around a body: nothing is kept unless the body and the commit succeed\<close>
  "in_tx io s body =
     (case tx_begin io of
        Some e \<Rightarrow> (Inl e, s)
      | None \<Rightarrow>
          (case body of
             Inl e \<Rightarrow> (Inl e, s)
           | Inr (a, s') \<Rightarrow> (case tx_commit io of Some e \<Rightarrow> (Inl e, s) | None \<Rightarrow> (Inr a, s'))))"

definition store_open ::
  "crypto \<Rightarrow> store_error option \<Rightarrow> tx_io \<Rightarrow> tx_io \<Rightarrow> bytes \<Rightarrow> bytes \<Rightarrow> string \<Rightarrow> store_db \<Rightarrow>
   (store_error + recovery_store) \<times> store_db" where
  \<comment> \<open>\<open>files\<close>: creating the directories and the database file\<close>
  "store_open cr files io1 io2 fresh_salt nonce password db =
     (case files of
        Some e \<Rightarrow> (Inl e, db)
      | None \<Rightarrow>
          (case in_tx io1 db (Inr (init_salt fresh_salt db)) of
             (Inl e, db1) \<Rightarrow> (Inl e, db1)
           | (Inr salt, db1) \<Rightarrow>
               (let key = cr_scrypt cr password salt in
                case in_tx io2 db1 (case check_verifier cr nonce key db1 of
                                      Inl e \<Rightarrow> Inl e | Inr db2 \<Rightarrow> Inr ((), db2)) of
                  (Inl e, db2) \<Rightarrow> (Inl e, db2)
                | (Inr _, db2) \<Rightarrow> (Inr \<lparr>rs_key = key, rs_db = db2\<rparr>, db2))))"

definition store_contains :: "crypto \<Rightarrow> store_error option \<Rightarrow> recovery_store \<Rightarrow> pix_id \<Rightarrow> store_error + bool" where
  "store_contains cr io st i =
     (case io of
        Some e \<Rightarrow> Inl e
      | None \<Rightarrow> Inr (map_of (db_rows (rs_db st)) (cr_id_bytes cr i) \<noteq> None))"

definition store_insert ::
  "crypto \<Rightarrow> tx_io \<Rightarrow> bytes \<Rightarrow> recovery_store \<Rightarrow> pix_id \<Rightarrow> bytes \<Rightarrow> (store_error + bool) \<times> recovery_store" where
  "store_insert cr io nonce st i secret =
     (let key = cr_id_bytes cr i in
      in_tx io st
        (case map_of (db_rows (rs_db st)) key of
           Some _ \<Rightarrow> Inr (False, st)
         | None \<Rightarrow>
             (case encrypt cr nonce (rs_key st) key secret of
                Inl e \<Rightarrow> Inl e
              | Inr stored \<Rightarrow>
                  Inr (True, st\<lparr>rs_db := (rs_db st)\<lparr>db_rows := (key, stored) # db_rows (rs_db st)\<rparr>\<rparr>))))"

definition store_remove ::
  "crypto \<Rightarrow> tx_io \<Rightarrow> recovery_store \<Rightarrow> pix_id \<Rightarrow> (store_error + bool) \<times> recovery_store" where
  "store_remove cr io st i =
     (let key = cr_id_bytes cr i in
      in_tx io st
        (Inr (map_of (db_rows (rs_db st)) key \<noteq> None,
              st\<lparr>rs_db := (rs_db st)\<lparr>db_rows := AList.delete key (db_rows (rs_db st))\<rparr>\<rparr>)))"

definition row_entry :: "crypto \<Rightarrow> bytes \<Rightarrow> (bytes \<Rightarrow> bool) \<Rightarrow> bytes \<times> bytes \<Rightarrow> (pix_id \<times> bytes) option" where
  \<comment> \<open>one iteration of the loop of \<open>iter\<close>; \<^const>\<open>None\<close> is a skipped row\<close>
  "row_entry cr enc unreadable row =
     (if unreadable (fst row) then None
      else case decode_key cr (fst row) of
        Inl _ \<Rightarrow> None
      | Inr i \<Rightarrow>
          (case decrypt cr enc (fst row) (snd row) of
             Inl _ \<Rightarrow> None
           | Inr plaintext \<Rightarrow> Some (i, plaintext)))"

definition store_iter ::
  "crypto \<Rightarrow> store_error option \<Rightarrow> (bytes \<Rightarrow> bool) \<Rightarrow> recovery_store \<Rightarrow> store_error + (pix_id \<times> bytes) list" where
  "store_iter cr io unreadable st =
     (case io of
        Some e \<Rightarrow> Inl e
      | None \<Rightarrow> Inr (List.map_filter (row_entry cr (rs_key st) unreadable) (sort_key fst (db_rows (rs_db st)))))"

section \<open>What the store promises\<close>

text \<open>Documented behaviour of the cipher and of the byte form of an id.\<close>

definition aead_roundtrip :: "crypto \<Rightarrow> bool" where
  "aead_roundtrip cr \<longleftrightarrow> (\<forall>k n a m c. cr_seal cr k n a m = Some c \<longrightarrow> cr_open cr k n a c = Some m)"

definition aead_binds :: "crypto \<Rightarrow> bool" where
  "aead_binds cr \<longleftrightarrow>
     (\<forall>k n a b m c. cr_seal cr k n a m = Some c \<longrightarrow> a \<noteq> b \<longrightarrow> cr_open cr k n b c = None)"

definition id_codec :: "crypto \<Rightarrow> bool" where
  "id_codec cr \<longleftrightarrow> (\<forall>i. cr_parse_id cr (cr_id_bytes cr i) = Inr i)"

lemma id_codec_inj: "id_codec cr \<Longrightarrow> cr_id_bytes cr i = cr_id_bytes cr j \<longleftrightarrow> i = j"
  unfolding id_codec_def by (metis sum.inject(2))

lemma decrypt_encrypt:
  "aead_roundtrip cr \<Longrightarrow> length nonce = nonce_size \<Longrightarrow> encrypt cr nonce key aad m = Inr v \<Longrightarrow>
   decrypt cr key aad v = Inr m"
  by (auto simp: encrypt_def decrypt_def aead_roundtrip_def split: option.splits)

lemma decrypt_elsewhere:
  "aead_binds cr \<Longrightarrow> length nonce = nonce_size \<Longrightarrow> encrypt cr nonce key aad m = Inr v \<Longrightarrow> aad \<noteq> aad' \<Longrightarrow>
   decrypt cr key aad' v = Inl Decryption"
  by (auto simp: encrypt_def decrypt_def aead_binds_def split: option.splits)

lemma in_tx_cases:
  assumes "in_tx io s body = (r, s')"
  obtains (failed) e where "r = Inl e" and "s' = s"
  | (committed) a where "r = Inr a" and "body = Inr (a, s')" and "tx_begin io = None" and "tx_commit io = None"
  using assms by (auto simp: in_tx_def split: option.splits sum.splits prod.splits)

lemma in_tx_ok [simp]:
  "tx_begin io = None \<Longrightarrow> tx_commit io = None \<Longrightarrow> in_tx io s (Inr (a, s')) = (Inr a, s')"
  "tx_begin io = None \<Longrightarrow> in_tx io s (Inl e) = (Inl e, s)"
  by (simp_all add: in_tx_def)

lemma store_insert_cases:
  assumes "store_insert cr io nonce st i secret = (r, st')"
  obtains (failed) e where "r = Inl e" and "st' = st"
  | (present) v where "r = Inr False" and "st' = st" and "map_of (db_rows (rs_db st)) (cr_id_bytes cr i) = Some v"
  | (added) v where "r = Inr True" and "map_of (db_rows (rs_db st)) (cr_id_bytes cr i) = None"
      and "encrypt cr nonce (rs_key st) (cr_id_bytes cr i) secret = Inr v"
      and "st' = st\<lparr>rs_db := (rs_db st)\<lparr>db_rows := (cr_id_bytes cr i, v) # db_rows (rs_db st)\<rparr>\<rparr>"
  using assms unfolding store_insert_def Let_def
  by (auto elim!: in_tx_cases split: option.splits sum.splits)

definition listed :: "crypto \<Rightarrow> (bytes \<Rightarrow> bool) \<Rightarrow> recovery_store \<Rightarrow> (pix_id \<times> bytes) set" where
  \<comment> \<open>what \<open>iter\<close> returns, as a set\<close>
  "listed cr unreadable st = {e. \<exists>row \<in> set (db_rows (rs_db st)). row_entry cr (rs_key st) unreadable row = Some e}"

lemma set_map_filter_ex: "set (List.map_filter f xs) = {y. \<exists>x \<in> set xs. f x = Some y}"
  by (induction xs) (auto simp: List.map_filter_simps split: option.splits)

lemma store_iter_listed:
  "store_iter cr None unreadable st = Inr xs \<Longrightarrow> set xs = listed cr unreadable st"
  by (auto simp: store_iter_def listed_def set_map_filter_ex)

lemma row_entry_encrypted:
  "aead_roundtrip cr \<Longrightarrow> id_codec cr \<Longrightarrow> length nonce = nonce_size \<Longrightarrow>
   encrypt cr nonce key (cr_id_bytes cr i) m = Inr v \<Longrightarrow> \<not> unreadable (cr_id_bytes cr i) \<Longrightarrow>
   row_entry cr key unreadable (cr_id_bytes cr i, v) = Some (i, m)"
  by (simp add: row_entry_def decode_key_def id_codec_def decrypt_encrypt)

text \<open>
  A key that is persisted as new is read back on the next iteration, together with everything
  that was stored before.
\<close>

theorem store_insert_iter:
  assumes "aead_roundtrip cr" and "id_codec cr" and "length nonce = nonce_size"
    and "store_insert cr io nonce st i secret = (Inr True, st')"
    and "\<not> unreadable (cr_id_bytes cr i)"
    and "store_iter cr None unreadable st = Inr xs" and "store_iter cr None unreadable st' = Inr ys"
  shows "set ys = insert (i, secret) (set xs)"
proof -
  from assms(4) obtain v where
    v: "encrypt cr nonce (rs_key st) (cr_id_bytes cr i) secret = Inr v"
      "st' = st\<lparr>rs_db := (rs_db st)\<lparr>db_rows := (cr_id_bytes cr i, v) # db_rows (rs_db st)\<rparr>\<rparr>"
    by (auto elim!: store_insert_cases)
  have "row_entry cr (rs_key st) unreadable (cr_id_bytes cr i, v) = Some (i, secret)"
    using assms v(1) by (intro row_entry_encrypted)
  then show ?thesis
    using assms(6,7) by (simp add: store_iter_listed listed_def v(2)) auto
qed

text \<open>
  Persisting never overwrites: the flag says whether the id was absent, every row that was
  there keeps its value, and a failed transaction leaves the store as it was.
\<close>

theorem store_insert_keeps:
  assumes "store_insert cr io nonce st i secret = (r, st')"
  shows "case r of
      Inl e \<Rightarrow> st' = st
    | Inr new \<Rightarrow> new = (store_contains cr None st i = Inr False) \<and> store_contains cr None st' i = Inr True \<and>
        (if new then length (db_rows (rs_db st')) = Suc (length (db_rows (rs_db st))) else st' = st) \<and>
        list_all (\<lambda>row. map_of (db_rows (rs_db st')) (fst row) = map_of (db_rows (rs_db st)) (fst row))
          (db_rows (rs_db st))"
  using assms
  by (cases rule: store_insert_cases)
     (auto simp: store_contains_def list_all_iff map_of_eq_None_iff intro: rev_image_eqI)

lemma relocated_row_skipped:
  assumes "aead_binds cr" and "length nonce = nonce_size" and "encrypt cr nonce key aad m = Inr v"
    and "k \<noteq> aad"
  shows "row_entry cr key unreadable (k, v) = None"
  using decrypt_elsewhere [OF assms(1-3)] assms(4) by (auto simp: row_entry_def split: sum.splits)

text \<open>
  A value moved to the row of another id is never attributed to that id: the iteration skips
  it, and everything else is listed as before.
\<close>

theorem relocated_value_skipped:
  assumes "aead_binds cr" and "id_codec cr" and "length nonce = nonce_size"
    and "encrypt cr nonce (rs_key st) (cr_id_bytes cr j) m = Inr v" and "i \<noteq> j"
    and "db_rows (rs_db st) = (cr_id_bytes cr i, v) # rows"
    and "store_iter cr None unreadable st = Inr xs"
    and "store_iter cr None unreadable (st\<lparr>rs_db := (rs_db st)\<lparr>db_rows := rows\<rparr>\<rparr>) = Inr ys"
  shows "set xs = set ys"
proof -
  have "cr_id_bytes cr i \<noteq> cr_id_bytes cr j" using assms(2,5) by (simp add: id_codec_inj)
  then have "row_entry cr (rs_key st) unreadable (cr_id_bytes cr i, v) = None"
    using assms by (intro relocated_row_skipped)
  then show ?thesis using assms(6-8) by (simp add: store_iter_listed listed_def)
qed

section \<open>Reopening\<close>

text \<open>The operations never touch the salt, the verifier or the derived key.\<close>

datatype store_op = InsertKey tx_io bytes pix_id bytes | RemoveKey tx_io pix_id

fun store_run :: "crypto \<Rightarrow> store_op list \<Rightarrow> recovery_store \<Rightarrow> recovery_store" where
  "store_run cr [] st = st"
| "store_run cr (InsertKey io nonce i secret # ops) st = store_run cr ops (snd (store_insert cr io nonce st i secret))"
| "store_run cr (RemoveKey io i # ops) st = store_run cr ops (snd (store_remove cr io st i))"

definition store_sealed :: "recovery_store \<Rightarrow> recovery_store \<Rightarrow> bool" where
  "store_sealed st st' \<longleftrightarrow>
     rs_key st' = rs_key st \<and> db_salt (rs_db st') = db_salt (rs_db st) \<and> db_verifier (rs_db st') = db_verifier (rs_db st)"

lemma store_insert_sealed: "store_sealed st (snd (store_insert cr io nonce st i secret))"
  by (auto simp: store_insert_def Let_def in_tx_def store_sealed_def split: option.splits sum.splits prod.splits)

lemma store_remove_sealed: "store_sealed st (snd (store_remove cr io st i))"
  by (auto simp: store_remove_def Let_def in_tx_def store_sealed_def split: option.splits)

lemma store_run_sealed: "store_sealed st (store_run cr ops st)"
proof (induction ops arbitrary: st)
  case Nil
  show ?case by (simp add: store_sealed_def)
next
  case (Cons op ops)
  show ?case
    using Cons store_insert_sealed store_remove_sealed
    by (cases op) (auto simp: store_sealed_def)
qed

lemma store_open_opened:
  assumes "aead_roundtrip cr" and "length nonce = nonce_size"
    and "store_open cr files io1 io2 fresh nonce password db = (Inr st, db')"
  shows "rs_db st = db' \<and>
    (\<exists>s v. db_salt db' = Some s \<and> rs_key st = cr_scrypt cr password s \<and> db_verifier db' = Some v \<and>
           decrypt cr (rs_key st) verifier_aad v = Inr verifier_plaintext)"
  using assms
  by (auto simp: store_open_def init_salt_def check_verifier_def Let_def decrypt_encrypt
      split: option.splits sum.splits prod.splits if_splits elim!: in_tx_cases)

lemma store_open_verified:
  assumes "tx_begin io1 = None" "tx_commit io1 = None" "tx_begin io2 = None" "tx_commit io2 = None"
    and "db_salt db = Some s" and "db_verifier db = Some v"
  shows "store_open cr None io1 io2 fresh nonce password db =
     (if decrypt cr (cr_scrypt cr password s) verifier_aad v = Inr verifier_plaintext
      then (Inr \<lparr>rs_key = cr_scrypt cr password s, rs_db = db\<rparr>, db) else (Inl WrongPassword, db))"
proof -
  have "db\<lparr>db_salt := Some s\<rparr> = db" using assms(5) by simp
  then show ?thesis
    using assms by (auto simp: store_open_def init_salt_def check_verifier_def Let_def split: sum.splits)
qed

text \<open>
  C38. A restart loses nothing: whatever was inserted and removed after the store was opened, opening
  the database again with the same password gives back the same store, so the same entries are
  replayed; and any password whose key does not decrypt the verifier is refused with
  \<open>WrongPassword\<close> instead of showing an empty store.
\<close>

theorem store_reopened:
  assumes "aead_roundtrip cr" and "length nonce = nonce_size"
    and "store_open cr files io1 io2 fresh nonce password db = (Inr st0, db0)"
    and "st = store_run cr ops st0"
    and "tx_begin io3 = None" "tx_commit io3 = None" "tx_begin io4 = None" "tx_commit io4 = None"
  shows "store_open cr None io3 io4 fresh' nonce' password (rs_db st) = (Inr st, rs_db st) \<and>
    (\<exists>s v. db_salt (rs_db st) = Some s \<and> db_verifier (rs_db st) = Some v \<and>
       fst (store_open cr None io3 io4 fresh' nonce' other (rs_db st)) =
         (if decrypt cr (cr_scrypt cr other s) verifier_aad v = Inr verifier_plaintext
          then Inr (st\<lparr>rs_key := cr_scrypt cr other s\<rparr>) else Inl WrongPassword))"
proof -
  obtain s v where sv: "db_salt (rs_db st0) = Some s" "rs_key st0 = cr_scrypt cr password s"
    "db_verifier (rs_db st0) = Some v" "decrypt cr (rs_key st0) verifier_aad v = Inr verifier_plaintext"
    using store_open_opened [OF assms(1-3)] by auto
  then have st: "db_salt (rs_db st) = Some s" "db_verifier (rs_db st) = Some v" "rs_key st = cr_scrypt cr password s"
    "decrypt cr (rs_key st) verifier_aad v = Inr verifier_plaintext"
    using store_run_sealed [of st0 cr ops] by (auto simp: assms(4) store_sealed_def)
  then show ?thesis
    using store_open_verified [OF assms(5-8) st(1,2)] by auto
qed

section \<open>A concrete cipher\<close>

text \<open>
  A cipher that meets the documented behaviour, for the witnesses: it writes the key and the
  associated data before the message in a prefix-free code.
\<close>

definition framed :: "bytes \<Rightarrow> bytes" where
  "framed b = replicate (length b) 1 @ 0 # b"

definition demo_crypto :: crypto where
  "demo_crypto =
     \<lparr>cr_scrypt = (\<lambda>p s. map of_char p @ s),
      cr_seal = (\<lambda>k n a m. Some (framed k @ framed a @ m)),
      cr_open = (\<lambda>k n a c.
        let h = framed k @ framed a in if take (length h) c = h then Some (drop (length h) c) else None),
      cr_id_bytes = (\<lambda>i. replicate i 1),
      cr_parse_id = (\<lambda>b. Inr (length b))\<rparr>"

lemma takeWhile_framed: "takeWhile (\<lambda>c. c = 1) (framed b @ x) = replicate (length b) 1"
proof -
  have "takeWhile (\<lambda>c. c = 1) (replicate n (1::byte) @ 0 # y) = replicate n 1" for n y
    by (induction n) auto
  then show ?thesis by (simp add: framed_def)
qed

lemma framed_prefix_free: "framed a @ x = framed b @ y \<Longrightarrow> a = b"
proof -
  assume eq: "framed a @ x = framed b @ y"
  then have "takeWhile (\<lambda>c. c = 1) (framed a @ x) = takeWhile (\<lambda>c. c = 1) (framed b @ y)" by simp
  then have "replicate (length a) (1::byte) = replicate (length b) 1"
    by (simp only: takeWhile_framed)
  then have len: "length a = length b" by simp
  with eq show "a = b" by (simp add: framed_def)
qed

lemma demo_roundtrip: "aead_roundtrip demo_crypto"
  by (simp add: aead_roundtrip_def demo_crypto_def Let_def)

lemma demo_binds: "aead_binds demo_crypto"
proof -
  have pf: "a = b" if "take (length (framed k @ framed b)) (framed k @ framed a @ m) = framed k @ framed b" for k a b m
  proof -
    define rest where "rest = drop (length (framed k @ framed b)) (framed k @ framed a @ m)"
    have "framed k @ framed a @ m = (framed k @ framed b) @ rest"
      using append_take_drop_id [of "length (framed k @ framed b)" "framed k @ framed a @ m"]
      by (simp only: that rest_def)
    then have "framed a @ m = framed b @ rest" by (simp only: append.assoc same_append_eq)
    then show ?thesis by (rule framed_prefix_free)
  qed
  have "cr_open demo_crypto k n b c = None" if "cr_seal demo_crypto k n a m = Some c" "a \<noteq> b" for k n a b m c
  proof -
    have c: "c = framed k @ framed a @ m" using that(1) by (simp add: demo_crypto_def)
    have "take (length (framed k @ framed b)) c \<noteq> framed k @ framed b"
      unfolding c using pf that(2) by blast
    then show ?thesis by (simp add: demo_crypto_def Let_def del: length_append)
  qed
  then show ?thesis unfolding aead_binds_def by blast
qed

lemma demo_codec: "id_codec demo_crypto"
  by (simp add: id_codec_def demo_crypto_def)

definition io_ok :: tx_io where
  "io_ok = \<lparr>tx_begin = None, tx_commit = None\<rparr>"

definition demo_nonce :: bytes where
  "demo_nonce = replicate 12 9"

definition demo_key :: bytes where
  "demo_key = map of_char ''pw'' @ [3]"

definition demo_store :: recovery_store where
  "demo_store =
     \<lparr>rs_key = demo_key,
      rs_db = \<lparr>db_salt = Some [3],
               db_verifier = Some (demo_nonce @ framed demo_key @ framed verifier_aad @ verifier_plaintext),
               db_rows = []\<rparr>\<rparr>"

lemma io_ok_simps [simp]: "tx_begin io_ok = None" "tx_commit io_ok = None"
  by (simp_all add: io_ok_def)

lemma demo_nonce_length [simp]: "length demo_nonce = nonce_size"
  by (simp add: demo_nonce_def nonce_size_def)

lemma demo_encrypt: "\<exists>v. encrypt demo_crypto nonce key aad m = Inr v"
  by (simp add: encrypt_def demo_crypto_def)

lemma demo_open:
  "store_open demo_crypto None io_ok io_ok [3] demo_nonce ''pw'' \<lparr>db_salt = None, db_verifier = None, db_rows = []\<rparr> =
     (Inr demo_store, rs_db demo_store)"
  by (simp add: demo_store_def demo_key_def store_open_def init_salt_def check_verifier_def encrypt_def
      demo_crypto_def Let_def)

lemma demo_rows: "db_rows (rs_db demo_store) = []"
  by (simp add: demo_store_def)

theorem store_insert_iter_witness:
  "\<exists>st' ys. store_insert demo_crypto io_ok demo_nonce demo_store 5 [7] = (Inr True, st') \<and>
     store_iter demo_crypto None (\<lambda>_. False) st' = Inr ys \<and> set ys = {(5, [7])}"
proof -
  obtain st' where st': "store_insert demo_crypto io_ok demo_nonce demo_store 5 [7] = (Inr True, st')"
    using demo_encrypt [of demo_nonce "rs_key demo_store" "cr_id_bytes demo_crypto 5" "[7]"]
    by (auto simp: store_insert_def demo_rows)
  obtain ys where ys: "store_iter demo_crypto None (\<lambda>_. False) st' = Inr ys" by (simp add: store_iter_def)
  have "store_iter demo_crypto None (\<lambda>_. False) demo_store = Inr []"
    by (simp add: store_iter_def demo_rows List.map_filter_simps)
  from store_insert_iter [OF demo_roundtrip demo_codec demo_nonce_length st' _ this ys]
  have "set ys = {(5, [7])}" by simp
  with st' ys show ?thesis by blast
qed

theorem store_insert_keeps_witness:
  "case store_insert demo_crypto io_ok demo_nonce demo_store 5 [7] of
     (Inl _, _) \<Rightarrow> False
   | (Inr new, st') \<Rightarrow> new \<and> store_contains demo_crypto None st' 5 = Inr True"
proof -
  obtain st' where st': "store_insert demo_crypto io_ok demo_nonce demo_store 5 [7] = (Inr True, st')"
    using demo_encrypt [of demo_nonce "rs_key demo_store" "cr_id_bytes demo_crypto 5" "[7]"]
    by (auto simp: store_insert_def demo_rows)
  with store_insert_keeps [OF st'] show ?thesis by simp
qed

theorem relocated_value_skipped_witness:
  "\<exists>v st. encrypt demo_crypto demo_nonce (rs_key st) (cr_id_bytes demo_crypto 4) [7] = Inr v \<and>
     db_rows (rs_db st) = [(cr_id_bytes demo_crypto 5, v)] \<and>
     store_iter demo_crypto None (\<lambda>_. False) st = Inr []"
proof -
  obtain v where v: "encrypt demo_crypto demo_nonce (rs_key demo_store) (cr_id_bytes demo_crypto 4) [7] = Inr v"
    using demo_encrypt by blast
  define st where "st = demo_store\<lparr>rs_db := (rs_db demo_store)\<lparr>db_rows := [(cr_id_bytes demo_crypto 5, v)]\<rparr>\<rparr>"
  obtain xs where xs: "store_iter demo_crypto None (\<lambda>_. False) st = Inr xs" by (simp add: store_iter_def)
  have "store_iter demo_crypto None (\<lambda>_. False) (st\<lparr>rs_db := (rs_db st)\<lparr>db_rows := []\<rparr>\<rparr>) = Inr []"
    by (simp add: store_iter_def List.map_filter_simps)
  then have "set xs = set []"
    by (intro relocated_value_skipped [OF demo_binds demo_codec demo_nonce_length _ _ _ xs, of 4 "[7]" v 5 "[]"])
       (simp_all add: st_def v)
  then have "store_iter demo_crypto None (\<lambda>_. False) st = Inr []" using xs by simp
  with v show ?thesis by (intro exI [of _ v] exI [of _ st]) (simp add: st_def)
qed

theorem store_reopened_witness:
  "\<exists>st. st = store_run demo_crypto [InsertKey io_ok demo_nonce 5 [7]] demo_store \<and>
     store_open demo_crypto None io_ok io_ok [4] demo_nonce ''pw'' (rs_db st) = (Inr st, rs_db st) \<and>
     fst (store_open demo_crypto None io_ok io_ok [4] demo_nonce ''pW'' (rs_db st)) = Inl WrongPassword"
proof -
  define st where "st = store_run demo_crypto [InsertKey io_ok demo_nonce 5 [7]] demo_store"
  note r = store_reopened [OF demo_roundtrip demo_nonce_length demo_open st_def,
      of io_ok io_ok "[4]" demo_nonce "''pW''", simplified]
  obtain s v where sv: "db_salt (rs_db st) = Some s" "db_verifier (rs_db st) = Some v"
    and other: "fst (store_open demo_crypto None io_ok io_ok [4] demo_nonce ''pW'' (rs_db st)) =
      (if decrypt demo_crypto (cr_scrypt demo_crypto ''pW'' s) verifier_aad v = Inr verifier_plaintext
       then Inr (st\<lparr>rs_key := cr_scrypt demo_crypto ''pW'' s\<rparr>) else Inl WrongPassword)"
    using r by blast
  have "s = [3]" "v = demo_nonce @ framed demo_key @ framed verifier_aad @ verifier_plaintext"
    using sv store_run_sealed [of demo_store demo_crypto "[InsertKey io_ok demo_nonce 5 [7]]"]
    by (simp_all add: st_def store_sealed_def demo_store_def)
  then have "decrypt demo_crypto (cr_scrypt demo_crypto ''pW'' s) verifier_aad v \<noteq> Inr verifier_plaintext"
    by (simp add: decrypt_def demo_crypto_def demo_key_def framed_def demo_nonce_def nonce_size_def Let_def)
  with r other show ?thesis unfolding st_def by auto
qed

end
