(* ===== verification/Pix_Engine.thy ===== *)
theory Pix_Engine
  imports Pix_Ledger Pix_Recovery_Store
begin

text \<open>
  The PIX strategy, \<open>src/src/pix/strategy.rs\<close>: configuration and construction, the handlers of
  \<open>on_pix_event\<close>, the flushes of the two debounced buffers, and the replay of persisted keys.

  \<^item> The three \<open>moka\<close> caches are the sets of the keys they hold; that they also drop entries on
    their own, by age or size, is an input of the run (\<open>Pix_Run\<close>).
  \<^item> A spawned flush is an entry of \<open>ps_tasks\<close> until the pool answers; \<open>flush_deposit_batch\<close> and
    \<open>flush_withdrawal_batch\<close> are what happens with that answer.
  \<^item> What the pool does is an argument: its answers, and in \<open>pool_view\<close> the address form it
    settles, the payload it reads and the keys it can rebuild.
  \<^item> \<open>ps_trace\<close> is not a field of the code. It records what the strategy did to the outside: pool
    calls, and reservations made and handed back.
\<close>

section \<open>Configuration\<close>

record pix_config =
  price_per_byte :: balance
  max_ssa_allocation :: balance
  max_spend_per_window :: balance
  spend_window :: duration
  pix_recovery_db_path :: "string option"
  pix_recovery_password_env :: "string option"
  deposit_buffer_period :: duration
  withdrawal_buffer_period :: duration

definition pix_default :: pix_config where
  "pix_default =
     \<lparr>price_per_byte = new_base 1, max_ssa_allocation = new_base 100, max_spend_per_window = new_base 10000,
      spend_window = secs 3600, pix_recovery_db_path = None, pix_recovery_password_env = None,
      deposit_buffer_period = millis 500, withdrawal_buffer_period = millis 500\<rparr>"

definition validate_min_1sec :: "duration \<Rightarrow> bool" where
  "validate_min_1sec d \<longleftrightarrow> \<not> d div 1000000000 < 1"

definition validate_pix :: "pix_config \<Rightarrow> bool" where
  "validate_pix cfg \<longleftrightarrow> validate_min_1sec (spend_window cfg)"

section \<open>Payloads\<close>

record deposit_data =
  dd_id :: pix_id
  dd_bytes :: bytes

datatype byte_deposit_data = ByteDepositData pix_id bytes

definition for_id :: "pix_id \<Rightarrow> byte_deposit_data" where
  "for_id i = ByteDepositData i []"

definition byte_data_from :: "deposit_data \<Rightarrow> strategy_error + byte_deposit_data" where
  "byte_data_from d = Inr (ByteDepositData (dd_id d) (dd_bytes d))"

fun byte_data_into :: "byte_deposit_data \<Rightarrow> strategy_error + deposit_data" where
  "byte_data_into (ByteDepositData i b) = Inr \<lparr>dd_id = i, dd_bytes = b\<rparr>"

section \<open>State\<close>

type_synonym wire_address = nat

record buffered_deposit =
  bd_id :: pix_id
  bd_dest :: address
  bd_amount :: balance
  bd_data :: byte_deposit_data
  bd_spend :: spend_entry

datatype pix_task =
    DepositTask "buffered_deposit list"
  | WithdrawTask "(pix_id \<times> bytes) list"
  | DataTask "pix_id list"
  | TrackTask pix_id address balance

datatype pix_effect =
    Reserved spend_entry
  | Released spend_entry
  | DepositCall "(pix_id \<times> address \<times> balance \<times> byte_deposit_data) list"
  | WithdrawCall "(pix_id \<times> bytes) list" address

record pix_state =
  ps_cfg :: pix_config
  ps_safe :: address
  ps_store :: "recovery_store option"
  ps_processed :: "pix_id set"
  ps_sweeps :: "pix_id set"
  ps_dests :: "address set"
  ps_deposits :: "buffered_deposit list"
  ps_withdrawals :: "(pix_id \<times> bytes) list"
  ps_ledger :: spend_ledger
  ps_detach :: bool
  ps_tasks :: "pix_task list"
  ps_trace :: "pix_effect list"

definition trace :: "pix_effect \<Rightarrow> pix_state \<Rightarrow> pix_state" where
  "trace e st = st\<lparr>ps_trace := ps_trace st @ [e]\<rparr>"

lemma trace_simps [simp]:
  "ps_trace (trace e st) = ps_trace st @ [e]" "ps_cfg (trace e st) = ps_cfg st"
  "ps_safe (trace e st) = ps_safe st" "ps_store (trace e st) = ps_store st"
  "ps_processed (trace e st) = ps_processed st" "ps_sweeps (trace e st) = ps_sweeps st"
  "ps_dests (trace e st) = ps_dests st" "ps_deposits (trace e st) = ps_deposits st"
  "ps_withdrawals (trace e st) = ps_withdrawals st" "ps_ledger (trace e st) = ps_ledger st"
  "ps_detach (trace e st) = ps_detach st" "ps_tasks (trace e st) = ps_tasks st"
  by (simp_all add: trace_def)

section \<open>Construction\<close>

definition open_recovery_store ::
  "(string \<Rightarrow> string option) \<Rightarrow> (string \<Rightarrow> string \<Rightarrow> store_error + recovery_store) \<Rightarrow>
   string option \<Rightarrow> string option \<Rightarrow> strategy_error + recovery_store option" where
  \<comment> \<open>\<open>getenv\<close> is the process environment, \<open>opener\<close> is \<open>PixRecoveryStore::open\<close> on the files of the node\<close>
  "open_recovery_store getenv opener db_path password_env =
     (case (db_path, password_env) of
        (Some path, Some env) \<Rightarrow>
          (case getenv env of
             None \<Rightarrow> Inl (OtherError (Text (''environment variable '' @ env @
               '' must be set when PIX recovery persistence is enabled'')))
           | Some password \<Rightarrow>
               (case opener path password of
                  Inl e \<Rightarrow> Inl (other_store e)
                | Inr store \<Rightarrow> Inr (Some store)))
      | (None, None) \<Rightarrow> Inr None
      | (Some _, None) \<Rightarrow>
          Inl (OtherError (Text ''pix_recovery_password_env must be set when pix_recovery_db_path is set''))
      | (None, Some _) \<Rightarrow>
          Inl (OtherError (Text ''pix_recovery_db_path must be set when pix_recovery_password_env is set'')))"

definition pix_initial :: "pix_config \<Rightarrow> address \<Rightarrow> recovery_store option \<Rightarrow> pix_state" where
  "pix_initial cfg safe store =
     \<lparr>ps_cfg = cfg, ps_safe = safe, ps_store = store, ps_processed = {}, ps_sweeps = {}, ps_dests = {},
      ps_deposits = [], ps_withdrawals = [], ps_ledger = ledger_default, ps_detach = False,
      ps_tasks = [], ps_trace = []\<rparr>"

definition build_with_pool ::
  "(string \<Rightarrow> string option) \<Rightarrow> (string \<Rightarrow> string \<Rightarrow> store_error + recovery_store) \<Rightarrow>
   pix_config \<Rightarrow> address \<Rightarrow> strategy_error + pix_state" where
  "build_with_pool getenv opener cfg safe =
     (if \<not> validate_pix cfg then Inl (InvalidConfiguration ''spend_window'')
      else case open_recovery_store getenv opener (pix_recovery_db_path cfg) (pix_recovery_password_env cfg) of
        Inl e \<Rightarrow> Inl e
      | Inr store \<Rightarrow> Inr (pix_initial cfg safe store))"

section \<open>Flushing deposits\<close>

record deposit_answer =
  da_single :: "strategy_error + unit"
  da_multi :: "strategy_error + (strategy_error + pix_id) list"

definition refund :: "spend_entry \<Rightarrow> pix_state \<Rightarrow> pix_state" where
  "refund spend st = trace (Released spend) (st\<lparr>ps_ledger := ledger_release spend (ps_ledger st)\<rparr>)"

definition pool_item :: "buffered_deposit \<Rightarrow> pix_id \<times> address \<times> balance \<times> byte_deposit_data" where
  "pool_item d = (bd_id d, bd_dest d, bd_amount d, bd_data d)"

definition flush_single :: "strategy_error + unit \<Rightarrow> buffered_deposit \<Rightarrow> pix_state \<Rightarrow> pix_state" where
  "flush_single ans d st =
     (let st1 = st\<lparr>ps_dests := ps_dests st - {bd_dest d}\<rparr> in
      case ans of
        Inr _ \<Rightarrow> st1\<lparr>ps_processed := insert (bd_id d) (ps_processed st1)\<rparr>
      | Inl error \<Rightarrow> if moved_no_funds error then refund (bd_spend d) st1 else st1)"

record batch_tally =
  bt_processed :: "pix_id set"
  bt_fund_free :: bool
  bt_failures :: nat
  bt_settled :: "pix_id set"

definition tally_outcome :: "pix_id set \<Rightarrow> strategy_error + pix_id \<Rightarrow> batch_tally \<Rightarrow> batch_tally" where
  "tally_outcome batch_ids outcome t =
     (case outcome of
        Inr i \<Rightarrow>
          t\<lparr>bt_processed := insert i (bt_processed t),
            bt_settled := (if i \<in> batch_ids then insert i (bt_settled t) else bt_settled t)\<rparr>
      | Inl error \<Rightarrow>
          t\<lparr>bt_failures := bt_failures t + 1,
            bt_fund_free := (bt_fund_free t \<and> moved_no_funds error)\<rparr>)"

definition may_refund :: "nat \<Rightarrow> nat \<Rightarrow> batch_tally \<Rightarrow> bool" where
  \<comment> \<open>the number of deposits and of outcomes\<close>
  "may_refund count outcomes_len t \<longleftrightarrow>
     bt_fund_free t \<and> outcomes_len = card (bt_settled t) + bt_failures t \<and>
     bt_failures t = count - card (bt_settled t)"

definition release_dests :: "buffered_deposit list \<Rightarrow> pix_state \<Rightarrow> pix_state" where
  "release_dests ds st = fold (\<lambda>d st. st\<lparr>ps_dests := ps_dests st - {bd_dest d}\<rparr>) ds st"

definition refund_unless :: "(pix_id \<Rightarrow> bool) \<Rightarrow> buffered_deposit list \<Rightarrow> pix_state \<Rightarrow> pix_state" where
  "refund_unless skip ds st = fold (\<lambda>d st. if skip (bd_id d) then st else refund (bd_spend d) st) ds st"

definition flush_multiple ::
  "strategy_error + (strategy_error + pix_id) list \<Rightarrow> buffered_deposit list \<Rightarrow> pix_state \<Rightarrow> pix_state" where
  "flush_multiple ans ds st =
     (let st1 = release_dests ds st in
      case ans of
        Inr outcomes \<Rightarrow>
          (let t = fold (tally_outcome (set (map bd_id ds))) outcomes
                 \<lparr>bt_processed = ps_processed st1, bt_fund_free = True, bt_failures = 0, bt_settled = {}\<rparr>;
               st2 = st1\<lparr>ps_processed := bt_processed t\<rparr> in
           if may_refund (length ds) (length outcomes) t
           then refund_unless (\<lambda>i. i \<in> bt_settled t) ds st2 else st2)
      | Inl error \<Rightarrow> if moved_no_funds error then refund_unless (\<lambda>_. False) ds st1 else st1)"

definition flush_deposit_batch :: "deposit_answer \<Rightarrow> buffered_deposit list \<Rightarrow> pix_state \<Rightarrow> pix_state" where
  "flush_deposit_batch ans batch st =
     (case batch of
        [] \<Rightarrow> st
      | [d] \<Rightarrow> flush_single (da_single ans) d (trace (DepositCall [pool_item d]) st)
      | _ \<Rightarrow> flush_multiple (da_multi ans) batch (trace (DepositCall (map pool_item batch)) st))"

definition flush_deposits :: "deposit_answer \<Rightarrow> pix_state \<Rightarrow> pix_state" where
  "flush_deposits ans st = flush_deposit_batch ans (ps_deposits st) (st\<lparr>ps_deposits := []\<rparr>)"

definition detach_flush_deposits :: "pix_state \<Rightarrow> pix_state" where
  "detach_flush_deposits st =
     (if ps_deposits st = [] then st
      else st\<lparr>ps_deposits := [], ps_tasks := ps_tasks st @ [DepositTask (ps_deposits st)]\<rparr>)"

text \<open>
  What the flush relies on from a pool: an error that is classified as fund-free means that the
  settlement moved nothing. Then a deposit that may have moved funds stays counted.
\<close>

locale deposit_pool =
  fixes settle :: "pix_id \<Rightarrow> balance \<Rightarrow> byte_deposit_data \<Rightarrow> 'chain \<Rightarrow> (strategy_error + unit) \<times> 'progress"
    and moved :: "'progress \<Rightarrow> bool"
  assumes fund_free: "settle i a d c = (Inl e, p) \<Longrightarrow> moved_no_funds e \<Longrightarrow> \<not> moved p"
begin

lemma moved_stays_counted:
  assumes "settle (bd_id d) (bd_amount d) (bd_data d) c = (r, p)" and "moved p"
  shows "ps_trace (flush_deposit_batch (ans\<lparr>da_single := r\<rparr>) [d] st) = ps_trace st @ [DepositCall [pool_item d]]"
  using assms fund_free by (cases r) (auto simp: flush_deposit_batch_def flush_single_def Let_def)

end

section \<open>Flushing withdrawals\<close>

record pool_view =
  pv_narrow :: "wire_address \<Rightarrow> address option"
  pv_read :: "deposit_data \<Rightarrow> strategy_error + byte_deposit_data"
  pv_key :: "bytes \<Rightarrow> bytes option"

record withdraw_answer =
  wa_single :: "strategy_error + unit"
  wa_multi :: "strategy_error + (strategy_error + pix_id) list"
  wa_io :: "pix_id \<Rightarrow> tx_io"

definition end_sweep :: "pix_id \<Rightarrow> pix_state \<Rightarrow> pix_state" where
  "end_sweep i st = st\<lparr>ps_sweeps := ps_sweeps st - {i}\<rparr>"

definition forget_key :: "crypto \<Rightarrow> tx_io \<Rightarrow> pix_id \<Rightarrow> pix_state \<Rightarrow> pix_state" where
  "forget_key cr io i st =
     (case ps_store st of
        None \<Rightarrow> st
      | Some store \<Rightarrow> st\<lparr>ps_store := Some (snd (store_remove cr io store i))\<rparr>)"

definition usable_keys :: "pool_view \<Rightarrow> (pix_id \<times> bytes) list \<Rightarrow> (pix_id \<times> bytes) list" where
  "usable_keys pv batch =
     List.map_filter (\<lambda>(i, secret). case pv_key pv secret of Some key \<Rightarrow> Some (i, key) | None \<Rightarrow> None) batch"

definition drop_unusable :: "pool_view \<Rightarrow> (pix_id \<times> bytes) list \<Rightarrow> pix_state \<Rightarrow> pix_state" where
  "drop_unusable pv batch st =
     fold (\<lambda>(i, secret) st. if pv_key pv secret = None then end_sweep i st else st) batch st"

definition flush_withdrawal_single ::
  "crypto \<Rightarrow> pool_view \<Rightarrow> withdraw_answer \<Rightarrow> pix_id \<Rightarrow> bytes \<Rightarrow> pix_state \<Rightarrow> pix_state" where
  "flush_withdrawal_single cr pv ans i secret st =
     (case pv_key pv secret of
        None \<Rightarrow> end_sweep i st
      | Some key \<Rightarrow>
          (let st1 = end_sweep i (trace (WithdrawCall [(i, key)] (ps_safe st)) st) in
           case wa_single ans of
             Inr _ \<Rightarrow> forget_key cr (wa_io ans i) i st1
           | Inl _ \<Rightarrow> st1))"

definition forget_swept ::
  "crypto \<Rightarrow> (pix_id \<Rightarrow> tx_io) \<Rightarrow> (strategy_error + pix_id) list \<Rightarrow> pix_state \<Rightarrow> pix_state" where
  "forget_swept cr io outcomes st =
     fold (\<lambda>outcome st. case outcome of Inr i \<Rightarrow> forget_key cr (io i) i st | Inl _ \<Rightarrow> st) outcomes st"

definition flush_withdrawal_multiple ::
  "crypto \<Rightarrow> pool_view \<Rightarrow> withdraw_answer \<Rightarrow> (pix_id \<times> bytes) list \<Rightarrow> pix_state \<Rightarrow> pix_state" where
  "flush_withdrawal_multiple cr pv ans batch st =
     (let keys = usable_keys pv batch;
          st1 = drop_unusable pv batch st in
      if keys = [] then st1
      else
        let st2 = fold (\<lambda>(i, _) st. end_sweep i st) keys (trace (WithdrawCall keys (ps_safe st1)) st1) in
        case wa_multi ans of
          Inr outcomes \<Rightarrow> forget_swept cr (wa_io ans) outcomes st2
        | Inl _ \<Rightarrow> st2)"

definition flush_withdrawal_batch ::
  "crypto \<Rightarrow> pool_view \<Rightarrow> withdraw_answer \<Rightarrow> (pix_id \<times> bytes) list \<Rightarrow> pix_state \<Rightarrow> pix_state" where
  "flush_withdrawal_batch cr pv ans batch st =
     (case batch of
        [] \<Rightarrow> st
      | [(i, secret)] \<Rightarrow> flush_withdrawal_single cr pv ans i secret st
      | _ \<Rightarrow> flush_withdrawal_multiple cr pv ans batch st)"

definition flush_withdrawals :: "crypto \<Rightarrow> pool_view \<Rightarrow> withdraw_answer \<Rightarrow> pix_state \<Rightarrow> pix_state" where
  "flush_withdrawals cr pv ans st =
     flush_withdrawal_batch cr pv ans (ps_withdrawals st) (st\<lparr>ps_withdrawals := []\<rparr>)"

definition detach_flush_withdrawals :: "pix_state \<Rightarrow> pix_state" where
  "detach_flush_withdrawals st =
     (if ps_withdrawals st = [] then st
      else st\<lparr>ps_withdrawals := [], ps_tasks := ps_tasks st @ [WithdrawTask (ps_withdrawals st)]\<rparr>)"

section \<open>Events\<close>

datatype pix_event =
    NewDepositAddress pix_id wire_address nat deposit_data
  | DepositDataRequest "pix_id list"
  | DepositAddressReceived pix_id wire_address nat
  | PrivateKeyRecovered pix_id bytes

text \<open>
  What one event meets: the instants at which the ledger is asked and written, the nonce and the
  transaction of the store, whether the pool can track a deposit, and the pool's answers should the
  handler flush inline.
\<close>

record pix_env =
  pe_check :: instant
  pe_commit :: instant
  pe_nonce :: bytes
  pe_io :: tx_io
  pe_notify :: "strategy_error option"
  pe_deposit :: deposit_answer
  pe_withdraw :: withdraw_answer

definition spent_in_window :: "instant \<Rightarrow> pix_state \<Rightarrow> balance \<times> pix_state" where
  "spent_in_window now st =
     (let (spent, l) = ledger_spent (spend_window (ps_cfg st)) now (ps_ledger st) in (spent, st\<lparr>ps_ledger := l\<rparr>))"

definition commit_spend :: "balance \<Rightarrow> instant \<Rightarrow> pix_state \<Rightarrow> spend_entry \<times> pix_state" where
  "commit_spend amount now st =
     (let (entry, l) = ledger_commit amount now (ps_ledger st) in
      (entry, trace (Reserved entry) (st\<lparr>ps_ledger := l\<rparr>)))"

definition over_budget :: "instant \<Rightarrow> balance \<Rightarrow> pix_state \<Rightarrow> bool \<times> pix_state" where
  "over_budget now target st =
     (if max_spend_per_window (ps_cfg st) \<noteq> 0
      then let (spent, st1) = spent_in_window now st in
           (max_spend_per_window (ps_cfg st) < bal_add spent target, st1)
      else (False, st))"

definition buffer_deposit ::
  "pix_env \<Rightarrow> pix_id \<Rightarrow> address \<Rightarrow> balance \<Rightarrow> byte_deposit_data \<Rightarrow> pix_state \<Rightarrow> pix_state" where
  "buffer_deposit env i dest target payload st =
     (let (spend, st1) = commit_spend target (pe_commit env) (st\<lparr>ps_dests := insert dest (ps_dests st)\<rparr>);
          st2 = st1\<lparr>ps_deposits := ps_deposits st1 @
            [\<lparr>bd_id = i, bd_dest = dest, bd_amount = target, bd_data = payload, bd_spend = spend\<rparr>]\<rparr> in
      if deposit_buffer_period (ps_cfg st2) = 0
      then if ps_detach st2 then detach_flush_deposits st2 else flush_deposits (pe_deposit env) st2
      else st2)"

definition on_new_deposit ::
  "pool_view \<Rightarrow> pix_env \<Rightarrow> pix_id \<Rightarrow> wire_address \<Rightarrow> nat \<Rightarrow> deposit_data \<Rightarrow> pix_state \<Rightarrow>
   (strategy_error + unit) \<times> pix_state" where
  "on_new_deposit pv env i wire quota data st =
     (if i \<in> ps_processed st then (Inr (), st)
      else
        let target = bal_mul (price_per_byte (ps_cfg st)) quota in
        if max_ssa_allocation (ps_cfg st) < target then (Inl CriteriaNotSatisfied, st)
        else
          let (over, st1) = over_budget (pe_check env) target st in
          if over then (Inl CriteriaNotSatisfied, st1)
          else
            case pv_narrow pv wire of
              None \<Rightarrow> (Inl (GeneralError InvalidInput), st1)
            | Some dest \<Rightarrow>
                if dest \<in> ps_dests st1 then (Inr (), st1)
                else if dd_id data \<noteq> i then (Inl (GeneralError InvalidInput), st1)
                else
                  case pv_read pv data of
                    Inl e \<Rightarrow> (Inl e, st1)
                  | Inr payload \<Rightarrow> (Inr (), buffer_deposit env i dest target payload st1))"

definition on_address_received ::
  "pool_view \<Rightarrow> pix_env \<Rightarrow> pix_id \<Rightarrow> wire_address \<Rightarrow> nat \<Rightarrow> pix_state \<Rightarrow> (strategy_error + unit) \<times> pix_state" where
  "on_address_received pv env i wire quota st =
     (let target = bal_mul (price_per_byte (ps_cfg st)) quota in
      case pv_narrow pv wire of
        None \<Rightarrow> (Inl (GeneralError InvalidInput), st)
      | Some track \<Rightarrow>
          (case pe_notify env of
             Some _ \<Rightarrow> (Inl CriteriaNotSatisfied, st)
           | None \<Rightarrow> (Inr (), st\<lparr>ps_tasks := ps_tasks st @ [TrackTask i track target]\<rparr>)))"

definition persist_key ::
  "crypto \<Rightarrow> pix_env \<Rightarrow> pix_id \<Rightarrow> bytes \<Rightarrow> pix_state \<Rightarrow> store_error option \<times> pix_state" where
  "persist_key cr env i secret st =
     (case ps_store st of
        None \<Rightarrow> (None, st)
      | Some store \<Rightarrow>
          (case store_insert cr (pe_io env) (pe_nonce env) store i secret of
             (Inl e, store') \<Rightarrow> (Some e, st\<lparr>ps_store := Some store'\<rparr>)
           | (Inr _, store') \<Rightarrow> (None, st\<lparr>ps_store := Some store'\<rparr>)))"

definition on_key_recovered ::
  "crypto \<Rightarrow> pool_view \<Rightarrow> pix_env \<Rightarrow> pix_id \<Rightarrow> bytes \<Rightarrow> pix_state \<Rightarrow> (strategy_error + unit) \<times> pix_state" where
  "on_key_recovered cr pv env i secret st =
     (case persist_key cr env i secret st of
        (Some e, st1) \<Rightarrow> (Inl (other_store e), st1)
      | (None, st1) \<Rightarrow>
          if i \<in> ps_sweeps st1 then (Inr (), st1)
          else
            let st2 = st1\<lparr>ps_sweeps := insert i (ps_sweeps st1),
                          ps_withdrawals := ps_withdrawals st1 @ [(i, secret)]\<rparr> in
            (Inr (),
             if withdrawal_buffer_period (ps_cfg st2) = 0
             then if ps_detach st2 then detach_flush_withdrawals st2
                  else flush_withdrawals cr pv (pe_withdraw env) st2
             else st2))"

fun on_pix_event ::
  "crypto \<Rightarrow> pool_view \<Rightarrow> pix_env \<Rightarrow> pix_event \<Rightarrow> pix_state \<Rightarrow> (strategy_error + unit) \<times> pix_state" where
  "on_pix_event cr pv env (NewDepositAddress i wire quota data) st = on_new_deposit pv env i wire quota data st"
| "on_pix_event cr pv env (DepositDataRequest ids) st = (Inr (), st\<lparr>ps_tasks := ps_tasks st @ [DataTask ids]\<rparr>)"
| "on_pix_event cr pv env (DepositAddressReceived i wire quota) st = on_address_received pv env i wire quota st"
| "on_pix_event cr pv env (PrivateKeyRecovered i secret) st = on_key_recovered cr pv env i secret st"

section \<open>Answers to the Exit\<close>

definition send_payload ::
  "(pix_id \<Rightarrow> strategy_error + deposit_data) \<Rightarrow> (nat \<Rightarrow> bool) \<Rightarrow> pix_id \<Rightarrow> deposit_data list \<Rightarrow>
   deposit_data list \<times> loop_ctl" where
  \<comment> \<open>\<open>open n\<close>: the receiver still takes a payload after \<open>n\<close> of them\<close>
  "send_payload generate still_open i sent =
     (case generate i of
        Inr d \<Rightarrow> if still_open (length sent) then (sent @ [d], Continue) else (sent, Break)
      | Inl _ \<Rightarrow> (sent, Continue))"

definition data_task :: "(pix_id \<Rightarrow> strategy_error + deposit_data) \<Rightarrow> (nat \<Rightarrow> bool) \<Rightarrow> pix_id list \<Rightarrow> deposit_data list" where
  "data_task generate still_open ids = for_loop (send_payload generate still_open) ids []"

definition track_task :: "strategy_error + (pix_id \<times> address \<times> balance) \<Rightarrow> (pix_id \<times> balance) option" where
  \<comment> \<open>what the notifier is sent once the tracking future ends\<close>
  "track_task result = (case result of Inr (i, _, b) \<Rightarrow> Some (i, b) | Inl _ \<Rightarrow> None)"

section \<open>Replay\<close>

record pix_replay =
  rp_current :: "pix_id option"
  rp_rest :: "(pix_id \<times> bytes) list"

definition replay_start :: "crypto \<Rightarrow> store_error option \<Rightarrow> (bytes \<Rightarrow> bool) \<Rightarrow> pix_state \<Rightarrow> pix_replay option" where
  "replay_start cr io unreadable st =
     (case ps_store st of
        None \<Rightarrow> None
      | Some store \<Rightarrow>
          (case store_iter cr io unreadable store of
             Inl _ \<Rightarrow> None
           | Inr entries \<Rightarrow> if entries = [] then None else Some \<lparr>rp_current = None, rp_rest = entries\<rparr>))"

definition replay_entry :: "pool_view \<Rightarrow> pix_id \<Rightarrow> bytes \<Rightarrow> pix_state \<Rightarrow> pix_id option \<times> pix_state" where
  \<comment> \<open>one iteration up to the call of the pool; \<^const>\<open>None\<close> is \<open>continue\<close>\<close>
  "replay_entry pv i secret st =
     (if i \<in> ps_sweeps st then (None, st)
      else
        let st1 = st\<lparr>ps_sweeps := insert i (ps_sweeps st)\<rparr> in
        case pv_key pv secret of
          None \<Rightarrow> (None, st1)
        | Some key \<Rightarrow> (Some i, trace (WithdrawCall [(i, key)] (ps_safe st1)) st1))"

definition replay_answer :: "crypto \<Rightarrow> tx_io \<Rightarrow> pix_id \<Rightarrow> strategy_error + unit \<Rightarrow> pix_state \<Rightarrow> pix_state" where
  "replay_answer cr io i ans st =
     (let st1 = end_sweep i st in
      case ans of
        Inr _ \<Rightarrow> forget_key cr io i st1
      | Inl _ \<Rightarrow> st1)"

end
