(* ===== verification/Pix_Run.thy ===== *)
theory Pix_Run
  imports Pix_Engine "HOL-Library.Multiset"
begin

text \<open>
  The run loop of the PIX strategy (\<open>run\<close> in \<open>src/src/pix/strategy.rs\<close>) as a function of what
  happens to it: events, elapsed timers, answers of the pool to spawned flushes, the progress of the
  replay task, and entries the caches drop on their own. The instants an input carries are those at
  which the code reads its clock.

  What the properties rest on is one invariant per concern, kept by every input: the spending
  ledger (\<open>spend_inv\<close>), the destinations in flight (\<open>dest_inv\<close>), and the bookkeeping of buffered
  deposits (\<open>flow_inv\<close>).
\<close>

record pix_loop =
  pl_state :: pix_state
  pl_deposit_at :: "instant option"
  pl_withdraw_at :: "instant option"
  pl_replay :: "pix_replay option"

datatype pix_input =
    EventIn pix_env pix_event instant instant
  | TimerIn instant
  | TaskIn nat deposit_answer withdraw_answer
  | ReplayIn
  | ReplayAnswer tx_io "strategy_error + unit"
  | CacheDrop "pix_id set" "pix_id set" "address set"

fun sleep_deadline :: "instant option \<Rightarrow> instant option \<Rightarrow> instant option" where
  "sleep_deadline (Some d) (Some w) = Some (min d w)"
| "sleep_deadline (Some d) None = Some d"
| "sleep_deadline None w = w"

definition arm :: "instant \<Rightarrow> duration \<Rightarrow> 'a list \<Rightarrow> instant option \<Rightarrow> instant option" where
  "arm now period buffer deadline = (if buffer \<noteq> [] then Some (now + period) else deadline)"

definition due :: "instant \<Rightarrow> instant option \<Rightarrow> bool" where
  "due now deadline \<longleftrightarrow> (case deadline of Some d \<Rightarrow> d \<le> now | None \<Rightarrow> False)"

definition loop_pix_event :: "crypto \<Rightarrow> pool_view \<Rightarrow> pix_env \<Rightarrow> pix_event \<Rightarrow> instant \<Rightarrow> instant \<Rightarrow> pix_loop \<Rightarrow> pix_loop" where
  "loop_pix_event cr pv env ev now1 now2 lp =
     (let st = snd (on_pix_event cr pv env ev (pl_state lp)) in
      lp\<lparr>pl_state := st,
         pl_deposit_at := arm now1 (deposit_buffer_period (ps_cfg st)) (ps_deposits st) (pl_deposit_at lp),
         pl_withdraw_at := arm now2 (withdrawal_buffer_period (ps_cfg st)) (ps_withdrawals st) (pl_withdraw_at lp)\<rparr>)"

definition loop_timer :: "instant \<Rightarrow> pix_loop \<Rightarrow> pix_loop" where
  "loop_timer now lp =
     (let lp1 = (if due now (pl_deposit_at lp)
                 then lp\<lparr>pl_state := detach_flush_deposits (pl_state lp), pl_deposit_at := None\<rparr> else lp) in
      if due now (pl_withdraw_at lp1)
      then lp1\<lparr>pl_state := detach_flush_withdrawals (pl_state lp1), pl_withdraw_at := None\<rparr> else lp1)"

definition end_task :: "crypto \<Rightarrow> pool_view \<Rightarrow> nat \<Rightarrow> deposit_answer \<Rightarrow> withdraw_answer \<Rightarrow> pix_state \<Rightarrow> pix_state" where
  "end_task cr pv i da wa st =
     (if i < length (ps_tasks st)
      then let st1 = st\<lparr>ps_tasks := take i (ps_tasks st) @ drop (Suc i) (ps_tasks st)\<rparr> in
           case ps_tasks st ! i of
             DepositTask batch \<Rightarrow> flush_deposit_batch da batch st1
           | WithdrawTask batch \<Rightarrow> flush_withdrawal_batch cr pv wa batch st1
           | DataTask _ \<Rightarrow> st1
           | TrackTask _ _ _ \<Rightarrow> st1
      else st)"

definition replay_next :: "pool_view \<Rightarrow> pix_replay \<Rightarrow> pix_state \<Rightarrow> pix_replay \<times> pix_state" where
  "replay_next pv rp st =
     (case (rp_current rp, rp_rest rp) of
        (None, (i, secret) # rest) \<Rightarrow>
          (let (c, st1) = replay_entry pv i secret st in (\<lparr>rp_current = c, rp_rest = rest\<rparr>, st1))
      | _ \<Rightarrow> (rp, st))"

fun pix_step :: "crypto \<Rightarrow> pool_view \<Rightarrow> pix_input \<Rightarrow> pix_loop \<Rightarrow> pix_loop" where
  "pix_step cr pv (EventIn env ev now1 now2) lp = loop_pix_event cr pv env ev now1 now2 lp"
| "pix_step cr pv (TimerIn now) lp =
     (if due now (sleep_deadline (pl_deposit_at lp) (pl_withdraw_at lp)) then loop_timer now lp else lp)"
| "pix_step cr pv (TaskIn i da wa) lp = lp\<lparr>pl_state := end_task cr pv i da wa (pl_state lp)\<rparr>"
| "pix_step cr pv ReplayIn lp =
     (case pl_replay lp of
        None \<Rightarrow> lp
      | Some rp \<Rightarrow> (let (rp', st) = replay_next pv rp (pl_state lp) in lp\<lparr>pl_state := st, pl_replay := Some rp'\<rparr>))"
| "pix_step cr pv (ReplayAnswer io ans) lp =
     (case pl_replay lp of
        Some rp \<Rightarrow>
          (case rp_current rp of
             Some i \<Rightarrow> lp\<lparr>pl_state := replay_answer cr io i ans (pl_state lp),
                         pl_replay := Some (rp\<lparr>rp_current := None\<rparr>)\<rparr>
           | None \<Rightarrow> lp)
      | None \<Rightarrow> lp)"
| "pix_step cr pv (CacheDrop processed sweeps dests) lp =
     lp\<lparr>pl_state := (pl_state lp)\<lparr>ps_processed := ps_processed (pl_state lp) - processed,
                                  ps_sweeps := ps_sweeps (pl_state lp) - sweeps,
                                  ps_dests := ps_dests (pl_state lp) - dests\<rparr>\<rparr>"

definition pix_start :: "crypto \<Rightarrow> store_error option \<Rightarrow> (bytes \<Rightarrow> bool) \<Rightarrow> pix_state \<Rightarrow> pix_loop" where
  "pix_start cr io unreadable st =
     \<lparr>pl_state = st\<lparr>ps_detach := True\<rparr>, pl_deposit_at = None, pl_withdraw_at = None,
      pl_replay = replay_start cr io unreadable st\<rparr>"

definition pix_finish :: "crypto \<Rightarrow> pool_view \<Rightarrow> deposit_answer \<Rightarrow> withdraw_answer \<Rightarrow> pix_loop \<Rightarrow> pix_state" where
  \<comment> \<open>the stream has ended: both buffers are flushed in place\<close>
  "pix_finish cr pv da wa lp = flush_withdrawals cr pv wa (flush_deposits da (pl_state lp))"

definition pix_run ::
  "crypto \<Rightarrow> pool_view \<Rightarrow> string option \<Rightarrow> store_error option \<Rightarrow> (bytes \<Rightarrow> bool) \<Rightarrow> pix_input list \<Rightarrow>
   deposit_answer \<Rightarrow> withdraw_answer \<Rightarrow> pix_state \<Rightarrow> (strategy_error + unit) \<times> pix_state" where
  "pix_run cr pv subscribe_error io unreadable inputs da wa st =
     (case subscribe_error of
        Some e \<Rightarrow> (Inl (OtherError (Text e)), st\<lparr>ps_detach := True\<rparr>)
      | None \<Rightarrow> (Inr (), pix_finish cr pv da wa (fold (pix_step cr pv) inputs (pix_start cr io unreadable st))))"

section \<open>What a run did\<close>

fun reserved :: "pix_effect list \<Rightarrow> spend_entry list" where
  "reserved [] = []"
| "reserved (Reserved e # tr) = e # reserved tr"
| "reserved (_ # tr) = reserved tr"

fun released :: "pix_effect list \<Rightarrow> nat set" where
  "released [] = {}"
| "released (Released e # tr) = insert (unat (fst (se_seqs e))) (released tr)"
| "released (_ # tr) = released tr"

fun task_deposits :: "pix_task \<Rightarrow> buffered_deposit list" where
  "task_deposits (DepositTask batch) = batch"
| "task_deposits _ = []"

definition pending :: "pix_state \<Rightarrow> buffered_deposit list" where
  \<comment> \<open>deposits accepted and not answered yet\<close>
  "pending st = ps_deposits st @ concat (map task_deposits (ps_tasks st))"

lemma reserved_append [simp]: "reserved (xs @ ys) = reserved xs @ reserved ys"
  by (induction xs rule: reserved.induct) auto

lemma released_append [simp]: "released (xs @ ys) = released xs \<union> released ys"
  by (induction xs rule: released.induct) auto

fun chronological :: "instant \<Rightarrow> pix_input list \<Rightarrow> bool" where
  \<comment> \<open>one clock that has reached the first argument\<close>
  "chronological clk [] \<longleftrightarrow> True"
| "chronological clk (EventIn env ev now1 now2 # inputs) \<longleftrightarrow>
     clk \<le> pe_check env \<and> pe_check env \<le> pe_commit env \<and> chronological (pe_commit env) inputs"
| "chronological clk (_ # inputs) \<longleftrightarrow> chronological clk inputs"

fun last_commit :: "instant \<Rightarrow> pix_input list \<Rightarrow> instant" where
  "last_commit clk [] = clk"
| "last_commit clk (EventIn env ev now1 now2 # inputs) = last_commit (pe_commit env) inputs"
| "last_commit clk (_ # inputs) = last_commit clk inputs"

fun deposit_calls :: "pix_effect list \<Rightarrow> (pix_id \<times> address \<times> balance \<times> byte_deposit_data) list" where
  "deposit_calls [] = []"
| "deposit_calls (DepositCall items # tr) = items @ deposit_calls tr"
| "deposit_calls (_ # tr) = deposit_calls tr"

lemma deposit_calls_append [simp]: "deposit_calls (xs @ ys) = deposit_calls xs @ deposit_calls ys"
  by (induction xs rule: deposit_calls.induct) auto

section \<open>The withdrawal side leaves deposits alone\<close>

definition deposit_frame :: "pix_state \<Rightarrow> pix_state \<Rightarrow> bool" where
  "deposit_frame st st' \<longleftrightarrow>
     ps_cfg st' = ps_cfg st \<and> ps_ledger st' = ps_ledger st \<and> ps_dests st' = ps_dests st \<and>
     ps_deposits st' = ps_deposits st \<and> ps_detach st' = ps_detach st \<and>
     concat (map task_deposits (ps_tasks st')) = concat (map task_deposits (ps_tasks st)) \<and>
     reserved (ps_trace st') = reserved (ps_trace st) \<and> released (ps_trace st') = released (ps_trace st) \<and>
     deposit_calls (ps_trace st') = deposit_calls (ps_trace st)"

lemma frame_refl [simp]: "deposit_frame st st"
  by (simp add: deposit_frame_def)

text \<open>The steps of the withdrawal side, as rules that extend a path of such steps.\<close>

lemma frame_fold:
  assumes "\<And>x s. deposit_frame st0 s \<Longrightarrow> deposit_frame st0 (f x s)" and "deposit_frame st0 st"
  shows "deposit_frame st0 (fold f xs st)"
  using assms(2) by (induction xs arbitrary: st) (auto intro: assms(1))

lemma frame_end_sweep: "deposit_frame st0 st \<Longrightarrow> deposit_frame st0 (end_sweep i st)"
  by (simp add: deposit_frame_def end_sweep_def)

lemma frame_forget_key: "deposit_frame st0 st \<Longrightarrow> deposit_frame st0 (forget_key cr io i st)"
  by (simp add: deposit_frame_def forget_key_def split: option.splits)

lemma frame_withdraw_call: "deposit_frame st0 st \<Longrightarrow> deposit_frame st0 (trace (WithdrawCall ks safe) st)"
  by (simp add: deposit_frame_def)

lemma frame_drop_unusable: "deposit_frame st0 st \<Longrightarrow> deposit_frame st0 (drop_unusable pv batch st)"
  unfolding drop_unusable_def by (rule frame_fold) (auto intro: frame_end_sweep split: prod.splits)

lemma frame_forget_swept: "deposit_frame st0 st \<Longrightarrow> deposit_frame st0 (forget_swept cr io outcomes st)"
  unfolding forget_swept_def by (rule frame_fold) (auto intro: frame_forget_key split: sum.splits)

lemma frame_end_sweeps: "deposit_frame st0 st \<Longrightarrow> deposit_frame st0 (fold (\<lambda>(i, _). end_sweep i) keys st)"
  by (rule frame_fold) (auto intro: frame_end_sweep split: prod.splits)

lemma frame_withdrawals: "deposit_frame st0 st \<Longrightarrow> deposit_frame st0 (st\<lparr>ps_withdrawals := ws\<rparr>)"
  by (simp add: deposit_frame_def)

lemma frame_detach_withdrawals: "deposit_frame st0 st \<Longrightarrow> deposit_frame st0 (detach_flush_withdrawals st)"
  by (simp add: deposit_frame_def detach_flush_withdrawals_def)

lemma frame_sweeping:
  "deposit_frame st0 st \<Longrightarrow> deposit_frame st0 (st\<lparr>ps_sweeps := x, ps_withdrawals := y\<rparr>)"
  "deposit_frame st0 st \<Longrightarrow> deposit_frame st0 (st\<lparr>ps_sweeps := x\<rparr>)"
  by (simp_all add: deposit_frame_def)

lemma frame_data_request: "deposit_frame st0 st \<Longrightarrow> deposit_frame st0 (st\<lparr>ps_tasks := ps_tasks st @ [DataTask ids]\<rparr>)"
  by (simp add: deposit_frame_def)

lemma frame_track: "deposit_frame st0 st \<Longrightarrow> deposit_frame st0 (st\<lparr>ps_tasks := ps_tasks st @ [TrackTask i a b]\<rparr>)"
  by (simp add: deposit_frame_def)

lemmas frame_steps =
  frame_end_sweep frame_forget_key frame_withdraw_call frame_drop_unusable frame_forget_swept
  frame_end_sweeps frame_withdrawals frame_detach_withdrawals frame_sweeping frame_data_request frame_track

lemma frame_flush_batch: "deposit_frame st0 st \<Longrightarrow> deposit_frame st0 (flush_withdrawal_batch cr pv ans batch st)"
  unfolding flush_withdrawal_batch_def flush_withdrawal_single_def flush_withdrawal_multiple_def Let_def
  by (auto intro!: frame_steps split: list.splits option.splits sum.splits)

lemma frame_flush_withdrawals: "deposit_frame st0 st \<Longrightarrow> deposit_frame st0 (flush_withdrawals cr pv ans st)"
  unfolding flush_withdrawals_def by (intro frame_flush_batch frame_withdrawals)

lemma frame_persist: "persist_key cr env i secret st = (r, st') \<Longrightarrow> deposit_frame st st'"
  by (auto simp: persist_key_def deposit_frame_def split: option.splits sum.splits prod.splits)

lemma frame_key_recovered: "deposit_frame st (snd (on_key_recovered cr pv env i secret st))"
proof -
  obtain r st1 where p: "persist_key cr env i secret st = (r, st1)" by (cases "persist_key cr env i secret st")
  then have "deposit_frame st st1" by (rule frame_persist)
  then show ?thesis
    unfolding on_key_recovered_def p Let_def
    by (auto split: option.splits intro!: frame_steps frame_flush_withdrawals)
qed

lemma frame_address_received: "deposit_frame st (snd (on_address_received pv env i wire quota st))"
  by (auto simp: on_address_received_def Let_def intro!: frame_steps split: option.splits)

lemma frame_replay_entry: "replay_entry pv i secret st = (c, st') \<Longrightarrow> deposit_frame st st'"
  by (auto simp: replay_entry_def Let_def intro!: frame_steps split: if_splits option.splits)

lemma frame_replay_next: "replay_next pv rp st = (rp', st') \<Longrightarrow> deposit_frame st st'"
  by (auto simp: replay_next_def dest: frame_replay_entry split: option.splits list.splits prod.splits)

lemma frame_replay_answer: "deposit_frame st (replay_answer cr io i ans st)"
  by (auto simp: replay_answer_def Let_def intro!: frame_steps split: sum.splits)

section \<open>Settling a batch touches only what the batch owns\<close>

definition settle_frame :: "pix_state \<Rightarrow> pix_state \<Rightarrow> bool" where
  "settle_frame st st' \<longleftrightarrow>
     ps_cfg st' = ps_cfg st \<and> ps_store st' = ps_store st \<and> ps_sweeps st' = ps_sweeps st \<and>
     ps_deposits st' = ps_deposits st \<and> ps_withdrawals st' = ps_withdrawals st \<and> ps_detach st' = ps_detach st \<and>
     ps_tasks st' = ps_tasks st \<and> ps_safe st' = ps_safe st \<and> reserved (ps_trace st') = reserved (ps_trace st) \<and>
     deposit_calls (ps_trace st') = deposit_calls (ps_trace st)"

lemma settle_frame_refl [simp]: "settle_frame st st"
  by (simp add: settle_frame_def)

lemma settle_refund: "settle_frame st0 st \<Longrightarrow> settle_frame st0 (refund e st)" "ps_dests (refund e st) = ps_dests st"
  by (simp_all add: settle_frame_def refund_def)

lemma settle_refund_unless:
  "settle_frame st0 st \<Longrightarrow> settle_frame st0 (refund_unless skip ds st)"
  "ps_dests (refund_unless skip ds st) = ps_dests st"
  by (induction ds arbitrary: st) (auto simp: refund_unless_def settle_refund)

lemma settle_release_dests:
  "settle_frame st0 st \<Longrightarrow> settle_frame st0 (release_dests ds st)"
  "ps_dests (release_dests ds st) = ps_dests st - bd_dest ` set ds"
proof -
  show "settle_frame st0 st \<Longrightarrow> settle_frame st0 (release_dests ds st)"
    by (induction ds arbitrary: st) (auto simp: release_dests_def settle_frame_def)
  show "ps_dests (release_dests ds st) = ps_dests st - bd_dest ` set ds"
    by (induction ds arbitrary: st) (auto simp: release_dests_def)
qed

lemma settle_fields:
  "settle_frame st0 st \<Longrightarrow> settle_frame st0 (st\<lparr>ps_processed := x\<rparr>)"
  "settle_frame st0 st \<Longrightarrow> settle_frame st0 (st\<lparr>ps_dests := y\<rparr>)"
  by (simp_all add: settle_frame_def)

lemma settle_single: "settle_frame st0 st \<Longrightarrow> settle_frame st0 (flush_single a d st)"
  "ps_dests (flush_single a d st) = ps_dests st - {bd_dest d}"
  by (auto simp: flush_single_def Let_def settle_refund settle_fields split: sum.splits)

lemma settle_multiple: "settle_frame st0 st \<Longrightarrow> settle_frame st0 (flush_multiple a ds st)"
  "ps_dests (flush_multiple a ds st) = ps_dests st - bd_dest ` set ds"
  by (auto simp: flush_multiple_def Let_def settle_refund_unless settle_fields settle_release_dests split: sum.splits)

lemma flush_batch_frame:
  "settle_frame (st\<lparr>ps_trace := ps_trace st @ (if batch = [] then [] else [DepositCall (map pool_item batch)])\<rparr>)
     (flush_deposit_batch ans batch st)"
  "ps_dests (flush_deposit_batch ans batch st) = ps_dests st - bd_dest ` set batch"
proof -
  show "settle_frame (st\<lparr>ps_trace := ps_trace st @ (if batch = [] then [] else [DepositCall (map pool_item batch)])\<rparr>)
     (flush_deposit_batch ans batch st)"
    by (auto simp: flush_deposit_batch_def trace_def intro!: settle_single settle_multiple split: list.splits)
  show "ps_dests (flush_deposit_batch ans batch st) = ps_dests st - bd_dest ` set batch"
    by (auto simp: flush_deposit_batch_def settle_single settle_multiple split: list.splits)
qed

lemma flush_batch_facts:
  "ps_cfg (flush_deposit_batch ans batch st) = ps_cfg st"
  "ps_store (flush_deposit_batch ans batch st) = ps_store st"
  "ps_sweeps (flush_deposit_batch ans batch st) = ps_sweeps st"
  "ps_deposits (flush_deposit_batch ans batch st) = ps_deposits st"
  "ps_withdrawals (flush_deposit_batch ans batch st) = ps_withdrawals st"
  "ps_detach (flush_deposit_batch ans batch st) = ps_detach st"
  "ps_tasks (flush_deposit_batch ans batch st) = ps_tasks st"
  "reserved (ps_trace (flush_deposit_batch ans batch st)) = reserved (ps_trace st)"
  "deposit_calls (ps_trace (flush_deposit_batch ans batch st)) = deposit_calls (ps_trace st) @ map pool_item batch"
  using flush_batch_frame(1) [of st batch ans] by (simp_all add: settle_frame_def split: if_splits)

section \<open>The spending limit\<close>

definition spend_inv :: "instant \<Rightarrow> pix_state \<Rightarrow> bool" where
  "spend_inv clk st \<longleftrightarrow>
     ledger_inv (spend_window (ps_cfg st)) clk (reserved (ps_trace st)) (released (ps_trace st)) (ps_ledger st) \<and>
     sum_list (map se_amount (sl_entries (ps_ledger st))) \<le> max_spend_per_window (ps_cfg st) \<and>
     (\<forall>d \<in> set (pending st). bd_spend d \<in> set (reserved (ps_trace st)))"

lemma spend_inv_frame:
  assumes "spend_inv clk st" and "ps_cfg st' = ps_cfg st" and "reserved (ps_trace st') = reserved (ps_trace st)"
    and "released (ps_trace st') = released (ps_trace st)"
    and "ps_ledger st' = ps_ledger st" and "set (pending st') \<subseteq> set (pending st)"
  shows "spend_inv clk st'"
  using assms by (auto simp: spend_inv_def)

lemma spend_inv_call:
  assumes "spend_inv clk st" and "reserved [e] = []" and "released [e] = {}"
  shows "spend_inv clk (trace e st)"
  using assms by (simp add: spend_inv_def pending_def)

lemma reserved_index:
  assumes "ledger_inv w clk C R l" and "e \<in> set C"
  obtains i where "i < length C" and "C ! i = e" and "unat (fst (se_seqs e)) = i"
proof -
  obtain i where i: "i < length C" "C ! i = e" using assms(2) by (auto simp: in_set_conv_nth)
  have "length C \<le> 2 ^ 64" "se_seqs e = (word_of_nat i, word_of_nat i)"
    using assms(1) i by (auto simp: ledger_inv_def)
  moreover from this i(1) have "unat (word_of_nat i :: 64 word) = i" by (intro unat_of_nat_64) simp
  ultimately show thesis using i that by simp
qed

lemma spend_inv_refund:
  assumes inv: "spend_inv clk st" and mem: "e \<in> set (reserved (ps_trace st))"
  shows "spend_inv clk (refund e st)"
proof -
  have l: "ledger_inv (spend_window (ps_cfg st)) clk (reserved (ps_trace st)) (released (ps_trace st)) (ps_ledger st)"
    using inv by (simp add: spend_inv_def)
  obtain i where i: "i < length (reserved (ps_trace st))" "reserved (ps_trace st) ! i = e"
    "unat (fst (se_seqs e)) = i"
    using reserved_index [OF l mem] .
  have "ledger_inv (spend_window (ps_cfg st)) clk (reserved (ps_trace st)) (insert i (released (ps_trace st)))
      (ledger_release e (ps_ledger st))"
    using ledger_inv_release [OF l i(1)] by (simp add: i(2))
  moreover have "insert i (released (ps_trace st)) = released (ps_trace (refund e st))"
    by (simp add: refund_def i(3))
  moreover have "sum_list (map se_amount (sl_entries (ledger_release e (ps_ledger st)))) \<le> max_spend_per_window (ps_cfg st)"
    using ledger_release_sum [of e "ps_ledger st"] inv by (simp add: spend_inv_def)
  ultimately show ?thesis
    using inv by (simp add: spend_inv_def refund_def pending_def)
qed

lemma reserved_refund [simp]: "reserved (ps_trace (refund e st)) = reserved (ps_trace st)"
  by (simp add: refund_def)

definition flush_inv :: "instant \<Rightarrow> buffered_deposit list \<Rightarrow> pix_state \<Rightarrow> bool" where
  \<comment> \<open>the invariant while a drained batch is being settled\<close>
  "flush_inv clk batch st \<longleftrightarrow> spend_inv clk st \<and> (\<forall>d \<in> set batch. bd_spend d \<in> set (reserved (ps_trace st)))"

lemma flush_inv_frame:
  assumes "flush_inv clk batch st" and "ps_cfg st' = ps_cfg st" and "ps_trace st' = ps_trace st"
    and "ps_ledger st' = ps_ledger st" and "pending st' = pending st"
  shows "flush_inv clk batch st'"
  using assms spend_inv_frame [of clk st st'] by (auto simp: flush_inv_def)

lemma flush_inv_refund:
  "flush_inv clk batch st \<Longrightarrow> d \<in> set batch \<Longrightarrow> flush_inv clk batch (refund (bd_spend d) st)"
  by (simp add: flush_inv_def spend_inv_refund)

lemma flush_inv_refund_unless:
  assumes "flush_inv clk batch st" and "set ds \<subseteq> set batch"
  shows "flush_inv clk batch (refund_unless skip ds st)"
  unfolding refund_unless_def
  by (rule fold_invariant [where Q = "\<lambda>d. d \<in> set batch"]) (use assms in \<open>auto intro: flush_inv_refund\<close>)

lemma flush_inv_release_dests: "flush_inv clk batch st \<Longrightarrow> flush_inv clk batch (release_dests ds st)"
  unfolding release_dests_def
  by (rule fold_invariant [where Q = "\<lambda>_. True"]) (auto intro: flush_inv_frame simp: pending_def)

lemma spend_inv_flush:
  assumes "flush_inv clk batch st"
  shows "spend_inv clk (flush_deposit_batch ans batch st)"
proof -
  have call: "flush_inv clk batch (trace (DepositCall xs) st)" for xs
    using assms by (simp add: flush_inv_def spend_inv_call)
  have single: "flush_inv clk batch (flush_single a d st')" if "flush_inv clk batch st'" "d \<in> set batch" for a d st'
    using that unfolding flush_single_def Let_def
    by (auto split: sum.splits intro!: flush_inv_refund intro: flush_inv_frame simp: pending_def)
  have multi: "flush_inv clk batch (flush_multiple a batch st')" if "flush_inv clk batch st'" for a st'
    unfolding flush_multiple_def Let_def
    by (auto split: sum.splits intro!: flush_inv_refund_unless
        intro: flush_inv_frame [OF flush_inv_release_dests [OF that]] flush_inv_release_dests [OF that] simp: pending_def)
  show ?thesis
    using assms call [THEN single] call [THEN multi]
    unfolding flush_deposit_batch_def by (auto simp: flush_inv_def split: list.splits)
qed

lemma spend_inv_deposit_frame: "spend_inv clk st \<Longrightarrow> deposit_frame st st' \<Longrightarrow> spend_inv clk st'"
  by (erule spend_inv_frame) (auto simp: deposit_frame_def pending_def)

lemma spend_inv_later: "spend_inv clk st \<Longrightarrow> clk \<le> clk' \<Longrightarrow> spend_inv clk' st"
  by (auto simp: spend_inv_def intro: ledger_inv_later)

lemma spend_inv_over_budget:
  assumes inv: "spend_inv clk st" and now: "clk \<le> now"
    and cap: "0 < max_spend_per_window (ps_cfg st)" "max_spend_per_window (ps_cfg st) < u256_max"
    and ob: "over_budget now target st = (over, st')"
  shows "spend_inv now st'"
    and "\<not> over \<Longrightarrow> sum_list (map se_amount (sl_entries (ps_ledger st'))) + target \<le> max_spend_per_window (ps_cfg st)"
    and "st' = st\<lparr>ps_ledger := snd (ledger_spent (spend_window (ps_cfg st)) now (ps_ledger st))\<rparr>"
proof -
  let ?w = "spend_window (ps_cfg st)" and ?l = "ps_ledger st"
  let ?l' = "snd (ledger_spent ?w now ?l)"
  show st': "st' = st\<lparr>ps_ledger := ?l'\<rparr>"
    using ob cap by (auto simp: over_budget_def spent_in_window_def split: prod.splits)
  have "sum_list (map se_amount (sl_entries ?l')) \<le> sum_list (map se_amount (sl_entries ?l))"
    by (simp add: ledger_spent_def Let_def drop_expired_sum)
  then show "spend_inv now st'"
    using inv ledger_inv_spent [OF _ now, of ?w "reserved (ps_trace st)" "released (ps_trace st)" ?l]
    by (auto simp: spend_inv_def st' pending_def)
  show "sum_list (map se_amount (sl_entries (ps_ledger st'))) + target \<le> max_spend_per_window (ps_cfg st)" if "\<not> over"
  proof -
    have "bal_add (fst (ledger_spent ?w now ?l)) target \<le> max_spend_per_window (ps_cfg st)"
      using ob cap that by (auto simp: over_budget_def spent_in_window_def split: prod.splits)
    with cap(2) show ?thesis
      unfolding ledger_spent_total by (auto simp: bal_add_def st' min_def split: if_splits)
  qed
qed

lemma spend_inv_detach: "spend_inv clk st \<Longrightarrow> spend_inv clk (detach_flush_deposits st)"
  by (erule spend_inv_frame) (auto simp: detach_flush_deposits_def pending_def)

lemma spend_inv_flush_deposits: "spend_inv clk st \<Longrightarrow> spend_inv clk (flush_deposits ans st)"
  unfolding flush_deposits_def
  by (rule spend_inv_flush) (auto simp: flush_inv_def spend_inv_def pending_def)

lemma spend_inv_buffer:
  assumes inv: "spend_inv clk st" and now: "clk \<le> pe_commit env"
    and len: "length (reserved (ps_trace st)) < 2 ^ 64"
    and room: "sum_list (map se_amount (sl_entries (ps_ledger st))) + target \<le> max_spend_per_window (ps_cfg st)"
    and cap: "max_spend_per_window (ps_cfg st) < u256_max"
  shows "spend_inv (pe_commit env) (buffer_deposit env i dest target payload st)"
proof -
  let ?c = "ledger_commit target (pe_commit env) (ps_ledger st)"
  let ?st2 = "trace (Reserved (fst ?c)) (st\<lparr>ps_dests := insert dest (ps_dests st), ps_ledger := snd ?c\<rparr>)
      \<lparr>ps_deposits := ps_deposits st @
        [\<lparr>bd_id = i, bd_dest = dest, bd_amount = target, bd_data = payload, bd_spend = fst ?c\<rparr>]\<rparr>"
  have l: "ledger_inv (spend_window (ps_cfg st)) clk (reserved (ps_trace st)) (released (ps_trace st)) (ps_ledger st)"
    using inv by (simp add: spend_inv_def)
  have "sum_list (map se_amount (sl_entries (ps_ledger st))) + target \<le> u256_max" using room cap by simp
  note c = ledger_inv_commit [OF l now len this]
  have "spend_inv (pe_commit env) ?st2"
    using inv c room by (auto simp: spend_inv_def pending_def)
  moreover have "buffer_deposit env i dest target payload st =
      (if deposit_buffer_period (ps_cfg st) = 0
       then if ps_detach st then detach_flush_deposits ?st2 else flush_deposits (pe_deposit env) ?st2 else ?st2)"
    by (simp add: buffer_deposit_def commit_spend_def Let_def case_prod_unfold)
  ultimately show ?thesis by (simp add: spend_inv_detach spend_inv_flush_deposits)
qed

lemma spend_inv_new_deposit:
  assumes inv: "spend_inv clk st" and now: "clk \<le> pe_check env" "pe_check env \<le> pe_commit env"
    and len: "length (reserved (ps_trace st)) < 2 ^ 64"
    and cap: "0 < max_spend_per_window (ps_cfg st)" "max_spend_per_window (ps_cfg st) < u256_max"
  shows "spend_inv (pe_commit env) (snd (on_new_deposit pv env i wire quota data st))"
proof -
  let ?target = "bal_mul (price_per_byte (ps_cfg st)) quota"
  obtain over st1 where ob: "over_budget (pe_check env) ?target st = (over, st1)"
    by (cases "over_budget (pe_check env) ?target st")
  note o = spend_inv_over_budget [OF inv now(1) cap ob]
  have st: "spend_inv (pe_commit env) st" "spend_inv (pe_commit env) st1"
    using inv o(1) now by (auto intro: spend_inv_later)
  have "spend_inv (pe_commit env) (buffer_deposit env i dest ?target payload st1)" if "\<not> over" for dest payload
    using o that len cap now(2) by (intro spend_inv_buffer [OF o(1)]) auto
  with st show ?thesis
    by (auto simp: on_new_deposit_def ob Let_def split: option.splits sum.splits)
qed

section \<open>The accepted deposits\<close>

text \<open>
  What accepting a deposit does, whether the buffer is then flushed in place, handed to a task or
  kept: one more reservation, and one more deposit that is pending or already with the pool.
\<close>

definition accounted :: "pix_state \<Rightarrow> (pix_id \<times> address \<times> balance \<times> byte_deposit_data) multiset" where
  "accounted st = mset (deposit_calls (ps_trace st)) + mset (map pool_item (pending st))"

lemma detach_facts:
  "ps_cfg (detach_flush_deposits st) = ps_cfg st" "ps_trace (detach_flush_deposits st) = ps_trace st"
  "ps_dests (detach_flush_deposits st) = ps_dests st" "ps_detach (detach_flush_deposits st) = ps_detach st"
  "ps_ledger (detach_flush_deposits st) = ps_ledger st" "ps_store (detach_flush_deposits st) = ps_store st"
  "ps_withdrawals (detach_flush_deposits st) = ps_withdrawals st" "ps_deposits (detach_flush_deposits st) = []"
  "mset (pending (detach_flush_deposits st)) = mset (pending st)"
  by (simp_all add: detach_flush_deposits_def pending_def)

lemma detach_accounted: "accounted (detach_flush_deposits st) = accounted st"
proof -
  have "mset (map pool_item (pending (detach_flush_deposits st))) = mset (map pool_item (pending st))"
    using detach_facts(9) [of st] by (metis mset_map)
  then show ?thesis by (simp add: accounted_def detach_facts)
qed

lemma flush_deposits_facts:
  "ps_cfg (flush_deposits ans st) = ps_cfg st" "reserved (ps_trace (flush_deposits ans st)) = reserved (ps_trace st)"
  "ps_detach (flush_deposits ans st) = ps_detach st" "ps_store (flush_deposits ans st) = ps_store st"
  "ps_withdrawals (flush_deposits ans st) = ps_withdrawals st" "ps_deposits (flush_deposits ans st) = []"
  "pending (flush_deposits ans st) = concat (map task_deposits (ps_tasks st))"
  "deposit_calls (ps_trace (flush_deposits ans st)) = deposit_calls (ps_trace st) @ map pool_item (ps_deposits st)"
  "ps_dests (flush_deposits ans st) = ps_dests st - bd_dest ` set (ps_deposits st)"
  by (simp_all add: flush_deposits_def flush_batch_facts flush_batch_frame(2) pending_def)

lemma flush_deposits_accounted: "accounted (flush_deposits ans st) = accounted st"
  unfolding accounted_def flush_deposits_facts by (simp add: pending_def)

definition accepted_state :: "pix_env \<Rightarrow> pix_id \<Rightarrow> address \<Rightarrow> balance \<Rightarrow> byte_deposit_data \<Rightarrow> pix_state \<Rightarrow> pix_state" where
  "accepted_state env i dest target payload st =
     (let c = ledger_commit target (pe_commit env) (ps_ledger st) in
      trace (Reserved (fst c)) (st\<lparr>ps_dests := insert dest (ps_dests st), ps_ledger := snd c\<rparr>)
        \<lparr>ps_deposits := ps_deposits st @
          [\<lparr>bd_id = i, bd_dest = dest, bd_amount = target, bd_data = payload, bd_spend = fst c\<rparr>]\<rparr>)"

lemma buffer_deposit_eq:
  "buffer_deposit env i dest target payload st =
     (let st2 = accepted_state env i dest target payload st in
      if deposit_buffer_period (ps_cfg st) = 0
      then if ps_detach st then detach_flush_deposits st2 else flush_deposits (pe_deposit env) st2 else st2)"
  by (simp add: buffer_deposit_def commit_spend_def Let_def case_prod_unfold accepted_state_def)

lemma buffer_deposit_facts:
  "ps_cfg (buffer_deposit env i dest target payload st) = ps_cfg st"
  "reserved (ps_trace (buffer_deposit env i dest target payload st)) =
     reserved (ps_trace st) @ [fst (ledger_commit target (pe_commit env) (ps_ledger st))]"
  "accounted (buffer_deposit env i dest target payload st) = accounted st + {#(i, dest, target, payload)#}"
proof -
  let ?st2 = "accepted_state env i dest target payload st"
  have a: "accounted ?st2 = accounted st + {#(i, dest, target, payload)#}"
    by (simp add: accounted_def accepted_state_def Let_def pending_def pool_item_def)
  show "ps_cfg (buffer_deposit env i dest target payload st) = ps_cfg st"
    "reserved (ps_trace (buffer_deposit env i dest target payload st)) =
       reserved (ps_trace st) @ [fst (ledger_commit target (pe_commit env) (ps_ledger st))]"
    by (simp_all add: buffer_deposit_eq Let_def detach_facts flush_deposits_facts)
       (simp_all add: accepted_state_def Let_def)
  show "accounted (buffer_deposit env i dest target payload st) = accounted st + {#(i, dest, target, payload)#}"
    by (simp add: buffer_deposit_eq Let_def detach_accounted flush_deposits_accounted a)
qed

lemma over_budget_facts:
  assumes "over_budget now target st = (over, st')"
  shows "\<exists>l. st' = st\<lparr>ps_ledger := l\<rparr>"
proof -
  have "\<exists>l. st = st\<lparr>ps_ledger := l\<rparr>" by (rule exI [of _ "ps_ledger st"]) simp
  then show ?thesis
    using assms by (auto simp: over_budget_def spent_in_window_def split: prod.splits if_splits)
qed

text \<open>A new deposit address is either accepted, or leaves everything but the ledger's pruning alone.\<close>

lemma on_new_deposit_cases:
  obtains (refused) l where "snd (on_new_deposit pv env i wire quota data st) = st\<lparr>ps_ledger := l\<rparr>"
  | (accepted) l dest payload where
      "snd (on_new_deposit pv env i wire quota data st) =
         buffer_deposit env i dest (bal_mul (price_per_byte (ps_cfg st)) quota) payload (st\<lparr>ps_ledger := l\<rparr>)"
      and "dest \<notin> ps_dests st" and "pv_narrow pv wire = Some dest" and "dd_id data = i"
      and "pv_read pv data = Inr payload" and "i \<notin> ps_processed st"
      and "bal_mul (price_per_byte (ps_cfg st)) quota \<le> max_ssa_allocation (ps_cfg st)"
proof -
  let ?target = "bal_mul (price_per_byte (ps_cfg st)) quota"
  obtain over st1 where ob: "over_budget (pe_check env) ?target st = (over, st1)"
    by (cases "over_budget (pe_check env) ?target st")
  obtain l where l: "st1 = st\<lparr>ps_ledger := l\<rparr>" using over_budget_facts [OF ob] by blast
  have keep: "st = st\<lparr>ps_ledger := ps_ledger st\<rparr>" by simp
  let ?r = "snd (on_new_deposit pv env i wire quota data st)"
  have "?r = st \<or> ?r = st1 \<or>
      (\<exists>dest payload. ?r = buffer_deposit env i dest ?target payload st1 \<and> dest \<notin> ps_dests st1 \<and>
         pv_narrow pv wire = Some dest \<and> dd_id data = i \<and> pv_read pv data = Inr payload \<and>
         i \<notin> ps_processed st \<and> ?target \<le> max_ssa_allocation (ps_cfg st))"
    unfolding on_new_deposit_def ob Let_def by (simp split: option.split sum.split)
  then consider "?r = st" | "?r = st1" | dest payload where
    "?r = buffer_deposit env i dest ?target payload st1" "dest \<notin> ps_dests st1" "pv_narrow pv wire = Some dest"
    "dd_id data = i" "pv_read pv data = Inr payload" "i \<notin> ps_processed st"
    "?target \<le> max_ssa_allocation (ps_cfg st)" by blast
  then show thesis
  proof cases
    case 1
    then show thesis using keep refused by metis
  next
    case 2
    then show thesis using l refused by metis
  next
    case 3
    then show thesis using l accepted by simp
  qed
qed

section \<open>Every input, by what it does to deposits\<close>

lemma pending_remove_task:
  assumes "i < length (ps_tasks st)"
  shows "mset (pending st) =
    mset (pending (st\<lparr>ps_tasks := take i (ps_tasks st) @ drop (Suc i) (ps_tasks st)\<rparr>)) +
    mset (task_deposits (ps_tasks st ! i))"
proof -
  have "ps_tasks st = take i (ps_tasks st) @ ps_tasks st ! i # drop (Suc i) (ps_tasks st)"
    using assms by (rule id_take_nth_drop)
  then have "mset (concat (map task_deposits (ps_tasks st))) =
      mset (concat (map task_deposits (take i (ps_tasks st)))) + mset (task_deposits (ps_tasks st ! i)) +
      mset (concat (map task_deposits (drop (Suc i) (ps_tasks st))))"
    by (metis (no_types, lifting) append.assoc concat.simps(2) concat_append list.simps(9) map_append mset_append)
  then show ?thesis by (simp add: pending_def)
qed

text \<open>
  An input drops cache entries, is an event that offers a deposit, takes the deposit buffer into a
  task, settles a batch, or leaves the deposits alone.
\<close>

lemma pix_step_cases:
  obtains (frame) "deposit_frame (pl_state lp) (pl_state (pix_step cr pv inp lp))"
  | (dropped) p s d where "inp = CacheDrop p s d"
  | (offered) env i wire quota data now1 now2 where "inp = EventIn env (NewDepositAddress i wire quota data) now1 now2"
      and "pl_state (pix_step cr pv inp lp) = snd (on_new_deposit pv env i wire quota data (pl_state lp))"
  | (detached) st where "deposit_frame (detach_flush_deposits (pl_state lp)) st"
      and "pl_state (pix_step cr pv inp lp) = st"
  | (settled) n da wa batch where "inp = TaskIn n da wa" and "n < length (ps_tasks (pl_state lp))"
      and "ps_tasks (pl_state lp) ! n = DepositTask batch"
      and "pl_state (pix_step cr pv inp lp) = flush_deposit_batch da batch
        ((pl_state lp)\<lparr>ps_tasks := take n (ps_tasks (pl_state lp)) @ drop (Suc n) (ps_tasks (pl_state lp))\<rparr>)"
proof (cases inp)
  case (EventIn env ev now1 now2)
  show thesis
  proof (cases ev)
    case (NewDepositAddress i wire quota data)
    then show thesis using EventIn by (intro offered) (simp_all add: loop_pix_event_def Let_def)
  next
    case (DepositDataRequest ids)
    then show thesis using EventIn by (intro frame) (simp add: loop_pix_event_def Let_def frame_data_request)
  next
    case (DepositAddressReceived i wire quota)
    then show thesis using EventIn by (intro frame) (simp add: loop_pix_event_def Let_def frame_address_received)
  next
    case (PrivateKeyRecovered i secret)
    then show thesis using EventIn by (intro frame) (simp add: loop_pix_event_def Let_def frame_key_recovered)
  qed
next
  case (TimerIn now)
  let ?d = "due now (sleep_deadline (pl_deposit_at lp) (pl_withdraw_at lp))"
  show thesis
  proof (cases "?d \<and> due now (pl_deposit_at lp)")
    case True
    then show thesis
      using TimerIn by (intro detached) (auto simp: loop_timer_def Let_def intro: frame_steps)
  next
    case False
    then show thesis
      using TimerIn by (intro frame) (auto simp: loop_timer_def Let_def intro: frame_steps)
  qed
next
  case (TaskIn n da wa)
  show thesis
  proof (cases "n < length (ps_tasks (pl_state lp))")
    case False
    then show thesis using TaskIn by (intro frame) (simp add: end_task_def)
  next
    case True
    let ?st1 = "(pl_state lp)\<lparr>ps_tasks := take n (ps_tasks (pl_state lp)) @ drop (Suc n) (ps_tasks (pl_state lp))\<rparr>"
    have f: "deposit_frame (pl_state lp) ?st1" if "task_deposits (ps_tasks (pl_state lp) ! n) = []"
    proof -
      have "concat (map task_deposits (ps_tasks (pl_state lp))) = concat (map task_deposits
          (take n (ps_tasks (pl_state lp)) @ ps_tasks (pl_state lp) ! n # drop (Suc n) (ps_tasks (pl_state lp))))"
        using True by (simp only: id_take_nth_drop [symmetric])
      with that show ?thesis by (simp add: deposit_frame_def)
    qed
    show thesis
      using True TaskIn settled f frame frame_flush_batch [OF f]
      by (cases "ps_tasks (pl_state lp) ! n") (auto simp: end_task_def Let_def)
  qed
next
  case ReplayIn
  then show thesis
    by (intro frame) (auto dest: frame_replay_next split: option.splits prod.splits)
next
  case (ReplayAnswer io ans)
  then show thesis
    by (intro frame) (auto simp: frame_replay_answer split: option.splits)
next
  case (CacheDrop p s d)
  then show thesis by (rule dropped)
qed

lemma chronological_single: "chronological clk (inp # inputs) \<Longrightarrow> chronological (last_commit clk [inp]) inputs"
  "chronological clk [inp] \<Longrightarrow> clk \<le> last_commit clk [inp]"
  "last_commit clk (inp # inputs) = last_commit (last_commit clk [inp]) inputs"
  by (cases inp; simp)+

lemma pix_step_cfg: "ps_cfg (pl_state (pix_step cr pv inp lp)) = ps_cfg (pl_state lp)"
proof (cases rule: pix_step_cases [of lp cr pv inp])
  case (offered env i wire quota data now1 now2)
  then show ?thesis
    by (cases rule: on_new_deposit_cases [of pv env i wire quota data "pl_state lp"])
       (simp_all add: buffer_deposit_facts)
qed (auto simp: deposit_frame_def detach_facts flush_batch_facts)

lemma pix_step_reserved:
  "length (reserved (ps_trace (pl_state (pix_step cr pv inp lp)))) \<le> Suc (length (reserved (ps_trace (pl_state lp))))"
proof (cases rule: pix_step_cases [of lp cr pv inp])
  case (offered env i wire quota data now1 now2)
  then show ?thesis
    by (cases rule: on_new_deposit_cases [of pv env i wire quota data "pl_state lp"])
       (simp_all add: buffer_deposit_facts)
qed (auto simp: deposit_frame_def detach_facts flush_batch_facts)

lemma spend_inv_step:
  assumes inv: "spend_inv clk (pl_state lp)" and chr: "chronological clk [inp]"
    and len: "length (reserved (ps_trace (pl_state lp))) < 2 ^ 64"
    and cap: "0 < max_spend_per_window (ps_cfg (pl_state lp))" "max_spend_per_window (ps_cfg (pl_state lp)) < u256_max"
  shows "spend_inv (last_commit clk [inp]) (pl_state (pix_step cr pv inp lp))"
proof (cases rule: pix_step_cases [of lp cr pv inp])
  case frame
  then show ?thesis
    using inv chronological_single(2) [OF chr] spend_inv_deposit_frame spend_inv_later by blast
next
  case (dropped p s d)
  then show ?thesis using inv by (auto intro: spend_inv_frame simp: pending_def)
next
  case (offered env i wire quota data now1 now2)
  then show ?thesis using spend_inv_new_deposit [OF inv _ _ len cap] chr by simp
next
  case (detached st)
  then show ?thesis
    using inv chronological_single(2) [OF chr] spend_inv_detach spend_inv_deposit_frame spend_inv_later by blast
next
  case (settled n da wa batch)
  let ?st1 = "(pl_state lp)\<lparr>ps_tasks := take n (ps_tasks (pl_state lp)) @ drop (Suc n) (ps_tasks (pl_state lp))\<rparr>"
  have "set_mset (mset (pending (pl_state lp))) = set_mset (mset (pending ?st1) + mset batch)"
    using pending_remove_task [OF settled(2)] settled(3) by simp
  then have p: "set (pending (pl_state lp)) = set (pending ?st1) \<union> set batch" by simp
  have "flush_inv clk batch ?st1"
    using inv p by (auto simp: flush_inv_def spend_inv_def)
  then show ?thesis using settled(1,4) by (simp add: spend_inv_flush)
qed

lemma spend_inv_run:
  assumes "spend_inv clk (pl_state lp)" and "chronological clk inputs"
    and "length (reserved (ps_trace (pl_state lp))) + length inputs \<le> 2 ^ 64"
    and "0 < max_spend_per_window (ps_cfg (pl_state lp))" "max_spend_per_window (ps_cfg (pl_state lp)) < u256_max"
  shows "spend_inv (last_commit clk inputs) (pl_state (fold (pix_step cr pv) inputs lp))"
  using assms
proof (induction inputs arbitrary: clk lp)
  case Nil
  then show ?case by simp
next
  case (Cons inp inputs)
  let ?lp = "pix_step cr pv inp lp"
  have chr: "chronological clk [inp]" using Cons.prems(2) by (cases inp) auto
  let ?n = "length (reserved (ps_trace (pl_state lp)))"
  have room: "?n + Suc (length inputs) \<le> 2 ^ 64" using Cons.prems(3) by (simp only: list.size)
  have "spend_inv (last_commit clk [inp]) (pl_state ?lp)"
    by (rule spend_inv_step [OF Cons.prems(1) chr _ Cons.prems(4,5)]) (use room in linarith)
  moreover have "length (reserved (ps_trace (pl_state ?lp))) + length inputs \<le> 2 ^ 64"
    using pix_step_reserved [of cr pv inp lp] room by linarith
  moreover have "chronological (last_commit clk [inp]) inputs" using Cons.prems(2) by (rule chronological_single(1))
  ultimately have "spend_inv (last_commit (last_commit clk [inp]) inputs) (pl_state (fold (pix_step cr pv) inputs ?lp))"
    using Cons.prems(4,5) by (intro Cons.IH) (simp_all only: pix_step_cfg)
  then show ?case unfolding chronological_single(3) [of clk inp inputs] by simp
qed

definition pix_after :: "crypto \<Rightarrow> pool_view \<Rightarrow> pix_config \<Rightarrow> address \<Rightarrow> recovery_store option \<Rightarrow>
    store_error option \<Rightarrow> (bytes \<Rightarrow> bool) \<Rightarrow> pix_input list \<Rightarrow> pix_loop" where
  \<comment> \<open>a strategy just built, after \<open>inputs\<close>\<close>
  "pix_after cr pv cfg safe store io unreadable inputs =
     fold (pix_step cr pv) inputs (pix_start cr io unreadable (pix_initial cfg safe store))"

lemma pix_after_snoc:
  "pix_after cr pv cfg safe store io unreadable (inputs @ [inp]) =
   pix_step cr pv inp (pix_after cr pv cfg safe store io unreadable inputs)"
  by (simp add: pix_after_def)

lemma pix_after_induct:
  assumes "P (pix_start cr io unreadable (pix_initial cfg safe store))"
    and "\<And>inp lp. P lp \<Longrightarrow> P (pix_step cr pv inp lp)"
  shows "P (pix_after cr pv cfg safe store io unreadable inputs)"
proof (induction inputs rule: rev_induct)
  case Nil
  show ?case by (simp add: pix_after_def assms(1))
next
  case (snoc inp inputs)
  then show ?case by (simp add: pix_after_snoc assms(2))
qed

lemma pix_start_facts [simp]:
  "ps_cfg (pl_state (pix_start cr io u (pix_initial cfg safe store))) = cfg"
  "ps_trace (pl_state (pix_start cr io u (pix_initial cfg safe store))) = []"
  "ps_ledger (pl_state (pix_start cr io u (pix_initial cfg safe store))) = ledger_default"
  "ps_dests (pl_state (pix_start cr io u (pix_initial cfg safe store))) = {}"
  "ps_deposits (pl_state (pix_start cr io u (pix_initial cfg safe store))) = []"
  "ps_withdrawals (pl_state (pix_start cr io u (pix_initial cfg safe store))) = []"
  "ps_detach (pl_state (pix_start cr io u (pix_initial cfg safe store)))"
  "ps_tasks (pl_state (pix_start cr io u (pix_initial cfg safe store))) = []"
  "pl_deposit_at (pix_start cr io u (pix_initial cfg safe store)) = None"
  "pl_withdraw_at (pix_start cr io u (pix_initial cfg safe store)) = None"
  "pending (pl_state (pix_start cr io u (pix_initial cfg safe store))) = []"
  by (simp_all add: pix_start_def pix_initial_def pending_def)

lemma pix_after_cfg [simp]: "ps_cfg (pl_state (pix_after cr pv cfg safe store io unreadable inputs)) = cfg"
  by (rule pix_after_induct) (simp_all add: pix_step_cfg)

text \<open>
  C11. The spending limit holds over every rolling window: at any moment of any run, the reservations
  of the last \<open>spend_window\<close> that were not handed back add up to at most \<open>max_spend_per_window\<close>,
  however events, settlements and failures interleave, and although the ledger forgets what is old
  and folds its entries.
\<close>

theorem spend_window_capped:
  assumes "0 < max_spend_per_window cfg" and "max_spend_per_window cfg < u256_max"
    and "chronological 0 inputs" and "length inputs \<le> 2 ^ 64" and "last_commit 0 inputs \<le> now"
  shows "let tr = ps_trace (pl_state (pix_after cr pv cfg safe store io unreadable inputs)) in
    window_sum (spend_window cfg) now (reserved tr) (released tr) \<le> max_spend_per_window cfg"
proof -
  let ?lp = "pix_start cr io unreadable (pix_initial cfg safe store)"
  have start: "spend_inv 0 (pl_state ?lp)"
    by (simp add: spend_inv_def ledger_inv_default) (simp add: ledger_default_def)
  have "spend_inv (last_commit 0 inputs) (pl_state (pix_after cr pv cfg safe store io unreadable inputs))"
    unfolding pix_after_def
    by (rule spend_inv_run [OF start assms(3)]) (use assms in \<open>simp_all only: pix_start_facts reserved.simps list.size add_0\<close>)
  then show ?thesis
    using window_sum_le [OF _ assms(5)] by (fastforce simp: spend_inv_def Let_def)
qed

section \<open>Every accepted deposit reaches the pool once\<close>

definition flow_inv :: "pix_state \<Rightarrow> bool" where
  "flow_inv st \<longleftrightarrow>
     image_mset (\<lambda>(_, _, amount, _). amount) (accounted st) = mset (map se_amount (reserved (ps_trace st))) \<and>
     (\<forall>(i, dest, amount, payload) \<in># accounted st. amount \<le> max_ssa_allocation (ps_cfg st))"

lemma flow_inv_frame:
  "flow_inv st \<Longrightarrow> accounted st' = accounted st \<Longrightarrow> ps_cfg st' = ps_cfg st \<Longrightarrow>
   reserved (ps_trace st') = reserved (ps_trace st) \<Longrightarrow> flow_inv st'"
  by (simp add: flow_inv_def)

lemma flow_inv_deposit_frame: "flow_inv st \<Longrightarrow> deposit_frame st st' \<Longrightarrow> flow_inv st'"
  by (erule flow_inv_frame) (simp_all add: deposit_frame_def accounted_def pending_def)

lemma flow_inv_step: "flow_inv (pl_state lp) \<Longrightarrow> flow_inv (pl_state (pix_step cr pv inp lp))"
proof -
  assume inv: "flow_inv (pl_state lp)"
  show ?thesis
  proof (cases rule: pix_step_cases [of lp cr pv inp])
    case frame
    then show ?thesis using inv by (rule flow_inv_deposit_frame [rotated])
  next
    case (dropped p s d)
    then show ?thesis using inv by (auto elim!: flow_inv_frame simp: accounted_def pending_def)
  next
    case (offered env i wire quota data now1 now2)
    show ?thesis
    proof (cases rule: on_new_deposit_cases [of pv env i wire quota data "pl_state lp"])
      case (refused l)
      then show ?thesis using inv offered(2) by (auto elim!: flow_inv_frame simp: accounted_def pending_def)
    next
      case (accepted l dest payload)
      have "accounted ((pl_state lp)\<lparr>ps_ledger := l\<rparr>) = accounted (pl_state lp)"
        by (simp add: accounted_def pending_def)
      then show ?thesis
        using inv accepted offered(2)
        by (simp add: flow_inv_def buffer_deposit_facts ledger_commit_entry)
    qed
  next
    case (detached st)
    have "flow_inv (detach_flush_deposits (pl_state lp))"
      using inv by (rule flow_inv_frame) (simp_all add: detach_accounted detach_facts)
    then show ?thesis using detached flow_inv_deposit_frame by blast
  next
    case (settled n da wa batch)
    have "mset (map pool_item (pending (pl_state lp))) =
        mset (map pool_item (pending ((pl_state lp)\<lparr>ps_tasks := take n (ps_tasks (pl_state lp)) @
          drop (Suc n) (ps_tasks (pl_state lp))\<rparr>))) + mset (map pool_item batch)"
      using pending_remove_task [OF settled(2)] settled(3) by (metis image_mset_union mset_map task_deposits.simps(1))
    then show ?thesis
      using inv unfolding settled(4)
      by (elim flow_inv_frame) (simp_all add: accounted_def flush_batch_facts pending_def)
  qed
qed

text \<open>
  C12. Nothing is lost and nothing is sent twice: at any moment of any run the amounts reserved are,
  as a multiset, the amounts handed to the pool so far together with those of the deposits still
  buffered or being settled; and each is within \<open>max_ssa_allocation\<close>.
\<close>

theorem deposits_accounted_once:
  "let st = pl_state (pix_after cr pv cfg safe store io unreadable inputs) in
     mset (map se_amount (reserved (ps_trace st))) =
       mset (map (\<lambda>(_, _, amount, _). amount) (deposit_calls (ps_trace st))) + mset (map bd_amount (pending st)) \<and>
     list_all (\<lambda>(_, _, amount, _). amount \<le> max_ssa_allocation cfg) (deposit_calls (ps_trace st)) \<and>
     list_all (\<lambda>d. bd_amount d \<le> max_ssa_allocation cfg) (pending st)"
proof -
  let ?st = "pl_state (pix_after cr pv cfg safe store io unreadable inputs)"
  have inv: "flow_inv ?st"
    by (rule pix_after_induct [where P = "\<lambda>lp. flow_inv (pl_state lp)"])
       (simp add: flow_inv_def accounted_def, rule flow_inv_step)
  have item: "(\<lambda>(_, _, amount, _). amount) \<circ> pool_item = bd_amount" by (auto simp: pool_item_def)
  have "mset (map se_amount (reserved (ps_trace ?st))) =
      mset (map (\<lambda>(_, _, amount, _). amount) (deposit_calls (ps_trace ?st))) + mset (map bd_amount (pending ?st))"
    using inv by (simp add: flow_inv_def accounted_def item [symmetric] multiset.map_comp)
  moreover have "list_all (\<lambda>(_, _, amount, _). amount \<le> max_ssa_allocation cfg) (deposit_calls (ps_trace ?st))"
    using inv by (auto simp: flow_inv_def accounted_def list_all_iff)
  moreover have "bd_amount d \<le> max_ssa_allocation cfg" if "d \<in> set (pending ?st)" for d
  proof -
    have "pool_item d \<in># accounted ?st" using that by (simp add: accounted_def)
    then show ?thesis using inv by (auto simp: flow_inv_def pool_item_def)
  qed
  ultimately show ?thesis by (simp add: Let_def list_all_iff)
qed

end
