(* ===== verification/Pix_Guards.thy ===== *)
theory Pix_Guards
  imports Pix_Run
begin

text \<open>
  What the guards of the PIX strategy promise: the decision on a new deposit address, the
  destinations in flight, refunds only for what provably moved no funds, deadlines that never leave
  a buffer behind, and recovered keys that stay in the store until a sweep succeeded.
\<close>

section \<open>The decision on a deposit\<close>

definition within_window :: "pix_env \<Rightarrow> balance \<Rightarrow> pix_state \<Rightarrow> bool" where
  "within_window env target st \<longleftrightarrow>
     max_spend_per_window (ps_cfg st) = 0 \<or>
     bal_add (fst (ledger_spent (spend_window (ps_cfg st)) (pe_check env) (ps_ledger st))) target
       \<le> max_spend_per_window (ps_cfg st)"

lemma over_budget_iff: "fst (over_budget (pe_check env) target st) \<longleftrightarrow> \<not> within_window env target st"
  by (auto simp: over_budget_def spent_in_window_def within_window_def case_prod_unfold Let_def not_less)

definition readable :: "pool_view \<Rightarrow> deposit_data \<Rightarrow> bool" where
  "readable pv data \<longleftrightarrow> (case pv_read pv data of Inr _ \<Rightarrow> True | Inl _ \<Rightarrow> False)"

text \<open>
  C36. A deposit address is funded exactly when its id is not settled yet, its price is within the
  allocation and the window, the pool settles that form of address, no deposit to it is in flight,
  the payload is filed under the same id and the pool can read it. The guard against duplicates
  looks at settled ids and at destinations only, so a second address for an id that is still
  pending is funded too.
\<close>

theorem deposit_accepted_iff:
  "reserved (ps_trace (snd (on_new_deposit pv env i wire quota data st))) \<noteq> reserved (ps_trace st) \<longleftrightarrow>
   i \<notin> ps_processed st \<and> bal_mul (price_per_byte (ps_cfg st)) quota \<le> max_ssa_allocation (ps_cfg st) \<and>
   within_window env (bal_mul (price_per_byte (ps_cfg st)) quota) st \<and>
   (case pv_narrow pv wire of None \<Rightarrow> False | Some dest \<Rightarrow> dest \<notin> ps_dests st) \<and>
   dd_id data = i \<and> readable pv data"
proof -
  let ?target = "bal_mul (price_per_byte (ps_cfg st)) quota"
  obtain over st1 where ob: "over_budget (pe_check env) ?target st = (over, st1)"
    by (cases "over_budget (pe_check env) ?target st")
  obtain l where l: "st1 = st\<lparr>ps_ledger := l\<rparr>" using over_budget_facts [OF ob] by blast
  have o: "over \<longleftrightarrow> \<not> within_window env ?target st" using over_budget_iff [of env ?target st] ob by simp
  show ?thesis
    unfolding on_new_deposit_def ob Let_def l
    by (auto simp: o readable_def buffer_deposit_facts not_less split: option.splits sum.splits)
qed

section \<open>Destinations in flight\<close>

definition dest_inv :: "pix_state \<Rightarrow> bool" where
  "dest_inv st \<longleftrightarrow> distinct (map bd_dest (pending st)) \<and> bd_dest ` set (pending st) \<subseteq> ps_dests st"

lemma dest_inv_perm:
  assumes "dest_inv st" and "mset (pending st') = mset (pending st)" and "ps_dests st' = ps_dests st"
  shows "dest_inv st'"
proof -
  have "mset (map bd_dest (pending st')) = mset (map bd_dest (pending st))" using assms(2) by (metis mset_map)
  then have "distinct (map bd_dest (pending st')) = distinct (map bd_dest (pending st))"
    by (rule mset_eq_imp_distinct_iff)
  moreover have "set (pending st') = set (pending st)" using assms(2) by (metis set_mset_mset)
  ultimately show ?thesis using assms by (simp add: dest_inv_def)
qed

lemma dest_inv_settle:
  assumes "dest_inv st" and "mset (pending st) = mset (pending st') + mset batch"
    and "ps_dests st' = ps_dests st - bd_dest ` set batch"
  shows "dest_inv st'"
proof -
  have "mset (map bd_dest (pending st)) = mset (map bd_dest (pending st' @ batch))"
    using assms(2) by (metis mset_append mset_map)
  then have "distinct (map bd_dest (pending st)) = distinct (map bd_dest (pending st' @ batch))"
    by (rule mset_eq_imp_distinct_iff)
  then have "distinct (map bd_dest (pending st' @ batch))" using assms(1) by (simp only: dest_inv_def)
  moreover have "set (pending st) = set (pending st') \<union> set batch"
    using assms(2) by (metis set_mset_mset set_mset_union)
  ultimately show ?thesis using assms(1,3) by (auto simp: dest_inv_def)
qed

lemma dest_inv_accepted:
  assumes "dest_inv st" and "dest \<notin> ps_dests st"
  shows "dest_inv (accepted_state env i dest target payload st)"
proof -
  have "dest \<notin> bd_dest ` set (pending st)" using assms by (auto simp: dest_inv_def)
  moreover obtain q where "pending st = ps_deposits st @ q"
    "pending (accepted_state env i dest target payload st) =
      ps_deposits st @ last (ps_deposits (accepted_state env i dest target payload st)) # q"
    by (simp add: pending_def accepted_state_def Let_def)
  moreover have "bd_dest (last (ps_deposits (accepted_state env i dest target payload st))) = dest"
    "ps_dests (accepted_state env i dest target payload st) = insert dest (ps_dests st)"
    by (simp_all add: accepted_state_def Let_def)
  ultimately show ?thesis using assms(1) by (auto simp: dest_inv_def)
qed

lemma flush_deposits_pending: "mset (pending st) = mset (pending (flush_deposits ans st)) + mset (ps_deposits st)"
  unfolding flush_deposits_facts by (simp add: pending_def)

lemma dest_inv_buffer:
  assumes "dest_inv st" and "dest \<notin> ps_dests st"
  shows "dest_inv (buffer_deposit env i dest target payload st)"
proof -
  let ?st2 = "accepted_state env i dest target payload st"
  have acc: "dest_inv ?st2" using assms by (rule dest_inv_accepted)
  have "dest_inv (detach_flush_deposits ?st2)"
    using acc by (rule dest_inv_perm) (simp_all add: detach_facts)
  moreover have "dest_inv (flush_deposits ans ?st2)" for ans
    using acc by (rule dest_inv_settle [where batch = "ps_deposits ?st2"])
      (rule flush_deposits_pending, simp add: flush_deposits_facts)
  ultimately show ?thesis using acc by (simp add: buffer_deposit_eq Let_def)
qed

fun keeps_dests :: "pix_input \<Rightarrow> bool" where
  \<comment> \<open>the cache of destinations drops no entry on its own\<close>
  "keeps_dests (CacheDrop _ _ dests) \<longleftrightarrow> dests = {}"
| "keeps_dests _ \<longleftrightarrow> True"

lemma dest_inv_step:
  assumes inv: "dest_inv (pl_state lp)" and "keeps_dests inp"
  shows "dest_inv (pl_state (pix_step cr pv inp lp))"
proof (cases rule: pix_step_cases [of lp cr pv inp])
  case frame
  then show ?thesis using inv by (simp add: deposit_frame_def dest_inv_def pending_def)
next
  case (dropped p s d)
  then show ?thesis using assms by (simp add: dest_inv_def pending_def)
next
  case (offered env i wire quota data now1 now2)
  have r: "dest_inv ((pl_state lp)\<lparr>ps_ledger := l\<rparr>)" for l using inv by (simp add: dest_inv_def pending_def)
  show ?thesis
    by (cases rule: on_new_deposit_cases [of pv env i wire quota data "pl_state lp"])
       (auto simp: offered(2) r intro: dest_inv_buffer)
next
  case (detached st)
  have "dest_inv (detach_flush_deposits (pl_state lp))"
    using inv by (rule dest_inv_perm) (simp_all add: detach_facts)
  then show ?thesis using detached by (simp add: deposit_frame_def dest_inv_def pending_def)
next
  case (settled n da wa batch)
  show ?thesis
    unfolding settled(4)
    using inv by (rule dest_inv_settle [where batch = batch])
      (use pending_remove_task [OF settled(2)] settled(3) in
        \<open>simp_all add: flush_batch_facts flush_batch_frame(2) pending_def\<close>)
qed


section \<open>Deadlines\<close>

definition armed_inv :: "pix_loop \<Rightarrow> bool" where
  "armed_inv lp \<longleftrightarrow>
     (ps_deposits (pl_state lp) = [] \<or> pl_deposit_at lp \<noteq> None) \<and>
     (ps_withdrawals (pl_state lp) = [] \<or> pl_withdraw_at lp \<noteq> None)"

lemma withdrawals_steps:
  "ps_withdrawals (end_sweep i st) = ps_withdrawals st"
  "ps_withdrawals (forget_key cr io i st) = ps_withdrawals st"
  by (simp_all add: end_sweep_def forget_key_def split: option.splits)

lemma withdrawals_folds:
  "ps_withdrawals (drop_unusable pv batch st) = ps_withdrawals st"
  "ps_withdrawals (forget_swept cr io outcomes st) = ps_withdrawals st"
  "ps_withdrawals (fold (\<lambda>(i, _). end_sweep i) keys st) = ps_withdrawals st"
proof -
  show "ps_withdrawals (drop_unusable pv batch st) = ps_withdrawals st"
    by (induction batch arbitrary: st) (auto simp: drop_unusable_def withdrawals_steps split: prod.splits)
  show "ps_withdrawals (forget_swept cr io outcomes st) = ps_withdrawals st"
    by (induction outcomes arbitrary: st) (auto simp: forget_swept_def withdrawals_steps split: sum.splits)
  show "ps_withdrawals (fold (\<lambda>(i, _). end_sweep i) keys st) = ps_withdrawals st"
    by (induction keys arbitrary: st) (auto simp: withdrawals_steps)
qed

lemma flush_batch_withdrawals: "ps_withdrawals (flush_withdrawal_batch cr pv ans batch st) = ps_withdrawals st"
  unfolding flush_withdrawal_batch_def flush_withdrawal_single_def flush_withdrawal_multiple_def Let_def
  by (simp add: withdrawals_steps withdrawals_folds split: list.split option.split sum.split prod.split)

lemma detach_withdrawals_facts:
  "ps_withdrawals (detach_flush_withdrawals st) = []" "ps_deposits (detach_flush_withdrawals st) = ps_deposits st"
  by (simp_all add: detach_flush_withdrawals_def)

lemma end_task_buffers:
  "ps_deposits (end_task cr pv n da wa st) = ps_deposits st"
  "ps_withdrawals (end_task cr pv n da wa st) = ps_withdrawals st"
proof -
  have "ps_deposits (flush_withdrawal_batch cr pv wa batch st') = ps_deposits st'" for batch st'
    using frame_flush_batch [OF frame_refl, of st' cr pv wa batch] by (simp add: deposit_frame_def)
  then show "ps_deposits (end_task cr pv n da wa st) = ps_deposits st"
    "ps_withdrawals (end_task cr pv n da wa st) = ps_withdrawals st"
    by (simp_all add: end_task_def Let_def flush_batch_facts flush_batch_withdrawals split: pix_task.split)
qed

lemma replay_buffers:
  "replay_next pv rp st = (rp', st') \<Longrightarrow> ps_deposits st' = ps_deposits st \<and> ps_withdrawals st' = ps_withdrawals st"
  "ps_deposits (replay_answer cr io i ans st) = ps_deposits st"
  "ps_withdrawals (replay_answer cr io i ans st) = ps_withdrawals st"
proof -
  show "replay_next pv rp st = (rp', st') \<Longrightarrow> ps_deposits st' = ps_deposits st \<and> ps_withdrawals st' = ps_withdrawals st"
    by (auto simp: replay_next_def replay_entry_def Let_def split: option.splits list.splits prod.splits if_splits)
  show "ps_deposits (replay_answer cr io i ans st) = ps_deposits st"
    using frame_replay_answer [of st cr io i ans] by (simp add: deposit_frame_def)
  show "ps_withdrawals (replay_answer cr io i ans st) = ps_withdrawals st"
    by (simp add: replay_answer_def Let_def withdrawals_steps split: sum.split)
qed

lemma armed_inv_step: "armed_inv lp \<Longrightarrow> armed_inv (pix_step cr pv inp lp)"
proof (cases inp)
  case (EventIn env ev now1 now2)
  then show ?thesis by (simp add: armed_inv_def loop_pix_event_def arm_def Let_def)
next
  case (TimerIn now)
  assume "armed_inv lp"
  with TimerIn show ?thesis
    by (auto simp: armed_inv_def loop_timer_def Let_def detach_facts detach_withdrawals_facts)
next
  case (TaskIn n da wa)
  assume "armed_inv lp"
  with TaskIn show ?thesis by (simp add: armed_inv_def end_task_buffers)
next
  case ReplayIn
  assume "armed_inv lp"
  with ReplayIn show ?thesis by (auto simp: armed_inv_def dest: replay_buffers(1) split: option.splits prod.splits)
next
  case (ReplayAnswer io ans)
  assume "armed_inv lp"
  with ReplayAnswer show ?thesis by (auto simp: armed_inv_def replay_buffers split: option.splits)
next
  case (CacheDrop p s d)
  assume "armed_inv lp"
  with CacheDrop show ?thesis by (simp add: armed_inv_def)
qed


section \<open>Refunds\<close>

lemma trace_refund_unless:
  "ps_trace (refund_unless skip ds st) =
   ps_trace st @ map (\<lambda>d. Released (bd_spend d)) (filter (\<lambda>d. \<not> skip (bd_id d)) ds)"
  by (induction ds arbitrary: st) (auto simp: refund_unless_def refund_def)

lemma trace_release_dests: "ps_trace (release_dests ds st) = ps_trace st"
  by (induction ds arbitrary: st) (auto simp: release_dests_def)

lemma tally_fold:
  "bt_settled (fold (tally_outcome ids) outcomes t) = bt_settled t \<union> {i \<in> ids. Inr i \<in> set outcomes}"
  "bt_fund_free (fold (tally_outcome ids) outcomes t) \<longleftrightarrow>
     bt_fund_free t \<and> (\<forall>e. Inl e \<in> set outcomes \<longrightarrow> moved_no_funds e)"
  by (induction outcomes arbitrary: t) (auto simp: tally_outcome_def split: sum.splits)

definition reported :: "buffered_deposit \<Rightarrow> strategy_error + unit \<Rightarrow> strategy_error + pix_id" where
  \<comment> \<open>how a batch outcome tells of one item: a success names its id, a failure does not\<close>
  "reported d r = (case r of Inl e \<Rightarrow> Inl e | Inr _ \<Rightarrow> Inr (bd_id d))"


section \<open>Recovered keys\<close>

definition store_has :: "crypto \<Rightarrow> pix_id \<Rightarrow> pix_state \<Rightarrow> bool" where
  "store_has cr i st =
     (case ps_store st of
        None \<Rightarrow> False
      | Some store \<Rightarrow> map_of (db_rows (rs_db store)) (cr_id_bytes cr i) \<noteq> None)"

definition swept_by :: "pix_id \<Rightarrow> pix_input \<Rightarrow> pix_loop \<Rightarrow> bool" where
  \<comment> \<open>the input reports a successful withdrawal of \<open>i\<close>\<close>
  "swept_by i inp lp =
     (case inp of
        TaskIn n _ wa \<Rightarrow>
          n < length (ps_tasks (pl_state lp)) \<and>
          (case ps_tasks (pl_state lp) ! n of
             WithdrawTask [(j, _)] \<Rightarrow> j = i \<and> wa_single wa = Inr ()
           | WithdrawTask _ \<Rightarrow> (case wa_multi wa of Inr outcomes \<Rightarrow> Inr i \<in> set outcomes | Inl _ \<Rightarrow> False)
           | _ \<Rightarrow> False)
      | ReplayAnswer _ ans \<Rightarrow> map_option rp_current (pl_replay lp) = Some (Some i) \<and> ans = Inr ()
      | _ \<Rightarrow> False)"

lemma has_forget: "id_codec cr \<Longrightarrow> j \<noteq> i \<Longrightarrow> store_has cr i st \<Longrightarrow> store_has cr i (forget_key cr io j st)"
  by (auto simp: store_has_def forget_key_def store_remove_def Let_def in_tx_def map_of_delete id_codec_inj
      split: option.splits)

lemma store_steps:
  "ps_store (end_sweep i st) = ps_store st"
  "ps_store (drop_unusable pv batch st) = ps_store st"
  "ps_store (fold (\<lambda>(i, _). end_sweep i) keys st) = ps_store st"
proof -
  show es: "ps_store (end_sweep i st) = ps_store st" for i st by (simp add: end_sweep_def)
  show "ps_store (drop_unusable pv batch st) = ps_store st"
    by (induction batch arbitrary: st) (auto simp: drop_unusable_def es split: prod.splits)
  show "ps_store (fold (\<lambda>(i, _). end_sweep i) keys st) = ps_store st"
    by (induction keys arbitrary: st) (auto simp: es)
qed

lemma has_steps:
  "store_has cr i (end_sweep j st) = store_has cr i st"
  "store_has cr i (drop_unusable pv batch st) = store_has cr i st"
  "store_has cr i (fold (\<lambda>(i, _). end_sweep i) keys st) = store_has cr i st"
  "store_has cr i (trace e st) = store_has cr i st"
  by (simp_all add: store_has_def store_steps)

lemma has_forget_swept:
  "id_codec cr \<Longrightarrow> Inr i \<notin> set outcomes \<Longrightarrow> store_has cr i st \<Longrightarrow> store_has cr i (forget_swept cr io outcomes st)"
proof (induction outcomes arbitrary: st)
  case Nil
  then show ?case by (simp add: forget_swept_def)
next
  case (Cons x xs)
  have "store_has cr i (case x of Inr j \<Rightarrow> forget_key cr (io j) j st | Inl _ \<Rightarrow> st)"
    using Cons.prems by (cases x) (auto intro: has_forget)
  with Cons show ?case by (simp add: forget_swept_def)
qed

lemma has_flush_single:
  assumes "id_codec cr" and "store_has cr i st" and "\<not> (j = i \<and> wa_single wa = Inr ())"
  shows "store_has cr i (flush_withdrawal_single cr pv wa j secret st)"
  using assms
  by (auto simp: flush_withdrawal_single_def Let_def has_steps intro!: has_forget
      split: option.split sum.split)

lemma has_flush_multiple:
  assumes "id_codec cr" and "store_has cr i st"
    and "case wa_multi wa of Inr outcomes \<Rightarrow> Inr i \<notin> set outcomes | Inl _ \<Rightarrow> True"
  shows "store_has cr i (flush_withdrawal_multiple cr pv wa batch st)"
  using assms
  by (auto simp: flush_withdrawal_multiple_def Let_def has_steps intro!: has_forget_swept
      split: sum.splits)

lemma has_persist: "persist_key cr env j secret st = (r, st') \<Longrightarrow> store_has cr i st \<Longrightarrow> store_has cr i st'"
  by (auto simp: persist_key_def store_has_def elim!: store_insert_cases split: option.splits sum.splits prod.splits)

lemma has_key_recovered:
  assumes "store_has cr i st" and "ps_detach st"
  shows "store_has cr i (snd (on_key_recovered cr pv env j secret st))"
proof -
  obtain r st1 where p: "persist_key cr env j secret st = (r, st1)" by (cases "persist_key cr env j secret st")
  have "store_has cr i st1" "ps_detach st1"
    using has_persist [OF p assms(1)] frame_persist [OF p] assms(2) by (simp_all add: deposit_frame_def)
  then show ?thesis
    unfolding on_key_recovered_def p Let_def
    by (auto simp: store_has_def detach_flush_withdrawals_def split: option.splits)
qed

lemma new_deposit_store: "ps_store (snd (on_new_deposit pv env i wire quota data st)) = ps_store st"
  by (cases rule: on_new_deposit_cases [of pv env i wire quota data st])
     (simp_all add: buffer_deposit_eq Let_def detach_facts flush_deposits_facts accepted_state_def)

lemma has_end_task:
  assumes "id_codec cr" and "store_has cr i (pl_state lp)" and "\<not> swept_by i (TaskIn n da wa) lp"
  shows "store_has cr i (end_task cr pv n da wa (pl_state lp))"
proof (cases "n < length (ps_tasks (pl_state lp))")
  case False
  then show ?thesis using assms(2) by (simp add: end_task_def)
next
  case True
  let ?st1 = "(pl_state lp)\<lparr>ps_tasks := take n (ps_tasks (pl_state lp)) @ drop (Suc n) (ps_tasks (pl_state lp))\<rparr>"
  have st1: "store_has cr i ?st1" using assms(2) by (simp add: store_has_def)
  show ?thesis
  proof (cases "ps_tasks (pl_state lp) ! n")
    case (DepositTask batch)
    then show ?thesis using True st1 by (simp add: end_task_def Let_def store_has_def flush_batch_facts)
  next
    case (WithdrawTask batch)
    consider "batch = []" | j secret where "batch = [(j, secret)]" | x y zs where "batch = x # y # zs"
      by (metis list.exhaust surj_pair)
    then have "store_has cr i (flush_withdrawal_batch cr pv wa batch ?st1)"
    proof cases
      case 1
      then show ?thesis using st1 by (simp add: flush_withdrawal_batch_def)
    next
      case 2
      then show ?thesis
        using assms(1,3) st1 WithdrawTask True has_flush_single [OF assms(1) st1]
        by (auto simp: flush_withdrawal_batch_def swept_by_def)
    next
      case 3
      then have "case wa_multi wa of Inr outcomes \<Rightarrow> Inr i \<notin> set outcomes | Inl _ \<Rightarrow> True"
        using assms(3) WithdrawTask True by (cases x) (auto simp: swept_by_def split: sum.splits)
      then show ?thesis
        using 3 has_flush_multiple [OF assms(1) st1] by (cases x) (simp add: flush_withdrawal_batch_def)
    qed
    then show ?thesis using True WithdrawTask by (simp add: end_task_def Let_def)
  qed (use True st1 in \<open>simp_all add: end_task_def Let_def\<close>)
qed

lemma pix_after_detach: "ps_detach (pl_state (pix_after cr pv cfg safe store io unreadable inputs))"
proof (rule pix_after_induct [where P = "\<lambda>lp. ps_detach (pl_state lp)"])
  show "ps_detach (pl_state (pix_start cr io unreadable (pix_initial cfg safe store)))" by simp
next
  fix inp and lp :: pix_loop
  assume d: "ps_detach (pl_state lp)"
  show "ps_detach (pl_state (pix_step cr pv inp lp))"
  proof (cases rule: pix_step_cases [of lp cr pv inp])
    case (offered env i wire quota data now1 now2)
    show ?thesis
      by (cases rule: on_new_deposit_cases [of pv env i wire quota data "pl_state lp"])
         (use d offered in \<open>simp_all add: buffer_deposit_eq Let_def detach_facts accepted_state_def\<close>)
  qed (use d in \<open>auto simp: deposit_frame_def detach_facts flush_batch_facts\<close>)
qed

text \<open>
  C16. A recovered key is kept until its funds have moved: whatever happens in a run, one input
  removes an id from the recovery store only if it reports a successful withdrawal of that id.
\<close>

theorem key_kept_until_swept:
  assumes "id_codec cr" and "lp = pix_after cr pv cfg safe store io unreadable inputs"
    and "store_has cr i (pl_state lp)" and "\<not> swept_by i inp lp"
  shows "store_has cr i (pl_state (pix_step cr pv inp lp))"
proof (cases inp)
  case (EventIn env ev now1 now2)
  have "ps_detach (pl_state lp)" using assms(2) pix_after_detach by simp
  then show ?thesis
    using EventIn assms(3) has_key_recovered
    by (cases ev) (auto simp: loop_pix_event_def Let_def store_has_def new_deposit_store on_address_received_def
        split: option.splits)
next
  case (TimerIn now)
  then show ?thesis
    using assms(3) by (auto simp: loop_timer_def Let_def store_has_def detach_facts detach_flush_withdrawals_def)
next
  case (TaskIn n da wa)
  then show ?thesis using has_end_task assms by simp
next
  case ReplayIn
  then show ?thesis
    using assms(3)
    by (auto simp: replay_next_def replay_entry_def Let_def store_has_def
        split: option.splits list.splits prod.splits if_splits)
next
  case (ReplayAnswer io' ans)
  then show ?thesis
    using assms(1,3,4)
    by (auto simp: swept_by_def replay_answer_def Let_def has_steps intro!: has_forget
        split: option.splits sum.splits)
next
  case (CacheDrop p s d)
  then show ?thesis using assms(3) by (simp add: store_has_def)
qed

end
