(* ===== verification/Pix_Example.thy ===== *)
theory Pix_Example
  imports Pix_Guards
begin

text \<open>
  A small run of the PIX strategy, on which the witnesses apply the properties of \<open>Pix_Run\<close> and
  \<open>Pix_Guards\<close>: two deposits are offered, the second over the window's budget, and a key is
  recovered.
\<close>

definition demo_pool :: pool_view where
  "demo_pool = \<lparr>pv_narrow = Some, pv_read = byte_data_from, pv_key = Some\<rparr>"

definition demo_env :: "instant \<Rightarrow> pix_env" where
  "demo_env t =
     \<lparr>pe_check = t, pe_commit = t, pe_nonce = demo_nonce, pe_io = io_ok, pe_notify = None,
      pe_deposit = \<lparr>da_single = Inr (), da_multi = Inr []\<rparr>,
      pe_withdraw = \<lparr>wa_single = Inr (), wa_multi = Inr [], wa_io = (\<lambda>_. io_ok)\<rparr>\<rparr>"

definition demo_cfg :: pix_config where
  "demo_cfg = pix_default\<lparr>max_spend_per_window := new_base 150\<rparr>"

definition offer :: "instant \<Rightarrow> pix_id \<Rightarrow> wire_address \<Rightarrow> pix_input" where
  "offer t i wire = EventIn (demo_env t) (NewDepositAddress i wire 100 \<lparr>dd_id = i, dd_bytes = []\<rparr>) t t"

definition demo_inputs :: "pix_input list" where
  "demo_inputs = [offer 1 7 70, offer 2 8 80]"

definition demo_after :: pix_loop where
  "demo_after = pix_after demo_crypto demo_pool demo_cfg 5 None None (\<lambda>_. False) demo_inputs"

lemmas demo_defs =
  demo_pool_def demo_env_def demo_cfg_def pix_default_def offer_def demo_inputs_def new_base_def secs_def millis_def

lemmas ledger_defs =
  ledger_spent_def ledger_commit_def ledger_total_def prune_refunded_def ledger_default_def
  spend_ledger_capacity_def bal_add_def bal_mul_def u256_max_def

lemmas demo_run_defs =
  pix_after_def demo_defs ledger_defs pix_start_def pix_initial_def replay_start_def loop_pix_event_def
  on_new_deposit_def over_budget_def spent_in_window_def buffer_deposit_def commit_spend_def byte_data_from_def
  Let_def pending_def

lemma demo_after_run:
  "reserved (ps_trace (pl_state demo_after)) = [\<lparr>se_at = 1, se_amount = new_base 100, se_seqs = (0, 0)\<rparr>]"
  "map bd_dest (pending (pl_state demo_after)) = [70]"
  by (simp_all add: demo_after_def demo_run_defs)

theorem spend_window_capped_witness:
  "window_sum (spend_window demo_cfg) 9 (reserved (ps_trace (pl_state demo_after))) (released (ps_trace (pl_state demo_after)))
     \<le> max_spend_per_window demo_cfg \<and> reserved (ps_trace (pl_state demo_after)) \<noteq> []"
proof
  have "let tr = ps_trace (pl_state demo_after) in
      window_sum (spend_window demo_cfg) 9 (reserved tr) (released tr) \<le> max_spend_per_window demo_cfg"
    unfolding demo_after_def by (rule spend_window_capped) (simp_all add: demo_defs u256_max_def)
  then show "window_sum (spend_window demo_cfg) 9 (reserved (ps_trace (pl_state demo_after)))
      (released (ps_trace (pl_state demo_after))) \<le> max_spend_per_window demo_cfg"
    by (simp only: Let_def)
  show "reserved (ps_trace (pl_state demo_after)) \<noteq> []" by (simp add: demo_after_run)
qed


definition demo_batch :: "buffered_deposit list" where
  "demo_batch =
     [\<lparr>bd_id = 1, bd_dest = 10, bd_amount = 3, bd_data = for_id 1, bd_spend = \<lparr>se_at = 0, se_amount = 3, se_seqs = (0, 0)\<rparr>\<rparr>,
      \<lparr>bd_id = 2, bd_dest = 20, bd_amount = 4, bd_data = for_id 2, bd_spend = \<lparr>se_at = 0, se_amount = 4, se_seqs = (1, 1)\<rparr>\<rparr>]"

definition demo_answer :: deposit_answer where
  "demo_answer = \<lparr>da_single = Inr (), da_multi = Inr [Inr 2, Inl (GeneralError InvalidInput)]\<rparr>"

lemma demo_flush:
  "ps_trace (flush_deposit_batch demo_answer demo_batch (pix_initial demo_cfg 5 None)) =
   ps_trace (pix_initial demo_cfg 5 None) @
     [DepositCall (map pool_item demo_batch), Released \<lparr>se_at = 0, se_amount = 3, se_seqs = (0, 0)\<rparr>]"
  by (simp add: flush_deposit_batch_def flush_multiple_def demo_answer_def demo_batch_def pix_initial_def
      release_dests_def tally_outcome_def may_refund_def refund_unless_def refund_def Let_def)


definition demo_keyed :: pix_loop where
  "demo_keyed = pix_after demo_crypto demo_pool demo_cfg 5 (Some demo_store) None (\<lambda>_. False)
     [EventIn (demo_env 1) (PrivateKeyRecovered 6 [7]) 1 1, TimerIn (secs 1)]"

definition failed_sweep :: pix_input where
  "failed_sweep = TaskIn 0 demo_answer
     \<lparr>wa_single = Inl CriteriaNotSatisfied, wa_multi = Inr [], wa_io = (\<lambda>_. io_ok)\<rparr>"

lemma demo_keyed_run:
  "ps_tasks (pl_state demo_keyed) = [WithdrawTask [(6, [7])]]" "store_has demo_crypto 6 (pl_state demo_keyed)"
proof -
  obtain v where v: "encrypt demo_crypto demo_nonce (rs_key demo_store) (cr_id_bytes demo_crypto 6) [7] = Inr v"
    using demo_encrypt by blast
  show "ps_tasks (pl_state demo_keyed) = [WithdrawTask [(6, [7])]]" "store_has demo_crypto 6 (pl_state demo_keyed)"
    by (simp_all add: demo_keyed_def pix_after_def demo_defs pix_start_def pix_initial_def loop_pix_event_def
        on_key_recovered_def persist_key_def store_insert_def demo_rows v arm_def due_def loop_timer_def
        detach_flush_withdrawals_def store_has_def Let_def)
qed

theorem key_kept_until_swept_witness:
  "ps_tasks (pl_state demo_keyed) \<noteq> [] \<and> store_has demo_crypto 6 (pl_state (pix_step demo_crypto demo_pool failed_sweep demo_keyed))"
proof
  show "store_has demo_crypto 6 (pl_state (pix_step demo_crypto demo_pool failed_sweep demo_keyed))"
    by (rule key_kept_until_swept [OF demo_codec demo_keyed_def demo_keyed_run(2)])
       (simp add: failed_sweep_def swept_by_def demo_keyed_run)
qed (simp add: demo_keyed_run)

end
