(* ===== verification/Plain_Pool.thy ===== *)
theory Plain_Pool
  imports Pix_Engine
begin

text \<open>
  \<open>src/src/pix/pools/plain.rs\<close>: the deposit pool that settles with plain transfers. The chain is an
  argument: what each balance read answers, and whether a submitted transfer is confirmed. A
  balance is an amount of wxHOPR or xDai; which account it belongs to is said by the field that
  carries it. \<open>backon\<close> calls an operation again after an error, up to the given number of times.
\<close>

section \<open>Configuration\<close>

record plain_config =
  blokli_url :: string
  tx_timeout_multiplier :: nat
  max_deposit_tracking_time :: duration
  gas_xdai_per_sweep :: balance
  min_node_xdai_reserve :: balance
  min_safe_hopr_reserve :: balance
  max_deposit_retries :: nat
  max_sweep_retries :: nat

definition plain_default :: "nat \<Rightarrow> plain_config" where
  \<comment> \<open>the argument is the default of \<open>BlockchainConnectorConfig::tx_timeout_multiplier\<close>\<close>
  "plain_default library_multiplier =
     \<lparr>blokli_url = ''http://localhost:8080/'', tx_timeout_multiplier = library_multiplier,
      max_deposit_tracking_time = secs 60, gas_xdai_per_sweep = 10 ^ 16, min_node_xdai_reserve = 10 ^ 16,
      min_safe_hopr_reserve = 0, max_deposit_retries = 3, max_sweep_retries = 5\<rparr>"

definition validate_plain :: "plain_config \<Rightarrow> bool" where
  "validate_plain cfg \<longleftrightarrow> 1 \<le> tx_timeout_multiplier cfg \<and> validate_min_1sec (max_deposit_tracking_time cfg)"

definition build_non_anonymous ::
  "(string \<Rightarrow> string option) \<Rightarrow> (string \<Rightarrow> string \<Rightarrow> store_error + recovery_store) \<Rightarrow> pix_config \<Rightarrow>
   plain_config \<Rightarrow> address \<Rightarrow> address \<Rightarrow> address \<Rightarrow> strategy_error + pix_state" where
  \<comment> \<open>\<open>key_address\<close> is the address of the given node key\<close>
  "build_non_anonymous getenv opener cfg pool_cfg key_address node_address safe_address =
     (if \<not> validate_plain pool_cfg then Inl (InvalidConfiguration ''plain pool'')
      else if key_address \<noteq> node_address then Inl (InvalidConfiguration ''node key'')
      else build_with_pool getenv opener cfg safe_address)"

section \<open>Payload\<close>

definition deposit_marker_payload :: bytes where
  "deposit_marker_payload = map of_char ''test'' @ replicate 60 0"

fun check_deposit_payload :: "pix_id \<Rightarrow> byte_deposit_data \<Rightarrow> strategy_error + unit" where
  "check_deposit_payload i (ByteDepositData data_id payload) =
     (if data_id \<noteq> i then Inl (GeneralError InvalidInput)
      else if payload \<noteq> deposit_marker_payload then Inl (GeneralError InvalidInput)
      else Inr ())"

definition generate_deposit_data :: "pix_id \<Rightarrow> byte_deposit_data" where
  "generate_deposit_data i = ByteDepositData i deposit_marker_payload"

section \<open>Retrying\<close>

text \<open>
  An operation threads a state through its attempts; the result is that of the last attempt. The
  third argument numbers the attempts.
\<close>

primrec retry :: "nat \<Rightarrow> (nat \<Rightarrow> 's \<Rightarrow> (strategy_error + 'a) \<times> 's) \<Rightarrow> nat \<Rightarrow> 's \<Rightarrow> (strategy_error + 'a) \<times> 's" where
  "retry 0 f k s = f k s"
| "retry (Suc n) f k s =
     (case f k s of
        (Inr a, s') \<Rightarrow> (Inr a, s')
      | (Inl _, s') \<Rightarrow> retry n f (Suc k) s')"

text \<open>
  The contract of a retried operation: an invariant of the state before attempt number \<open>k\<close>, and what
  every outcome of an attempt guarantees. Both pool operations that retry are interpretations.
\<close>

locale retried =
  fixes f :: "nat \<Rightarrow> 's \<Rightarrow> (strategy_error + 'a) \<times> 's"
    and inv :: "nat \<Rightarrow> 's \<Rightarrow> bool"
    and good :: "'s \<Rightarrow> strategy_error + 'a \<Rightarrow> bool"
  assumes attempt: "inv k s \<Longrightarrow> f k s = (r, s') \<Longrightarrow> inv (Suc k) s' \<and> good s' r"
begin

lemma retried_outcome: "inv k s \<Longrightarrow> retry n f k s = (r, s') \<Longrightarrow> \<exists>j \<le> k + n. inv (Suc j) s' \<and> good s' r"
proof (induction n arbitrary: k s)
  case 0
  then show ?case using attempt by auto
next
  case (Suc n)
  obtain r1 s1 where f: "f k s = (r1, s1)" by (cases "f k s")
  from attempt [OF Suc.prems(1) f] have "inv (Suc k) s1" "good s1 r1" by auto
  show ?case
  proof (cases r1)
    case (Inl e)
    then have "retry n f (Suc k) s1 = (r, s')" using Suc.prems(2) f by simp
    from Suc.IH [OF \<open>inv (Suc k) s1\<close> this] show ?thesis by (metis add_Suc_shift)
  next
    case (Inr a)
    then have "r = r1" "s' = s1" using Suc.prems(2) f by simp_all
    with \<open>inv (Suc k) s1\<close> \<open>good s1 r1\<close> show ?thesis by (intro exI [of _ k]) simp
  qed
qed

end

section \<open>Deposits\<close>

record deposit_reads =
  dr_dest :: "string + balance"
  dr_safe :: "string + balance"
  dr_withdraw :: "string option"

text \<open>
  The state of the attempts of one deposit: the flag \<open>after_attempt\<close>, and the transfers submitted so
  far, each with the number of its attempt.
\<close>

record deposit_progress =
  dp_after_attempt :: bool
  dp_sent :: "(nat \<times> balance) list"

definition deposit_once ::
  "plain_config \<Rightarrow> balance \<Rightarrow> (nat \<Rightarrow> deposit_reads) \<Rightarrow> nat \<Rightarrow> deposit_progress \<Rightarrow>
   (strategy_error + unit) \<times> deposit_progress" where
  "deposit_once cfg amount chain k s =
     (case dr_dest (chain k) of
        Inl e \<Rightarrow> (Inl (OtherError (Text e)), s)
      | Inr current \<Rightarrow>
          if amount \<le> current then (Inr (), s)
          else
            (case dr_safe (chain k) of
               Inl e \<Rightarrow> (Inl (OtherError (Text e)), s)
             | Inr payer_hopr \<Rightarrow>
                 let required = bal_add amount (min_safe_hopr_reserve cfg) in
                 if payer_hopr < required
                 then (Inl (OtherError (PlainCause (Unaffordable (dp_after_attempt s)))), s)
                 else
                   let s1 = s\<lparr>dp_after_attempt := True, dp_sent := dp_sent s @ [(k, amount)]\<rparr> in
                   (case dr_withdraw (chain k) of
                      Some e \<Rightarrow> (Inl (OtherError (Text e)), s1)
                    | None \<Rightarrow> (Inr (), s1))))"

definition deposit_funds_to ::
  "plain_config \<Rightarrow> pix_id \<Rightarrow> balance \<Rightarrow> byte_deposit_data \<Rightarrow> (nat \<Rightarrow> deposit_reads) \<Rightarrow>
   (strategy_error + unit) \<times> deposit_progress" where
  "deposit_funds_to cfg i amount data chain =
     (let start = \<lparr>dp_after_attempt = False, dp_sent = []\<rparr> in
      case check_deposit_payload i data of
        Inl e \<Rightarrow> (Inl e, start)
      | Inr _ \<Rightarrow> retry (max_deposit_retries cfg) (deposit_once cfg amount chain) 0 start)"

section \<open>Sweeps\<close>

record sweep_reads =
  sr_balance :: "string + balance"
  sr_gas :: "string + balance"
  sr_node_gas :: "string + balance"
  sr_gas_connector :: "string option"
  sr_gas_transfer :: "string option"
  sr_connector :: "string option"
  sr_transfer :: "string option"

datatype movement = GasTopUp nat balance | SweepTo nat address balance

definition fund_sweep_gas ::
  "plain_config \<Rightarrow> (nat \<Rightarrow> sweep_reads) \<Rightarrow> nat \<Rightarrow> movement list \<Rightarrow> (strategy_error + unit) \<times> movement list" where
  "fund_sweep_gas cfg chain k ms =
     (if gas_xdai_per_sweep cfg = 0 then (Inr (), ms)
      else
        case sr_gas (chain k) of
          Inl e \<Rightarrow> (Inl (OtherError (Text e)), ms)
        | Inr recovered_xdai \<Rightarrow>
            if gas_xdai_per_sweep cfg \<le> recovered_xdai then (Inr (), ms)
            else
              let deficit = gas_xdai_per_sweep cfg - recovered_xdai in
              (case sr_node_gas (chain k) of
                 Inl e \<Rightarrow> (Inl (OtherError (Text e)), ms)
               | Inr payer_xdai \<Rightarrow>
                   let required = bal_add deficit (min_node_xdai_reserve cfg) in
                   if payer_xdai < required then (Inl CriteriaNotSatisfied, ms)
                   else
                     (case sr_gas_connector (chain k) of
                        Some e \<Rightarrow> (Inl (OtherError (Text e)), ms)
                      | None \<Rightarrow>
                          (case sr_gas_transfer (chain k) of
                             Some e \<Rightarrow> (Inl (OtherError (Text e)), ms @ [GasTopUp k deficit])
                           | None \<Rightarrow> (Inr (), ms @ [GasTopUp k deficit])))))"

definition sweep_single ::
  "plain_config \<Rightarrow> address \<Rightarrow> (nat \<Rightarrow> sweep_reads) \<Rightarrow> nat \<Rightarrow> movement list \<Rightarrow>
   (strategy_error + balance) \<times> movement list" where
  "sweep_single cfg dst chain k ms =
     (case sr_balance (chain k) of
        Inl e \<Rightarrow> (Inl (OtherError (Text e)), ms)
      | Inr balance \<Rightarrow>
          if balance = 0 then (Inl CriteriaNotSatisfied, ms)
          else
            (case fund_sweep_gas cfg chain k ms of
               (Inl e, ms1) \<Rightarrow> (Inl e, ms1)
             | (Inr _, ms1) \<Rightarrow>
                 (case sr_connector (chain k) of
                    Some e \<Rightarrow> (Inl (OtherError (Text e)), ms1)
                  | None \<Rightarrow>
                      (case sr_transfer (chain k) of
                         Some e \<Rightarrow> (Inl (OtherError (Text e)), ms1 @ [SweepTo k dst balance])
                       | None \<Rightarrow> (Inr balance, ms1 @ [SweepTo k dst balance])))))"

definition withdraw_deposit ::
  "plain_config \<Rightarrow> address \<Rightarrow> (nat \<Rightarrow> sweep_reads) \<Rightarrow> (strategy_error + unit) \<times> movement list" where
  "withdraw_deposit cfg dst chain =
     (case retry (max_sweep_retries cfg) (sweep_single cfg dst chain) 0 [] of
        (Inl e, ms) \<Rightarrow> (Inl e, ms)
      | (Inr _, ms) \<Rightarrow> (Inr (), ms))"

definition pool_transfer ::
  "plain_config \<Rightarrow> pix_id \<Rightarrow> address \<Rightarrow> byte_deposit_data \<Rightarrow> (nat \<Rightarrow> sweep_reads) \<Rightarrow>
   (strategy_error + unit) \<times> movement list" where
  "pool_transfer cfg dst_id dst data chain =
     (case check_deposit_payload dst_id data of
        Inl e \<Rightarrow> (Inl e, [])
      | Inr _ \<Rightarrow> withdraw_deposit cfg dst chain)"

section \<open>Deposit tracking\<close>

definition max_concurrent_deposit_trackers :: nat where
  "max_concurrent_deposit_trackers = 256"

definition try_acquire_slot :: "nat \<Rightarrow> nat option" where
  \<comment> \<open>the counter after taking a slot\<close>
  "try_acquire_slot n = (if n < max_concurrent_deposit_trackers then Some (n + 1) else None)"

definition drop_slot :: "nat \<Rightarrow> nat" where
  "drop_slot n = n - 1"

definition notify_deposit :: "nat \<Rightarrow> (strategy_error + unit) \<times> nat" where
  "notify_deposit n =
     (case try_acquire_slot n of
        None \<Rightarrow> (Inl CriteriaNotSatisfied, n)
      | Some n' \<Rightarrow> (Inr (), n'))"

fun first_sufficient :: "balance \<Rightarrow> (string + balance) list \<Rightarrow> balance option" where
  "first_sufficient target [] = None"
| "first_sufficient target (Inl _ # polls) = first_sufficient target polls"
| "first_sufficient target (Inr b # polls) = (if target \<le> b then Some b else first_sufficient target polls)"

definition track_deposit ::
  "pix_id \<Rightarrow> address \<Rightarrow> balance \<Rightarrow> string + balance \<Rightarrow> (string + balance) list \<Rightarrow>
   strategy_error + (pix_id \<times> address \<times> balance)" where
  \<comment> \<open>the first read, and the polls answered before \<open>max_deposit_tracking_time\<close> has passed\<close>
  "track_deposit i dst target immediate polls =
     (case first_sufficient target [immediate] of
        Some b \<Rightarrow> Inr (i, dst, b)
      | None \<Rightarrow>
          (case first_sufficient target polls of
             Some b \<Rightarrow> Inr (i, dst, b)
           | None \<Rightarrow> Inl (OtherError (Text ''deposit did not reach the target in time''))))"

section \<open>What a deposit guarantees\<close>

definition gated :: "plain_config \<Rightarrow> balance \<Rightarrow> (nat \<Rightarrow> deposit_reads) \<Rightarrow> nat \<times> balance \<Rightarrow> bool" where
  \<comment> \<open>the transfer was preceded by a read of a short destination and of a safe that can pay it\<close>
  "gated cfg amount chain t =
     (case t of (k, a) \<Rightarrow>
        a = amount \<and>
        (case (dr_dest (chain k), dr_safe (chain k)) of
           (Inr current, Inr payer) \<Rightarrow> current < amount \<and> bal_add amount (min_safe_hopr_reserve cfg) \<le> payer
         | _ \<Rightarrow> False))"

definition deposit_inv :: "plain_config \<Rightarrow> balance \<Rightarrow> (nat \<Rightarrow> deposit_reads) \<Rightarrow> nat \<Rightarrow> deposit_progress \<Rightarrow> bool" where
  "deposit_inv cfg amount chain k s \<longleftrightarrow>
     (\<forall>t \<in> set (dp_sent s). fst t < k \<and> gated cfg amount chain t) \<and>
     sorted_wrt (<) (map fst (dp_sent s)) \<and> (dp_after_attempt s \<longleftrightarrow> dp_sent s \<noteq> [])"

definition deposit_good :: "deposit_progress \<Rightarrow> strategy_error + unit \<Rightarrow> bool" where
  "deposit_good s r = (case r of Inl e \<Rightarrow> if moved_no_funds e then dp_sent s = [] else True | Inr _ \<Rightarrow> True)"

interpretation plain_deposit: retried
  "deposit_once cfg amount chain" "deposit_inv cfg amount chain" deposit_good for cfg amount chain
proof
  fix k and s :: deposit_progress and r s'
  assume inv: "deposit_inv cfg amount chain k s" and once: "deposit_once cfg amount chain k s = (r, s')"
  have keep: "deposit_inv cfg amount chain (Suc k) s" using inv by (auto simp: deposit_inv_def)
  have sent: "deposit_inv cfg amount chain (Suc k) (s\<lparr>dp_after_attempt := True, dp_sent := dp_sent s @ [(k, amount)]\<rparr>)"
    if "gated cfg amount chain (k, amount)"
    using inv that by (auto simp: deposit_inv_def sorted_wrt_append)
  show "deposit_inv cfg amount chain (Suc k) s' \<and> deposit_good s' r"
    using once keep sent inv
    by (auto simp: deposit_once_def deposit_good_def deposit_inv_def [of cfg amount chain k s] gated_def Let_def not_le not_less
        split: sum.splits if_splits option.splits)
qed

lemma deposit_outcome:
  assumes "deposit_funds_to cfg i amount data chain = (r, s)"
  shows "deposit_good s r \<and> deposit_inv cfg amount chain (Suc (max_deposit_retries cfg)) s"
proof (cases "check_deposit_payload i data")
  case (Inl e)
  then show ?thesis
    using assms by (auto simp: deposit_funds_to_def deposit_good_def deposit_inv_def split: sum.split)
next
  case (Inr u)
  then have "retry (max_deposit_retries cfg) (deposit_once cfg amount chain) 0
      \<lparr>dp_after_attempt = False, dp_sent = []\<rparr> = (r, s)"
    using assms by (simp add: deposit_funds_to_def)
  from plain_deposit.retried_outcome [OF _ this] obtain j where
    "j \<le> max_deposit_retries cfg" "deposit_inv cfg amount chain (Suc j) s" "deposit_good s r"
    by (auto simp: deposit_inv_def)
  then show ?thesis by (auto simp: deposit_inv_def)
qed

text \<open>
  The pool's claim that a failed deposit moved no funds is sound: over all retries and whatever
  the chain answers, an error classified so means that no transfer was submitted at all. And every
  transfer that is submitted follows a read that found the safe able to pay it and its reserve.
\<close>

theorem plain_classification_sound:
  "case deposit_funds_to cfg i amount data chain of (r, s) \<Rightarrow>
     (case r of Inl e \<Rightarrow> if moved_no_funds e then dp_sent s = [] else True | Inr _ \<Rightarrow> True) \<and>
     list_all (gated cfg amount chain) (dp_sent s) \<and> length (dp_sent s) \<le> Suc (max_deposit_retries cfg)"
proof -
  obtain r s where rs: "deposit_funds_to cfg i amount data chain = (r, s)"
    by (cases "deposit_funds_to cfg i amount data chain")
  note o = deposit_outcome [OF rs]
  have "set (map fst (dp_sent s)) \<subseteq> {..<Suc (max_deposit_retries cfg)}"
    using o by (auto simp: deposit_inv_def)
  moreover have "distinct (map fst (dp_sent s))"
    using o by (auto simp: deposit_inv_def strict_sorted_iff)
  ultimately have "length (dp_sent s) \<le> Suc (max_deposit_retries cfg)"
    by (metis card_lessThan card_mono distinct_card finite_lessThan length_map)
  then show ?thesis
    using o rs by (auto simp: deposit_good_def deposit_inv_def list_all_iff)
qed

interpretation plain_pool: deposit_pool "deposit_funds_to cfg" "\<lambda>s. dp_sent s \<noteq> []" for cfg
proof
  fix i a d c e and s :: deposit_progress
  assume "deposit_funds_to cfg i a d c = (Inl e, s)" and "moved_no_funds e"
  then have "dp_sent s = []" using deposit_outcome [of cfg i a d c "Inl e" s] by (simp add: deposit_good_def)
  then show "\<not> dp_sent s \<noteq> []" by simp
qed

text \<open>
  C15. Strategy and pool together: a deposit for which any attempt has submitted a transfer keeps its
  reservation, whatever the pool reports in the end.
\<close>

theorem submitted_stays_counted:
  "case deposit_funds_to cfg (bd_id d) (bd_amount d) (bd_data d) chain of (r, s) \<Rightarrow>
     if dp_sent s \<noteq> []
     then ps_trace (flush_deposit_batch (ans\<lparr>da_single := r\<rparr>) [d] st) = ps_trace st @ [DepositCall [pool_item d]]
     else True"
  using plain_pool.moved_stays_counted [of cfg d chain] by (auto split: prod.split)

text \<open>
  C35. A retry does not pay twice: if a transfer that landed shows in every later read of the
  destination's balance that succeeds, at most one of the submitted transfers lands, also when its
  confirmation is lost and the attempt is reported as failed.
\<close>

theorem deposit_paid_once:
  assumes "\<And>k j b. landed k \<Longrightarrow> k < j \<Longrightarrow> dr_dest (chain j) = Inr b \<Longrightarrow> amount \<le> b"
    and "deposit_funds_to cfg i amount data chain = (r, s)"
  shows "length (filter (\<lambda>t. landed (fst t)) (dp_sent s)) \<le> 1"
proof -
  have inv: "deposit_inv cfg amount chain (Suc (max_deposit_retries cfg)) s"
    using deposit_outcome [OF assms(2)] by simp
  let ?l = "filter (\<lambda>t. landed (fst t)) (dp_sent s)"
  have no: False if "t \<in> set (dp_sent s)" "u \<in> set (dp_sent s)" "landed (fst t)" "fst t < fst u" for t u
  proof -
    have "gated cfg amount chain u" using inv that by (auto simp: deposit_inv_def)
    then obtain b where "dr_dest (chain (fst u)) = Inr b" "b < amount"
      by (auto simp: gated_def split: prod.splits sum.splits)
    with assms(1) [OF that(3,4)] show False by fastforce
  qed
  have "sorted_wrt (\<lambda>t u. fst t < fst u) ?l"
    using inv by (simp add: deposit_inv_def sorted_wrt_map sorted_wrt_filter)
  moreover have "set ?l \<subseteq> {t \<in> set (dp_sent s). landed (fst t)}" by auto
  ultimately show ?thesis
  proof (cases ?l)
    case (Cons t ts)
    then show ?thesis
    proof (cases ts)
      case (Cons u us)
      with \<open>?l = t # ts\<close> \<open>sorted_wrt _ ?l\<close> have "fst t < fst u" by simp
      moreover have "t \<in> set ?l" "u \<in> set ?l" using \<open>?l = t # ts\<close> Cons by auto
      ultimately show ?thesis using no [of t u] by auto
    qed simp
  qed simp
qed

text \<open>A confirmation is lost: the transfer lands, the attempt fails, the retry finds the money there.\<close>

definition lost_confirmation :: "nat \<Rightarrow> deposit_reads" where
  "lost_confirmation k =
     (if k = 0 then \<lparr>dr_dest = Inr 0, dr_safe = Inr 100, dr_withdraw = Some ''confirmation lost''\<rparr>
      else \<lparr>dr_dest = Inr 10, dr_safe = Inr 90, dr_withdraw = None\<rparr>)"

theorem deposit_paid_once_witness:
  "deposit_funds_to (plain_default 2) 1 10 (generate_deposit_data 1) lost_confirmation =
     (Inr (), \<lparr>dp_after_attempt = True, dp_sent = [(0, 10)]\<rparr>) \<and>
   length (filter (\<lambda>t. fst t = 0) [(0::nat, 10::nat)]) \<le> 1"
proof
  show run: "deposit_funds_to (plain_default 2) 1 10 (generate_deposit_data 1) lost_confirmation =
     (Inr (), \<lparr>dp_after_attempt = True, dp_sent = [(0, 10)]\<rparr>)"
    by (simp add: deposit_funds_to_def plain_default_def generate_deposit_data_def lost_confirmation_def
        deposit_once_def bal_add_def u256_max_def numeral_3_eq_3)
  have "amount \<le> b" if "k = 0" "k < j" "dr_dest (lost_confirmation j) = Inr b" "amount = 10" for k j b amount
    using that by (simp add: lost_confirmation_def)
  then show "length (filter (\<lambda>t. fst t = 0) [(0::nat, 10::nat)]) \<le> 1"
    using deposit_paid_once [of "\<lambda>k. k = 0" lost_confirmation 10, OF _ run] by simp
qed

section \<open>What a sweep guarantees\<close>

fun movement_index :: "movement \<Rightarrow> nat" where
  "movement_index (GasTopUp k _) = k"
| "movement_index (SweepTo k _ _) = k"

fun allowed_movement :: "plain_config \<Rightarrow> address \<Rightarrow> (nat \<Rightarrow> sweep_reads) \<Rightarrow> movement \<Rightarrow> bool" where
  "allowed_movement cfg dst chain (GasTopUp k deficit) \<longleftrightarrow>
     (case (sr_gas (chain k), sr_node_gas (chain k)) of
        (Inr gas, Inr payer) \<Rightarrow> gas + deficit = gas_xdai_per_sweep cfg \<and> 0 < deficit \<and>
          bal_add deficit (min_node_xdai_reserve cfg) \<le> payer
      | _ \<Rightarrow> False)"
| "allowed_movement cfg dst chain (SweepTo k a b) \<longleftrightarrow> a = dst \<and> 0 < b \<and> sr_balance (chain k) = Inr b"

definition sweep_inv :: "plain_config \<Rightarrow> address \<Rightarrow> (nat \<Rightarrow> sweep_reads) \<Rightarrow> nat \<Rightarrow> movement list \<Rightarrow> bool" where
  "sweep_inv cfg dst chain k ms \<longleftrightarrow>
     (\<forall>m \<in> set ms. movement_index m < k \<and> allowed_movement cfg dst chain m)"

definition sweep_good :: "address \<Rightarrow> movement list \<Rightarrow> strategy_error + balance \<Rightarrow> bool" where
  "sweep_good dst ms r =
     (case r of Inl _ \<Rightarrow> True | Inr b \<Rightarrow> 0 < b \<and> ms \<noteq> [] \<and> (case last ms of SweepTo _ a c \<Rightarrow> a = dst \<and> c = b | _ \<Rightarrow> False))"

lemma fund_sweep_gas_inv:
  assumes "sweep_inv cfg dst chain (Suc k) ms" and "fund_sweep_gas cfg chain k ms = (r, ms')"
  shows "sweep_inv cfg dst chain (Suc k) ms'"
  using assms
  by (auto simp: fund_sweep_gas_def sweep_inv_def Let_def not_le not_less
      split: if_splits sum.splits option.splits)

interpretation plain_sweep: retried
  "sweep_single cfg dst chain" "sweep_inv cfg dst chain" "sweep_good dst" for cfg dst chain
proof
  fix k and ms :: "movement list" and r ms'
  assume inv: "sweep_inv cfg dst chain k ms" and once: "sweep_single cfg dst chain k ms = (r, ms')"
  have keep: "sweep_inv cfg dst chain (Suc k) ms" using inv by (auto simp: sweep_inv_def)
  obtain g ms1 where g: "fund_sweep_gas cfg chain k ms = (g, ms1)" by (cases "fund_sweep_gas cfg chain k ms")
  have funded: "sweep_inv cfg dst chain (Suc k) ms1" using fund_sweep_gas_inv [OF keep g] .
  have swept: "sweep_inv cfg dst chain (Suc k) (ms1 @ [SweepTo k dst b])" if "sr_balance (chain k) = Inr b" "0 < b" for b
    using funded that by (auto simp: sweep_inv_def)
  show "sweep_inv cfg dst chain (Suc k) ms' \<and> sweep_good dst ms' r"
    using once keep funded swept g
    by (auto simp: sweep_single_def sweep_good_def split: sum.splits if_splits option.splits)
qed

text \<open>
  A sweep reports success only after it has sent the whole balance it read, which was not zero,
  to the destination it was given; so an empty address is an error and its key is kept. Over all
  retries funds go nowhere else, and gas is topped up only to the configured amount and only from a
  node account that keeps its reserve by what it read.
\<close>

theorem sweep_guarantees:
  "case withdraw_deposit cfg dst chain of (r, ms) \<Rightarrow>
     list_all (allowed_movement cfg dst chain) ms \<and>
     (case r of
        Inl _ \<Rightarrow> True
      | Inr _ \<Rightarrow> ms \<noteq> [] \<and> (case last ms of SweepTo k a b \<Rightarrow> a = dst \<and> 0 < b \<and> sr_balance (chain k) = Inr b | _ \<Rightarrow> False))"
proof -
  obtain r ms where r: "retry (max_sweep_retries cfg) (sweep_single cfg dst chain) 0 [] = (r, ms)"
    by (cases "retry (max_sweep_retries cfg) (sweep_single cfg dst chain) 0 []")
  have "sweep_inv cfg dst chain 0 []" by (simp add: sweep_inv_def)
  from plain_sweep.retried_outcome [OF this r] obtain j where
    j: "sweep_inv cfg dst chain (Suc j) ms" "sweep_good dst ms r" by auto
  have moves: "list_all (allowed_movement cfg dst chain) ms" using j(1) by (simp add: sweep_inv_def list_all_iff)
  show ?thesis
  proof (cases r)
    case (Inl e)
    then show ?thesis using moves by (simp add: withdraw_deposit_def r)
  next
    case (Inr b)
    then obtain k where k: "last ms = SweepTo k dst b" "0 < b" "ms \<noteq> []"
      using j(2) by (auto simp: sweep_good_def split: movement.splits)
    then have "allowed_movement cfg dst chain (SweepTo k dst b)"
      using moves by (metis last_in_set list_all_iff)
    then show ?thesis using moves k Inr by (simp add: withdraw_deposit_def r)
  qed
qed

section \<open>Tracking\<close>

lemma first_sufficient_sound: "first_sufficient target polls = Some b \<Longrightarrow> target \<le> b \<and> Inr b \<in> set polls"
  by (induction target polls rule: first_sufficient.induct) (auto split: if_splits)

lemma track_deposit_sound:
  "track_deposit i dst target immediate polls = Inr (j, a, b) \<Longrightarrow>
   j = i \<and> a = dst \<and> target \<le> b \<and> Inr b \<in> set (immediate # polls)"
  by (auto simp: track_deposit_def dest!: first_sufficient_sound split: option.splits)

datatype tracker_op = Notify | TrackingEnds

fun tracker_step :: "tracker_op \<Rightarrow> nat \<times> nat \<Rightarrow> nat \<times> nat" where
  \<comment> \<open>the counter, and the tracking futures that exist\<close>
  "tracker_step Notify (n, live) = (case notify_deposit n of (Inr _, n') \<Rightarrow> (n', Suc live) | (Inl _, n') \<Rightarrow> (n', live))"
| "tracker_step TrackingEnds (n, live) = (if 0 < live then (drop_slot n, live - 1) else (n, live))"

lemma trackers_bounded:
  "case fold tracker_step ops (0, 0) of (n, live) \<Rightarrow> n = live \<and> live \<le> max_concurrent_deposit_trackers"
proof -
  have "case fold tracker_step ops (n, n) of (n', live) \<Rightarrow> n' = live \<and> live \<le> max_concurrent_deposit_trackers"
    if "n \<le> max_concurrent_deposit_trackers" for n
    using that
  proof (induction ops arbitrary: n)
    case (Cons op ops)
    have "\<exists>m \<le> max_concurrent_deposit_trackers. tracker_step op (n, n) = (m, m)"
      using Cons.prems by (cases op) (auto simp: notify_deposit_def try_acquire_slot_def drop_slot_def)
    then obtain m where "m \<le> max_concurrent_deposit_trackers" "tracker_step op (n, n) = (m, m)" by blast
    then show ?case using Cons.IH by simp
  qed simp
  then show ?thesis by simp
qed

end
