(* ===== verification/Byte_Encoding.thy ===== *)
theory Byte_Encoding
  imports Pix_Recovery_Store
begin

text \<open>
  The number formats the curvy pool writes and reads: big-endian bytes (\<open>to_be_bytes\<close>,
  \<open>from_be_bytes\<close>), decimal (\<open>to_string\<close>, \<open>str::parse\<close> of an unsigned type) and hexadecimal digits,
  with their round trips. They are the standard library's; a type's width is its greatest value.
\<close>

section \<open>Big-endian bytes\<close>

primrec be_bytes :: "nat \<Rightarrow> nat \<Rightarrow> bytes" where
  "be_bytes 0 x = []"
| "be_bytes (Suc n) x = word_of_nat (x div 256 ^ n) # be_bytes n x"

fun from_be :: "bytes \<Rightarrow> nat" where
  "from_be [] = 0"
| "from_be (b # bs) = unat b * 256 ^ length bs + from_be bs"

lemma length_be_bytes [simp]: "length (be_bytes n x) = n"
  by (induction n) auto

lemma unat_byte: "unat (word_of_nat k :: byte) = k mod 256"
  by (simp add: unsigned_of_nat take_bit_eq_mod)

lemma from_be_bytes: "from_be (be_bytes n x) = x mod 256 ^ n"
proof (induction n)
  case (Suc n)
  have "x mod 256 ^ Suc n = 256 ^ n * ((x div 256 ^ n) mod 256) + x mod 256 ^ n"
    by (metis mod_mult2_eq mult.commute power_Suc)
  then show ?case using Suc by (simp add: unat_byte mult.commute)
qed simp

lemma from_be_small [simp]: "x < 256 ^ n \<Longrightarrow> from_be (be_bytes n x) = x"
  by (simp add: from_be_bytes)

section \<open>Decimal\<close>

definition is_digit :: "char \<Rightarrow> bool" where
  "is_digit c \<longleftrightarrow> 48 \<le> (of_char c :: nat) \<and> (of_char c :: nat) \<le> 57"

definition digit_val :: "char \<Rightarrow> nat" where
  "digit_val c = of_char c - 48"

definition digit_char :: "nat \<Rightarrow> char" where
  "digit_char d = char_of (48 + d)"

fun show_nat :: "nat \<Rightarrow> string" where
  "show_nat n = (if n < 10 then [digit_char n] else show_nat (n div 10) @ [digit_char (n mod 10)])"

declare show_nat.simps [simp del]

fun parse_digits :: "nat \<Rightarrow> string \<Rightarrow> nat \<Rightarrow> string + nat" where
  "parse_digits greatest [] acc = Inr acc"
| "parse_digits greatest (c # cs) acc =
     (if \<not> is_digit c then Inl ''invalid digit found in string''
      else if greatest < acc * 10 + digit_val c then Inl ''number too large to fit in target type''
      else parse_digits greatest cs (acc * 10 + digit_val c))"

definition parse_uint :: "nat \<Rightarrow> string \<Rightarrow> string + nat" where
  "parse_uint greatest s =
     (case s of
        [] \<Rightarrow> Inl ''cannot parse integer from empty string''
      | c # cs \<Rightarrow>
          if c = CHR ''+'' then (if cs = [] then Inl ''invalid digit found in string'' else parse_digits greatest cs 0)
          else parse_digits greatest s 0)"

definition u64_max :: nat where
  "u64_max = 2 ^ 64 - 1"

lemma digit_char_facts: "d < 10 \<Longrightarrow> is_digit (digit_char d)" "d < 10 \<Longrightarrow> digit_val (digit_char d) = d"
  by (simp_all add: is_digit_def digit_val_def digit_char_def)

lemma show_nat_digits: "\<forall>c \<in> set (show_nat n). is_digit c"
proof (induction n rule: show_nat.induct)
  case (1 n)
  then show ?case by (cases "n < 10") (auto simp: show_nat.simps [of n] digit_char_facts)
qed

lemma show_nat_nonempty [simp]: "show_nat n \<noteq> []"
  by (subst show_nat.simps) simp

lemma parse_digits_snoc:
  "parse_digits greatest (cs @ [c]) acc =
     (case parse_digits greatest cs acc of Inl e \<Rightarrow> Inl e | Inr n \<Rightarrow> parse_digits greatest [c] n)"
  by (induction cs arbitrary: acc) auto

lemma parse_show: "n \<le> greatest \<Longrightarrow> parse_digits greatest (show_nat n) 0 = Inr n"
proof (induction n rule: show_nat.induct)
  case (1 n)
  show ?case
  proof (cases "n < 10")
    case True
    with 1 show ?thesis by (simp add: show_nat.simps digit_char_facts)
  next
    case False
    then have "parse_digits greatest (show_nat (n div 10)) 0 = Inr (n div 10)"
      using 1 by (simp add: div_le_dividend le_trans)
    then show ?thesis
      using False 1 by (subst show_nat.simps) (simp add: parse_digits_snoc digit_char_facts)
  qed
qed

lemma parse_uint_show: "n \<le> greatest \<Longrightarrow> parse_uint greatest (show_nat n) = Inr n"
proof -
  assume n: "n \<le> greatest"
  obtain c cs where s: "show_nat n = c # cs" by (meson show_nat_nonempty neq_Nil_conv)
  then have "is_digit c" using show_nat_digits [of n] by simp
  then have "c \<noteq> CHR ''+''" by (auto simp: is_digit_def)
  with parse_show [OF n] s show ?thesis by (simp add: parse_uint_def)
qed

lemma parse_digits_bound: "acc \<le> greatest \<Longrightarrow> parse_digits greatest s acc = Inr n \<Longrightarrow> n \<le> greatest"
  by (induction s arbitrary: acc) (auto simp: not_less split: if_splits)

lemma parse_uint_bound: "parse_uint greatest s = Inr n \<Longrightarrow> n \<le> greatest"
  by (auto simp: parse_uint_def split: list.splits if_splits intro: parse_digits_bound [of 0]
      dest: parse_digits_bound [rotated])

section \<open>Hexadecimal\<close>

definition hex_val :: "char \<Rightarrow> nat option" where
  "hex_val c =
     (let k = (of_char c :: nat) in
      if 48 \<le> k \<and> k \<le> 57 then Some (k - 48)
      else if 97 \<le> k \<and> k \<le> 102 then Some (k - 87)
      else if 65 \<le> k \<and> k \<le> 70 then Some (k - 55)
      else None)"

definition hex_char :: "nat \<Rightarrow> char" where
  "hex_char d = char_of (if d < 10 then 48 + d else 87 + d)"

definition hex_byte :: "byte \<Rightarrow> string" where
  "hex_byte b = [hex_char (unat b div 16), hex_char (unat b mod 16)]"

definition hex_bytes :: "bytes \<Rightarrow> string" where
  "hex_bytes bs = concat (map hex_byte bs)"

fun parse_hex :: "string \<Rightarrow> nat \<Rightarrow> nat option" where
  "parse_hex [] acc = Some acc"
| "parse_hex (c # cs) acc = (case hex_val c of None \<Rightarrow> None | Some d \<Rightarrow> parse_hex cs (acc * 16 + d))"

lemma hex_val_char: "d < 16 \<Longrightarrow> hex_val (hex_char d) = Some d"
  by (auto simp: hex_val_def hex_char_def Let_def)

lemma parse_hex_bytes: "parse_hex (hex_bytes bs) acc = Some (acc * 256 ^ length bs + from_be bs)"
proof (induction bs arbitrary: acc)
  case (Cons b bs)
  have "unat b < 256" using unsigned_less [of b] by simp
  then have b: "hex_val (hex_char (unat b div 16)) = Some (unat b div 16)"
    "hex_val (hex_char (unat b mod 16)) = Some (unat b mod 16)"
    by (auto intro!: hex_val_char)
  have "(acc * 16 + unat b div 16) * 16 + unat b mod 16 = acc * 256 + unat b" by simp
  then show ?case
    using Cons.IH [of "acc * 256 + unat b"] by (simp add: hex_bytes_def hex_byte_def b algebra_simps)
qed (simp add: hex_bytes_def)

lemma length_hex_bytes [simp]: "length (hex_bytes bs) = 2 * length bs"
  by (induction bs) (simp_all add: hex_bytes_def hex_byte_def)

lemma parse_hex_zeros: "parse_hex (replicate n (CHR ''0'') @ s) 0 = parse_hex s 0"
  by (induction n) (simp_all add: hex_val_def)

end
