(* ===== verification/Curvy_Notes.thy ===== *)
theory Curvy_Notes
  imports Pool_Errors Fallible "HOL-Library.Multiset"
begin

text \<open>
  The choice of notes in \<open>src/src/pix/pools/curvy/sdk.rs\<close>: which notes fund an allocation, which
  whole notes a withdrawal of a given amount spends, and the bounded search behind it. A field
  element is its canonical value; an amount is a \<open>u128\<close> once it has been checked to fit.
\<close>

type_synonym fr = nat

record owned_note =
  on_owner :: "fr \<times> fr"
  on_secret :: fr
  on_ephemeral :: "fr \<times> fr"
  on_view_tag :: nat
  on_amount :: fr
  on_token :: fr

definition u128_max :: nat where
  "u128_max = 2 ^ 128 - 1"

definition balance_u128 :: "(balance \<Rightarrow> string) \<Rightarrow> balance \<Rightarrow> adapter_error + nat" where
  \<comment> \<open>the first argument is the \<open>Display\<close> form of a balance\<close>
  "balance_u128 show_balance b =
     (if b \<le> u128_max then Inr b else Inl (InvalidValue (show_balance b @ '' does not fit u128'')))"

fun checked_sum :: "string \<Rightarrow> nat list \<Rightarrow> nat \<Rightarrow> adapter_error + nat" where
  \<comment> \<open>\<open>try_fold\<close> with \<open>checked_add\<close> on \<open>u128\<close>\<close>
  "checked_sum msg [] acc = Inr acc"
| "checked_sum msg (v # vs) acc =
     (if acc + v \<le> u128_max then checked_sum msg vs (acc + v) else Inl (InvalidValue msg))"

section \<open>An exact sum of whole notes\<close>

text \<open>
  The inner function of \<open>exact_note_subset\<close>. The first argument is what the loop still visits, each
  value with the sum of the values from it on; the result is what was pushed, and the steps left.
\<close>

fun search :: "(nat \<times> nat) list \<Rightarrow> nat \<Rightarrow> nat \<Rightarrow> nat \<Rightarrow> nat list option \<times> nat" where
  "search [] index remaining steps = ((if remaining = 0 then Some [] else None), steps)"
| "search ((v, suffix) # rest) index remaining steps =
     (if remaining = 0 then (Some [], steps)
      else if suffix < remaining \<or> steps = 0 then (None, steps)
      else if remaining < v then search rest (Suc index) remaining (steps - 1)
      else
        case search rest (Suc index) (remaining - v) (steps - 1) of
          (Some picked, steps') \<Rightarrow> (Some (index # picked), steps')
        | (None, steps') \<Rightarrow> search rest (Suc index) remaining steps')"

fun with_suffix :: "nat list \<Rightarrow> (nat \<times> nat) list" where
  "with_suffix [] = []"
| "with_suffix (v # vs) = (v, v + sum_list vs) # with_suffix vs"

definition exact_note_subset :: "nat list \<Rightarrow> nat \<Rightarrow> nat \<Rightarrow> nat list option" where
  "exact_note_subset values target budget = fst (search (with_suffix values) 0 target budget)"

definition picks :: "nat list \<Rightarrow> nat \<Rightarrow> nat list \<Rightarrow> bool" where
  \<comment> \<open>the specification: distinct positions whose values sum to the target\<close>
  "picks values target idx \<longleftrightarrow>
     sorted_wrt (<) idx \<and> list_all (\<lambda>i. i < length values) idx \<and>
     sum_list (map (\<lambda>i. values ! i) idx) = target"

definition picks_from :: "nat \<Rightarrow> nat list \<Rightarrow> nat \<Rightarrow> nat list \<Rightarrow> bool" where
  "picks_from lo vs t idx \<longleftrightarrow>
     sorted_wrt (<) idx \<and> (\<forall>i \<in> set idx. lo \<le> i \<and> i < lo + length vs) \<and>
     sum_list (map (\<lambda>i. vs ! (i - lo)) idx) = t"

lemma picks_from_Nil [simp]: "picks_from lo vs t [] \<longleftrightarrow> t = 0"
  by (auto simp: picks_from_def)

lemma picks_from_shift:
  assumes "\<forall>i \<in> set idx. Suc lo \<le> i"
  shows "sum_list (map (\<lambda>i. (v # vs) ! (i - lo)) idx) = sum_list (map (\<lambda>i. vs ! (i - Suc lo)) idx)"
proof -
  have "(v # vs) ! (i - lo) = vs ! (i - Suc lo)" if "i \<in> set idx" for i
    using assms that by (metis Suc_diff_Suc Suc_le_lessD nth_Cons_Suc)
  then have "map (\<lambda>i. (v # vs) ! (i - lo)) idx = map (\<lambda>i. vs ! (i - Suc lo)) idx" by simp
  then show ?thesis by (simp only:)
qed

lemma picks_from_skip:
  assumes "picks_from (Suc lo) vs t idx"
  shows "picks_from lo (v # vs) t idx"
  using assms picks_from_shift [of idx lo v vs] by (simp add: picks_from_def Suc_le_eq) (metis order_less_imp_le)

lemma picks_from_take:
  assumes "picks_from (Suc lo) vs t idx"
  shows "picks_from lo (v # vs) (v + t) (lo # idx)"
  using assms picks_from_shift [of idx lo v vs] by (simp add: picks_from_def Suc_le_eq) (metis order_less_imp_le)

lemma picks_from_Cons:
  assumes "picks_from lo (v # vs) t idx"
  shows "picks_from (Suc lo) vs t idx \<or>
    (v \<le> t \<and> (\<exists>idx'. picks_from (Suc lo) vs (t - v) idx'))"
proof (cases "lo \<in> set idx")
  case True
  then obtain idx' where idx: "idx = lo # idx'"
    using assms by (cases idx) (auto simp: picks_from_def)
  then have ge: "\<forall>i \<in> set idx'. Suc lo \<le> i" using assms by (auto simp: picks_from_def)
  have "picks_from (Suc lo) vs (t - v) idx'" "v \<le> t"
    using assms ge picks_from_shift [OF ge, of v vs] unfolding idx by (auto simp: picks_from_def)
  then show ?thesis by blast
next
  case False
  then have ge: "\<forall>i \<in> set idx. Suc lo \<le> i"
    using assms by (auto simp: picks_from_def Suc_le_eq order_le_less)
  then show ?thesis
    using assms picks_from_shift [OF ge, of v vs] by (auto simp: picks_from_def)
qed

lemma picks_from_le: "picks_from lo vs t idx \<Longrightarrow> t \<le> sum_list vs"
proof (induction vs arbitrary: lo t idx)
  case Nil
  then show ?case by (cases idx) (auto simp: picks_from_def)
next
  case (Cons v vs)
  from picks_from_Cons [OF Cons.prems] show ?case
  proof
    assume "picks_from (Suc lo) vs t idx"
    from Cons.IH [OF this] show ?thesis by simp
  next
    assume "v \<le> t \<and> (\<exists>idx'. picks_from (Suc lo) vs (t - v) idx')"
    then show ?thesis using Cons.IH [of "Suc lo" "t - v"] by fastforce
  qed
qed

lemma search_sound:
  "search (with_suffix vs) lo t steps = (Some idx, steps') \<Longrightarrow> picks_from lo vs t idx"
proof (induction vs arbitrary: lo t steps idx steps')
  case Nil
  then show ?case by (auto split: if_splits)
next
  case (Cons v vs)
  show ?case
  proof (cases "t = 0 \<or> t < v")
    case True
    then show ?thesis
      using Cons.prems Cons.IH [THEN picks_from_skip] by (auto split: if_splits)
  next
    case False
    then have v: "v \<le> t" "t \<noteq> 0" by auto
    obtain r s where inner: "search (with_suffix vs) (Suc lo) (t - v) (steps - 1) = (r, s)" by fastforce
    show ?thesis
    proof (cases r)
      case None
      then show ?thesis
        using Cons.prems inner v Cons.IH [THEN picks_from_skip] by (auto split: if_splits)
    next
      case (Some picked)
      then show ?thesis
        using Cons.prems inner v picks_from_take [OF Cons.IH [OF inner [unfolded Some]], of v]
        by (auto split: if_splits)
    qed
  qed
qed

text \<open>Without a budget the search visits at most \<open>2 ^ n - 1\<close> positions, and it is complete.\<close>

lemma search_complete:
  assumes "2 ^ length vs \<le> steps"
  shows "(\<exists>idx. picks_from lo vs t idx) \<longrightarrow> fst (search (with_suffix vs) lo t steps) \<noteq> None"
    and "steps \<le> snd (search (with_suffix vs) lo t steps) + (2 ^ length vs - 1)"
  using assms
proof (induction vs arbitrary: lo t steps)
  case Nil
  {
    case 1
    then show ?case using picks_from_le [of lo "[]" t] by auto
  next
    case 2
    then show ?case by simp
  }
next
  case (Cons v vs)
  {
    fix lo t and steps :: nat
    assume big: "2 ^ length (v # vs) \<le> steps"
    let ?in = "search (with_suffix vs) (Suc lo) (t - v) (steps - 1)"
    have pos: "0 < steps" using big by (metis less_le_trans zero_less_numeral zero_less_power)
    have pow: "2 ^ length vs \<le> steps - 1" "1 \<le> (2::nat) ^ length vs"
      using big pos by (auto simp: Suc_leI)
    have in_steps: "steps - 1 \<le> snd ?in + (2 ^ length vs - 1)"
      by (rule Cons.IH(2) [OF pow(1)])
    then have again: "2 ^ length vs \<le> snd ?in" using big pow by simp
    have found: "fst (search (with_suffix (v # vs)) lo t steps) \<noteq> None" if p: "picks_from lo (v # vs) t idx" for idx
    proof -
      have le: "t \<le> v + sum_list vs" using picks_from_le [OF p] by simp
      consider (skip) "\<exists>idx'. picks_from (Suc lo) vs t idx'"
        | (take) "v \<le> t" "\<exists>idx'. picks_from (Suc lo) vs (t - v) idx'"
        using picks_from_Cons [OF p] by blast
      then show ?thesis
      proof cases
        case skip
        then show ?thesis
          using Cons.IH(1) [OF pow(1), of "Suc lo" t] Cons.IH(1) [OF again, of "Suc lo" t] le pos
          by (auto split: prod.splits option.splits)
      next
        case take
        then show ?thesis
          using Cons.IH(1) [OF pow(1), of "Suc lo" "t - v"] le pos
          by (auto split: prod.splits option.splits)
      qed
    qed
    obtain n where n: "n = (2::nat) ^ length vs" by blast
    have left: "steps \<le> snd (search (with_suffix (v # vs)) lo t steps) + (2 ^ length (v # vs) - 1)"
    proof -
      have "steps - 1 \<le> snd (search (with_suffix vs) (Suc lo) t (steps - 1)) + (2 ^ length vs - 1)"
        by (rule Cons.IH(2) [OF pow(1)])
      moreover have "snd ?in \<le> snd (search (with_suffix vs) (Suc lo) t (snd ?in)) + (2 ^ length vs - 1)"
        by (rule Cons.IH(2) [OF again])
      ultimately show ?thesis
        using in_steps pos pow by (auto simp flip: n split: prod.splits option.splits)
    qed
    note found left
  }
  note both = this
  {
    case 1
    then show ?case using both(1) by blast
  next
    case 2
    then show ?case by (rule both(2))
  }
qed

lemma picks_from_0: "picks_from 0 vs t idx \<longleftrightarrow> picks vs t idx"
  by (auto simp: picks_from_def picks_def list_all_iff)

lemma subset_sound: "exact_note_subset vs t budget = Some idx \<Longrightarrow> picks vs t idx"
  unfolding exact_note_subset_def picks_from_0 [symmetric]
  by (metis eq_fst_iff search_sound)

text \<open>
  The search for whole notes is the specification \<open>some positions sum to the target\<close> as long as the
  budget covers every branch, and whatever it returns is right in any case.
\<close>

lemma subset_complete:
  assumes "2 ^ length vs \<le> budget"
  shows "exact_note_subset vs t budget \<noteq> None \<longleftrightarrow> (\<exists>idx. picks vs t idx)"
  using search_complete(1) [OF assms, of 0 t] subset_sound [of vs t budget]
  by (auto simp: exact_note_subset_def picks_from_0)

section \<open>Notes\<close>

record owned_deposit =
  od_id :: pix_id
  od_address :: nat
  od_amount :: balance

record witness_note =
  wn_amount :: fr
  wn_token :: fr
  wn_owner :: "fr \<times> fr"
  wn_secret :: fr
  wn_ephemeral :: "fr \<times> fr"
  wn_view_tag :: fr

record detected_note =
  dn_deposit :: owned_deposit
  dn_note :: witness_note

record committed_note =
  cn_deposit :: owned_deposit
  cn_note :: witness_note
  cn_leaf :: nat

definition max_note_selection_steps :: nat where
  "max_note_selection_steps = 2 ^ 16"

definition owned_note_of :: "committed_note \<Rightarrow> adapter_error + owned_note" where
  "owned_note_of c =
     (let n = cn_note c in
      if wn_view_tag n < 256
      then Inr \<lparr>on_owner = wn_owner n, on_secret = wn_secret n, on_ephemeral = wn_ephemeral n,
                on_view_tag = wn_view_tag n, on_amount = wn_amount n, on_token = wn_token n\<rparr>
      else Inl (InvalidValue ''note view tag does not fit one byte''))"

definition by_amount_descending :: "owned_note list \<Rightarrow> owned_note list" where
  "by_amount_descending = sort_key (\<lambda>n. - int (on_amount n))"

definition amount_u128 :: "string \<Rightarrow> owned_note \<Rightarrow> adapter_error + nat" where
  "amount_u128 msg n = (if on_amount n \<le> u128_max then Inr (on_amount n) else Inl (InvalidValue msg))"

fun greedy_prefix :: "nat \<Rightarrow> nat list \<Rightarrow> nat \<Rightarrow> nat" where
  "greedy_prefix target [] selected = selected"
| "greedy_prefix target (v # vs) selected =
     (if target \<le> selected then selected else greedy_prefix target vs (selected + v))"

definition select_notes ::
  "(balance \<Rightarrow> string) \<Rightarrow> committed_note list \<Rightarrow> balance option \<Rightarrow> adapter_error + owned_note list" where
  "select_notes show_balance committed amount =
     (case traverse owned_note_of committed of
        Inl e \<Rightarrow> Inl e
      | Inr all \<Rightarrow>
          let notes = filter (\<lambda>n. on_amount n \<noteq> 0) all in
          case amount of
            None \<Rightarrow> Inr notes
          | Some target \<Rightarrow>
              case balance_u128 show_balance target of
                Inl e \<Rightarrow> Inl e
              | Inr target \<Rightarrow>
                  let notes = by_amount_descending notes in
                  case traverse (amount_u128 ''note amount does not fit u128'') notes of
                    Inl e \<Rightarrow> Inl e
                  | Inr values \<Rightarrow>
                      case checked_sum ''note total overflows u128'' values 0 of
                        Inl e \<Rightarrow> Inl e
                      | Inr available \<Rightarrow>
                          if available < target then Inl (InsufficientNotes target available)
                          else
                            case exact_note_subset values target max_note_selection_steps of
                              Some idx \<Rightarrow> Inr (map (\<lambda>i. notes ! i) idx)
                            | None \<Rightarrow> Inl (InexactWithdrawal target (greedy_prefix target values 0)))"

definition max_allocation_inputs :: nat where
  "max_allocation_inputs = 2"

definition choose_funding :: "nat \<Rightarrow> owned_note list \<Rightarrow> adapter_error + owned_note list" where
  \<comment> \<open>the block of \<open>allocate_chunk\<close> that picks the inputs of an aggregation\<close>
  "choose_funding minimum notes =
     (case traverse (amount_u128 ''funding amount does not fit u128'') notes of
        Inl e \<Rightarrow> Inl e
      | Inr _ \<Rightarrow>
          let candidates = by_amount_descending notes in
          case find (\<lambda>n. minimum \<le> on_amount n) candidates of
            Some single \<Rightarrow> Inr [single]
          | None \<Rightarrow>
              let selected = take max_allocation_inputs candidates in
              case checked_sum ''funding total overflows u128'' (map on_amount selected) 0 of
                Inl e \<Rightarrow> Inl e
              | Inr available \<Rightarrow> if available < minimum then Inl (NoFunding minimum) else Inr selected)"

section \<open>What the choice of notes guarantees\<close>

lemma checked_sum_Inr: "checked_sum msg vs acc = Inr s \<Longrightarrow> s = acc + sum_list vs"
  by (induction vs arbitrary: acc) (fastforce split: if_splits)+

lemma traverse_amounts: "traverse (amount_u128 msg) ns = Inr vs \<Longrightarrow> vs = map on_amount ns"
  by (induction ns arbitrary: vs) (auto simp: amount_u128_def split: if_splits sum.splits)

text \<open>Positions as an ascending list, and positions as a set.\<close>

lemma picks_iff_subset: "(\<exists>idx. picks vs t idx) \<longleftrightarrow> (\<exists>S. S \<subseteq> {..<length vs} \<and> (\<Sum>i\<in>S. vs ! i) = t)"
proof
  assume "\<exists>idx. picks vs t idx"
  then obtain idx where "picks vs t idx" by blast
  then have "distinct idx" "set idx \<subseteq> {..<length vs}" "sum_list (map ((!) vs) idx) = t"
    by (auto simp: picks_def list_all_iff strict_sorted_iff)
  then show "\<exists>S. S \<subseteq> {..<length vs} \<and> (\<Sum>i\<in>S. vs ! i) = t"
    by (metis sum_list_distinct_conv_sum_set)
next
  assume "\<exists>S. S \<subseteq> {..<length vs} \<and> (\<Sum>i\<in>S. vs ! i) = t"
  then obtain S where S: "S \<subseteq> {..<length vs}" "(\<Sum>i\<in>S. vs ! i) = t" by blast
  have fin: "finite S" using S(1) finite_subset by blast
  then have "sum_list (map ((!) vs) (sorted_list_of_set S)) = t"
    using S(2) by (simp add: sum_list_distinct_conv_sum_set)
  with S fin have "picks vs t (sorted_list_of_set S)"
    by (auto simp: picks_def list_all_iff strict_sorted_iff)
  then show "\<exists>idx. picks vs t idx" by blast
qed

lemma picked_mset:
  assumes "picks (map f ns) t idx"
  shows "mset (map (\<lambda>i. ns ! i) idx) \<subseteq># mset ns" and "sum_list (map f (map (\<lambda>i. ns ! i) idx)) = t"
proof -
  have idx: "distinct idx" "set idx \<subseteq> {..<length ns}"
    using assms by (auto simp: picks_def list_all_iff strict_sorted_iff)
  have "mset (map (\<lambda>i. ns ! i) idx) = image_mset ((!) ns) (mset_set (set idx))"
    using idx(1) by (simp add: mset_set_set)
  also have "\<dots> \<subseteq># image_mset ((!) ns) (mset_set {..<length ns})"
    using idx(2) by (intro image_mset_subseteq_mono subset_imp_msubset_mset_set) auto
  also have "image_mset ((!) ns) (mset_set {..<length ns}) = mset ns"
    by (metis map_nth mset_map mset_set_upto_eq_mset_upto)
  finally show "mset (map (\<lambda>i. ns ! i) idx) \<subseteq># mset ns" .
  have "map f (map (\<lambda>i. ns ! i) idx) = map (\<lambda>i. map f ns ! i) idx"
    using idx(2) by (auto simp: in_set_conv_nth)
  then show "sum_list (map f (map (\<lambda>i. ns ! i) idx)) = t"
    using assms unfolding picks_def by (simp only: conj_ac)
qed

definition spendable :: "committed_note list \<Rightarrow> owned_note list" where
  \<comment> \<open>the notes a withdrawal may spend\<close>
  "spendable committed =
     (case traverse owned_note_of committed of
        Inl _ \<Rightarrow> []
      | Inr all \<Rightarrow> filter (\<lambda>n. on_amount n \<noteq> 0) all)"

lemma mset_by_amount [simp]: "mset (by_amount_descending ns) = mset ns"
  by (simp add: by_amount_descending_def)

lemma subset_of_mset:
  fixes f :: "'a \<Rightarrow> nat"
  assumes "sub \<subseteq># mset ns"
  shows "\<exists>S. S \<subseteq> {..<length ns} \<and> (\<Sum>i\<in>S. map f ns ! i) = sum_mset (image_mset f sub)"
  using assms
proof (induction ns arbitrary: sub)
  case Nil
  then show ?case by (intro exI [of _ "{}"]) simp
next
  case (Cons n ns)
  have step: "(\<Sum>i\<in>Suc ` S. map f (n # ns) ! i) = (\<Sum>i\<in>S. map f ns ! i)" for S
    by (subst sum.reindex) auto
  show ?case
  proof (cases "n \<in># sub")
    case True
    then obtain sub' where sub: "sub = add_mset n sub'" by (metis insert_DiffM)
    then have "sub' \<subseteq># mset ns" using Cons.prems by simp
    from Cons.IH [OF this] obtain S where S: "S \<subseteq> {..<length ns}"
        "(\<Sum>i\<in>S. map f ns ! i) = sum_mset (image_mset f sub')" by blast
    have "finite (Suc ` S)" "0 \<notin> Suc ` S" using S(1) finite_subset by auto
    then have "(\<Sum>i\<in>insert 0 (Suc ` S). map f (n # ns) ! i) = sum_mset (image_mset f sub)"
      using S(2) step [of S] by (simp add: sub)
    moreover have "insert 0 (Suc ` S) \<subseteq> {..<length (n # ns)}" using S(1) by auto
    ultimately show ?thesis by blast
  next
    case False
    then have "sub \<subseteq># mset ns" using Cons.prems
      by (metis count_add_mset count_eq_zero_iff le_zero_eq mset.simps(2) subseteq_mset_def zero_le)
    from Cons.IH [OF this] obtain S where S: "S \<subseteq> {..<length ns}"
        "(\<Sum>i\<in>S. map f ns ! i) = sum_mset (image_mset f sub)" by blast
    moreover have "Suc ` S \<subseteq> {..<length (n # ns)}" using S(1) by auto
    ultimately show ?thesis using step [of S] by metis
  qed
qed

fun selection_refused :: "adapter_error \<Rightarrow> bool" where
  "selection_refused (InexactWithdrawal _ _) = True"
| "selection_refused (InsufficientNotes _ _) = True"
| "selection_refused _ = False"

lemma select_notes_late:
  assumes "\<And>e. select_notes show_balance committed (Some target) = Inl e \<Longrightarrow> selection_refused e"
  shows "select_notes show_balance committed (Some target) =
    (let sorted = by_amount_descending (spendable committed); values = map on_amount sorted in
     if sum_list values < target then Inl (InsufficientNotes target (sum_list values))
     else case exact_note_subset values target max_note_selection_steps of
       Some idx \<Rightarrow> Inr (map (\<lambda>i. sorted ! i) idx)
     | None \<Rightarrow> Inl (InexactWithdrawal target (greedy_prefix target values 0)))"
proof -
  have t: "traverse owned_note_of committed = Inl e \<Longrightarrow> \<not> selection_refused e" for e
    by (induction committed arbitrary: e) (auto simp: owned_note_of_def Let_def split: if_splits sum.splits)
  have a: "traverse (amount_u128 msg) ns = Inl e \<Longrightarrow> \<not> selection_refused e" for msg ns e
    by (induction ns arbitrary: e) (auto simp: amount_u128_def split: if_splits sum.splits)
  have c: "checked_sum msg vs acc = Inl e \<Longrightarrow> \<not> selection_refused e" for msg vs acc e
    by (induction vs arbitrary: acc) (auto split: if_splits)
  obtain all where all: "traverse owned_note_of committed = Inr all"
    using assms t by (cases "traverse owned_note_of committed") (auto simp: select_notes_def)
  then have sp: "filter (\<lambda>n. 0 < on_amount n) all = spendable committed" by (simp add: spendable_def)
  let ?ns = "by_amount_descending (spendable committed)"
  have fits: "target \<le> u128_max"
  proof (rule ccontr)
    assume "\<not> target \<le> u128_max"
    then show False
      using assms [of "InvalidValue (show_balance target @ '' does not fit u128'')"]
      by (simp add: select_notes_def all balance_u128_def)
  qed
  obtain vals where vs: "traverse (amount_u128 ''note amount does not fit u128'') ?ns = Inr vals"
  proof (cases "traverse (amount_u128 ''note amount does not fit u128'') ?ns")
    case (Inl e)
    then have "select_notes show_balance committed (Some target) = Inl e"
      by (simp add: select_notes_def all balance_u128_def fits sp)
    with assms a [OF Inl] show ?thesis by blast
  qed
  obtain available where av: "checked_sum ''note total overflows u128'' vals 0 = Inr available"
  proof (cases "checked_sum ''note total overflows u128'' vals 0")
    case (Inl e)
    then have "select_notes show_balance committed (Some target) = Inl e"
      by (simp add: select_notes_def all balance_u128_def fits sp vs)
    with assms c [OF Inl] show ?thesis by blast
  qed
  have vals: "vals = map on_amount ?ns" by (rule traverse_amounts [OF vs])
  with checked_sum_Inr [OF av] have "available = sum_list (map on_amount ?ns)" by simp
  then show ?thesis
    using vs av by (simp add: select_notes_def all balance_u128_def fits sp vals Let_def)
qed


lemma two_largest:
  assumes desc: "sorted_wrt (\<lambda>x y. f y \<le> (f x :: nat)) ns"
    and pair: "pair \<subseteq># mset ns" "size pair \<le> 2"
  shows "sum_mset (image_mset f pair) \<le> sum_list (map f (take 2 ns))"
proof -
  consider "pair = {#}" | x where "pair = {#x#}" | x y where "pair = {#x, y#}"
  proof (cases pair)
    case (add x p)
    then show ?thesis
    proof (cases p)
      case (add y q)
      with \<open>pair = add_mset x p\<close> pair(2) have "pair = {#x, y#}" by simp
      then show ?thesis by (rule that)
    qed (use add that in auto)
  qed (use that in auto)
  then show ?thesis
  proof cases
    case 1
    then show ?thesis by simp
  next
    case 2
    then obtain a rest where "ns = a # rest" using pair(1) by (cases ns) auto
    with 2 pair(1) desc show ?thesis by (cases rest) (auto simp: numeral_2_eq_2)
  next
    case 3
    then obtain a b rest where ns: "ns = a # b # rest"
      using size_mset_mono [OF pair(1)] by (cases ns; cases "tl ns") auto
    let ?m = "mset (b # rest)"
    have low: "f z \<le> f b" if "z \<in># ?m" for z using that desc ns by auto
    have top: "f z \<le> f a" if "z \<in># mset ns" for z using that desc ns by auto
    have "x \<in># ?m \<or> y \<in># ?m"
    proof (rule ccontr)
      assume no: "\<not> (x \<in># ?m \<or> y \<in># ?m)"
      have in_ns: "x \<in># mset ns" "y \<in># mset ns" using pair(1) 3 by (auto dest: mset_subset_eqD)
      with no have "x = a" "y = a" by (auto simp: ns)
      then show False using pair(1) no by (simp add: 3 ns)
    qed
    moreover have "x \<in># mset ns" "y \<in># mset ns" using pair(1) 3 by (auto dest: mset_subset_eqD)
    ultimately have "f x + f y \<le> f a + f b" using low top by (metis add.commute add_mono)
    then show ?thesis by (simp add: 3 ns numeral_2_eq_2)
  qed
qed

lemma by_amount_sorted: "sorted_wrt (\<lambda>x y. on_amount y \<le> on_amount x) (by_amount_descending ns)"
  using sorted_sort_key [of "\<lambda>n. - int (on_amount n)" ns]
  by (simp add: by_amount_descending_def sorted_map)

text \<open>
  C20. An allocation is refused for lack of funding only if no note of the pool and no two notes of it
  hold the minimum; otherwise it spends one or two notes of the pool that do hold it.
\<close>

theorem funding_choice_complete:
  "case choose_funding minimum notes of
     Inr chosen \<Rightarrow>
       length chosen \<le> 2 \<and> mset chosen \<subseteq># mset notes \<and> minimum \<le> sum_list (map on_amount chosen)
   | Inl (NoFunding required) \<Rightarrow>
       required = minimum \<and>
       \<not> (\<exists>pair. pair \<subseteq># mset notes \<and> size pair \<le> 2 \<and> minimum \<le> sum_mset (image_mset on_amount pair))
   | Inl _ \<Rightarrow> True"
proof -
  let ?sorted = "by_amount_descending notes"
  have plain: "traverse (amount_u128 msg) ns = Inl e \<Longrightarrow> \<exists>m. e = InvalidValue m" for msg ns e
    by (induction ns arbitrary: e) (auto simp: amount_u128_def split: if_splits sum.splits)
  have overflow: "checked_sum msg vs acc = Inl e \<Longrightarrow> \<exists>m. e = InvalidValue m" for msg vs acc e
    by (induction vs arbitrary: acc) (auto split: if_splits)
  show ?thesis
  proof (cases "traverse (amount_u128 ''funding amount does not fit u128'') notes")
    case (Inl e)
    with plain [OF Inl] show ?thesis by (auto simp: choose_funding_def)
  next
    case Inr: (Inr vs)
    show ?thesis
    proof (cases "find (\<lambda>n. minimum \<le> on_amount n) ?sorted")
      case (Some single)
      then have "single \<in># mset ?sorted" "minimum \<le> on_amount single"
        by (auto simp: find_Some_iff simp del: mset_by_amount)
      with Inr Some show ?thesis by (simp add: choose_funding_def Let_def)
    next
      case None
      let ?two = "take max_allocation_inputs ?sorted"
      have sub: "mset ?two \<subseteq># mset notes"
        by (metis append_take_drop_id mset_append mset_by_amount mset_subset_eq_add_left)
      show ?thesis
      proof (cases "checked_sum ''funding total overflows u128'' (map on_amount ?two) 0")
        case (Inl e)
        with overflow [OF Inl] None Inr show ?thesis by (auto simp: choose_funding_def Let_def)
      next
        case total: (Inr available)
        note av = checked_sum_Inr [OF total]
        have "\<not> (\<exists>pair. pair \<subseteq># mset notes \<and> size pair \<le> 2 \<and> minimum \<le> sum_mset (image_mset on_amount pair))"
          if "available < minimum"
          using two_largest [OF by_amount_sorted [of "notes"]] that av
          by (fastforce simp: max_allocation_inputs_def)
        with None Inr total av sub show ?thesis
          by (auto simp: choose_funding_def Let_def max_allocation_inputs_def)
      qed
    qed
  qed
qed

end
