(* ===== verification/Curvy_Store.thy ===== *)
theory Curvy_Store
  imports Byte_Encoding Curvy_Notes
begin

text \<open>
  \<open>src/src/pix/pools/curvy/state.rs\<close>: the durable note store, with its record formats. The record
  \<open>note_codec\<close> holds what other crates provide: the byte forms of an allocation id, of a compressed
  point, of a field element and of a scan secret with their checked inverses, and UTF-8 decoding. A transaction of
  \<open>redb\<close> that fails leaves the database as it was; a range scan yields the rows in key order.

  The byte-level tables implement a finite map from allocation and note to a stored note:
  \<open>stored_notes\<close> is that map, and each operation is shown to act on it as intended.
\<close>

type_synonym scan_secret = nat

record note_codec =
  nc_id_bytes :: "pix_id \<Rightarrow> bytes"
  nc_parse_id :: "bytes \<Rightarrow> string + pix_id"
  nc_address_bytes :: "nat \<Rightarrow> bytes"
  nc_parse_address :: "bytes \<Rightarrow> string + nat"
  nc_fr_bytes :: "fr \<Rightarrow> bytes"
  nc_parse_fr :: "bytes \<Rightarrow> fr option"
  nc_utf8 :: "bytes \<Rightarrow> string + string"
  nc_secret_bytes :: "scan_secret \<Rightarrow> bytes"
  nc_parse_secret :: "bytes \<Rightarrow> string + scan_secret"

definition pix_id_size :: nat where
  "pix_id_size = 14"

definition note_id_size :: nat where
  "note_id_size = 32"

section \<open>Cursors\<close>

record event_cursor =
  ec_block :: string
  ec_tx :: string
  ec_log :: string
  ec_item :: string
  ec_hash :: "string option"

datatype event_kind = Pending | Committed

definition cursor_component :: "string \<Rightarrow> string \<Rightarrow> curvy_state_error + nat" where
  "cursor_component value name =
     (case parse_uint u64_max value of
        Inl e \<Rightarrow> Inl (Corrupt (''invalid Curvy cursor '' @ name @ '': '' @ e))
      | Inr n \<Rightarrow> Inr n)"

definition encode_cursor :: "event_cursor \<Rightarrow> curvy_state_error + bytes" where
  "encode_cursor c =
     (case cursor_component (ec_block c) ''block'' of
        Inl e \<Rightarrow> Inl e
      | Inr block \<Rightarrow>
          (case cursor_component (ec_tx c) ''transaction index'' of
             Inl e \<Rightarrow> Inl e
           | Inr tx \<Rightarrow>
               (case cursor_component (ec_log c) ''log index'' of
                  Inl e \<Rightarrow> Inl e
                | Inr log \<Rightarrow>
                    (case cursor_component (ec_item c) ''event item index'' of
                       Inl e \<Rightarrow> Inl e
                     | Inr item \<Rightarrow>
                         Inr (be_bytes 8 block @ be_bytes 8 tx @ be_bytes 8 log @ be_bytes 8 item @
                              (case ec_hash c of None \<Rightarrow> [] | Some h \<Rightarrow> map of_char h))))))"

definition slice :: "bytes \<Rightarrow> nat \<Rightarrow> nat \<Rightarrow> bytes" where
  "slice b from n = take n (drop from b)"

definition decode_cursor :: "note_codec \<Rightarrow> bytes \<Rightarrow> curvy_state_error + event_cursor" where
  "decode_cursor nc b =
     (if length b < 32 then Inl (Corrupt ''Curvy cursor is too short'')
      else
        let u64 = (\<lambda>offset. show_nat (from_be (slice b offset 8)));
            cursor = \<lparr>ec_block = u64 0, ec_tx = u64 8, ec_log = u64 16, ec_item = u64 24, ec_hash = None\<rparr> in
        if 32 < length b
        then (case nc_utf8 nc (drop 32 b) of
                Inl e \<Rightarrow> Inl (Corrupt (''cursor block hash is not UTF-8: '' @ e))
              | Inr h \<Rightarrow> Inr (cursor\<lparr>ec_hash := Some h\<rparr>))
        else Inr cursor)"

section \<open>Note records\<close>

record stored_owned_note =
  so_detected :: detected_note
  so_committed :: bool
  so_leaf :: "nat option"

definition owned_note_version :: byte where
  "owned_note_version = 1"

definition owned_note_size :: nat where
  "owned_note_size = 344"

definition encode_owned_note :: "note_codec \<Rightarrow> stored_owned_note \<Rightarrow> bytes" where
  "encode_owned_note nc s =
     (let d = dn_deposit (so_detected s); n = dn_note (so_detected s); f = nc_fr_bytes nc in
      [owned_note_version] @ nc_id_bytes nc (od_id d) @ nc_address_bytes nc (od_address d) @
      be_bytes 32 (od_amount d) @
      f (wn_amount n) @ f (wn_token n) @ f (fst (wn_owner n)) @ f (snd (wn_owner n)) @ f (wn_secret n) @
      f (fst (wn_ephemeral n)) @ f (snd (wn_ephemeral n)) @ f (wn_view_tag n) @
      [if so_committed s then 1 else 0] @
      be_bytes 8 (case so_leaf s of None \<Rightarrow> u64_max | Some i \<Rightarrow> i))"

definition decode_note_field :: "note_codec \<Rightarrow> bytes \<Rightarrow> nat \<Rightarrow> string \<Rightarrow> curvy_state_error + fr" where
  "decode_note_field nc b offset name =
     (case nc_parse_fr nc (slice b offset 32) of
        None \<Rightarrow> Inl (Corrupt (''owned-note '' @ name @ '' is not a canonical BN254 field element''))
      | Some x \<Rightarrow> Inr x)"

definition note_fields :: "string list" where
  "note_fields = [''amount'', ''token'', ''owner x'', ''owner y'', ''shared secret'', ''ephemeral key x'',
                  ''ephemeral key y'', ''view tag'']"

definition decode_fields :: "note_codec \<Rightarrow> bytes \<Rightarrow> nat \<Rightarrow> curvy_state_error + fr list" where
  \<comment> \<open>the fields one after the other, the first failure wins\<close>
  "decode_fields nc b offset =
     traverse (\<lambda>(i, name). decode_note_field nc b (offset + 32 * i) name) (List.enumerate 0 note_fields)"

definition decode_owned_note :: "note_codec \<Rightarrow> bytes \<Rightarrow> curvy_state_error + stored_owned_note" where
  "decode_owned_note nc b =
     (if length b \<noteq> owned_note_size then Inl (Corrupt ''owned-note record has the wrong size'')
      else if b ! 0 \<noteq> owned_note_version then Inl (Corrupt ''unsupported owned-note record version'')
      else
        case nc_parse_id nc (slice b 1 pix_id_size) of
          Inl e \<Rightarrow> Inl (Corrupt (''invalid PIX allocation ID: '' @ e))
        | Inr i \<Rightarrow>
            (let address_offset = 1 + pix_id_size; amount_offset = address_offset + 32;
                 fields_offset = amount_offset + 32; flag_offset = fields_offset + 8 * 32 in
             case nc_parse_address nc (slice b address_offset 32) of
               Inl e \<Rightarrow> Inl (Corrupt (''invalid BJJ address: '' @ e))
             | Inr address \<Rightarrow>
                 (case decode_fields nc b fields_offset of
                    Inl e \<Rightarrow> Inl e
                  | Inr fs \<Rightarrow>
                      let amount = from_be (slice b amount_offset 32);
                          note = \<lparr>wn_amount = fs ! 0, wn_token = fs ! 1, wn_owner = (fs ! 2, fs ! 3),
                                  wn_secret = fs ! 4, wn_ephemeral = (fs ! 5, fs ! 6), wn_view_tag = fs ! 7\<rparr>;
                          flag = b ! flag_offset; raw = from_be (slice b (flag_offset + 1) 8);
                          leaf = (if raw = u64_max then None else Some raw) in
                      if flag \<noteq> 0 \<and> flag \<noteq> 1 then Inl (Corrupt ''invalid owned-note committed flag'')
                      else if (flag = 1) \<noteq> (leaf \<noteq> None)
                      then Inl (Corrupt ''owned-note commitment flag and leaf index disagree'')
                      else Inr \<lparr>so_detected = \<lparr>dn_deposit = \<lparr>od_id = i, od_address = address, od_amount = amount\<rparr>,
                                               dn_note = note\<rparr>,
                                so_committed = (flag = 1), so_leaf = leaf\<rparr>)))"

section \<open>The database\<close>

record curvy_db =
  cd_cursors :: "event_kind \<Rightarrow> bytes option"
  cd_notes :: "(bytes \<times> bytes) list"
  cd_sessions :: "(bytes \<times> bytes) list"
  cd_secrets :: "(bytes \<times> bytes) list"

definition empty_db :: curvy_db where
  "empty_db = \<lparr>cd_cursors = (\<lambda>_. None), cd_notes = [], cd_sessions = [], cd_secrets = []\<rparr>"

type_synonym db_io = "string option"

definition write_tx ::
  "db_io \<Rightarrow> curvy_db \<Rightarrow> curvy_state_error + 'a \<times> curvy_db \<Rightarrow> (curvy_state_error + 'a) \<times> curvy_db" where
  \<comment> \<open>a write transaction around a body; \<open>Some m\<close> is a failure of the database itself\<close>
  "write_tx io db body =
     (case io of
        Some m \<Rightarrow> (Inl (Database m), db)
      | None \<Rightarrow> (case body of Inl e \<Rightarrow> (Inl e, db) | Inr (a, db') \<Rightarrow> (Inr a, db')))"

definition parse_curvy_note_id :: "note_codec \<Rightarrow> string \<Rightarrow> string + fr" where
  "parse_curvy_note_id nc value =
     (if take 2 value \<noteq> ''0x'' \<and> take 2 value \<noteq> ''0X''
      then Inl ''deposit note id must use 0x-prefixed Hex32 encoding''
      else if length (drop 2 value) \<noteq> 64 then Inl ''deposit note id must contain exactly 32 bytes''
      else
        case parse_hex (drop 2 value) 0 of
          None \<Rightarrow> Inl ''invalid deposit note id''
        | Some n \<Rightarrow>
            (case nc_parse_fr nc (be_bytes 32 n) of
               None \<Rightarrow> Inl ''deposit note id is not a canonical BN254 field element''
             | Some x \<Rightarrow> Inr x))"

definition note_id_key :: "note_codec \<Rightarrow> string \<Rightarrow> curvy_state_error + bytes" where
  "note_id_key nc note_id =
     (case parse_curvy_note_id nc note_id of
        Inl e \<Rightarrow> Inl (Corrupt (''invalid Curvy detection candidate: '' @ e))
      | Inr x \<Rightarrow> Inr (nc_fr_bytes nc x))"

definition session_range :: "note_codec \<Rightarrow> pix_id \<Rightarrow> bytes \<Rightarrow> bool" where
  "session_range nc i key \<longleftrightarrow>
     nc_id_bytes nc i @ replicate note_id_size 0 \<le> key \<and> key \<le> nc_id_bytes nc i @ replicate note_id_size 255"

definition session_rows :: "note_codec \<Rightarrow> pix_id \<Rightarrow> curvy_db \<Rightarrow> bytes list" where
  "session_rows nc i db = map snd (filter (\<lambda>(k, _). session_range nc i k) (sort_key fst (cd_notes db)))"

definition read_cursor :: "note_codec \<Rightarrow> db_io \<Rightarrow> event_kind \<Rightarrow> curvy_db \<Rightarrow> curvy_state_error + event_cursor option" where
  "read_cursor nc io kind db =
     (case io of
        Some m \<Rightarrow> Inl (Database m)
      | None \<Rightarrow>
          (case cd_cursors db kind of
             None \<Rightarrow> Inr None
           | Some b \<Rightarrow> (case decode_cursor nc b of Inl e \<Rightarrow> Inl e | Inr c \<Rightarrow> Inr (Some c))))"

definition put_cursor :: "event_kind \<Rightarrow> event_cursor \<Rightarrow> curvy_db \<Rightarrow> curvy_state_error + curvy_db" where
  "put_cursor kind cursor db =
     (case encode_cursor cursor of
        Inl e \<Rightarrow> Inl e
      | Inr b \<Rightarrow> Inr (db\<lparr>cd_cursors := (cd_cursors db)(kind := Some b)\<rparr>))"

definition record_owned_candidate ::
  "note_codec \<Rightarrow> db_io \<Rightarrow> string \<Rightarrow> detected_note \<Rightarrow> event_cursor \<Rightarrow> curvy_db \<Rightarrow>
   (curvy_state_error + unit) \<times> curvy_db" where
  "record_owned_candidate nc io note_id note cursor db =
     (case note_id_key nc note_id of
        Inl e \<Rightarrow> (Inl e, db)
      | Inr nkey \<Rightarrow>
          (let id = nc_id_bytes nc (od_id (dn_deposit note)); key = id @ nkey;
               record = encode_owned_note nc \<lparr>so_detected = note, so_committed = False, so_leaf = None\<rparr>;
               notes = (if map_of (cd_notes db) key = None then AList.update key record (cd_notes db) else cd_notes db) in
           write_tx io db
             (case put_cursor Pending cursor
                (db\<lparr>cd_notes := notes, cd_sessions := AList.update nkey id (cd_sessions db)\<rparr>) of
                Inl e \<Rightarrow> Inl e
              | Inr db' \<Rightarrow> Inr ((), db'))))"

definition find_session_note :: "note_codec \<Rightarrow> bytes \<Rightarrow> curvy_db \<Rightarrow> curvy_state_error + (bytes \<times> stored_owned_note) option" where
  \<comment> \<open>the row of a note id, by way of the session it belongs to\<close>
  "find_session_note nc nkey db =
     (case map_of (cd_sessions db) nkey of
        None \<Rightarrow> Inr None
      | Some b \<Rightarrow>
          (case nc_parse_id nc b of
             Inl e \<Rightarrow> Inl (Corrupt (''invalid note session ID: '' @ e))
           | Inr i \<Rightarrow>
               (let key = nc_id_bytes nc i @ nkey in
                case map_of (cd_notes db) key of
                  None \<Rightarrow> Inr None
                | Some record \<Rightarrow>
                    (case decode_owned_note nc record of Inl e \<Rightarrow> Inl e | Inr s \<Rightarrow> Inr (Some (key, s))))))"

definition record_completion ::
  "note_codec \<Rightarrow> db_io \<Rightarrow> string \<Rightarrow> nat \<Rightarrow> event_cursor \<Rightarrow> curvy_db \<Rightarrow>
   (curvy_state_error + committed_note option) \<times> curvy_db" where
  "record_completion nc io note_id leaf cursor db =
     (case note_id_key nc note_id of
        Inl e \<Rightarrow> (Inl e, db)
      | Inr nkey \<Rightarrow>
          write_tx io db
            (case find_session_note nc nkey db of
               Inl e \<Rightarrow> Inl e
             | Inr None \<Rightarrow>
                 (case put_cursor Committed cursor db of Inl e \<Rightarrow> Inl e | Inr db' \<Rightarrow> Inr (None, db'))
             | Inr (Some (key, s)) \<Rightarrow>
                 (let record = encode_owned_note nc (s\<lparr>so_committed := True, so_leaf := Some leaf\<rparr>) in
                  case put_cursor Committed cursor (db\<lparr>cd_notes := AList.update key record (cd_notes db)\<rparr>) of
                    Inl e \<Rightarrow> Inl e
                  | Inr db' \<Rightarrow>
                      Inr (Some \<lparr>cn_deposit = dn_deposit (so_detected s), cn_note = dn_note (so_detected s),
                                 cn_leaf = leaf\<rparr>, db'))))"

definition advance_cursor ::
  "db_io \<Rightarrow> event_kind \<Rightarrow> event_cursor \<Rightarrow> curvy_db \<Rightarrow> (curvy_state_error + unit) \<times> curvy_db" where
  "advance_cursor io kind cursor db =
     write_tx io db (case put_cursor kind cursor db of Inl e \<Rightarrow> Inl e | Inr db' \<Rightarrow> Inr ((), db'))"

definition committed_amount :: "note_codec \<Rightarrow> db_io \<Rightarrow> pix_id \<Rightarrow> curvy_db \<Rightarrow> curvy_state_error + balance" where
  "committed_amount nc io i db =
     (case io of
        Some m \<Rightarrow> Inl (Database m)
      | None \<Rightarrow>
          (case traverse (decode_owned_note nc) (session_rows nc i db) of
             Inl e \<Rightarrow> Inl e
           | Inr rows \<Rightarrow>
               Inr (foldl (\<lambda>acc s. if so_committed s then bal_add acc (od_amount (dn_deposit (so_detected s))) else acc)
                      0 rows)))"

definition committed_of :: "stored_owned_note \<Rightarrow> committed_note option" where
  "committed_of s =
     (case so_leaf s of
        None \<Rightarrow> None
      | Some leaf \<Rightarrow>
          Some \<lparr>cn_deposit = dn_deposit (so_detected s), cn_note = dn_note (so_detected s), cn_leaf = leaf\<rparr>)"

definition committed_notes :: "note_codec \<Rightarrow> db_io \<Rightarrow> pix_id \<Rightarrow> curvy_db \<Rightarrow> curvy_state_error + committed_note list" where
  "committed_notes nc io i db =
     (case io of
        Some m \<Rightarrow> Inl (Database m)
      | None \<Rightarrow>
          (case traverse (decode_owned_note nc) (session_rows nc i db) of
             Inl e \<Rightarrow> Inl e
           | Inr rows \<Rightarrow> Inr (List.map_filter committed_of rows)))"

definition remove_spent_notes ::
  "note_codec \<Rightarrow> db_io \<Rightarrow> pix_id \<Rightarrow> string list \<Rightarrow> curvy_db \<Rightarrow> (curvy_state_error + unit) \<times> curvy_db" where
  "remove_spent_notes nc io i note_ids db =
     write_tx io db
       (case traverse (note_id_key nc) note_ids of
          Inl e \<Rightarrow> Inl e
        | Inr keys \<Rightarrow>
            Inr ((), fold (\<lambda>nkey db. db\<lparr>cd_notes := AList.delete (nc_id_bytes nc i @ nkey) (cd_notes db),
                                       cd_sessions := AList.delete nkey (cd_sessions db)\<rparr>) keys db))"

definition owned_note_ids :: "db_io \<Rightarrow> curvy_db \<Rightarrow> curvy_state_error + string list" where
  "owned_note_ids io db =
     (case io of
        Some m \<Rightarrow> Inl (Database m)
      | None \<Rightarrow> Inr (map (\<lambda>(k, _). ''0x'' @ hex_bytes k) (sort_key fst (cd_sessions db))))"

definition store_scan_secret ::
  "note_codec \<Rightarrow> db_io \<Rightarrow> pix_id \<Rightarrow> scan_secret \<Rightarrow> curvy_db \<Rightarrow> (curvy_state_error + unit) \<times> curvy_db" where
  "store_scan_secret nc io i secret db =
     write_tx io db
       (Inr ((), db\<lparr>cd_secrets := AList.update (nc_id_bytes nc i) (nc_secret_bytes nc secret) (cd_secrets db)\<rparr>))"

definition read_scan_secret :: "note_codec \<Rightarrow> db_io \<Rightarrow> pix_id \<Rightarrow> curvy_db \<Rightarrow> curvy_state_error + scan_secret option" where
  "read_scan_secret nc io i db =
     (case io of
        Some m \<Rightarrow> Inl (Database m)
      | None \<Rightarrow>
          (case map_of (cd_secrets db) (nc_id_bytes nc i) of
             None \<Rightarrow> Inr None
           | Some b \<Rightarrow>
               (case nc_parse_secret nc b of
                  Inl e \<Rightarrow> Inl (Corrupt (''invalid stored Curvy scan secret: '' @ e))
                | Inr secret \<Rightarrow> Inr (Some secret))))"

definition remove_scan_secret ::
  "note_codec \<Rightarrow> db_io \<Rightarrow> pix_id \<Rightarrow> curvy_db \<Rightarrow> (curvy_state_error + unit) \<times> curvy_db" where
  "remove_scan_secret nc io i db =
     write_tx io db (Inr ((), db\<lparr>cd_secrets := AList.delete (nc_id_bytes nc i) (cd_secrets db)\<rparr>))"

definition wipe_chain_state :: "db_io \<Rightarrow> curvy_db \<Rightarrow> (curvy_state_error + unit) \<times> curvy_db" where
  "wipe_chain_state io db = write_tx io db (Inr ((), empty_db))"

section \<open>Round trips of the records\<close>

lemma slice_skip: "length a \<le> from \<Longrightarrow> slice (a @ b) from n = slice b (from - length a) n"
  by (simp add: slice_def)

lemma slice_here: "length a = n \<Longrightarrow> slice (a @ b) 0 n = a"
  by (simp add: slice_def)

lemma slice_last: "length a = n \<Longrightarrow> slice a 0 n = a"
  by (simp add: slice_def)

lemma slice_Cons: "0 < from \<Longrightarrow> slice (x # b) from n = slice b (from - 1) n"
  by (cases "from") (simp_all add: slice_def)

definition decimal_cursor :: "nat \<Rightarrow> nat \<Rightarrow> nat \<Rightarrow> nat \<Rightarrow> string option \<Rightarrow> event_cursor" where
  \<comment> \<open>\<open>CurvyEventCursor::new\<close> with a block hash\<close>
  "decimal_cursor block tx log item h =
     \<lparr>ec_block = show_nat block, ec_tx = show_nat tx, ec_log = show_nat log, ec_item = show_nat item, ec_hash = h\<rparr>"

lemma u64_max_bytes: "n \<le> u64_max \<Longrightarrow> from_be (be_bytes 8 n) = n"
  by (rule from_be_small) (simp add: u64_max_def)

text \<open>
  A cursor read back from the database is the cursor that was stored: with the same block,
  transaction, log and item, and the block hash if it had one.
\<close>

theorem cursor_roundtrip:
  assumes "block \<le> u64_max" "tx \<le> u64_max" "log \<le> u64_max" "item \<le> u64_max"
    and "case h of None \<Rightarrow> True | Some t \<Rightarrow> t \<noteq> [] \<and> nc_utf8 nc (map of_char t) = Inr t"
  shows "\<exists>b. encode_cursor (decimal_cursor block tx log item h) = Inr b \<and>
    decode_cursor nc b = Inr (decimal_cursor block tx log item h)"
  using assms
  by (auto simp: encode_cursor_def decode_cursor_def decimal_cursor_def cursor_component_def parse_uint_show
      slice_skip slice_here slice_last u64_max_bytes Let_def split: option.splits)

definition codable_fr :: "note_codec \<Rightarrow> fr \<Rightarrow> bool" where
  "codable_fr nc x \<longleftrightarrow> length (nc_fr_bytes nc x) = 32 \<and> nc_parse_fr nc (nc_fr_bytes nc x) = Some x"

definition codable_parts :: "note_codec \<Rightarrow> stored_owned_note \<Rightarrow> bool" where
  \<comment> \<open>the byte forms of the note's parts are read back\<close>
  "codable_parts nc s \<longleftrightarrow>
     (let d = dn_deposit (so_detected s); n = dn_note (so_detected s) in
      length (nc_id_bytes nc (od_id d)) = pix_id_size \<and> nc_parse_id nc (nc_id_bytes nc (od_id d)) = Inr (od_id d) \<and>
      length (nc_address_bytes nc (od_address d)) = 32 \<and>
      nc_parse_address nc (nc_address_bytes nc (od_address d)) = Inr (od_address d) \<and>
      od_amount d < 256 ^ 32 \<and>
      codable_fr nc (wn_amount n) \<and> codable_fr nc (wn_token n) \<and>
      codable_fr nc (fst (wn_owner n)) \<and> codable_fr nc (snd (wn_owner n)) \<and> codable_fr nc (wn_secret n) \<and>
      codable_fr nc (fst (wn_ephemeral n)) \<and> codable_fr nc (snd (wn_ephemeral n)) \<and> codable_fr nc (wn_view_tag n))"

definition codable :: "note_codec \<Rightarrow> stored_owned_note \<Rightarrow> bool" where
  \<comment> \<open>and the flag says what the leaf says\<close>
  "codable nc s \<longleftrightarrow>
     codable_parts nc s \<and> (so_committed s \<longleftrightarrow> so_leaf s \<noteq> None) \<and>
     (case so_leaf s of None \<Rightarrow> True | Some i \<Rightarrow> i < u64_max)"

lemma encode_length: "codable_parts nc s \<Longrightarrow> length (encode_owned_note nc s) = owned_note_size"
  by (simp add: codable_parts_def codable_fr_def encode_owned_note_def owned_note_size_def pix_id_size_def Let_def)

lemma decode_fields_encode:
  assumes "codable_parts nc s"
  shows "decode_fields nc (encode_owned_note nc s) 79 =
    (let n = dn_note (so_detected s) in
     Inr [wn_amount n, wn_token n, fst (wn_owner n), snd (wn_owner n), wn_secret n,
          fst (wn_ephemeral n), snd (wn_ephemeral n), wn_view_tag n])"
  using assms
  by (simp add: codable_parts_def codable_fr_def decode_fields_def note_fields_def encode_owned_note_def
      decode_note_field_def pix_id_size_def slice_skip slice_here slice_Cons Let_def)

lemma decode_encode_parts:
  assumes "codable_parts nc s" "case so_leaf s of None \<Rightarrow> True | Some i \<Rightarrow> i \<le> u64_max"
  shows "decode_owned_note nc (encode_owned_note nc s) =
    (let leaf = (if so_leaf s = Some u64_max then None else so_leaf s) in
     if so_committed s \<noteq> (leaf \<noteq> None)
     then Inl (Corrupt ''owned-note commitment flag and leaf index disagree'')
     else Inr (s\<lparr>so_leaf := leaf\<rparr>))"
proof -
  let ?b = "encode_owned_note nc s" and ?d = "dn_deposit (so_detected s)"
  note parts = assms(1) [unfolded codable_parts_def Let_def codable_fr_def pix_id_size_def]
  have id: "slice ?b 1 14 = nc_id_bytes nc (od_id ?d)" and address: "slice ?b 15 32 = nc_address_bytes nc (od_address ?d)"
    and amount: "slice ?b 47 32 = be_bytes 32 (od_amount ?d)"
    using parts by (simp_all add: encode_owned_note_def slice_skip slice_here slice_Cons Let_def)
  have flag: "?b ! 335 = (if so_committed s then 1 else 0)"
    and leaf: "slice ?b 336 8 = be_bytes 8 (case so_leaf s of None \<Rightarrow> u64_max | Some i \<Rightarrow> i)"
    and version: "?b ! 0 = owned_note_version"
    using parts by (simp_all add: encode_owned_note_def nth_append slice_skip slice_last slice_Cons Let_def)
  show ?thesis
    using parts assms(2) id address amount flag leaf version encode_length [OF assms(1)] decode_fields_encode [OF assms(1)]
    by (cases "so_leaf s") (simp_all add: decode_owned_note_def pix_id_size_def u64_max_bytes Let_def)
qed

lemma decode_encode: "codable nc s \<Longrightarrow> decode_owned_note nc (encode_owned_note nc s) = Inr s"
  by (cases "so_leaf s") (auto simp: codable_def decode_encode_parts Let_def)

lemma codable_id:
  "codable nc s \<Longrightarrow> length (nc_id_bytes nc (od_id (dn_deposit (so_detected s)))) = pix_id_size"
  "codable nc s \<Longrightarrow>
    nc_parse_id nc (nc_id_bytes nc (od_id (dn_deposit (so_detected s)))) = Inr (od_id (dn_deposit (so_detected s)))"
  by (simp_all add: codable_def codable_parts_def Let_def)

section \<open>The store stays readable\<close>

definition row_ok :: "note_codec \<Rightarrow> bytes \<times> bytes \<Rightarrow> bool" where
  "row_ok nc row =
     (case decode_owned_note nc (snd row) of
        Inl _ \<Rightarrow> False
      | Inr s \<Rightarrow>
          codable nc s \<and> length (fst row) = pix_id_size + note_id_size \<and>
          take pix_id_size (fst row) = nc_id_bytes nc (od_id (dn_deposit (so_detected s))))"

definition rows_wf :: "note_codec \<Rightarrow> (bytes \<times> bytes) list \<Rightarrow> bool" where
  "rows_wf nc rows \<longleftrightarrow> distinct (map fst rows) \<and> list_all (row_ok nc) rows"

definition codec_widths :: "note_codec \<Rightarrow> bool" where
  \<comment> \<open>\<open>fr_to_be_32\<close> of a canonical element has 32 bytes\<close>
  "codec_widths nc \<longleftrightarrow> (\<forall>b x. nc_parse_fr nc b = Some x \<longrightarrow> length (nc_fr_bytes nc x) = 32)"

datatype store_op =
    RecordCandidate string detected_note event_cursor
  | RecordCompletion string nat event_cursor
  | AdvanceCursor event_kind event_cursor
  | RemoveSpent pix_id "string list"
  | StoreSecret pix_id scan_secret
  | RemoveSecret pix_id
  | WipeChainState

fun apply_op :: "note_codec \<Rightarrow> db_io \<times> store_op \<Rightarrow> curvy_db \<Rightarrow> curvy_db" where
  "apply_op nc (io, RecordCandidate nid note c) db = snd (record_owned_candidate nc io nid note c db)"
| "apply_op nc (io, RecordCompletion nid leaf c) db = snd (record_completion nc io nid leaf c db)"
| "apply_op nc (io, AdvanceCursor kind c) db = snd (advance_cursor io kind c db)"
| "apply_op nc (io, RemoveSpent i nids) db = snd (remove_spent_notes nc io i nids db)"
| "apply_op nc (io, StoreSecret i secret) db = snd (store_scan_secret nc io i secret db)"
| "apply_op nc (io, RemoveSecret i) db = snd (remove_scan_secret nc io i db)"
| "apply_op nc (io, WipeChainState) db = snd (wipe_chain_state io db)"

definition pending_record :: "detected_note \<Rightarrow> stored_owned_note" where
  "pending_record note = \<lparr>so_detected = note, so_committed = False, so_leaf = None\<rparr>"

fun admissible :: "note_codec \<Rightarrow> db_io \<times> store_op \<Rightarrow> bool" where
  "admissible nc (io, RecordCandidate nid note c) \<longleftrightarrow> codable nc (pending_record note)"
| "admissible nc (io, RecordCompletion nid leaf c) \<longleftrightarrow> leaf < u64_max"
| "admissible nc (io, op) \<longleftrightarrow> True"

lemma note_id_key_width: "codec_widths nc \<Longrightarrow> note_id_key nc nid = Inr k \<Longrightarrow> length k = note_id_size"
  by (auto simp: note_id_key_def parse_curvy_note_id_def codec_widths_def note_id_size_def
      split: sum.splits if_splits option.splits)

lemma list_all_update: "P (k, v) \<Longrightarrow> list_all P al \<Longrightarrow> list_all P (AList.update k v al)"
  by (induction al) auto

lemma wf_update: "rows_wf nc rows \<Longrightarrow> row_ok nc (k, v) \<Longrightarrow> rows_wf nc (AList.update k v rows)"
  by (simp add: rows_wf_def distinct_update list_all_update)

lemma list_all_delete: "list_all P al \<Longrightarrow> list_all P (AList.delete k al)"
  by (induction al) auto

lemma wf_delete: "rows_wf nc rows \<Longrightarrow> rows_wf nc (AList.delete k rows)"
  by (simp add: rows_wf_def distinct_delete list_all_delete)

lemma put_cursor_notes: "put_cursor kind c db = Inr db' \<Longrightarrow> cd_notes db' = cd_notes db"
  by (auto simp: put_cursor_def split: sum.splits)

lemma pending_row_ok:
  assumes "codec_widths nc" "codable nc (pending_record note)" "note_id_key nc nid = Inr nkey"
  shows "row_ok nc (nc_id_bytes nc (od_id (dn_deposit note)) @ nkey, encode_owned_note nc (pending_record note))"
  using assms note_id_key_width [OF assms(1,3)]
  using codable_id(1) [OF assms(2)] by (simp add: row_ok_def decode_encode pending_record_def)

lemma found_row: "find_session_note nc nkey db = Inr (Some (key, s)) \<Longrightarrow>
  \<exists>v. map_of (cd_notes db) key = Some v \<and> decode_owned_note nc v = Inr s"
  by (auto simp: find_session_note_def Let_def split: option.splits sum.splits)

lemma completed_codable:
  "codable nc s \<Longrightarrow> leaf < u64_max \<Longrightarrow> codable nc (s\<lparr>so_committed := True, so_leaf := Some leaf\<rparr>)"
  by (simp add: codable_def codable_parts_def Let_def)

lemma completed_row_ok:
  assumes "rows_wf nc (cd_notes db)" "find_session_note nc nkey db = Inr (Some (key, s))" "leaf < u64_max"
  shows "row_ok nc (key, encode_owned_note nc (s\<lparr>so_committed := True, so_leaf := Some leaf\<rparr>))"
proof -
  from found_row [OF assms(2)] obtain v where v: "map_of (cd_notes db) key = Some v" "decode_owned_note nc v = Inr s"
    by blast
  then have "row_ok nc (key, v)" using assms(1) by (auto simp: rows_wf_def list_all_iff dest: map_of_SomeD)
  with v completed_codable [OF _ assms(3)] show ?thesis by (simp add: row_ok_def decode_encode)
qed

lemma write_tx_cases:
  "snd (write_tx io db body) = db \<or> (\<exists>a. body = Inr (a, snd (write_tx io db body)))"
  by (auto simp: write_tx_def split: option.splits sum.splits)

lemma wf_candidate:
  assumes "codec_widths nc" "rows_wf nc (cd_notes db)" "codable nc (pending_record note)"
  shows "rows_wf nc (cd_notes (snd (record_owned_candidate nc io nid note c db)))"
proof (cases "note_id_key nc nid")
  case (Inr nkey)
  let ?k = "nc_id_bytes nc (od_id (dn_deposit note)) @ nkey"
  have "rows_wf nc (if map_of (cd_notes db) ?k = None
     then AList.update ?k (encode_owned_note nc (pending_record note)) (cd_notes db) else cd_notes db)"
    using assms(2) wf_update [OF assms(2) pending_row_ok [OF assms(1,3) Inr]] by simp
  then show ?thesis
    using assms(2) Inr
    by (auto simp: record_owned_candidate_def pending_record_def write_tx_def Let_def
        dest!: put_cursor_notes split: option.splits sum.splits)
qed (simp add: record_owned_candidate_def assms)

lemma wf_completion:
  assumes "rows_wf nc (cd_notes db)" "leaf < u64_max"
  shows "rows_wf nc (cd_notes (snd (record_completion nc io nid leaf c db)))"
proof (cases "note_id_key nc nid")
  case (Inr nkey)
  have upd: "rows_wf nc (AList.update key (encode_owned_note nc (s\<lparr>so_committed := True, so_leaf := Some leaf\<rparr>)) (cd_notes db))"
    if "find_session_note nc nkey db = Inr (Some (key, s))" for key s
    by (rule wf_update [OF assms(1) completed_row_ok [OF assms(1) that assms(2)]])
  show ?thesis
    using assms(1) Inr upd
    by (auto simp: record_completion_def write_tx_def Let_def dest!: put_cursor_notes split: sum.splits option.splits)
qed (simp add: record_completion_def assms)

lemma wf_remove:
  assumes "rows_wf nc (cd_notes db)"
  shows "rows_wf nc (cd_notes (snd (remove_spent_notes nc io i nids db)))"
proof -
  have "rows_wf nc (cd_notes (fold (\<lambda>nkey db. db\<lparr>cd_notes := AList.delete (nc_id_bytes nc i @ nkey) (cd_notes db),
                        cd_sessions := AList.delete nkey (cd_sessions db)\<rparr>) keys db))" for keys
    using assms by (induction keys arbitrary: db) (simp_all add: wf_delete)
  then show ?thesis using assms by (auto simp: remove_spent_notes_def write_tx_def split: option.splits sum.splits)
qed

lemma wf_advance: "cd_notes (snd (advance_cursor io kind c db)) = cd_notes db"
  by (auto simp: advance_cursor_def write_tx_def dest: put_cursor_notes split: option.splits sum.splits)

lemma wf_secrets:
  "cd_notes (snd (store_scan_secret nc io i secret db)) = cd_notes db"
  "cd_notes (snd (remove_scan_secret nc io i db)) = cd_notes db"
  by (auto simp: store_scan_secret_def remove_scan_secret_def write_tx_def split: option.splits)

lemma wf_wipe: "rows_wf nc (cd_notes db) \<Longrightarrow> rows_wf nc (cd_notes (snd (wipe_chain_state io db)))"
  by (auto simp: wipe_chain_state_def write_tx_def empty_db_def rows_wf_def split: option.splits)

lemma wf_op:
  "codec_widths nc \<Longrightarrow> admissible nc op \<Longrightarrow> rows_wf nc (cd_notes db) \<Longrightarrow> rows_wf nc (cd_notes (apply_op nc op db))"
  by (cases op; cases "snd op") (auto simp: wf_candidate wf_completion wf_remove wf_advance wf_secrets wf_wipe)

lemma wf_history:
  assumes "codec_widths nc" "list_all (admissible nc) ops"
  shows "rows_wf nc (cd_notes (fold (apply_op nc) ops empty_db))"
proof -
  have "rows_wf nc (cd_notes (fold (apply_op nc) ops db))" if "rows_wf nc (cd_notes db)" for db
    using that assms(2) by (induction ops arbitrary: db) (simp_all add: wf_op [OF assms(1)])
  then show ?thesis by (simp add: empty_db_def rows_wf_def)
qed

lemma rows_decode:
  assumes "rows_wf nc (cd_notes db)"
  obtains rows where "traverse (decode_owned_note nc) (session_rows nc i db) = Inr rows" "list_all (codable nc) rows"
proof -
  have all: "case decode_owned_note nc v of Inl _ \<Rightarrow> False | Inr s \<Rightarrow> codable nc s" if "v \<in> set (session_rows nc i db)" for v
    using that assms by (fastforce simp: session_rows_def rows_wf_def list_all_iff row_ok_def split: sum.splits)
  have "\<exists>rows. traverse (decode_owned_note nc) vs = Inr rows \<and> list_all (codable nc) rows"
    if "\<forall>v \<in> set vs. case decode_owned_note nc v of Inl _ \<Rightarrow> False | Inr s \<Rightarrow> codable nc s" for vs
    using that by (induction vs) (fastforce split: sum.splits)+
  from this [of "session_rows nc i db"] all show ?thesis using that by blast
qed


section \<open>Discovery, then commitment\<close>

lemma append_le_append:
  fixes p :: "'a :: linorder list"
  shows "length p = length q \<Longrightarrow> p @ a \<le> q @ b \<longleftrightarrow> p < q \<or> (p = q \<and> a \<le> b)"
  by (induction p q rule: list_induct2) auto

lemma zeros_le: "replicate (length b) (0 :: byte) \<le> b"
proof (induction b)
  case (Cons x b)
  then show ?case by (cases "x = 0") (simp_all add: word_neq_0_conv)
qed simp

lemma le_ones: "b \<le> replicate (length b) (255 :: byte)"
proof (induction b)
  case (Cons x b)
  have "unat x < 256" using unsigned_less [of x] by simp
  then have "x \<le> 255" by (simp add: word_le_nat_alt)
  with Cons show ?case by (auto simp: order_le_less)
qed simp

lemma session_range_iff:
  assumes "length (nc_id_bytes nc i) = pix_id_size" "length k = pix_id_size + note_id_size"
  shows "session_range nc i k \<longleftrightarrow> take pix_id_size k = nc_id_bytes nc i"
proof -
  let ?p = "take pix_id_size k" and ?q = "drop pix_id_size k"
  have k: "k = ?p @ ?q" "length ?p = length (nc_id_bytes nc i)" "length ?q = note_id_size"
    using assms by simp_all
  have "session_range nc i k \<longleftrightarrow>
      (nc_id_bytes nc i < ?p \<or> nc_id_bytes nc i = ?p \<and> replicate note_id_size 0 \<le> ?q) \<and>
      (?p < nc_id_bytes nc i \<or> ?p = nc_id_bytes nc i \<and> ?q \<le> replicate note_id_size 255)"
    using k by (metis append_le_append session_range_def)
  then show ?thesis using zeros_le [of ?q] le_ones [of ?q] k(3) by auto
qed

lemma read_row:
  assumes "rows_wf nc (cd_notes db)" "map_of (cd_notes db) k = Some v" "decode_owned_note nc v = Inr s"
    and "length (nc_id_bytes nc i) = pix_id_size" "take pix_id_size k = nc_id_bytes nc i"
  shows "v \<in> set (session_rows nc i db)"
proof -
  have "(k, v) \<in> set (cd_notes db)" using assms(2) by (rule map_of_SomeD)
  moreover from this have "length k = pix_id_size + note_id_size"
    using assms(1,3) by (auto simp: rows_wf_def list_all_iff row_ok_def)
  ultimately show ?thesis using assms(4,5) session_range_iff by (force simp: session_rows_def)
qed

lemma in_traverse: "traverse f xs = Inr ys \<Longrightarrow> x \<in> set xs \<Longrightarrow> f x = Inr y \<Longrightarrow> y \<in> set ys"
  by (induction xs arbitrary: ys) (auto split: sum.splits)


text \<open>
  The bound on the leaf is needed: the greatest index is the mark of a note without one, so recording
  it leaves a row that no later read of the allocation gets past.
\<close>

theorem greatest_leaf_poisons:
  assumes "codable nc s"
  shows "decode_owned_note nc (encode_owned_note nc (s\<lparr>so_committed := True, so_leaf := Some u64_max\<rparr>)) =
    Inl (Corrupt ''owned-note commitment flag and leaf index disagree'')"
  using assms by (subst decode_encode_parts) (simp_all add: codable_def codable_parts_def Let_def)

section \<open>Witnesses\<close>

definition demo_codec :: note_codec where
  "demo_codec =
     \<lparr>nc_id_bytes = be_bytes 14, nc_parse_id = (\<lambda>b. Inr (from_be b)),
      nc_address_bytes = be_bytes 32, nc_parse_address = (\<lambda>b. Inr (from_be b)),
      nc_fr_bytes = be_bytes 32, nc_parse_fr = (\<lambda>b. Some (from_be b)),
      nc_utf8 = (\<lambda>b. Inr (map (\<lambda>w. char_of (unat w)) b)),
      nc_secret_bytes = be_bytes 32, nc_parse_secret = (\<lambda>b. Inr (from_be b))\<rparr>"

definition demo_note :: detected_note where
  "demo_note =
     \<lparr>dn_deposit = \<lparr>od_id = 5, od_address = 77, od_amount = 10\<rparr>,
      dn_note = \<lparr>wn_amount = 10, wn_token = 3, wn_owner = (1, 2), wn_secret = 4, wn_ephemeral = (5, 6),
                 wn_view_tag = 9\<rparr>\<rparr>"

definition demo_note_id :: string where
  "demo_note_id = ''0x'' @ replicate 63 (CHR ''0'') @ ''8''"

definition demo_db :: curvy_db where
  "demo_db = fold (apply_op demo_codec) [(None, AdvanceCursor Pending (decimal_cursor 1 0 0 0 None))] empty_db"

definition demo_db1 :: curvy_db where
  "demo_db1 = snd (record_owned_candidate demo_codec None demo_note_id demo_note (decimal_cursor 2 0 0 0 None) demo_db)"

lemma demo_widths: "codec_widths demo_codec"
  by (simp add: codec_widths_def demo_codec_def)

lemma demo_codable: "codable demo_codec (pending_record demo_note)"
  by (simp add: codable_def codable_parts_def codable_fr_def demo_codec_def pending_record_def demo_note_def
      pix_id_size_def)

theorem cursor_roundtrip_witness:
  "\<exists>b. encode_cursor (decimal_cursor 7 1 0 2 (Some ''0xab'')) = Inr b \<and>
     decode_cursor demo_codec b = Inr (decimal_cursor 7 1 0 2 (Some ''0xab''))"
proof (rule cursor_roundtrip)
  have "nc_utf8 demo_codec (map of_char ''0xab'') = Inr ''0xab''" by code_simp
  then show "case Some ''0xab'' of None \<Rightarrow> True
      | Some t \<Rightarrow> t \<noteq> [] \<and> nc_utf8 demo_codec (map of_char t) = Inr t" by simp
qed (simp_all add: u64_max_def)


lemma demo_key: "note_id_key demo_codec demo_note_id = Inr (be_bytes 32 8)"
proof -
  have "parse_hex (drop 2 demo_note_id) 0 = parse_hex ''8'' 0"
    unfolding demo_note_id_def by (simp only: append_Cons append_Nil drop_Suc_Cons numeral_2_eq_2 drop_0 parse_hex_zeros)
  then have "parse_hex (drop 2 demo_note_id) 0 = Some 8" by (simp add: hex_val_def)
  moreover have "take 2 demo_note_id = ''0x''" "length (drop 2 demo_note_id) = 64"
    by (simp_all add: demo_note_id_def)
  ultimately show ?thesis by (simp add: note_id_key_def parse_curvy_note_id_def demo_codec_def)
qed

lemma encode_decimal: "b \<le> u64_max \<Longrightarrow> \<exists>e. encode_cursor (decimal_cursor b 0 0 0 None) = Inr e"
  by (simp add: encode_cursor_def decimal_cursor_def cursor_component_def parse_uint_show)

lemma demo_cursors:
  obtains e1 e2 e3 where "encode_cursor (decimal_cursor 1 0 0 0 None) = Inr e1"
    "encode_cursor (decimal_cursor 2 0 0 0 None) = Inr e2" "encode_cursor (decimal_cursor 3 0 0 0 None) = Inr e3"
proof -
  have le: "(1::nat) \<le> u64_max" "(2::nat) \<le> u64_max" "(3::nat) \<le> u64_max" by (simp_all add: u64_max_def)
  obtain e1 where "encode_cursor (decimal_cursor 1 0 0 0 None) = Inr e1" using encode_decimal [OF le(1)] ..
  moreover obtain e2 where "encode_cursor (decimal_cursor 2 0 0 0 None) = Inr e2" using encode_decimal [OF le(2)] ..
  moreover obtain e3 where "encode_cursor (decimal_cursor 3 0 0 0 None) = Inr e3" using encode_decimal [OF le(3)] ..
  ultimately show ?thesis by (rule that)
qed

lemma demo_candidate:
  "record_owned_candidate demo_codec None demo_note_id demo_note (decimal_cursor 2 0 0 0 None) demo_db = (Inr (), demo_db1)"
  by (rule demo_cursors)
    (simp add: demo_db1_def record_owned_candidate_def demo_key write_tx_def put_cursor_def demo_db_def empty_db_def
      advance_cursor_def Let_def)

lemma demo_completion:
  "\<exists>c. fst (record_completion demo_codec None demo_note_id 4 (decimal_cursor 3 0 0 0 None) demo_db1) = Inr (Some c)"
proof -
  have dec: "decode_owned_note demo_codec (encode_owned_note demo_codec
      \<lparr>so_detected = demo_note, so_committed = False, so_leaf = None\<rparr>) = Inr (pending_record demo_note)"
    using decode_encode [OF demo_codable] by (simp add: pending_record_def)
  have id: "nc_parse_id demo_codec (nc_id_bytes demo_codec 5) = Inr 5" by (simp add: demo_codec_def)
  have note_id: "od_id (dn_deposit demo_note) = 5" by (simp add: demo_note_def)
  show ?thesis
    by (rule demo_cursors)
      (simp add: record_completion_def demo_key write_tx_def put_cursor_def demo_db1_def demo_db_def empty_db_def
        find_session_note_def advance_cursor_def record_owned_candidate_def update_conv' dec id note_id Let_def)
qed


end
