(* ===== verification/Relay_Client.thy ===== *)
theory Relay_Client
  imports Byte_Encoding Curvy_Notes Strategy_State
begin

text \<open>
  \<open>src/src/pix/pools/curvy/relayer.rs\<close>: the client of the off-chain relayer, and the price of the
  fee note an aggregation carries for it. What the gateway answers is the record \<open>gateway\<close>: a
  function of the number of the call, so that two calls may be answered differently. \<open>net\<close> counts
  the calls and carries the clock. The integers of the pricing have 256 bits, and the operators of
  \<open>U256\<close> panic on overflow: such a call is \<^const>\<open>None\<close>.
\<close>

section \<open>Prices\<close>

type_synonym 'a panics = "'a option"

definition u256 :: "nat \<Rightarrow> nat panics" where
  "u256 n = (if n \<le> u256_max then Some n else None)"

definition exp10 :: "nat \<Rightarrow> nat panics" where
  "exp10 n = u256 (10 ^ n)"

definition u256_mul :: "nat panics \<Rightarrow> nat panics \<Rightarrow> nat panics" where
  "u256_mul a b = (case (a, b) of (Some x, Some y) \<Rightarrow> u256 (x * y) | _ \<Rightarrow> None)"

definition u256_add :: "nat panics \<Rightarrow> nat panics \<Rightarrow> nat panics" where
  "u256_add a b = (case (a, b) of (Some x, Some y) \<Rightarrow> u256 (x + y) | _ \<Rightarrow> None)"

record curvy_public_keys =
  pk_spend :: string
  pk_view :: string
  pk_bjj :: string

record paymaster_info =
  pm_operator :: curvy_public_keys
  pm_accepted :: "string list option"
  pm_gas_units :: string
  pm_gas_price :: string
  pm_client_buffer :: nat
  pm_tolerance :: nat

record network_currency =
  nc_symbol :: string
  nc_price :: "string option"
  nc_decimals :: nat
  nc_vault_token :: "string option"
  nc_native :: bool

record network_info =
  ni_slug :: string
  ni_chain_id :: string
  ni_currencies :: "network_currency list"

record token_valuation =
  tv_usd :: nat
  tv_decimals :: nat

definition other :: "string \<Rightarrow> strategy_error" where
  "other m = OtherError (Text m)"

definition required_fee :: "paymaster_info \<Rightarrow> strategy_error + nat" where
  "required_fee info =
     (case parse_uint u128_max (pm_gas_units info) of
        Inl e \<Rightarrow> Inl (other (''relayer quoted an unparseable gas unit count: '' @ e))
      | Inr units \<Rightarrow>
          (case parse_uint u128_max (pm_gas_price info) of
             Inl e \<Rightarrow> Inl (other (''relayer quoted an unparseable gas price: '' @ e))
           | Inr price \<Rightarrow>
               if u128_max < units * price then Inl (other ''the relayer's gas quote overflows'')
               else
                 let scaled = units * price * min u128_max (10000 + pm_client_buffer info) in
                 if u128_max < scaled then Inl (other ''the relayer's buffered gas quote overflows'')
                 else Inr (scaled div 10000)))"

definition fee_note_headroom_bps :: nat where
  "fee_note_headroom_bps = 10000"

definition price_decimals :: nat where
  "price_decimals = 8"

definition div_ceil_nat :: "nat \<Rightarrow> nat \<Rightarrow> nat" where
  "div_ceil_nat a b = (a + b - 1) div b"

definition convert_token_amount ::
  "nat \<Rightarrow> token_valuation \<Rightarrow> token_valuation \<Rightarrow> (strategy_error + nat) panics" where
  "convert_token_amount amount from to =
     (if tv_usd from = 0 \<or> tv_usd to = 0 then Some (Inl (other ''token prices must be positive''))
      else
        case (u256_mul (u256_mul (Some amount) (Some (tv_usd from))) (exp10 (tv_decimals to)),
              u256_mul (exp10 (tv_decimals from)) (Some (tv_usd to))) of
          (Some numerator, Some denominator) \<Rightarrow>
            (case u256_add (Some numerator) (Some denominator) of
               None \<Rightarrow> None
             | Some s \<Rightarrow>
                 let converted = (s - 1) div denominator in
                 Some (if converted \<le> u128_max then Inr converted
                       else Inl (other ''the converted fee note amount overflows u128'')))
        | _ \<Rightarrow> None)"

definition required_fee_in_token ::
  "paymaster_info \<Rightarrow> token_valuation \<Rightarrow> token_valuation \<Rightarrow> (strategy_error + nat) panics" where
  "required_fee_in_token info native token =
     (case required_fee info of
        Inl e \<Rightarrow> Some (Inl e)
      | Inr native_wei \<Rightarrow>
          (case convert_token_amount native_wei native token of
             None \<Rightarrow> None
           | Some (Inl e) \<Rightarrow> Some (Inl e)
           | Some (Inr converted) \<Rightarrow>
               let scaled = converted * (10000 + fee_note_headroom_bps) in
               Some (if u128_max < scaled then Inl (other ''the fee note headroom overflows'')
                     else Inr (div_ceil_nat scaled 10000))))"

text \<open>
  A string is a list of characters below 256. \<open>pt_debug\<close> is how the error text quotes a string,
  \<open>pt_too_large\<close> the error of \<open>U256::from_dec_str\<close> for a number that does not fit.
\<close>

record price_text =
  pt_debug :: "string \<Rightarrow> string"
  pt_too_large :: string

definition is_whitespace :: "char \<Rightarrow> bool" where
  "is_whitespace c = (let k = (of_char c :: nat) in 9 \<le> k \<and> k \<le> 13 \<or> k = 32 \<or> k = 133 \<or> k = 160)"

definition trim :: "string \<Rightarrow> string" where
  "trim s = rev (dropWhile is_whitespace (rev (dropWhile is_whitespace s)))"

fun split_once :: "char \<Rightarrow> string \<Rightarrow> (string \<times> string) option" where
  "split_once c [] = None"
| "split_once c (d # ds) =
     (if d = c then Some ([], ds)
      else case split_once c ds of None \<Rightarrow> None | Some (a, b) \<Rightarrow> Some (d # a, b))"

definition dec_value :: "string \<Rightarrow> nat" where
  "dec_value s = foldl (\<lambda>acc c. acc * 10 + digit_val c) 0 s"

definition u256_from_dec :: "price_text \<Rightarrow> string \<Rightarrow> string + nat" where
  \<comment> \<open>\<open>U256::from_dec_str\<close> on decimal digits, the only strings it is given\<close>
  "u256_from_dec pt s = (if dec_value s \<le> u256_max then Inr (dec_value s) else Inl (pt_too_large pt))"

definition digits :: "string \<Rightarrow> bool" where
  "digits part \<longleftrightarrow> part \<noteq> [] \<and> list_all is_digit part"

definition pad_places :: "string \<Rightarrow> string" where
  \<comment> \<open>\<open>truncate\<close>, then \<open>push('0')\<close> up to the length\<close>
  "pad_places fraction =
     (let f = take price_decimals fraction in f @ replicate (price_decimals - length f) (CHR ''0''))"

definition parse_usd_price :: "price_text \<Rightarrow> string \<Rightarrow> (strategy_error + nat) panics" where
  "parse_usd_price pt price =
     (let trimmed = trim price;
          (whole, fraction) = (case split_once (CHR ''.'') trimmed of None \<Rightarrow> (trimmed, []) | Some p \<Rightarrow> p);
          malformed = (\<lambda>detail. Inl (other (''malformed USD price '' @ pt_debug pt price @ detail))) in
      if \<not> digits whole \<or> \<not> (fraction = [] \<or> digits fraction) then Some (malformed [])
      else
        case u256_from_dec pt whole of
          Inl e \<Rightarrow> Some (malformed ('': '' @ e))
        | Inr w \<Rightarrow>
            (case u256_mul (Some w) (exp10 price_decimals) of
               None \<Rightarrow> None
             | Some scaled_whole \<Rightarrow>
                 (case u256_from_dec pt (pad_places fraction) of
                    Inl e \<Rightarrow> Some (malformed ('': '' @ e))
                  | Inr f \<Rightarrow>
                      (case u256_add (Some scaled_whole) (Some f) of
                         None \<Rightarrow> None
                       | Some scaled \<Rightarrow>
                           Some (if scaled = 0 then Inl (other (''non-positive USD price '' @ pt_debug pt price))
                                 else Inr scaled)))))"

definition valuation_of :: "price_text \<Rightarrow> network_currency \<Rightarrow> (strategy_error + token_valuation) panics" where
  "valuation_of pt currency =
     (case nc_price currency of
        None \<Rightarrow> Some (Inl (other (''the gateway has no USD price for '' @ nc_symbol currency @ '' yet'')))
      | Some price \<Rightarrow>
          map_option (map_sum id (\<lambda>usd. \<lparr>tv_usd = usd, tv_decimals = nc_decimals currency\<rparr>))
            (parse_usd_price pt price))"

definition fee_note_valuations ::
  "price_text \<Rightarrow> network_info \<Rightarrow> nat \<Rightarrow> (strategy_error + token_valuation \<times> token_valuation) panics" where
  "fee_note_valuations pt network vault_token_id =
     (case find nc_native (ni_currencies network) of
        None \<Rightarrow> Some (Inl (other (''the gateway lists no native currency for '' @ ni_slug network)))
      | Some native \<Rightarrow>
          (case find (\<lambda>c. nc_vault_token c = Some (show_nat vault_token_id)) (ni_currencies network) of
             None \<Rightarrow>
               Some (Inl (other (''the gateway lists no currency with vault token id '' @ show_nat vault_token_id @
                                 '' on '' @ ni_slug network)))
           | Some token \<Rightarrow>
               (case valuation_of pt native of
                  None \<Rightarrow> None
                | Some (Inl e) \<Rightarrow> Some (Inl e)
                | Some (Inr n) \<Rightarrow>
                    map_option (map_sum id (\<lambda>t. (n, t))) (valuation_of pt token))))"

section \<open>Requests\<close>

record submission =
  sm_request :: string
  sm_status :: relay_status
  sm_hash :: "string option"
  sm_error :: "string option"

datatype relay_action = Aggregation | Withdrawal

type_synonym circuit_ref = nat
type_synonym proof_data = nat

record relay_request =
  rq_action :: relay_action
  rq_chain :: nat
  rq_max_inputs :: nat
  rq_circuit :: circuit_ref
  rq_proof :: proof_data
  rq_signals :: "string list"
  rq_request_key :: string
  rq_spend_key :: string
  rq_intent :: string

datatype http_request =
    GetPaymaster nat
  | GetProtocol
  | GetNetworks
  | PostSubmit relay_request
  | GetStatus string
  | GetIntent string nat

datatype http_answer =
    NoEndpoint string
  | NoAnswer string
  | Answer nat "string + string"

record envelope =
  en_message :: "string option"
  en_error :: "string option"

record gateway =
  gw_answer :: "nat \<Rightarrow> http_request \<Rightarrow> http_answer"
  gw_took :: "nat \<Rightarrow> duration"
  gw_status_text :: "nat \<Rightarrow> string"
  gw_envelope :: "string \<Rightarrow> envelope option"
  gw_submission :: "string \<Rightarrow> string + submission"
  gw_paymaster :: "string \<Rightarrow> string + paymaster_info"
  gw_networks :: "string \<Rightarrow> string + network_info list option \<times> string option"
  gw_protocol :: "string \<Rightarrow> string + curvy_public_keys option option \<times> string option"
  gw_show_status :: "relay_status \<Rightarrow> string"

record net =
  nt_clock :: instant
  nt_calls :: nat

definition tick_call :: "duration \<Rightarrow> 's net_scheme \<Rightarrow> 's net_scheme" where
  "tick_call took s = s\<lparr>nt_clock := nt_clock s + took, nt_calls := nt_calls s + 1\<rparr>"

definition exchange ::
  "'g gateway_scheme \<Rightarrow> http_request \<Rightarrow> ('s net_scheme, relay_error, nat \<times> (string + string)) fallible" where
  "exchange gw request s =
     (let s' = tick_call (gw_took gw (nt_calls s)) s in
      case gw_answer gw (nt_calls s) request of
        NoEndpoint m \<Rightarrow> (Inl (Transport m), s')
      | NoAnswer m \<Rightarrow> (Inl (Transport m), s')
      | Answer code body \<Rightarrow> (Inr (code, body), s'))"

definition describe :: "'g gateway_scheme \<Rightarrow> nat \<Rightarrow> string \<Rightarrow> string" where
  "describe gw code body =
     (let described =
        (case gw_envelope gw body of
           None \<Rightarrow> take 200 body
         | Some env \<Rightarrow>
             (case en_message env of
                Some m \<Rightarrow> m
              | None \<Rightarrow> (case en_error env of Some m \<Rightarrow> m | None \<Rightarrow> take 200 body))) in
      ''HTTP '' @ gw_status_text gw code @ '': '' @ described)"

definition decode ::
  "'g gateway_scheme \<Rightarrow> (string \<Rightarrow> string + 'a) \<Rightarrow> nat \<times> (string + string) \<Rightarrow> relay_error + 'a" where
  "decode gw parse response =
     (case response of
        (_, Inl e) \<Rightarrow> Inl (Transport (''reading the relayer's response: '' @ e))
      | (code, Inr body) \<Rightarrow>
          if code = 401 \<or> code = 403 then Inl (AccessDenied (describe gw code body))
          else if code = 429 then Inl (RateLimited (describe gw code body))
          else if code = 408 then Inl (Transport (describe gw code body))
          else if 400 \<le> code \<and> code < 500 then Inl (Rejected (describe gw code body))
          else if \<not> (200 \<le> code \<and> code < 300) then Inl (Transport (describe gw code body))
          else
            case parse body of
              Inl e \<Rightarrow> Inl (Transport (''could not read the relayer's response: '' @ e @ '': '' @ body))
            | Inr a \<Rightarrow> Inr a)"

definition paymaster :: "'g gateway_scheme \<Rightarrow> nat \<Rightarrow> ('s net_scheme, relay_error, paymaster_info option) fallible" where
  "paymaster gw chain_id =
     and_then (exchange gw (GetPaymaster chain_id))
       (\<lambda>response. if fst response = 404 then ok None
                   else lift_result (map_sum id Some (decode gw (gw_paymaster gw) response)))"

definition into_info :: "curvy_public_keys option option \<times> string option \<Rightarrow> relay_error + curvy_public_keys option" where
  \<comment> \<open>\<open>ProtocolInfo\<close> is its one field, the fee collector\<close>
  "into_info env =
     (case env of
        (Some info, _) \<Rightarrow> Inr info
      | (None, error) \<Rightarrow>
          Inl (Transport (''the gateway published no protocol data: '' @
                          (case error of Some e \<Rightarrow> e | None \<Rightarrow> ''no error given''))))"

definition relay_protocol :: "'g gateway_scheme \<Rightarrow> ('s net_scheme, relay_error, curvy_public_keys option) fallible" where
  "relay_protocol gw =
     and_then (exchange gw GetProtocol)
       (\<lambda>response. case decode gw (gw_protocol gw) response of
          Inl e \<Rightarrow> fail e
        | Inr env \<Rightarrow> lift_result (into_info env))"

definition into_network :: "network_info list option \<times> string option \<Rightarrow> nat \<Rightarrow> relay_error + network_info" where
  "into_network env chain_id =
     (case env of
        (None, error) \<Rightarrow>
          Inl (Transport (''the gateway published no networks: '' @
                          (case error of Some e \<Rightarrow> e | None \<Rightarrow> ''no error given'')))
      | (Some networks, _) \<Rightarrow>
          (case find (\<lambda>n. ni_chain_id n = show_nat chain_id) networks of
             None \<Rightarrow> Inl (Rejected (''the gateway lists no network with chain id '' @ show_nat chain_id))
           | Some network \<Rightarrow> Inr network))"

definition network :: "'g gateway_scheme \<Rightarrow> nat \<Rightarrow> ('s net_scheme, relay_error, network_info) fallible" where
  "network gw chain_id =
     and_then (exchange gw GetNetworks)
       (\<lambda>response. case decode gw (gw_networks gw) response of
          Inl e \<Rightarrow> fail e
        | Inr env \<Rightarrow> lift_result (into_network env chain_id))"

definition submit :: "'g gateway_scheme \<Rightarrow> relay_request \<Rightarrow> ('s net_scheme, relay_error, submission) fallible" where
  "submit gw request =
     and_then (exchange gw (PostSubmit request))
       (\<lambda>response.
          if fst response = 409
          then
            (case (case snd response of Inl e \<Rightarrow> Inl e | Inr body \<Rightarrow> gw_submission gw body) of
               Inl e \<Rightarrow> fail (Transport (''invalid relayer conflict response: '' @ e))
             | Inr sub \<Rightarrow> ok sub)
          else lift_result (decode gw (gw_submission gw) response))"

definition status :: "'g gateway_scheme \<Rightarrow> string \<Rightarrow> ('s net_scheme, relay_error, submission) fallible" where
  "status gw request_id =
     and_then (exchange gw (GetStatus request_id))
       (\<lambda>response. if fst response = 404 then fail (MissingRequest request_id)
                   else lift_result (decode gw (gw_submission gw) response))"

definition by_intent ::
  "'g gateway_scheme \<Rightarrow> string \<Rightarrow> nat \<Rightarrow> ('s net_scheme, relay_error, submission option) fallible" where
  "by_intent gw intent_id chain_id =
     and_then (exchange gw (GetIntent intent_id chain_id))
       (\<lambda>response. if fst response = 404 then ok None
                   else lift_result (map_sum id Some (decode gw (gw_submission gw) response)))"

section \<open>Waiting for a submission to land\<close>

definition poll_interval :: duration where
  "poll_interval = secs 2"

definition terminal :: "'g gateway_scheme \<Rightarrow> submission \<Rightarrow> relay_error + submission" where
  "terminal gw sub =
     (if is_on_chain (sm_status sub) then Inr sub
      else Inl (RelayFailed (case sm_error sub of
                               Some e \<Rightarrow> e
                             | None \<Rightarrow> ''status '' @ gw_show_status gw (sm_status sub))))"

definition sleep :: "duration \<Rightarrow> 's net_scheme \<Rightarrow> 's net_scheme" where
  "sleep d s = s\<lparr>nt_clock := nt_clock s + d\<rparr>"

definition observed_progress :: "submission \<Rightarrow> submission \<Rightarrow> bool" where
  "observed_progress current next \<longleftrightarrow>
     sm_status next \<noteq> sm_status current \<or> (sm_hash next \<noteq> None \<and> sm_hash next \<noteq> sm_hash current)"

definition carry_hash :: "submission \<Rightarrow> submission \<Rightarrow> submission" where
  "carry_hash current next =
     next\<lparr>sm_hash := (case sm_hash next of None \<Rightarrow> sm_hash current | Some h \<Rightarrow> Some h)\<rparr>"

lemma exchange_clock: "exchange gw r s = (x, s') \<Longrightarrow> nt_clock s \<le> nt_clock s' \<and> nt_calls s' = nt_calls s + 1"
  by (auto simp: exchange_def tick_call_def Let_def split: http_answer.splits)

lemma status_clock:
  assumes "status gw i s = (x, s')"
  shows "nt_clock s \<le> nt_clock s'" "nt_calls s' = nt_calls s + 1"
  using assms exchange_clock [of gw "GetStatus i" s]
  by (auto simp: status_def and_then_def fail_def lift_result_def split: prod.splits sum.splits if_splits)

function poll_until ::
  "'g gateway_scheme \<Rightarrow> instant \<Rightarrow> duration \<Rightarrow> submission \<Rightarrow> bool \<Rightarrow> ('s net_scheme, relay_error, submission) fallible" where
  "poll_until gw started deadline current progressed s =
     (if nt_clock s - started < deadline then
        case status gw (sm_request current) (sleep poll_interval s) of
          (Inl e, s') \<Rightarrow> (Inl e, s')
        | (Inr answer, s') \<Rightarrow>
            let progressed = (progressed \<or> observed_progress current answer);
                current = carry_hash current answer in
            if is_terminal (sm_status current) then (terminal gw current, s')
            else poll_until gw started deadline current progressed s'
      else (Inl (RelayTimeout (sm_request current) (sm_status current) (sm_hash current) progressed), s))"
  by pat_completeness auto
termination
proof (relation "measure (\<lambda>(gw, started, deadline, _, _, s). started + deadline - nt_clock s)")
  fix gw :: "'g gateway_scheme" and started deadline current progressed and s s' :: "'s net_scheme" and p r answer x y
  assume early: "nt_clock s - started < deadline"
    and answered: "(r, s') = status gw (sm_request current) (sleep poll_interval s)"
  from status_clock(1) [OF answered [symmetric]] have "nt_clock s + poll_interval \<le> nt_clock s'"
    by (simp add: sleep_def)
  moreover have "0 < poll_interval" by (simp add: poll_interval_def secs_def)
  ultimately show "((gw, started, deadline, x, y, s'), (gw, started, deadline, current, progressed, s))
      \<in> measure (\<lambda>(gw, started, deadline, _, _, s). started + deadline - nt_clock s)"
    using early by simp
qed simp

declare poll_until.simps [simp del]

definition await_inclusion ::
  "'g gateway_scheme \<Rightarrow> submission \<Rightarrow> duration \<Rightarrow> ('s net_scheme, relay_error, submission) fallible" where
  "await_inclusion gw sub deadline s =
     (if is_terminal (sm_status sub) then (terminal gw sub, s)
      else poll_until gw (nt_clock s) deadline sub False s)"

section \<open>What the client guarantees\<close>

lemma poll_interval_pos: "0 < poll_interval"
  by (simp add: poll_interval_def secs_def)

definition wait_ended :: "duration \<Rightarrow> submission \<Rightarrow> bool \<Rightarrow> duration \<Rightarrow> relay_error + submission \<Rightarrow> bool" where
  \<comment> \<open>what a wait of some length that began with a submission may end with\<close>
  "wait_ended deadline sub progressed waited r \<longleftrightarrow>
     (case r of
        Inr landed \<Rightarrow> is_on_chain (sm_status landed)
      | Inl (RelayTimeout _ st h moved) \<Rightarrow>
          deadline \<le> waited \<and> \<not> is_terminal st \<and>
          (if moved then True else \<not> progressed \<and> st = sm_status sub \<and> h = sm_hash sub)
      | Inl _ \<Rightarrow> True)"

definition polls :: "duration \<Rightarrow> nat" where
  "polls left = (left + poll_interval - 1) div poll_interval"

lemma polls_step:
  assumes "0 < left" "left' \<le> left - poll_interval"
  shows "Suc (polls left') \<le> polls left"
proof -
  have pos: "0 < poll_interval" by (rule poll_interval_pos)
  have "polls left' \<le> (left - 1) div poll_interval"
    using assms pos unfolding polls_def by (cases "poll_interval \<le> left") (auto intro!: div_le_mono)
  moreover have "polls left = Suc ((left - 1) div poll_interval)"
    using assms(1) div_add_self2 [of poll_interval "left - 1"] pos by (simp add: polls_def)
  ultimately show ?thesis by simp
qed

lemma status_not_timeout: "status gw i s = (Inl e, s') \<Longrightarrow> wait_ended deadline sub progressed waited (Inl e)"
  by (auto simp: status_def and_then_def fail_def lift_result_def decode_def exchange_def wait_ended_def Let_def
      split: prod.splits sum.splits if_splits http_answer.splits)

lemma terminal_ended: "is_terminal (sm_status sub) \<Longrightarrow> wait_ended deadline sub' progressed waited (terminal gw sub)"
  by (auto simp: terminal_def wait_ended_def)

lemma poll_until_ends:
  assumes "poll_until gw started deadline current progressed s = (r, s')" and "started \<le> nt_clock s"
    and "\<not> is_terminal (sm_status current)"
  shows "nt_calls s' \<le> nt_calls s + polls (deadline - (nt_clock s - started)) \<and> nt_calls s \<le> nt_calls s' \<and>
    wait_ended deadline current progressed (nt_clock s' - started) r"
  using assms
proof (induction gw started deadline current progressed s arbitrary: r s' rule: poll_until.induct)
  case (1 gw started deadline current progressed s)
  show ?case
  proof (cases "nt_clock s - started < deadline")
    case False
    then show ?thesis using 1 by (auto simp: poll_until.simps wait_ended_def)
  next
    case early: True
    obtain a s1 where a: "status gw (sm_request current) (sleep poll_interval s) = (a, s1)" by fastforce
    note clock = status_clock [OF a]
    have later: "started \<le> nt_clock s1" "nt_clock s + poll_interval \<le> nt_clock s1" "nt_calls s1 = nt_calls s + 1"
      using 1(3) clock by (simp_all add: sleep_def)
    have spent: "Suc (polls (deadline - (nt_clock s1 - started))) \<le> polls (deadline - (nt_clock s - started))"
      using early later 1(3) by (intro polls_step) auto
    show ?thesis
    proof (cases a)
      case (Inl e)
      then show ?thesis using 1(2) early a later spent status_not_timeout [of gw _ _ e s1]
        by (auto simp: poll_until.simps)
    next
      case (Inr answer)
      let ?p = "progressed \<or> observed_progress current answer" and ?c = "carry_hash current answer"
      show ?thesis
      proof (cases "is_terminal (sm_status ?c)")
        case True
        then show ?thesis using 1(2) early a Inr later spent terminal_ended [OF True, of deadline current progressed]
          by (auto simp: poll_until.simps Let_def simp del: is_terminal.simps)
      next
        case False
        then have rec: "poll_until gw started deadline ?c ?p s1 = (r, s')"
          using 1(2) early a Inr by (auto simp: poll_until.simps [of gw started deadline current] Let_def)
        have "wait_ended deadline ?c ?p w r \<Longrightarrow> wait_ended deadline current progressed w r" for w
          by (auto simp: wait_ended_def observed_progress_def carry_hash_def
              split: sum.splits relay_error.splits if_splits option.splits)
        with 1(1) [OF early a [symmetric] Inr refl refl False rec later(1) False] later spent
        show ?thesis by auto
      qed
    qed
  qed
qed

text \<open>
  C28. Waiting for a submission always ends, after at most one question per two seconds of the
  deadline; it reports success only for a submission that is on chain, and gives up only when the
  deadline has passed without a terminal status. A wait that reports no progress has seen nothing but
  the status and the hash it began with.
\<close>

theorem await_inclusion_ends:
  "case await_inclusion gw sub deadline s of
     (r, s') \<Rightarrow>
       nt_calls s' - nt_calls s \<le> polls deadline \<and>
       (case r of
          Inr landed \<Rightarrow> is_on_chain (sm_status landed)
        | Inl (RelayTimeout _ st h moved) \<Rightarrow>
            deadline \<le> nt_clock s' - nt_clock s \<and> \<not> is_terminal st \<and>
            (if moved then True else st = sm_status sub \<and> h = sm_hash sub)
        | Inl _ \<Rightarrow> True)"
proof (cases "is_terminal (sm_status sub)")
  case True
  with terminal_ended [OF True, of deadline sub False] show ?thesis
    by (auto simp: await_inclusion_def terminal_def split: if_splits)
next
  case False
  obtain r s' where run: "poll_until gw (nt_clock s) deadline sub False s = (r, s')" by fastforce
  from poll_until_ends [OF this _ False] False run show ?thesis
    by (auto simp: await_inclusion_def wait_ended_def split: sum.split relay_error.split)
qed

text \<open>A proof may be replaced only on a verdict: an unknown request, or a refusal that is about the proof.\<close>

definition verdict :: "nat \<Rightarrow> bool" where
  "verdict code \<longleftrightarrow> 400 \<le> code \<and> code < 500 \<and> code \<notin> {401, 403, 408, 429}"

lemma decode_verdict:
  "decode gw parse (code, body) = Inl e \<Longrightarrow> permits_replacement e \<Longrightarrow> verdict code \<and> (\<exists>m. e = Rejected m)"
  by (auto simp: decode_def verdict_def split: sum.splits if_splits)

lemma submit_verdict:
  "case fst (submit gw rq s) of
     Inl e \<Rightarrow>
       (if permits_replacement e
        then \<exists>code body. gw_answer gw (nt_calls s) (PostSubmit rq) = Answer code body \<and> verdict code \<and> code \<noteq> 409
        else True)
   | Inr _ \<Rightarrow> True"
proof -
  have "\<exists>code body. gw_answer gw (nt_calls s) (PostSubmit rq) = Answer code body \<and> verdict code \<and> code \<noteq> 409"
    if "submit gw rq s = (Inl e, s')" "permits_replacement e" for e s'
    using that decode_verdict [of gw "gw_submission gw" _ _ e]
    by (fastforce simp: submit_def and_then_def fail_def ok_def lift_result_def exchange_def Let_def
        split: http_answer.splits prod.splits sum.splits if_splits)
  then show ?thesis
    by (cases "submit gw rq s") (auto split: sum.split)
qed

lemma status_verdict:
  "case fst (status gw i s) of
     Inl e \<Rightarrow>
       (if permits_replacement e
        then \<exists>code body. gw_answer gw (nt_calls s) (GetStatus i) = Answer code body \<and> verdict code \<and>
               (e = MissingRequest i \<longleftrightarrow> code = 404)
        else True)
   | Inr _ \<Rightarrow> True"
proof -
  have "\<exists>code body. gw_answer gw (nt_calls s) (GetStatus i) = Answer code body \<and> verdict code \<and>
      (e = MissingRequest i \<longleftrightarrow> code = 404)"
    if "status gw i s = (Inl e, s')" "permits_replacement e" for e s'
    using that decode_verdict [of gw "gw_submission gw" _ _ e]
    by (fastforce simp: status_def and_then_def fail_def ok_def lift_result_def exchange_def Let_def verdict_def
        split: http_answer.splits prod.splits sum.splits if_splits)
  then show ?thesis
    by (cases "status gw i s") (auto split: sum.split)
qed



section \<open>The fee note\<close>

lemma div_ceil_nat_least:
  assumes "0 < b"
  shows "a \<le> div_ceil_nat a b * b"
proof -
  let ?q = "div_ceil_nat a b"
  have "a + b - 1 = ?q * b + (a + b - 1) mod b" by (simp add: div_ceil_nat_def)
  moreover have "(a + b - 1) mod b < b" using assms by simp
  ultimately show ?thesis by linarith
qed

text \<open>The conversion is the exact quotient of the two values, rounded up.\<close>

definition value_of :: "nat \<Rightarrow> token_valuation \<Rightarrow> token_valuation \<Rightarrow> nat" where
  \<comment> \<open>what an amount of the first token is worth, in units that do not depend on the second's decimals\<close>
  "value_of amount token against = amount * tv_usd token * 10 ^ tv_decimals against"

lemma convert_token_amount_Inr:
  assumes "convert_token_amount amount a b = Some (Inr t)"
  shows "t = div_ceil_nat (value_of amount a b) (10 ^ tv_decimals a * tv_usd b)" and "0 < tv_usd b"
  using assms
  by (auto simp: convert_token_amount_def u256_mul_def u256_add_def exp10_def u256_def div_ceil_nat_def value_of_def Let_def
      split: if_splits option.splits)

lemma required_fee_base:
  assumes "required_fee info = Inr q"
  shows "\<exists>u p. parse_uint u128_max (pm_gas_units info) = Inr u \<and> parse_uint u128_max (pm_gas_price info) = Inr p \<and>
    u * p \<le> q"
proof -
  obtain u p where up: "parse_uint u128_max (pm_gas_units info) = Inr u" "parse_uint u128_max (pm_gas_price info) = Inr p"
      "q = u * p * min u128_max (10000 + pm_client_buffer info) div 10000"
    using assms by (auto simp: required_fee_def Let_def split: sum.splits if_splits)
  have "10000 \<le> min u128_max (10000 + pm_client_buffer info)" by (simp add: u128_max_def)
  then have "u * p * 10000 div 10000 \<le> q"
    unfolding up(3) by (intro div_le_mono mult_le_mono2)
  with up show ?thesis by auto
qed

lemma div_ceil_nat_mono: "a \<le> b \<Longrightarrow> div_ceil_nat a c \<le> div_ceil_nat b c"
  by (auto simp: div_ceil_nat_def intro!: div_le_mono)

lemma div_ceil_nat_le: "a \<le> n * c \<Longrightarrow> 0 < c \<Longrightarrow> div_ceil_nat a c \<le> n"
proof -
  assume a: "a \<le> n * c" and c: "0 < c"
  have "a + c - 1 < (n + 1) * c" using a c by (simp add: algebra_simps)
  then have "(a + c - 1) div c < n + 1" by (simp add: less_mult_imp_div_less)
  then show ?thesis by (simp add: div_ceil_nat_def)
qed

text \<open>
  C31. The fee note outlives a doubling of the gas price: whatever the gate asks for when the proof
  arrives, as long as it is at most twice the buffered quote, converts to at most the note's value.
\<close>

theorem fee_note_clears_gate:
  assumes "required_fee_in_token info native token = Some (Inr fee)" and "required_fee info = Inr quote"
    and "cost \<le> 2 * quote"
  shows "value_of cost native token \<le> fee * (10 ^ tv_decimals native * tv_usd token) \<and>
    (case convert_token_amount cost native token of Some (Inr asked) \<Rightarrow> asked \<le> fee | _ \<Rightarrow> True)"
proof -
  let ?d = "10 ^ tv_decimals native * tv_usd token"
  obtain c where c: "convert_token_amount quote native token = Some (Inr c)" and fee: "fee = div_ceil_nat (c * 20000) 10000"
    using assms(1,2)
    by (auto simp: required_fee_in_token_def fee_note_headroom_bps_def Let_def split: option.splits sum.splits if_splits)
  note conv = convert_token_amount_Inr [OF c]
  have d: "0 < ?d" using conv(2) by simp
  have fee2: "2 * c \<le> fee" using div_ceil_nat_least [of 10000 "c * 20000"] by (simp add: fee)
  have "value_of cost native token \<le> 2 * value_of quote native token"
    using mult_le_mono1 [OF assms(3), of "tv_usd native * 10 ^ tv_decimals token"]
    by (simp add: value_of_def mult.assoc)
  also have "\<dots> \<le> 2 * (c * ?d)"
    using div_ceil_nat_least [OF d, of "value_of quote native token"] by (simp only: conv(1) mult_le_mono2)
  also have "\<dots> \<le> fee * ?d"
    using mult_le_mono1 [OF fee2, of ?d] by (simp only: mult.assoc)
  finally have worth: "value_of cost native token \<le> fee * ?d" .
  moreover have "asked \<le> fee" if "convert_token_amount cost native token = Some (Inr asked)" for asked
    using convert_token_amount_Inr(1) [OF that] div_ceil_nat_le [OF worth d] by simp
  ultimately show ?thesis by (auto split: option.split sum.split)
qed

section \<open>Decimal prices\<close>

lemma dec_value_acc: "foldl (\<lambda>acc c. acc * 10 + digit_val c) a s = a * 10 ^ length s + dec_value s"
proof (induction s arbitrary: a)
  case (Cons c s)
  have "foldl (\<lambda>acc c. acc * 10 + digit_val c) a (c # s) = (a * 10 + digit_val c) * 10 ^ length s + dec_value s"
    using Cons.IH [of "a * 10 + digit_val c"] by simp
  moreover have "dec_value (c # s) = digit_val c * 10 ^ length s + dec_value s"
    using Cons.IH [of "digit_val c"] by (simp add: dec_value_def)
  ultimately show ?case by (simp add: algebra_simps)
qed (simp add: dec_value_def)

lemma dec_value_append: "dec_value (a @ b) = dec_value a * 10 ^ length b + dec_value b"
  using dec_value_acc [of "dec_value a" b] by (simp add: dec_value_def)

lemma dec_value_zeros [simp]: "dec_value (replicate n (CHR ''0'')) = 0"
  by (induction n) (simp_all add: dec_value_def digit_val_def)

lemma dec_value_bound: "list_all is_digit s \<Longrightarrow> dec_value s < 10 ^ length s"
proof (induction s rule: rev_induct)
  case (snoc c s)
  then have "digit_val c \<le> 9" by (auto simp: is_digit_def digit_val_def)
  with snoc show ?case by (simp add: dec_value_append) (simp add: dec_value_def)
qed (simp add: dec_value_def)

lemma pad_places_value:
  assumes "list_all is_digit f"
  shows "dec_value (pad_places f) = dec_value f * 10 ^ price_decimals div 10 ^ length f"
proof (cases "length f \<le> price_decimals")
  case True
  then have "(10::nat) ^ price_decimals = 10 ^ (price_decimals - length f) * 10 ^ length f"
    by (metis le_add_diff_inverse2 power_add)
  with True show ?thesis by (simp add: pad_places_def dec_value_append)
next
  case False
  let ?a = "take price_decimals f" and ?b = "drop price_decimals f"
  have len: "length f = price_decimals + length ?b" using False by simp
  have "dec_value ?b < 10 ^ length ?b"
    using assms by (intro dec_value_bound) (metis append_take_drop_id list_all_append)
  moreover have "dec_value f = dec_value ?a * 10 ^ length ?b + dec_value ?b"
    by (metis append_take_drop_id dec_value_append)
  ultimately have "dec_value f div 10 ^ length ?b = dec_value ?a" by simp
  moreover have "dec_value f * 10 ^ price_decimals div 10 ^ length f = dec_value f div 10 ^ length ?b"
    unfolding len power_add by (simp add: mult.commute)
  ultimately show ?thesis using False by (simp add: pad_places_def Let_def)
qed

lemma split_once_digits: "list_all is_digit w \<Longrightarrow> split_once (CHR ''.'') (w @ CHR ''.'' # f) = Some (w, f)"
  by (induction w) (auto simp: is_digit_def)

lemma trim_digits:
  assumes "list_all is_digit w" "list_all is_digit f" "w \<noteq> []"
  shows "trim (w @ CHR ''.'' # f) = w @ CHR ''.'' # f"
proof -
  have no: "\<not> is_whitespace c" if "is_digit c \<or> c = CHR ''.''" for c
    using that by (auto simp: is_digit_def is_whitespace_def Let_def)
  let ?s = "w @ CHR ''.'' # f"
  have all: "\<forall>c \<in> set ?s. \<not> is_whitespace c" using assms no by (auto simp: list_all_iff)
  have keep: "dropWhile is_whitespace cs = cs" if "\<forall>c \<in> set cs. \<not> is_whitespace c" for cs
    using that by (cases cs) simp_all
  have "dropWhile is_whitespace ?s = ?s" by (rule keep [OF all])
  moreover have "dropWhile is_whitespace (rev ?s) = rev ?s" by (rule keep) (use all in auto)
  ultimately show ?thesis by (simp only: trim_def rev_rev_ident)
qed

text \<open>
  A decimal price is read at eight places, the rest cut off: the value is the price scaled by
  ten to the eighth, rounded down, and a price that vanishes at this scale is an error.
\<close>

theorem usd_price_truncates:
  assumes "digits whole" and "list_all is_digit fraction"
    and "dec_value (whole @ fraction) * 10 ^ 8 div 10 ^ length fraction \<le> u256_max"
  shows "parse_usd_price pt (whole @ CHR ''.'' # fraction) =
    (let scaled = dec_value (whole @ fraction) * 10 ^ 8 div 10 ^ length fraction in
     Some (if scaled = 0
           then Inl (other (''non-positive USD price '' @ pt_debug pt (whole @ CHR ''.'' # fraction)))
           else Inr scaled))"
proof -
  let ?w = "dec_value whole" and ?f = "dec_value (pad_places fraction)"
  have split: "dec_value (whole @ fraction) * 10 ^ 8 div 10 ^ length fraction = ?w * 10 ^ 8 + ?f"
    using pad_places_value [OF assms(2)]
    by (simp add: dec_value_append price_decimals_def add_mult_distrib mult.assoc mult.commute [of "10 ^ length fraction"])
      (simp add: mult.assoc [symmetric])
  have w: "list_all is_digit whole" "whole \<noteq> []" using assms(1) by (simp_all add: digits_def)
  have fits: "?w \<le> u256_max" "?w * 10 ^ 8 \<le> u256_max" "?f \<le> u256_max" "?w * 10 ^ 8 + ?f \<le> u256_max"
    using assms(3) unfolding split by simp_all
  have ten: "exp10 price_decimals = Some (10 ^ 8)" by (simp add: exp10_def u256_def u256_max_def price_decimals_def)
  show ?thesis
    unfolding split Let_def parse_usd_price_def
    using assms(1,2) fits trim_digits [OF w(1) assms(2) w(2)] split_once_digits [OF w(1)] ten
    by (auto simp: u256_from_dec_def u256_mul_def u256_add_def u256_def digits_def)
qed

text \<open>
  The gateway's numbers can stop the caller: with more than 77 decimals the power of ten does not fit
  256 bits, and the conversion panics where it promises an error.
\<close>

theorem decimals_panic: "convert_token_amount amount \<lparr>tv_usd = 1, tv_decimals = 78\<rparr> \<lparr>tv_usd = 1, tv_decimals = 18\<rparr> = None"
  by (auto simp: convert_token_amount_def exp10_def u256_mul_def u256_def u256_max_def split: option.split)

section \<open>Witnesses\<close>

definition demo_quote :: paymaster_info where
  "demo_quote =
     \<lparr>pm_operator = \<lparr>pk_spend = ''1.2'', pk_view = ''3.4'', pk_bjj = ''5.6''\<rparr>, pm_accepted = None,
      pm_gas_units = show_nat 100000, pm_gas_price = show_nat 2, pm_client_buffer = 1000, pm_tolerance = 500\<rparr>"

lemma demo_quote_fee: "required_fee demo_quote = Inr 220000"
  by (simp add: required_fee_def demo_quote_def parse_uint_show u128_max_def Let_def del: show_nat.simps)

theorem fee_note_clears_gate_witness:
  "value_of 400000 \<lparr>tv_usd = 100, tv_decimals = 2\<rparr> \<lparr>tv_usd = 5, tv_decimals = 2\<rparr> \<le> 8800000 * (10 ^ 2 * 5)"
proof -
  have "required_fee_in_token demo_quote \<lparr>tv_usd = 100, tv_decimals = 2\<rparr> \<lparr>tv_usd = 5, tv_decimals = 2\<rparr> = Some (Inr 8800000)"
    by (simp add: required_fee_in_token_def demo_quote_fee convert_token_amount_def exp10_def u256_mul_def u256_add_def
        u256_def u256_max_def u128_max_def fee_note_headroom_bps_def div_ceil_nat_def Let_def)
  from fee_note_clears_gate [OF this demo_quote_fee, of 400000] show ?thesis by simp
qed

theorem usd_price_truncates_witness:
  "parse_usd_price \<lparr>pt_debug = id, pt_too_large = []\<rparr> ''1.234567899'' = Some (Inr 123456789)"
proof -
  have v: "dec_value ''1234567899'' = 1234567899" by (simp add: dec_value_def digit_val_def)
  have "parse_usd_price \<lparr>pt_debug = id, pt_too_large = []\<rparr> (''1'' @ CHR ''.'' # ''234567899'') = Some (Inr 123456789)"
    by (subst usd_price_truncates) (simp_all add: v digits_def is_digit_def u256_max_def)
  then show ?thesis by simp
qed

end
