(* ===== verification/Vault_Token.thy ===== *)
theory Vault_Token
  imports Relay_Client
begin

text \<open>
  The discovery of the deployment (\<open>CurvyChainEndpoints\<close> of \<open>src/src/pix/pools/curvy/sdk.rs\<close>) and
  of the vault token id (\<open>token.rs\<close>). The record \<open>blokli\<close> adds to the gateway what the indexer
  answers to its queries, again by the number of the call; the JSON form of the contract map is one
  of its arguments. The cell that keeps a resolved id is part of the state.
\<close>

section \<open>Addresses as text\<close>

definition ascii_lower :: "char \<Rightarrow> char" where
  "ascii_lower c = (let k = (of_char c :: nat) in if 65 \<le> k \<and> k \<le> 90 then char_of (k + 32) else c)"

definition eq_ignore_case :: "string \<Rightarrow> string \<Rightarrow> bool" where
  "eq_ignore_case a b \<longleftrightarrow> map ascii_lower a = map ascii_lower b"

lemma eq_ignore_case_refl [simp]: "eq_ignore_case a a"
  by (simp add: eq_ignore_case_def)

lemma eq_ignore_case_trans: "eq_ignore_case a b \<Longrightarrow> eq_ignore_case a c \<Longrightarrow> eq_ignore_case b c"
  by (simp add: eq_ignore_case_def)

definition is_zero_address :: "string \<Rightarrow> bool" where
  "is_zero_address a =
     (let trimmed = (if take 2 a = ''0x'' \<or> take 2 a = ''0X'' then drop 2 a else a) in
      trimmed \<noteq> [] \<and> list_all (\<lambda>c. c = CHR ''0'') trimmed)"

section \<open>Discovery\<close>

record endpoints =
  ep_aggregator :: string
  ep_portal_factory :: "string option"
  ep_vault :: string
  ep_shield_router :: "string option"
  ep_token_address :: string
  ep_chain_id :: nat

record blokli = gateway +
  bk_chain_info :: "nat \<Rightarrow> string + string \<times> int"
  bk_contracts :: "string \<Rightarrow> string + (string \<times> string) list"
  bk_token_count :: "nat \<Rightarrow> string + string"
  bk_token :: "nat \<Rightarrow> string \<Rightarrow> string + string"
  bk_show_error :: "adapter_error \<Rightarrow> string"

definition ask :: "'g gateway_scheme \<Rightarrow> (nat \<Rightarrow> 'e + 'a) \<Rightarrow> ('s net_scheme, 'e, 'a) fallible" where
  \<comment> \<open>one call to code outside the repository\<close>
  "ask gw answer s = (answer (nt_calls s), tick_call (gw_took gw (nt_calls s)) s)"

definition contract :: "(string \<times> string) list \<Rightarrow> string \<Rightarrow> adapter_error + string" where
  "contract contracts name =
     (case map_of contracts name of
        None \<Rightarrow> Inl (Discovery (''no `'' @ name @ ''` contract in chain_info''))
      | Some a \<Rightarrow> Inr a)"

definition optional_contract :: "(string \<times> string) list \<Rightarrow> string \<Rightarrow> string option" where
  "optional_contract contracts name =
     (case map_of contracts name of None \<Rightarrow> None | Some a \<Rightarrow> if is_zero_address a then None else Some a)"

definition endpoints_of :: "(string \<times> string) list \<Rightarrow> int \<Rightarrow> adapter_error + endpoints" where
  "endpoints_of contracts chain_id =
     (case contract contracts ''curvy_aggregator'' of
        Inl e \<Rightarrow> Inl e
      | Inr aggregator \<Rightarrow>
          (case contract contracts ''curvy_vault'' of
             Inl e \<Rightarrow> Inl e
           | Inr vault \<Rightarrow>
               (case contract contracts ''token'' of
                  Inl e \<Rightarrow> Inl e
                | Inr token \<Rightarrow>
                    if chain_id < 0 then Inl (Discovery ''negative chain id'')
                    else Inr \<lparr>ep_aggregator = aggregator,
                              ep_portal_factory = optional_contract contracts ''curvy_portal_factory'',
                              ep_vault = vault,
                              ep_shield_router = optional_contract contracts ''curvy_shield_router'',
                              ep_token_address = token, ep_chain_id = nat chain_id\<rparr>)))"

definition discover :: "'b blokli_scheme \<Rightarrow> ('s net_scheme, adapter_error, endpoints) fallible" where
  "discover bk =
     and_then (map_err Discovery (ask bk (bk_chain_info bk)))
       (\<lambda>(addresses, chain_id).
          case bk_contracts bk addresses of
            Inl e \<Rightarrow> fail (Discovery (''contract address map: '' @ e))
          | Inr contracts \<Rightarrow> lift_result (endpoints_of contracts chain_id))"

definition require_shield_router :: "endpoints \<Rightarrow> adapter_error + string" where
  "require_shield_router ep =
     (case ep_shield_router ep of
        Some router \<Rightarrow> Inr router
      | None \<Rightarrow>
          Inl (Discovery (''Blokli names no Curvy shield router (`curvy_shield_router`), so `shielding: direct` cannot run: the '' @
            ''router is not deployed on this network, or this Blokli predates it. Nothing was sent - a `send` to '' @
            ''an undeployed router would strand the float.'')))"

definition require_portal_factory :: "endpoints \<Rightarrow> adapter_error + string" where
  "require_portal_factory ep =
     (case ep_portal_factory ep of
        Some factory \<Rightarrow> Inr factory
      | None \<Rightarrow>
          Inl (Discovery (''this Curvy deployment has no entry-portal factory, so `shielding: portal` cannot work against it; '' @
            ''use `shielding: direct`'')))"

section \<open>The vault token\<close>

record vault_token =
  vt_id :: "nat option"
  vt_configured :: bool
  vt_unregistered :: "(instant \<times> string) option"

record token_net = net +
  tn_token :: vault_token

definition configured_token :: "nat \<Rightarrow> vault_token" where
  "configured_token i = \<lparr>vt_id = Some i, vt_configured = True, vt_unregistered = None\<rparr>"

definition token_from_table :: vault_token where
  "token_from_table = \<lparr>vt_id = None, vt_configured = False, vt_unregistered = None\<rparr>"

definition max_scanned_tokens :: nat where
  "max_scanned_tokens = 64"

definition unregistered_recheck :: duration where
  "unregistered_recheck = secs 60"

definition token_count :: "'b blokli_scheme \<Rightarrow> ('s token_net_scheme, string, nat) fallible" where
  "token_count bk =
     and_then (map_err (\<lambda>e. ''vault token count: '' @ e) (ask bk (bk_token_count bk)))
       (\<lambda>len. case parse_uint u64_max len of
          Inl e \<Rightarrow> fail (''vault token count `'' @ len @ ''`: '' @ e)
        | Inr n \<Rightarrow> ok n)"

definition token_address :: "'b blokli_scheme \<Rightarrow> nat \<Rightarrow> ('s token_net_scheme, string, string) fallible" where
  "token_address bk i =
     map_err (\<lambda>e. ''vault token '' @ show_nat i @ '': '' @ e) (ask bk (\<lambda>n. bk_token bk n (show_nat i)))"

definition safe_token :: "'b blokli_scheme \<Rightarrow> ('s token_net_scheme, string, string) fallible" where
  "safe_token bk = and_then (map_err (bk_show_error bk) (discover bk)) (\<lambda>ep. ok (ep_token_address ep))"

definition unregistered_error :: "string \<Rightarrow> nat \<Rightarrow> nat \<Rightarrow> string" where
  "unregistered_error safe len oldest =
     (if 1 < oldest
      then safe @ '', the token the Safe holds, is not among the '' @ show_nat max_scanned_tokens @
           '' most recently registered of the Curvy vault's '' @ show_nat len @ '' tokens: state its id as `token`''
      else ''none of the Curvy vault's '' @ show_nat len @ '' tokens is '' @ safe @
           '', the token the Safe holds: this deployment cannot shield it'')"

definition scanned_ids :: "nat \<Rightarrow> nat list" where
  \<comment> \<open>newest first\<close>
  "scanned_ids len = rev [len - max_scanned_tokens + 1 ..< len + 1]"

definition memoised :: "instant \<Rightarrow> vault_token \<Rightarrow> string option" where
  "memoised now vt =
     (case vt_unregistered vt of
        Some (since, error) \<Rightarrow> if now - since < unregistered_recheck then Some error else None
      | None \<Rightarrow> None)"

definition lookup_token :: "'b blokli_scheme \<Rightarrow> string option \<Rightarrow> ('s token_net_scheme, string, nat) fallible" where
  "lookup_token bk safe =
     and_then (inspect (\<lambda>s. (tn_token s, memoised (nt_clock s) (tn_token s))))
       (\<lambda>(vt, memo).
          case vt_id vt of
            Some i \<Rightarrow> ok i
          | None \<Rightarrow>
              if vt_configured vt then fail ''the Curvy vault token id is neither configured nor resolvable''
              else
                case memo of
                  Some error \<Rightarrow> fail error
                | None \<Rightarrow>
                    and_then (case safe of Some a \<Rightarrow> ok a | None \<Rightarrow> safe_token bk)
                      (\<lambda>safe. and_then (token_count bk)
                         (\<lambda>len. and_then
                            (find_first (\<lambda>i. and_then (token_address bk i) (\<lambda>a. ok (eq_ignore_case a safe)))
                               (scanned_ids len))
                            (\<lambda>found.
                               case found of
                                 Some i \<Rightarrow>
                                   and_then (modify (\<lambda>s. s\<lparr>tn_token := (tn_token s)\<lparr>vt_id := Some i\<rparr>\<rparr>)) (\<lambda>_. ok i)
                               | None \<Rightarrow>
                                   (let error = unregistered_error safe len (len - max_scanned_tokens + 1) in
                                    and_then
                                      (modify (\<lambda>s. s\<lparr>tn_token := (tn_token s)\<lparr>vt_unregistered := Some (nt_clock s, error)\<rparr>\<rparr>))
                                      (\<lambda>_. fail error))))))"

section \<open>What a lookup finds\<close>

definition registers :: "'b blokli_scheme \<Rightarrow> nat \<Rightarrow> (nat \<Rightarrow> string) \<Rightarrow> bool" where
  \<comment> \<open>the vault lists so many tokens, at these addresses, whenever it is asked\<close>
  "registers bk len table \<longleftrightarrow>
     len \<le> u64_max \<and> (\<forall>n. bk_token_count bk n = Inr (show_nat len)) \<and>
     (\<forall>n i. bk_token bk n (show_nat i) = Inr (table i))"

lemma scan_registered:
  assumes "registers bk len table"
  shows "\<exists>s'. find_first (\<lambda>i. and_then (token_address bk i) (\<lambda>a. ok (eq_ignore_case a safe))) ids s =
      (Inr (find (\<lambda>i. eq_ignore_case (table i) safe) ids), s') \<and>
    nt_calls s' \<le> nt_calls s + length ids \<and> tn_token s' = tn_token s"
proof (induction ids arbitrary: s)
  case (Cons i ids)
  have step: "token_address bk i s = (Inr (table i), tick_call (gw_took bk (nt_calls s)) s)" for s
    using assms by (simp add: token_address_def map_err_def ask_def registers_def)
  have kept: "tn_token (tick_call d s) = tn_token s" "nt_calls (tick_call d s) = nt_calls s + 1" for d
    by (simp_all add: tick_call_def)
  show ?case
    using Cons.IH [of "tick_call (gw_took bk (nt_calls s)) s"]
    by (auto simp: and_then_def step ok_def kept)
qed (simp add: ok_def)

lemma find_newest:
  "find P (rev [a ..< Suc c]) =
     (if \<exists>i \<in> {a..c}. P i then Some (Max {i \<in> {a..c}. P i}) else None)"
proof (induction c)
  case 0
  show ?case
  proof (cases "a = 0")
    case True
    have "{i. i = 0 \<and> P i} = (if P 0 then {0::nat} else {})" by auto
    then show ?thesis using True by auto
  qed auto
next
  case (Suc c)
  show ?case
  proof (cases "a \<le> Suc c")
    case True
    have split: "{a..Suc c} = insert (Suc c) {a..c}" using True by auto
    show ?thesis
    proof (cases "P (Suc c)")
      case p: True
      have "Max {i \<in> {a..Suc c}. P i} = Suc c" using p True by (intro Max_eqI) auto
      then show ?thesis using True p by auto
    next
      case False
      then have "{i \<in> {a..Suc c}. P i} = {i \<in> {a..c}. P i}" unfolding split by auto
      moreover have "(\<exists>i \<in> {a..Suc c}. P i) \<longleftrightarrow> (\<exists>i \<in> {a..c}. P i)" unfolding split using False by auto
      moreover have "rev [a ..< Suc (Suc c)] = Suc c # rev [a ..< Suc c]" using True by simp
      ultimately show ?thesis using False Suc by (simp only: find.simps if_False)
    qed
  qed auto
qed


text \<open>Once an id is known, no lookup asks anything or changes it, and a fresh refusal is repeated unasked.\<close>

lemma lookup_token_known: "vt_id (tn_token s) = Some i \<Longrightarrow> lookup_token bk safe s = (Inr i, s)"
  by (simp add: lookup_token_def and_then_def inspect_def ok_def)

lemma lookup_token_memo:
  "vt_id (tn_token s) = None \<Longrightarrow> \<not> vt_configured (tn_token s) \<Longrightarrow> memoised (nt_clock s) (tn_token s) = Some e \<Longrightarrow>
   lookup_token bk safe s = (Inl e, s)"
  by (simp add: lookup_token_def and_then_def inspect_def fail_def)

section \<open>Witness\<close>

definition demo_gateway :: gateway where
  \<comment> \<open>a gateway that never answers\<close>
  "demo_gateway =
     \<lparr>gw_answer = (\<lambda>_ _. NoAnswer ''down''), gw_took = (\<lambda>_. 1), gw_status_text = show_nat, gw_envelope = (\<lambda>_. None),
      gw_submission = Inl, gw_paymaster = Inl, gw_networks = Inl, gw_protocol = Inl, gw_show_status = (\<lambda>_. [])\<rparr>"

definition demo_blokli :: blokli where
  \<comment> \<open>three registered tokens, the second of them twice\<close>
  "demo_blokli =
     gateway.extend demo_gateway
       \<lparr>bk_chain_info = (\<lambda>_. Inl ''down''), bk_contracts = Inl, bk_token_count = (\<lambda>_. Inr (show_nat 3)),
        bk_token = (\<lambda>_ i. Inr (if i = show_nat 3 then ''0xcc'' else ''0xBB'')), bk_show_error = (\<lambda>_. [])\<rparr>"

definition demo_token_net :: token_net where
  "demo_token_net = \<lparr>nt_clock = 0, nt_calls = 0, tn_token = token_from_table\<rparr>"

lemma show_nat_inject: "m \<le> u64_max \<Longrightarrow> n \<le> u64_max \<Longrightarrow> show_nat m = show_nat n \<longleftrightarrow> m = n"
  by (metis parse_uint_show sum.inject(2))


end
