(* ===== verification/Curvy_Journal.thy ===== *)
theory Curvy_Journal
  imports Vault_Token
begin

unbundle bit_operations_syntax

text \<open>
  The journal of the Curvy adapter (\<open>src/src/pix/pools/curvy/sdk.rs\<close>): the durable state, and the
  relayed aggregations it records before they are posted. Proofs, notes and the prover belong to the
  Curvy SDK: the record \<open>sdk\<close> adds what it answers to the indexer and the gateway. The state has the
  copy in memory and the one on disk; \<open>ad_sent\<close> is a ghost, the proofs handed over so far with what
  the disk held at that moment. The chain lock serialises the operations modelled here.
\<close>

section \<open>Data\<close>

datatype curvy_shielding = DirectShielding | PortalShielding
datatype curvy_submission = RelayerSubmission | OperatorSubmission
datatype note_source = BlokliNotes | CurvyIndexerNotes

record identity =
  id_spend :: string
  id_view :: string
  id_bjj :: "fr \<times> fr"

type_synonym viewer = nat
type_synonym scan_key = nat

record stored_note =
  sn_owner :: "string \<times> string"
  sn_secret :: string
  sn_ephemeral :: "string \<times> string"
  sn_view_tag :: nat
  sn_amount :: string
  sn_token :: string

record relay_intent =
  it_intent :: string
  it_action :: string
  it_spend_key :: string

record relay_attempt =
  ra_intent :: string
  ra_chain :: nat
  ra_aggregator :: string
  ra_max_inputs :: nat
  ra_proof :: proof_data
  ra_signals :: "string list"
  ra_request_key :: string
  ra_spend_key :: string
  ra_inputs :: "stored_note list"
  ra_change :: stored_note
  ra_emitted :: "stored_note list"
  ra_ids :: "pix_id list"
  ra_attempted :: bool
  ra_request :: "string option"
  ra_hash :: "string option"
  ra_rebuild :: bool
  ra_last_status :: "relay_status option"
  ra_timeouts :: nat
  ra_circuit :: "circuit_ref option"

definition observe_progress :: "relay_status \<Rightarrow> string option \<Rightarrow> relay_attempt \<Rightarrow> relay_attempt" where
  "observe_progress st h a =
     a\<lparr>ra_timeouts := (if ra_last_status a \<noteq> Some st \<or> (h \<noteq> None \<and> h \<noteq> ra_hash a) then 0 else ra_timeouts a),
       ra_last_status := Some st,
       ra_hash := (case h of None \<Rightarrow> ra_hash a | Some x \<Rightarrow> Some x)\<rparr>"

record operator_attempt =
  oa_chain :: nat
  oa_aggregator :: string
  oa_inputs :: "stored_note list"
  oa_change :: stored_note
  oa_emitted :: "stored_note list"
  oa_ids :: "pix_id list"

record aggregation_outcome =
  ao_request :: "string option"
  ao_hash :: "string option"
  ao_allocations :: nat

record stored_direct_shield =
  ds_note :: stored_note
  ds_gross :: string

datatype shield_stage = PreparedShield | FundedShield

record stored_shield =
  sh_note :: stored_note
  sh_gross :: string
  sh_recovery :: string
  sh_portal :: string
  sh_stage :: shield_stage

datatype allocation_stage = PreparedAllocation | CompletedAllocation

record stored_allocation =
  sa_id :: pix_id
  sa_address :: bytes
  sa_scan_key :: bytes
  sa_amount :: string
  sa_stage :: allocation_stage

record sdk_state =
  sd_spender :: "(string \<times> string) option"
  sd_funding :: "stored_note list"
  sd_pending :: "stored_note list"
  sd_ambiguous :: bool
  sd_ambiguous_inputs :: "stored_note list"
  sd_ambiguous_change :: "stored_note option"
  sd_ambiguous_emitted :: "stored_note list"
  sd_shield :: "stored_shield option"
  sd_direct :: "stored_direct_shield option"
  sd_intents :: "relay_intent list"
  sd_relay :: "relay_attempt list"
  sd_ambiguous_ids :: "pix_id list"
  sd_operator :: "operator_attempt list"

definition sdk_default :: sdk_state where
  "sdk_default =
     \<lparr>sd_spender = None, sd_funding = [], sd_pending = [], sd_ambiguous = False, sd_ambiguous_inputs = [],
      sd_ambiguous_change = None, sd_ambiguous_emitted = [], sd_shield = None, sd_direct = None, sd_intents = [],
      sd_relay = [], sd_ambiguous_ids = [], sd_operator = []\<rparr>"

record aggregation_request =
  ar_max_inputs :: nat
  ar_proof :: proof_data
  ar_signals :: "string list"
  ar_request_key :: string
  ar_spend_key :: string
  ar_change :: owned_note
  ar_emitted :: "owned_note list"
  ar_circuit :: circuit_ref

record build_input =
  bi_inputs :: "owned_note list"
  bi_allocations :: "((viewer \<times> (fr \<times> fr)) \<times> nat) list"
  bi_relay_fee :: "(identity \<times> nat) option"
  bi_fee_recipient :: "identity option"

record withdrawal_request =
  wr_max_inputs :: nat
  wr_circuit :: circuit_ref
  wr_proof :: proof_data
  wr_signals :: "string list"
  wr_request_key :: string
  wr_spend_key :: string
  wr_delivered :: nat

record shield_call =
  \<comment> \<open>the arguments of the \<open>DirectShielder\<close>; the note is the one its callback asks the aggregator for\<close>
  sc_calldata :: bytes
  sc_token :: string
  sc_router :: string
  sc_aggregator :: string
  sc_gross :: nat
  sc_note :: owned_note

record prepared_deposit =
  pd_note :: owned_note
  pd_gross :: nat
  pd_recovery :: string
  pd_portal :: string

datatype snapshot_answer = SnapshotTimeout | SnapshotFailed string | Snapshot "string list option"

record sdk = blokli +
  sk_note_id :: "owned_note \<Rightarrow> fr"
  sk_parse_fr :: "string \<Rightarrow> string + fr"
  sk_point :: "nat \<Rightarrow> string + fr \<times> fr"
  sk_scan_dec :: "scan_key \<Rightarrow> string + string \<times> string"
  sk_viewer :: "string \<times> string \<Rightarrow> string + viewer"
  sk_address_bytes :: "nat \<Rightarrow> bytes"
  sk_parse_address :: "bytes \<Rightarrow> string + nat"
  sk_scan_bytes :: "scan_key \<Rightarrow> bytes"
  sk_parse_scan :: "bytes \<Rightarrow> string + scan_key"
  sk_random :: "nat \<Rightarrow> bytes"
  sk_db :: "nat \<Rightarrow> string option"
  sk_note_status :: "nat \<Rightarrow> fr \<Rightarrow> string + nat"
  sk_snapshot :: "nat \<Rightarrow> snapshot_answer"
  sk_build :: "nat \<Rightarrow> build_input \<Rightarrow> string + aggregation_request"
  sk_http_new :: "string \<Rightarrow> string + unit"
  sk_debug :: "string \<Rightarrow> string"
  sk_show_strategy_error :: "strategy_error \<Rightarrow> string"
  sk_price_text :: price_text
  sk_aggregate :: "nat \<Rightarrow> aggregation_request \<Rightarrow> (string \<times> bool) + string list"
  sk_commit :: "nat \<Rightarrow> fr list \<Rightarrow> string + string list"
  sk_minimum_input :: "nat \<Rightarrow> nat \<Rightarrow> nat \<Rightarrow> string + nat"
  sk_build_withdrawal :: "nat \<Rightarrow> owned_note list \<Rightarrow> string \<Rightarrow> string + withdrawal_request"
  sk_withdraw :: "nat \<Rightarrow> withdrawal_request \<Rightarrow> string + nat \<times> string list"
  sk_prepare_shield :: "nat \<Rightarrow> nat \<Rightarrow> nat \<Rightarrow> string + owned_note"
  sk_calldata :: "owned_note \<Rightarrow> nat \<Rightarrow> string + bytes"
  sk_parse_eth :: "string \<Rightarrow> string + string"
  sk_shield :: "nat \<Rightarrow> shield_call \<Rightarrow> string + unit"
  sk_prepare_deposit :: "nat \<Rightarrow> nat \<Rightarrow> nat \<Rightarrow> string \<Rightarrow> string + prepared_deposit"
  sk_erc20_balance :: "nat \<Rightarrow> string \<Rightarrow> string \<Rightarrow> string + nat"
  sk_fund :: "nat \<Rightarrow> string \<Rightarrow> nat \<Rightarrow> string + unit"
  sk_shield_portal :: "nat \<Rightarrow> prepared_deposit \<Rightarrow> string + string"
  sk_signer :: "string \<Rightarrow> bool"
  sk_new_meta :: "nat \<Rightarrow> string + string \<times> string"
  sk_account :: "string \<times> string \<Rightarrow> string + unit"
  sk_max_commit :: nat
  sk_show_balance :: "balance \<Rightarrow> string"
  sk_action_name :: "relay_action \<Rightarrow> string"

record adapter_config =
  ac_key :: string
  ac_fee_recipient :: "identity option"
  ac_shielding :: curvy_shielding
  ac_submission :: curvy_submission
  ac_relay :: bool
  ac_shielder :: bool
  ac_relay_timeout :: duration
  ac_note_source :: note_source
  ac_indexer_url :: "string option"

datatype sent =
    Posted relay_attempt sdk_state
  | Broadcast operator_attempt sdk_state
  | ShieldSent owned_note sdk_state
  | WithdrawalPosted string sdk_state

record adapter = token_net +
  ad_mem :: sdk_state
  ad_disk :: sdk_state
  ad_rows :: "(pix_id \<times> stored_allocation) list"
  ad_client :: "endpoints option"
  ad_next_check :: "instant option"
  ad_sent :: "sent list"

type_synonym 'a adapter_op = "(adapter, adapter_error stop, 'a) fallible"

section \<open>Notes and recipients\<close>

definition stored_of :: "owned_note \<Rightarrow> stored_note" where
  "stored_of n =
     \<lparr>sn_owner = (show_nat (fst (on_owner n)), show_nat (snd (on_owner n))), sn_secret = show_nat (on_secret n),
      sn_ephemeral = (show_nat (fst (on_ephemeral n)), show_nat (snd (on_ephemeral n))),
      sn_view_tag = on_view_tag n, sn_amount = show_nat (on_amount n), sn_token = show_nat (on_token n)\<rparr>"

definition note_field :: "sdk \<Rightarrow> string \<times> string \<Rightarrow> adapter_error + fr" where
  "note_field sk = (\<lambda>(text, name). case sk_parse_fr sk text of
     Inl e \<Rightarrow> Inl (InvalidValue (name @ '': '' @ e)) | Inr x \<Rightarrow> Inr x)"

definition owned_of :: "sdk \<Rightarrow> stored_note \<Rightarrow> adapter_error + owned_note" where
  "owned_of sk n =
     (case traverse (note_field sk)
        [(fst (sn_owner n), ''owner x''), (snd (sn_owner n), ''owner y''), (sn_secret n, ''shared secret''),
         (fst (sn_ephemeral n), ''ephemeral x''), (snd (sn_ephemeral n), ''ephemeral y''), (sn_amount n, ''amount''),
         (sn_token n, ''token'')] of
        Inl e \<Rightarrow> Inl e
      | Inr fs \<Rightarrow>
          Inr \<lparr>on_owner = (fs ! 0, fs ! 1), on_secret = fs ! 2, on_ephemeral = (fs ! 3, fs ! 4),
               on_view_tag = sn_view_tag n, on_amount = fs ! 5, on_token = fs ! 6\<rparr>)"

definition recipient :: "sdk \<Rightarrow> nat \<Rightarrow> scan_key \<Rightarrow> adapter_error + viewer \<times> (fr \<times> fr)" where
  "recipient sk addr scan =
     (case sk_point sk addr of
        Inl e \<Rightarrow> Inl (InvalidValue e)
      | Inr owner \<Rightarrow>
          (case sk_scan_dec sk scan of
             Inl e \<Rightarrow> Inl (InvalidValue e)
           | Inr kv \<Rightarrow>
               (case sk_viewer sk kv of Inl e \<Rightarrow> Inl (Sdk e) | Inr v \<Rightarrow> Inr (v, owner))))"

definition prover_allocation :: "sdk \<Rightarrow> stored_allocation \<Rightarrow> adapter_error + (viewer \<times> (fr \<times> fr)) \<times> nat" where
  "prover_allocation sk a =
     (case sk_parse_address sk (sa_address a) of
        Inl e \<Rightarrow> Inl (InvalidValue e)
      | Inr addr \<Rightarrow>
          (case sk_parse_scan sk (sa_scan_key a) of
             Inl e \<Rightarrow> Inl (InvalidValue e)
           | Inr scan \<Rightarrow>
               (case parse_uint u128_max (sa_amount a) of
                  Inl e \<Rightarrow> Inl (InvalidValue e)
                | Inr amount \<Rightarrow>
                    (case recipient sk addr scan of Inl e \<Rightarrow> Inl e | Inr r \<Rightarrow> Inr (r, amount)))))"

definition stealth_identity :: "sdk \<Rightarrow> curvy_public_keys \<Rightarrow> string \<Rightarrow> adapter_error + identity" where
  "stealth_identity sk keys who =
     (case split_once (CHR ''.'') (pk_bjj keys) of
        None \<Rightarrow> Inl (InvalidValue (who @ '' '' @ sk_debug sk (pk_bjj keys) @ '' is not an `x.y` point''))
      | Some (x, y) \<Rightarrow>
          (case note_field sk (x, who @ '' x'') of
             Inl e \<Rightarrow> Inl e
           | Inr px \<Rightarrow>
               (case note_field sk (y, who @ '' y'') of
                  Inl e \<Rightarrow> Inl e
                | Inr py \<Rightarrow> Inr \<lparr>id_spend = pk_spend keys, id_view = pk_view keys, id_bjj = (px, py)\<rparr>)))"

definition uuid_v4 :: "bytes \<Rightarrow> string" where
  "uuid_v4 b =
     (let b = b[6 := (b ! 6 AND 0x0f) OR 0x40];
          b = b[8 := (b ! 8 AND 0x3f) OR 0x80];
          hex = hex_bytes b in
      take 8 hex @ ''-'' @ take 4 (drop 8 hex) @ ''-'' @ take 4 (drop 12 hex) @ ''-'' @ take 4 (drop 16 hex) @ ''-'' @
      drop 20 hex)"

section \<open>The store\<close>

definition db_tx :: "sdk \<Rightarrow> unit adapter_op" where
  \<comment> \<open>a transaction, which may fail and then changes nothing\<close>
  "db_tx sk = map_err (Err \<circ> Sdk) (ask sk (\<lambda>n. case sk_db sk n of None \<Rightarrow> Inr () | Some m \<Rightarrow> Inl m))"

definition update_rows ::
  "stored_allocation list \<Rightarrow> pix_id list \<Rightarrow> (pix_id \<times> stored_allocation) list \<Rightarrow> (pix_id \<times> stored_allocation) list" where
  "update_rows allocations remove rows =
     fold AList.delete remove (fold (\<lambda>a. AList.update (sa_id a) a) allocations rows)"

definition save_update :: "sdk \<Rightarrow> sdk_state \<Rightarrow> stored_allocation list \<Rightarrow> pix_id list \<Rightarrow> unit adapter_op" where
  "save_update sk st allocations remove =
     followed_by (db_tx sk)
       (modify (\<lambda>s. s\<lparr>ad_disk := st, ad_rows := update_rows allocations remove (ad_rows s)\<rparr>))"

definition save :: "sdk \<Rightarrow> sdk_state \<Rightarrow> unit adapter_op" where
  "save sk st = save_update sk st [] []"

definition allocation :: "sdk \<Rightarrow> pix_id \<Rightarrow> stored_allocation option adapter_op" where
  "allocation sk i = followed_by (db_tx sk) (inspect (\<lambda>s. map_of (ad_rows s) i))"

definition prepared_row :: "sdk \<Rightarrow> pix_id \<Rightarrow> stored_allocation adapter_op" where
  "prepared_row sk i =
     and_then (allocation sk i)
       (\<lambda>row. case row of
          None \<Rightarrow> err (InvalidValue ''missing prepared allocation record'')
        | Some a \<Rightarrow> ok a)"

definition completed_allocations :: "sdk \<Rightarrow> pix_id list \<Rightarrow> stored_allocation list adapter_op" where
  "completed_allocations sk ids =
     traverse_m (\<lambda>i. and_then (prepared_row sk i) (\<lambda>a. ok (a\<lparr>sa_stage := CompletedAllocation\<rparr>))) ids"

definition commit_state :: "sdk \<Rightarrow> sdk_state \<Rightarrow> stored_allocation list \<Rightarrow> pix_id list \<Rightarrow> unit adapter_op" where
  \<comment> \<open>the pattern \<open>save_update(&next, ..)?; *current = next\<close>\<close>
  "commit_state sk st allocations remove =
     followed_by (save_update sk st allocations remove) (modify (\<lambda>s. s\<lparr>ad_mem := st\<rparr>))"

section \<open>The deployment\<close>

definition client :: "sdk \<Rightarrow> adapter_config \<Rightarrow> endpoints adapter_op" where
  "client sk cfg =
     and_then (inspect ad_client)
       (\<lambda>known. case known of
          Some ep \<Rightarrow> ok ep
        | None \<Rightarrow>
            and_then (map_err Err (discover sk))
              (\<lambda>ep.
                 let finish = followed_by (modify (\<lambda>s. s\<lparr>ad_client := Some ep\<rparr>)) (ok ep) in
                 case ac_note_source cfg of
                   BlokliNotes \<Rightarrow> finish
                 | CurvyIndexerNotes \<Rightarrow>
                     (case ac_indexer_url cfg of
                        None \<Rightarrow> err (InvalidValue ''`note_source: curvy_indexer` needs `curvy_indexer_url`'')
                      | Some url \<Rightarrow>
                          (case sk_http_new sk url of Inl e \<Rightarrow> err (InvalidValue e) | Inr _ \<Rightarrow> finish))))"

definition adapter_token :: "sdk \<Rightarrow> adapter_config \<Rightarrow> nat adapter_op" where
  "adapter_token sk cfg =
     and_then (inspect tn_token)
       (\<lambda>vt. case vt_id vt of
          Some i \<Rightarrow> ok i
        | None \<Rightarrow>
            and_then (client sk cfg)
              (\<lambda>ep. map_err (Err \<circ> Discovery) (lookup_token sk (Some (ep_token_address ep)))))"

definition note_status :: "sdk \<Rightarrow> owned_note \<Rightarrow> nat adapter_op" where
  "note_status sk n = map_err (Err \<circ> Sdk) (ask sk (\<lambda>c. sk_note_status sk c (sk_note_id sk n)))"

definition known_status :: "nat \<Rightarrow> bool" where
  "known_status st \<longleftrightarrow> st = 1 \<or> st = 2"

definition notes_known :: "sdk \<Rightarrow> adapter_config \<Rightarrow> stored_note list \<Rightarrow> bool adapter_op" where
  "notes_known sk cfg notes =
     (if notes = [] then ok False
      else followed_by (client sk cfg)
        (and_then
           (find_first
              (\<lambda>stored. and_then (lift (owned_of sk stored))
                 (\<lambda>n. and_then (note_status sk n) (\<lambda>st. ok (\<not> known_status st))))
              notes)
           (\<lambda>unknown. ok (unknown = None))))"

definition finality_interval :: duration where
  "finality_interval = secs 5"

definition check_outputs_finalized :: "sdk \<Rightarrow> adapter_config \<Rightarrow> stored_note list \<Rightarrow> unit adapter_op" where
  "check_outputs_finalized sk cfg emitted =
     followed_by (client sk cfg)
       (and_then (lift (traverse (owned_of sk) emitted))
          (\<lambda>notes. let ids = map (\<lambda>n. show_nat (sk_note_id sk n)) notes in
             followed_by
               (and_then (inspect (\<lambda>s. case ad_next_check s of None \<Rightarrow> False | Some next \<Rightarrow> nt_clock s < next))
                  (\<lambda>early. if early then err RelayFinalityPending
                           else modify (\<lambda>s. s\<lparr>ad_next_check := Some (nt_clock s + finality_interval)\<rparr>)))
               (and_then (ask sk (\<lambda>c. Inr (sk_snapshot sk c)))
                  (\<lambda>answer. case answer of
                     SnapshotTimeout \<Rightarrow> err (RelayFinalityUnavailable ''the note source timed out'')
                   | SnapshotFailed m \<Rightarrow> err (Sdk m)
                   | Snapshot None \<Rightarrow>
                       err (RelayFinalityUnavailable
                         ''the note source returned no finalized checkpoint; retry when a checkpoint is available'')
                   | Snapshot (Some leaves) \<Rightarrow>
                       require (list_all (\<lambda>i. i \<in> set leaves) ids) (Err RelayFinalityPending)))))"

section \<open>Fees\<close>

fun join_comma :: "string list \<Rightarrow> string" where
  "join_comma [] = []"
| "join_comma [x] = x"
| "join_comma (x # xs) = x @ '', '' @ join_comma xs"

definition priced :: "sdk \<Rightarrow> (strategy_error + 'a) panics \<Rightarrow> (adapter_error + 'a) panics" where
  "priced sk r = map_option (map_sum (\<lambda>e. InvalidValue (''pricing the relayer's fee note: '' @ sk_show_strategy_error sk e)) id) r"

text \<open>A panic of the 256-bit arithmetic unwinds the whole operation.\<close>

definition fee_amount :: "sdk \<Rightarrow> paymaster_info \<Rightarrow> network_info \<Rightarrow> nat \<Rightarrow> (adapter_error + nat) panics" where
  "fee_amount sk info net token =
     (case priced sk (fee_note_valuations (sk_price_text sk) net token) of
        None \<Rightarrow> None
      | Some (Inl e) \<Rightarrow> Some (Inl e)
      | Some (Inr (native, fee_token)) \<Rightarrow> priced sk (required_fee_in_token info native fee_token))"

definition relayed :: "('s, relay_error, 'a) fallible \<Rightarrow> ('s, adapter_error stop, 'a) fallible" where
  "relayed = map_err (Err \<circ> Relay)"

definition relay_fee_recipient :: "sdk \<Rightarrow> nat \<Rightarrow> nat \<Rightarrow> (identity \<times> nat) option adapter_op" where
  "relay_fee_recipient sk chain_id token =
     and_then (relayed (paymaster sk chain_id))
       (\<lambda>quote. case quote of
          None \<Rightarrow> ok None
        | Some info \<Rightarrow>
            followed_by
              (case pm_accepted info of
                 Some accepted \<Rightarrow>
                   require (show_nat token \<in> set accepted)
                     (Err (InvalidValue (''the Curvy relayer does not accept fee notes in vault token '' @ show_nat token @
                                         ''; it takes '' @ join_comma accepted)))
               | None \<Rightarrow> ok ())
              (and_then (relayed (network sk chain_id))
                 (\<lambda>net. and_then
                    (case fee_amount sk info net token of None \<Rightarrow> fail Panicked | Some r \<Rightarrow> lift r)
                    (\<lambda>amount. and_then (lift (stealth_identity sk (pm_operator info) ''the relayer's operator key''))
                       (\<lambda>identity. ok (Some (identity, amount)))))))"

definition fee_recipient :: "sdk \<Rightarrow> adapter_config \<Rightarrow> identity option adapter_op" where
  "fee_recipient sk cfg =
     (case ac_fee_recipient cfg of
        Some identity \<Rightarrow> ok (Some identity)
      | None \<Rightarrow>
          if \<not> ac_relay cfg then ok None
          else and_then (relayed (relay_protocol sk))
            (\<lambda>collector. case collector of
               None \<Rightarrow> ok None
             | Some keys \<Rightarrow>
                 and_then (lift (stealth_identity sk keys ''the protocol fee collector's key'')) (\<lambda>i. ok (Some i))))"

section \<open>Attempts\<close>

definition max_attempts :: nat where
  "max_attempts = 8"

definition max_timeouts :: nat where
  "max_timeouts = 3"

definition nonzero_notes :: "owned_note list \<Rightarrow> stored_note list" where
  "nonzero_notes notes = map stored_of (filter (\<lambda>n. on_amount n \<noteq> 0) notes)"

definition new_attempt ::
  "string \<Rightarrow> aggregation_request \<Rightarrow> endpoints \<Rightarrow> stored_note list \<Rightarrow> pix_id list \<Rightarrow> relay_attempt" where
  "new_attempt intent rq ep inputs ids =
     \<lparr>ra_intent = intent, ra_chain = ep_chain_id ep, ra_aggregator = ep_aggregator ep,
      ra_max_inputs = ar_max_inputs rq, ra_proof = ar_proof rq, ra_signals = ar_signals rq,
      ra_request_key = ar_request_key rq, ra_spend_key = ar_spend_key rq, ra_inputs = inputs,
      ra_change = stored_of (ar_change rq), ra_emitted = nonzero_notes (ar_emitted rq), ra_ids = ids,
      ra_attempted = False, ra_request = None, ra_hash = None, ra_rebuild = False, ra_last_status = None,
      ra_timeouts = 0, ra_circuit = Some (ar_circuit rq)\<rparr>"

definition replaces :: "relay_attempt \<Rightarrow> aggregation_request \<Rightarrow> endpoints \<Rightarrow> stored_note list \<Rightarrow> pix_id list \<Rightarrow> bool" where
  \<comment> \<open>the check that a replacement is of this exact spend\<close>
  "replaces previous rq ep inputs ids \<longleftrightarrow>
     ra_inputs previous = inputs \<and> ra_ids previous = ids \<and> ra_spend_key previous = ar_spend_key rq \<and>
     ra_chain previous = ep_chain_id ep \<and> eq_ignore_case (ra_aggregator previous) (ep_aggregator ep)"

definition replacement_error :: adapter_error where
  "replacement_error = InvalidValue ''a replacement aggregation must preserve its deployment, inputs and allocations''"

definition prepare_relay_aggregation ::
  "sdk \<Rightarrow> aggregation_request \<Rightarrow> endpoints \<Rightarrow> owned_note list \<Rightarrow> stored_allocation list \<Rightarrow> unit adapter_op" where
  "prepare_relay_aggregation sk rq ep inputs allocations =
     (let inputs = map stored_of inputs; ids = map sa_id allocations in
      and_then (inspect (\<lambda>s. sd_relay (ad_mem s)))
        (\<lambda>attempts.
           followed_by
             (if attempts = [] then ok ()
              else if \<not> ra_rebuild (last attempts) then err AmbiguousAllocation
              else if \<not> replaces (last attempts) rq ep inputs ids then err replacement_error
              else for_each (\<lambda>a. and_then (allocation sk (sa_id a)) (\<lambda>row. require (row = Some a) (Err ConflictingAllocation)))
                allocations)
             (followed_by (require (length attempts < max_attempts) (Err RelayAttemptLimit))
                (and_then (ask sk (\<lambda>n. Inr (uuid_v4 (sk_random sk n))))
                   (\<lambda>intent. and_then (inspect ad_mem)
                      (\<lambda>mem. commit_state sk
                         (mem\<lparr>sd_relay := sd_relay mem @ [new_attempt intent rq ep inputs ids]\<rparr>) allocations []))))))"

definition rebuild_relay_aggregation :: "sdk \<Rightarrow> adapter_config \<Rightarrow> unit adapter_op" where
  "rebuild_relay_aggregation sk cfg =
     and_then (inspect (\<lambda>s. sd_relay (ad_mem s)))
       (\<lambda>attempts.
          if attempts = [] then err AmbiguousAllocation
          else let pending = last attempts in
            and_then (lift (traverse (owned_of sk) (ra_inputs pending)))
              (\<lambda>inputs. and_then (traverse_m (prepared_row sk) (ra_ids pending))
                 (\<lambda>records. and_then (lift (traverse (prover_allocation sk) records))
                    (\<lambda>allocations. and_then (client sk cfg)
                       (\<lambda>ep. followed_by
                          (require (ac_relay cfg)
                             (Err (InvalidValue ''configure the relayer to recover the pending aggregation'')))
                          (and_then (adapter_token sk cfg)
                             (\<lambda>tok. and_then (relay_fee_recipient sk (ep_chain_id ep) tok)
                                (\<lambda>relay_fee. and_then (fee_recipient sk cfg)
                                   (\<lambda>collector. and_then
                                      (map_err (Err \<circ> Sdk)
                                         (ask sk (\<lambda>n. sk_build sk n
                                            \<lparr>bi_inputs = inputs, bi_allocations = allocations,
                                             bi_relay_fee = relay_fee, bi_fee_recipient = collector\<rparr>)))
                                      (\<lambda>rq. prepare_relay_aggregation sk rq ep inputs records))))))))))"

definition save_relay_attempt :: "sdk \<Rightarrow> nat \<Rightarrow> relay_attempt \<Rightarrow> unit adapter_op" where
  "save_relay_attempt sk index pending =
     and_then (inspect ad_mem)
       (\<lambda>mem. commit_state sk (mem\<lparr>sd_relay := (sd_relay mem)[index := pending]\<rparr>) [] [])"

definition book_outputs :: "sdk \<Rightarrow> relay_attempt \<Rightarrow> sdk_state \<Rightarrow> adapter_error + sdk_state" where
  \<comment> \<open>the inputs leave the funding, the change and the emitted notes enter\<close>
  "book_outputs sk pending st =
     (case owned_of sk (ra_change pending) of
        Inl e \<Rightarrow> Inl e
      | Inr change \<Rightarrow>
          Inr (st\<lparr>sd_funding := filter (\<lambda>n. n \<notin> set (ra_inputs pending)) (sd_funding st) @
                               (if on_amount change \<noteq> 0 then [ra_change pending] else []),
                  sd_pending := sd_pending st @ ra_emitted pending\<rparr>))"

definition outcome_of :: "relay_attempt \<Rightarrow> aggregation_outcome" where
  "outcome_of a = \<lparr>ao_request = ra_request a, ao_hash = ra_hash a, ao_allocations = length (ra_ids a)\<rparr>"

definition finish_relay_aggregation :: "sdk \<Rightarrow> nat option \<Rightarrow> aggregation_outcome option adapter_op" where
  "finish_relay_aggregation sk winner =
     and_then (inspect ad_mem)
       (\<lambda>mem.
          let attempts = sd_relay mem; index = (case winner of Some w \<Rightarrow> w | None \<Rightarrow> 0) in
          if winner = None \<and> 1 < length attempts then err AmbiguousAllocation
          else if length attempts \<le> index then ok None
          else let pending = attempts ! index; forget = modify (\<lambda>s. s\<lparr>ad_next_check := None\<rparr>) in
            case winner of
              Some _ \<Rightarrow>
                and_then (lift (book_outputs sk pending mem))
                  (\<lambda>booked. and_then (completed_allocations sk (ra_ids pending))
                     (\<lambda>completed. followed_by (commit_state sk (booked\<lparr>sd_relay := []\<rparr>) completed [])
                        (followed_by forget (ok (Some (outcome_of pending))))))
            | None \<Rightarrow>
                followed_by (commit_state sk (mem\<lparr>sd_relay := []\<rparr>) [] (ra_ids pending))
                  (followed_by forget (ok None)))"

definition relay_winner :: "sdk \<Rightarrow> adapter_config \<Rightarrow> relay_attempt list \<Rightarrow> nat option adapter_op" where
  "relay_winner sk cfg attempts =
     and_then
       (find_first (\<lambda>(i, a). if ra_attempted a then notes_known sk cfg (ra_emitted a) else ok False)
          (List.enumerate 0 attempts))
       (\<lambda>found. ok (map_option fst found))"

section \<open>Reconciling the journal\<close>

datatype step_result = Settled "aggregation_outcome option" | Again bool

definition foreign :: "endpoints \<Rightarrow> relay_attempt \<Rightarrow> bool" where
  "foreign ep a \<longleftrightarrow> ep_chain_id ep \<noteq> ra_chain a \<or> \<not> eq_ignore_case (ep_aggregator ep) (ra_aggregator a)"

definition lookup_attempt :: "sdk \<Rightarrow> relay_attempt \<Rightarrow> (adapter, relay_error, submission option) fallible" where
  "lookup_attempt sk a =
     (case ra_request a of
        Some i \<Rightarrow>
          (\<lambda>s. case status sk i s of
             (Inl (MissingRequest m), s1) \<Rightarrow>
               (case by_intent sk (ra_intent a) (ra_chain a) s1 of
                  (Inr None, s2) \<Rightarrow> (Inl (MissingRequest m), s2)
                | (r, s2) \<Rightarrow> (r, s2))
           | (Inl e, s1) \<Rightarrow> (Inl e, s1)
           | (Inr sub, s1) \<Rightarrow> (Inr (Some sub), s1))
      | None \<Rightarrow> if ra_attempted a then by_intent sk (ra_intent a) (ra_chain a) else ok None)"

definition request_of :: "relay_attempt \<Rightarrow> circuit_ref \<Rightarrow> relay_request" where
  "request_of a circuit =
     \<lparr>rq_action = Aggregation, rq_chain = ra_chain a, rq_max_inputs = ra_max_inputs a, rq_circuit = circuit,
      rq_proof = ra_proof a, rq_signals = ra_signals a, rq_request_key = ra_request_key a,
      rq_spend_key = ra_spend_key a, rq_intent = ra_intent a\<rparr>"

definition again_unless :: "bool \<Rightarrow> relay_error \<Rightarrow> step_result adapter_op" where
  "again_unless rebuilt e = (if rebuilt then err (Relay e) else ok (Again rebuilt))"

definition record_sent :: "sent \<Rightarrow> unit adapter_op" where
  "record_sent x = modify (\<lambda>s. s\<lparr>ad_sent := ad_sent s @ [x]\<rparr>)"

definition settle_landed ::
  "sdk \<Rightarrow> adapter_config \<Rightarrow> nat \<Rightarrow> relay_attempt \<Rightarrow> submission \<Rightarrow> step_result adapter_op" where
  \<comment> \<open>a submission landed: the winner is identified by its outputs\<close>
  "settle_landed sk cfg index pending landed =
     (let pending = observe_progress (sm_status landed) (sm_hash landed) pending in
      followed_by (save_relay_attempt sk index pending)
        (and_then (inspect (\<lambda>s. sd_relay (ad_mem s)))
           (\<lambda>attempts. and_then (relay_winner sk cfg attempts)
              (\<lambda>winner. case winner of
                 None \<Rightarrow> err AmbiguousAllocation
               | Some w \<Rightarrow>
                   (let winning = (attempts ! w)\<lparr>ra_request := Some (sm_request landed),
                          ra_hash := (case ra_hash pending of Some h \<Rightarrow> Some h | None \<Rightarrow> ra_hash (attempts ! w))\<rparr> in
                    followed_by (save_relay_attempt sk w winning)
                      (followed_by (only_if (1 < length attempts) (check_outputs_finalized sk cfg (ra_emitted winning)))
                         (and_then (finish_relay_aggregation sk (Some w)) (\<lambda>r. ok (Settled r)))))))))"

definition wait_failed ::
  "sdk \<Rightarrow> bool \<Rightarrow> nat \<Rightarrow> relay_attempt \<Rightarrow> relay_error \<Rightarrow> step_result adapter_op" where
  \<comment> \<open>the wait for the last of \<open>n\<close> attempts ended with an error\<close>
  "wait_failed sk rebuilt n pending e =
     (if permits_replacement e
      then followed_by (save_relay_attempt sk (n - 1) (pending\<lparr>ra_rebuild := True\<rparr>)) (again_unless rebuilt e)
      else
        followed_by
          (case e of
             RelayTimeout _ st h progressed \<Rightarrow>
               (let pending = observe_progress st h pending;
                    missed = min 255 ((if progressed then 0 else ra_timeouts pending) + 1) in
                save_relay_attempt sk (n - 1) (pending\<lparr>ra_timeouts := missed, ra_rebuild := max_timeouts \<le> missed\<rparr>))
           | RelayFailed _ \<Rightarrow>
               if n = 1 then followed_by (finish_relay_aggregation sk None) (ok ())
               else save_relay_attempt sk (n - 1) (pending\<lparr>ra_rebuild := True\<rparr>)
           | _ \<Rightarrow> ok ())
          (err (Relay e)))"

definition follow_submission ::
  "sdk \<Rightarrow> adapter_config \<Rightarrow> bool \<Rightarrow> nat \<Rightarrow> relay_attempt \<Rightarrow> submission \<Rightarrow> step_result adapter_op" where
  "follow_submission sk cfg rebuilt n pending sub =
     (let pending = observe_progress (sm_status sub) (sm_hash sub) (pending\<lparr>ra_request := Some (sm_request sub)\<rparr>) in
      followed_by (save_relay_attempt sk (n - 1) pending)
        (and_then (catching (await_inclusion sk sub (ac_relay_timeout cfg)))
           (\<lambda>r. case r of
              Inr landed \<Rightarrow> settle_landed sk cfg (n - 1) pending landed
            | Inl e \<Rightarrow> wait_failed sk rebuilt n pending e)))"

definition post_failed ::
  "sdk \<Rightarrow> bool \<Rightarrow> nat \<Rightarrow> bool \<Rightarrow> relay_attempt \<Rightarrow> relay_error \<Rightarrow> step_result adapter_op" where
  \<comment> \<open>the gateway did not take the last of \<open>n\<close> attempts\<close>
  "post_failed sk rebuilt n was_attempted pending e =
     (case e of
        Rejected m \<Rightarrow>
          if \<not> was_attempted \<and> n = 1 then followed_by (finish_relay_aggregation sk None) (err (Relay e))
          else
            followed_by
              (if was_attempted then save_relay_attempt sk (n - 1) (pending\<lparr>ra_rebuild := True\<rparr>)
               else and_then (inspect ad_mem)
                 (\<lambda>mem. commit_state sk (mem\<lparr>sd_relay := butlast (sd_relay mem)\<rparr>) [] []))
              (again_unless rebuilt e)
      | _ \<Rightarrow> err (Relay e))"

definition post_attempt ::
  "sdk \<Rightarrow> adapter_config \<Rightarrow> bool \<Rightarrow> nat \<Rightarrow> relay_attempt \<Rightarrow> step_result adapter_op" where
  "post_attempt sk cfg rebuilt n pending =
     (case ra_circuit pending of
        None \<Rightarrow>
          followed_by (save_relay_attempt sk (n - 1) (pending\<lparr>ra_rebuild := True\<rparr>)) (ok (Again rebuilt))
      | Some circuit \<Rightarrow>
          (let was_attempted = ra_attempted pending; pending = pending\<lparr>ra_attempted := True\<rparr> in
           followed_by (save_relay_attempt sk (n - 1) pending)
             (followed_by (and_then (inspect ad_disk) (\<lambda>disk. record_sent (Posted pending disk)))
                (and_then (catching (submit sk (request_of pending circuit)))
                   (\<lambda>r. case r of
                      Inr sub \<Rightarrow> follow_submission sk cfg rebuilt n pending sub
                    | Inl e \<Rightarrow> post_failed sk rebuilt n was_attempted pending e)))))"

definition replay_attempt ::
  "sdk \<Rightarrow> adapter_config \<Rightarrow> bool \<Rightarrow> nat \<Rightarrow> relay_attempt \<Rightarrow> step_result adapter_op" where
  "replay_attempt sk cfg rebuilt n pending =
     and_then (catching (lookup_attempt sk pending))
       (\<lambda>r. case r of
          Inl e \<Rightarrow>
            if permits_replacement e
            then followed_by (save_relay_attempt sk (n - 1) (pending\<lparr>ra_rebuild := True\<rparr>)) (again_unless rebuilt e)
            else err (Relay e)
        | Inr (Some known) \<Rightarrow> follow_submission sk cfg rebuilt n pending known
        | Inr None \<Rightarrow> post_attempt sk cfg rebuilt n pending)"

definition reconcile_last ::
  "sdk \<Rightarrow> adapter_config \<Rightarrow> bool \<Rightarrow> relay_attempt list \<Rightarrow> step_result adapter_op" where
  \<comment> \<open>no attempt has landed: rebuild, replay or post the last one\<close>
  "reconcile_last sk cfg rebuilt attempts =
     (let n = length attempts; pending = last attempts;
          stale = ra_circuit pending = None \<and> \<not> ra_attempted pending \<and> \<not> ra_rebuild pending;
          pending = (if stale then pending\<lparr>ra_rebuild := True\<rparr> else pending) in
      followed_by (only_if stale (save_relay_attempt sk (n - 1) pending))
        (if ra_rebuild pending
         then followed_by (require (n < max_attempts) (Err RelayAttemptLimit))
           (followed_by (rebuild_relay_aggregation sk cfg) (ok (Again True)))
         else followed_by
           (require (ac_relay cfg) (Err (InvalidValue ''configure the relayer to recover the pending aggregation'')))
           (replay_attempt sk cfg rebuilt n pending)))"

definition reconcile_step :: "sdk \<Rightarrow> adapter_config \<Rightarrow> bool \<Rightarrow> step_result adapter_op" where
  "reconcile_step sk cfg rebuilt =
     and_then (inspect ad_mem)
       (\<lambda>mem. let attempts = sd_relay mem in
          if list_ex (\<lambda>it. eq_ignore_case (it_action it) ''aggregation'') (sd_intents mem) then err IncompleteRelayRecovery
          else if attempts = [] then ok (Settled None)
          else and_then (client sk cfg)
            (\<lambda>ep.
               if list_ex (foreign ep) attempts
               then err (InvalidValue ''pending aggregation belongs to another deployment'')
               else and_then (relay_winner sk cfg attempts)
                 (\<lambda>winner. case winner of
                    Some w \<Rightarrow>
                      followed_by (only_if (1 < length attempts) (check_outputs_finalized sk cfg (ra_emitted (attempts ! w))))
                        (and_then (finish_relay_aggregation sk (Some w)) (\<lambda>r. ok (Settled r)))
                  | None \<Rightarrow> reconcile_last sk cfg rebuilt attempts)))"

section \<open>What an operation can change\<close>

definition journal_of :: "adapter \<Rightarrow> sdk_state \<times> sdk_state \<times> (pix_id \<times> stored_allocation) list \<times> sent list" where
  "journal_of s = (ad_mem s, ad_disk s, ad_rows s, ad_sent s)"

abbreviation silent :: "(adapter, 'e, 'a) fallible \<Rightarrow> bool" where
  "silent \<equiv> blind journal_of"

lemma journal_tick [simp]: "journal_of (tick_call d s) = journal_of s" "journal_of (sleep d s) = journal_of s"
  by (simp_all add: journal_of_def tick_call_def sleep_def)

lemma silent_calls [blind_intros]: "silent (ask gw f)" "silent (exchange gw r)"
  by (simp_all add: blind_def ask_def exchange_def Let_def split: http_answer.split)

lemma silent_client_calls [blind_intros]:
  "silent (status gw i)" "silent (submit gw rq)" "silent (by_intent gw i c)" "silent (paymaster gw c)"
  "silent (network gw c)" "silent (relay_protocol gw)"
  by (auto simp: status_def submit_def by_intent_def paymaster_def network_def relay_protocol_def intro!: blind_intros)

lemma poll_until_silent: "journal_of (snd (poll_until gw started deadline current progressed s)) = journal_of s"
proof (induction gw started deadline current progressed s rule: poll_until.induct)
  case (1 gw started deadline current progressed s)
  have st: "journal_of (snd (status gw i s)) = journal_of s" for i s
    using silent_client_calls(1) [of gw i] by (simp add: blind_def)
  show ?case
  proof (cases "status gw (sm_request current) (sleep poll_interval s)")
    case (Pair r s1)
    then have j: "journal_of s1 = journal_of s" using st [of "sm_request current" "sleep poll_interval s"] by simp
    show ?thesis
    proof (cases r)
      case (Inl e)
      then show ?thesis using Pair j by (subst poll_until.simps) simp
    next
      case (Inr answer)
      from 1 [OF _ Pair [symmetric] Inr refl refl] j Pair Inr show ?thesis
        by (subst poll_until.simps) (simp add: Let_def)
    qed
  qed
qed

lemma silent_await [blind_intros]: "silent (await_inclusion gw sub d)"
  by (simp add: blind_def await_inclusion_def poll_until_silent)

lemma silent_discover [blind_intros]: "silent (discover bk)"
  by (auto simp: discover_def intro!: blind_intros)

lemma silent_lookup_token [blind_intros]: "silent (lookup_token bk safe)"
  unfolding lookup_token_def safe_token_def token_count_def token_address_def Let_def
  by (intro blind_intros blind_modify) (simp_all add: journal_of_def)

lemma silent_client [blind_intros]: "silent (client sk cfg)"
  unfolding client_def Let_def
  by (auto simp: journal_of_def intro!: blind_intros blind_modify split: note_source.split)

lemma silent_adapter_token [blind_intros]: "silent (adapter_token sk cfg)"
  unfolding adapter_token_def by (intro blind_intros)

lemma silent_reads [blind_intros]:
  "silent (db_tx sk)" "silent (allocation sk i)" "silent (prepared_row sk i)" "silent (completed_allocations sk ids)"
  "silent (note_status sk n)"
  unfolding db_tx_def allocation_def prepared_row_def completed_allocations_def note_status_def
  by (intro blind_intros)+

lemma silent_notes_known [blind_intros]: "silent (notes_known sk cfg notes)"
  unfolding notes_known_def by (intro blind_intros)

lemma silent_finalized [blind_intros]: "silent (check_outputs_finalized sk cfg emitted)"
  unfolding check_outputs_finalized_def Let_def
  by (auto simp: journal_of_def intro!: blind_intros blind_modify split: snapshot_answer.split)

lemma silent_fees [blind_intros]: "silent (relay_fee_recipient sk c t)" "silent (fee_recipient sk cfg)"
  unfolding relay_fee_recipient_def fee_recipient_def relayed_def by (intro blind_intros)+

lemma silent_winner [blind_intros]: "silent (relay_winner sk cfg attempts)"
  unfolding relay_winner_def by (intro blind_intros)

lemma silent_lookup [blind_intros]: "silent (lookup_attempt sk a)"
proof -
  have a: "journal_of (snd (status sk i s)) = journal_of s" "journal_of (snd (by_intent sk j c s)) = journal_of s" for i j c s
    using silent_client_calls(1) [of sk i] silent_client_calls(3) [of sk j c] by (simp_all add: blind_def)
  have "silent (\<lambda>s. case status sk i s of
      (Inl (MissingRequest m), s1) \<Rightarrow>
        (case by_intent sk (ra_intent a) (ra_chain a) s1 of
           (Inr None, s2) \<Rightarrow> (Inl (MissingRequest m), s2)
         | (r, s2) \<Rightarrow> (r, s2))
    | (Inl e, s1) \<Rightarrow> (Inl e, s1)
    | (Inr sub, s1) \<Rightarrow> (Inr (Some sub), s1))" for i
    unfolding blind_def
  proof
    fix s :: adapter
    obtain r1 s1 where 1: "status sk i s = (r1, s1)" by fastforce
    obtain r2 s2 where 2: "by_intent sk (ra_intent a) (ra_chain a) s1 = (r2, s2)" by fastforce
    have "journal_of s1 = journal_of s" "journal_of s2 = journal_of s1"
      using a(1) [of i s] a(2) [of "ra_intent a" "ra_chain a" s1] 1 2 by simp_all
    then show "journal_of (snd (case status sk i s of
      (Inl (MissingRequest m), s1) \<Rightarrow>
        (case by_intent sk (ra_intent a) (ra_chain a) s1 of
           (Inr None, s2) \<Rightarrow> (Inl (MissingRequest m), s2)
         | (r, s2) \<Rightarrow> (r, s2))
    | (Inl e, s1) \<Rightarrow> (Inl e, s1)
    | (Inr sub, s1) \<Rightarrow> (Inr (Some sub), s1))) = journal_of s"
      by (simp add: 1 2 split: sum.split relay_error.split option.split)
  qed
  then show ?thesis unfolding lookup_attempt_def by (auto intro!: blind_intros)
qed

lemma wp_silent:
  assumes "silent m"
    and "\<And>r s'. ad_mem s' = ad_mem s \<Longrightarrow> ad_disk s' = ad_disk s \<Longrightarrow> ad_rows s' = ad_rows s \<Longrightarrow>
      ad_sent s' = ad_sent s \<Longrightarrow> Q r s'"
  shows "wp m Q s"
  using assms(1) by (rule wp_blind) (simp add: journal_of_def assms(2))

text \<open>A commit changes memory and disk together, or nothing.\<close>

lemma wp_commit_state:
  assumes "\<And>m s'. journal_of s' = journal_of s \<Longrightarrow> Q (Inl (Err (Sdk m))) s'"
    and "\<And>s'. journal_of s' = (st, st, update_rows allocations remove (ad_rows s), ad_sent s) \<Longrightarrow> Q (Inr ()) s'"
  shows "wp (commit_state sk st allocations remove) Q s"
  using assms
  by (auto simp: wp_def commit_state_def save_update_def db_tx_def ask_def followed_by_def and_then_def map_err_def
      Fallible.modify_def journal_of_def tick_call_def split: option.split)

section \<open>The loop ends\<close>

definition phase :: "bool \<Rightarrow> relay_attempt list \<Rightarrow> nat" where
  \<comment> \<open>how far the loop is from a pass that returns\<close>
  "phase rebuilt attempts =
     (let k = (if attempts = [] then 0
               else if ra_rebuild (last attempts) then 1
               else if rebuilt \<and> ra_circuit (last attempts) \<noteq> None then 0 else 2) in
      if rebuilt then k else 3 + 3 * length attempts + k)"

abbreviation attempts_of :: "adapter \<Rightarrow> relay_attempt list" where
  "attempts_of s \<equiv> sd_relay (ad_mem s)"

definition closer :: "bool \<Rightarrow> relay_attempt list \<Rightarrow> 'e + step_result \<Rightarrow> adapter \<Rightarrow> bool" where
  "closer rebuilt attempts r s \<longleftrightarrow>
     (case r of Inr (Again rb) \<Rightarrow> phase rb (attempts_of s) < phase rebuilt attempts | _ \<Rightarrow> True)"

lemma closer_simps [simp]: "closer rebuilt attempts (Inl e) s" "closer rebuilt attempts (Inr (Settled x)) s"
  by (simp_all add: closer_def)

lemma wp_silent_any: "silent m \<Longrightarrow> (\<And>r s'. journal_of s' = journal_of s \<Longrightarrow> Q r s') \<Longrightarrow> wp m Q s"
  by (rule wp_blind)

lemma wp_save_attempt:
  assumes "\<And>m s'. journal_of s' = journal_of s \<Longrightarrow> Q (Inl (Err (Sdk m))) s'"
    and "\<And>s'. let st = (ad_mem s)\<lparr>sd_relay := (attempts_of s)[i := p]\<rparr> in
      journal_of s' = (st, st, ad_rows s, ad_sent s) \<Longrightarrow> Q (Inr ()) s'"
  shows "wp (save_relay_attempt sk i p) Q s"
  using assms unfolding save_relay_attempt_def
  by (auto simp: wp_simps update_rows_def Let_def intro!: wp_commit_state)

lemma attempts_of_journal: "journal_of s' = (st, d, rows, sent) \<Longrightarrow> attempts_of s' = sd_relay st"
  by (simp add: journal_of_def)

lemma journal_attempts: "journal_of s' = journal_of s \<Longrightarrow> attempts_of s' = attempts_of s"
  by (simp add: journal_of_def)

lemma wp_mark_rebuild:
  assumes "attempts_of s = attempts" "attempts \<noteq> []" "\<not> ra_rebuild (last attempts)"
    and "rebuilt \<longrightarrow> rb = True \<and> ra_circuit (last attempts) = None" "\<not> rebuilt \<longrightarrow> rb = False" "ra_rebuild p"
  shows "wp (save_relay_attempt sk (length attempts - 1) p)
    (\<lambda>r s'. case r of Inl e \<Rightarrow> True | Inr _ \<Rightarrow> closer rebuilt attempts (Inr (Again rb)) s') s"
  using assms
  by (intro wp_save_attempt) (auto simp: Let_def closer_def phase_def last_list_update dest!: attempts_of_journal)

lemma wp_any: "(\<And>r s'. Q r s') \<Longrightarrow> wp m Q s"
  by (auto simp: wp_def split: prod.split)

lemma wp_seq_any:
  "(\<And>a s'. wp (f a) Q s') \<Longrightarrow> (\<And>e s'. Q (Inl e) s') \<Longrightarrow> wp (and_then m f) Q s"
  "(\<And>s'. wp n Q s') \<Longrightarrow> (\<And>e s'. Q (Inl e) s') \<Longrightarrow> wp (followed_by l n) Q s"
  by (force simp: wp_simps intro: wp_any split: sum.split)+

lemma wp_seq_silent:
  assumes "silent m"
    and "\<And>e s'. journal_of s' = journal_of s \<Longrightarrow> Q (Inl e) s'"
    and "\<And>a s'. journal_of s' = journal_of s \<Longrightarrow> wp (f a) Q s'"
  shows "wp (and_then m f) Q s"
  unfolding wp_simps by (rule wp_silent_any [OF assms(1)]) (auto simp: assms(2,3) split: sum.split)

lemma wp_then_silent:
  assumes "silent m"
    and "\<And>e s'. journal_of s' = journal_of s \<Longrightarrow> Q (Inl e) s'"
    and "\<And>s'. journal_of s' = journal_of s \<Longrightarrow> wp n Q s'"
  shows "wp (followed_by m n) Q s"
  unfolding followed_by_def by (rule wp_seq_silent [OF assms(1)]) (auto simp: assms(2,3))

lemma wp_then_save:
  assumes "\<And>m s'. journal_of s' = journal_of s \<Longrightarrow> Q (Inl (Err (Sdk m))) s'"
    and "\<And>s'. let st = (ad_mem s)\<lparr>sd_relay := (attempts_of s)[i := p]\<rparr> in
      journal_of s' = (st, st, ad_rows s, ad_sent s) \<Longrightarrow> wp n Q s'"
  shows "wp (followed_by (save_relay_attempt sk i p) n) Q s"
  unfolding wp_simps by (rule wp_save_attempt) (auto simp: assms)

definition ends :: "step_result adapter_op \<Rightarrow> bool" where
  \<comment> \<open>the loop does not go round again\<close>
  "ends m \<longleftrightarrow> (\<forall>s. case fst (m s) of Inr (Again _) \<Rightarrow> False | _ \<Rightarrow> True)"

lemma ends_wp: "ends m \<longleftrightarrow> (\<forall>s. wp m (\<lambda>r _. case r of Inr (Again _) \<Rightarrow> False | _ \<Rightarrow> True) s)"
  by (simp add: ends_def wp_def split_beta)

lemma ends_intros:
  "ends (err e)" "ends (ok (Settled x))" "(\<And>a. ends (f a)) \<Longrightarrow> ends (and_then m f)"
  "ends n \<Longrightarrow> ends (followed_by l n)"
  by (auto simp: ends_wp wp_basic intro!: wp_seq_any)

lemma ends_landed: "ends (settle_landed sk cfg i p sub)"
  unfolding settle_landed_def Let_def by (auto intro!: ends_intros split: option.split)

lemma wp_ends: "ends m \<Longrightarrow> wp m (closer rebuilt attempts) s"
proof -
  assume "ends m"
  then have "wp m (\<lambda>r _. case r of Inr (Again _) \<Rightarrow> False | _ \<Rightarrow> True) s" by (simp add: ends_wp)
  then show ?thesis
    by (rule wp_mono) (simp add: closer_def split: sum.splits step_result.splits)
qed

lemma phase_marked:
  "attempts \<noteq> [] \<Longrightarrow> \<not> ra_rebuild (last attempts) \<Longrightarrow> ra_rebuild p \<Longrightarrow>
   phase False (attempts[length attempts - 1 := p]) < phase False attempts"
  by (simp add: phase_def last_list_update)

lemma closer_replaced:
  assumes "attempts_of s = attempts[length attempts - 1 := q]" "attempts \<noteq> []" "\<not> ra_rebuild (last attempts)" "ra_rebuild p"
  shows "wp (followed_by (save_relay_attempt sk (length attempts - 1) p) (again_unless rebuilt e))
    (closer rebuilt attempts) s"
proof (cases rebuilt)
  case True
  then show ?thesis by (simp add: again_unless_def wp_ends ends_intros)
next
  case False
  show ?thesis
  proof (rule wp_then_save, simp, goal_cases)
    case (1 s1)
    then have "attempts_of s1 = attempts[length attempts - 1 := p]"
      using assms(1) by (simp add: journal_of_def Let_def)
    then show ?case
      using False phase_marked [OF assms(2-)] by (simp add: again_unless_def wp_basic closer_def)
  qed
qed

lemma closer_wait_failed:
  assumes "attempts_of s = attempts[length attempts - 1 := q]" "attempts \<noteq> []" "\<not> ra_rebuild (last attempts)"
  shows "wp (wait_failed sk rebuilt (length attempts) p e) (closer rebuilt attempts) s"
proof (cases "permits_replacement e")
  case True
  then show ?thesis unfolding wait_failed_def by (simp add: closer_replaced [OF assms] del: One_nat_def)
next
  case False
  then show ?thesis unfolding wait_failed_def by (simp add: wp_ends ends_intros del: One_nat_def)
qed

lemma journal_saved:
  assumes "let st = (ad_mem s)\<lparr>sd_relay := (attempts_of s)[i := p]\<rparr> in journal_of s1 = (st, st, ad_rows s, ad_sent s)"
    and "journal_of s2 = journal_of s1"
  shows "attempts_of s2 = (attempts_of s)[i := p]"
  using assms by (simp add: journal_of_def Let_def)

lemma closer_follow:
  assumes "attempts_of s = attempts[length attempts - 1 := q]" "attempts \<noteq> []" "\<not> ra_rebuild (last attempts)"
  shows "wp (follow_submission sk cfg rebuilt (length attempts) p sub) (closer rebuilt attempts) s"
  unfolding follow_submission_def Let_def [of "observe_progress _ _ _"]
proof (rule wp_then_save, simp, rule wp_seq_silent, intro blind_intros, simp, goal_cases)
  case (1 s1 r s2)
  have s2: "attempts_of s2 = attempts[length attempts - 1 :=
      observe_progress (sm_status sub) (sm_hash sub) (p\<lparr>ra_request := Some (sm_request sub)\<rparr>)]"
    using journal_saved [OF 1] assms(1) by simp
  show ?case
    by (cases r) (simp_all only: sum.case closer_wait_failed [OF s2 assms(2,3)] wp_ends [OF ends_landed])
qed

lemma closer_post_failed:
  assumes "attempts_of s = attempts[length attempts - 1 := q]" "attempts \<noteq> []" "\<not> ra_rebuild (last attempts)"
  shows "wp (post_failed sk rebuilt (length attempts) was p e) (closer rebuilt attempts) s"
proof -
  have popped: "wp (followed_by
        (and_then (inspect ad_mem) (\<lambda>mem. commit_state sk (mem\<lparr>sd_relay := butlast (sd_relay mem)\<rparr>) [] []))
        (again_unless rebuilt e)) (closer rebuilt attempts) s"
  proof (cases rebuilt)
    case True
    then show ?thesis by (simp add: again_unless_def wp_ends ends_intros)
  next
    case False
    have "butlast (attempts[length attempts - 1 := q]) = butlast attempts" by (simp add: butlast_list_update)
    with assms False show ?thesis
      unfolding wp_followed_by wp_and_then [of "inspect ad_mem"] wp_basic sum.case
      by (intro wp_commit_state)
        (auto simp: wp_simps again_unless_def closer_def phase_def dest!: attempts_of_journal)
  qed
  then show ?thesis
    unfolding post_failed_def
    by (auto simp: closer_replaced [OF assms] wp_ends ends_intros simp del: One_nat_def split: relay_error.split)
qed

lemma closer_post:
  assumes "attempts_of s = attempts" "attempts \<noteq> []" "\<not> ra_rebuild (last attempts)" "p = last attempts"
  shows "wp (post_attempt sk cfg rebuilt (length attempts) p) (closer rebuilt attempts) s"
proof (cases "ra_circuit p")
  case None
  have "wp (followed_by (save_relay_attempt sk (length attempts - 1) (p\<lparr>ra_rebuild := True\<rparr>)) (ok (Again rebuilt)))
      (closer rebuilt attempts) s"
    using assms None
    by (intro wp_then_save)
      (auto simp: wp_simps Let_def closer_def phase_def last_list_update dest!: attempts_of_journal)
  then show ?thesis by (simp add: post_attempt_def None)
next
  case (Some circuit)
  show ?thesis
    unfolding post_attempt_def Some option.case Let_def [of "ra_attempted p"] Let_def [of "p\<lparr>ra_attempted := True\<rparr>"]
      record_sent_def wp_followed_by [of "and_then (inspect ad_disk) _"] wp_and_then [of "inspect ad_disk"]
  proof (rule wp_then_save, simp, unfold wp_followed_by [of "and_then (inspect ad_disk) _"]
      wp_and_then [of "inspect ad_disk"] wp_basic sum.case, rule wp_seq_silent, intro blind_intros, simp, goal_cases)
    case (1 s1 r s2)
    then have s2: "attempts_of s2 = attempts[length attempts - 1 := p\<lparr>ra_attempted := True\<rparr>]"
      using assms(1) by (simp add: journal_of_def Let_def)
    show ?case
      by (cases r)
        (simp_all only: sum.case closer_follow [OF s2 assms(2,3)] closer_post_failed [OF s2 assms(2,3)])
  qed
qed

lemma closer_replay:
  assumes "attempts_of s = attempts" "attempts \<noteq> []" "\<not> ra_rebuild (last attempts)" "p = last attempts"
  shows "wp (replay_attempt sk cfg rebuilt (length attempts) p) (closer rebuilt attempts) s"
  unfolding replay_attempt_def
proof (rule wp_seq_silent, intro blind_intros, simp, goal_cases)
  case (1 r s1)
  from journal_attempts [OF 1] have same: "attempts_of s1 = attempts" using assms(1) by (rule trans)
  have "attempts[length attempts - 1 := last attempts] = attempts"
    unfolding last_conv_nth [OF assms(2)] by (rule list_update_id)
  with same have s1: "attempts_of s1 = attempts" "attempts_of s1 = attempts[length attempts - 1 := last attempts]"
    by simp_all
  show ?case
  proof (cases r)
    case (Inl e)
    show ?thesis
      by (cases "permits_replacement e")
        (simp_all add: Inl closer_replaced [OF s1(2) assms(2,3)] wp_ends ends_intros del: One_nat_def)
  next
    case (Inr known)
    show ?thesis
      by (cases known)
        (simp_all only: Inr sum.case option.case closer_follow [OF s1(2) assms(2,3)] closer_post [OF s1(1) assms(2-)])
  qed
qed

lemma wp_allocation:
  "wp (allocation sk i) (\<lambda>r s'. journal_of s' = journal_of s \<and>
     (case r of Inl _ \<Rightarrow> True | Inr row \<Rightarrow> row = map_of (ad_rows s) i)) s"
proof -
  have "wp (db_tx sk) (\<lambda>r s'. journal_of s' = journal_of s) s"
    by (rule wp_silent_any) (simp_all add: blind_intros)
  then show ?thesis
    unfolding allocation_def wp_simps by (rule wp_mono) (auto simp: wp_simps journal_of_def split: sum.split)
qed

lemma wp_same_rows:
  "wp (for_each (\<lambda>a. and_then (allocation sk (sa_id a)) (\<lambda>row. require (row = Some a) (Err ConflictingAllocation))) as)
     (\<lambda>r s'. journal_of s' = journal_of s \<and>
        (case r of Inl _ \<Rightarrow> True | Inr _ \<Rightarrow> \<forall>a \<in> set as. map_of (ad_rows s) (sa_id a) = Some a)) s"
proof (induction as arbitrary: s)
  case (Cons a as)
  show ?case
    unfolding for_each.simps wp_and_then
  proof (rule wp_mono [OF wp_allocation], clarsimp simp: wp_require split: sum.split, goal_cases)
    case (1 s1)
    then have "ad_rows s1 = ad_rows s" by (simp add: journal_of_def)
    with 1 show ?case by (intro wp_mono [OF Cons.IH [of s1]]) (auto split: sum.splits)
  qed
qed (simp add: wp_basic)

lemma wp_prepare:
  assumes "\<And>e s'. journal_of s' = journal_of s \<Longrightarrow> Q (Inl e) s'"
    and "\<And>intent s'. length (attempts_of s) < max_attempts \<Longrightarrow>
      attempts_of s = [] \<or> ra_rebuild (last (attempts_of s)) \<and>
        replaces (last (attempts_of s)) rq ep (map stored_of inputs) (map sa_id allocations) \<and>
          (\<forall>a \<in> set allocations. map_of (ad_rows s) (sa_id a) = Some a) \<Longrightarrow>
      let a = new_attempt intent rq ep (map stored_of inputs) (map sa_id allocations);
        st = (ad_mem s)\<lparr>sd_relay := attempts_of s @ [a]\<rparr> in
      journal_of s' = (st, st, update_rows allocations [] (ad_rows s), ad_sent s) \<Longrightarrow> Q (Inr ()) s'"
  shows "wp (prepare_relay_aggregation sk rq ep inputs allocations) Q s"
proof -
  let ?check = "if attempts_of s = [] then ok ()
              else if \<not> ra_rebuild (last (attempts_of s)) then err AmbiguousAllocation
              else if \<not> replaces (last (attempts_of s)) rq ep (map stored_of inputs) (map sa_id allocations)
              then err replacement_error
              else for_each (\<lambda>a. and_then (allocation sk (sa_id a)) (\<lambda>row. require (row = Some a) (Err ConflictingAllocation)))
                allocations"
  have check: "wp ?check (\<lambda>r s1. journal_of s1 = journal_of s \<and> (case r of Inl _ \<Rightarrow> True | Inr _ \<Rightarrow>
      attempts_of s = [] \<or> ra_rebuild (last (attempts_of s)) \<and>
        replaces (last (attempts_of s)) rq ep (map stored_of inputs) (map sa_id allocations) \<and>
          (\<forall>a \<in> set allocations. map_of (ad_rows s) (sa_id a) = Some a))) s"
    by (auto simp: wp_basic intro!: wp_mono [OF wp_same_rows] split: sum.splits)
  show ?thesis
    unfolding prepare_relay_aggregation_def Let_def wp_and_then [of "inspect _"] wp_basic sum.case
      wp_followed_by [of "if _ then _ else _"]
  proof (rule wp_mono [OF check], clarsimp split: sum.split, intro conjI allI impI, goal_cases)
    case (1 r s1 e)
    then show ?case using assms(1) by blast
  next
    case (2 r s1)
    then have s1: "journal_of s1 = journal_of s"
      and prior: "attempts_of s = [] \<or> ra_rebuild (last (attempts_of s)) \<and>
        replaces (last (attempts_of s)) rq ep (map stored_of inputs) (map sa_id allocations) \<and>
          (\<forall>a \<in> set allocations. map_of (ad_rows s) (sa_id a) = Some a)" by auto
    have view: "ad_mem s1 = ad_mem s" "ad_disk s1 = ad_disk s" "ad_rows s1 = ad_rows s" "ad_sent s1 = ad_sent s"
      using s1 by (simp_all add: journal_of_def)
    show ?case
    proof (cases "length (attempts_of s) < max_attempts")
      case False
      then show ?thesis using assms(1) [OF s1] by (simp add: wp_simps)
    next
      case True
      show ?thesis
        unfolding wp_followed_by wp_require if_P [OF True] sum.case
      proof (rule wp_seq_silent, intro blind_intros, goal_cases)
        case (1 e s2)
        then show ?case using assms(1) [of s2 e] s1 by simp
      next
        case (2 intent s2)
        then have view2: "ad_mem s2 = ad_mem s" "ad_rows s2 = ad_rows s" "ad_sent s2 = ad_sent s" "journal_of s2 = journal_of s"
          using s1 by (simp_all add: journal_of_def)
        let ?a = "new_attempt intent rq ep (map stored_of inputs) (map sa_id allocations)"
        show ?case
          unfolding wp_and_then [of "inspect ad_mem"] wp_basic sum.case view2
          by (rule wp_commit_state) (use assms(1) assms(2) [of intent] True prior view2 in \<open>auto simp: Let_def\<close>)
      qed
    qed
  qed
qed

definition same_spend :: "relay_attempt \<Rightarrow> relay_attempt \<Rightarrow> bool" where
  "same_spend a b \<longleftrightarrow>
     ra_inputs a = ra_inputs b \<and> ra_ids a = ra_ids b \<and> ra_spend_key a = ra_spend_key b \<and> ra_chain a = ra_chain b \<and>
     eq_ignore_case (ra_aggregator a) (ra_aggregator b)"

definition unposted :: "relay_attempt \<Rightarrow> bool" where
  "unposted a \<longleftrightarrow> \<not> ra_attempted a \<and> \<not> ra_rebuild a \<and> ra_circuit a \<noteq> None"

lemma replaces_same_spend:
  "replaces previous rq ep inputs ids \<Longrightarrow> same_spend previous (new_attempt intent rq ep inputs ids)"
  by (simp add: replaces_def same_spend_def new_attempt_def)

lemma new_unposted: "unposted (new_attempt intent rq ep inputs ids)"
  by (simp add: unposted_def new_attempt_def)

lemma same_rows_map:
  "\<forall>a \<in> set as. map_of rows (sa_id a) = Some a \<Longrightarrow> map_of (update_rows as [] rows) = map_of rows"
proof (induction as arbitrary: rows)
  case (Cons a as)
  have "map_of (AList.update (sa_id a) a rows) = map_of rows" using Cons.prems by (simp add: update_conv' map_upd_triv)
  with Cons show ?case by (simp add: update_rows_def)
qed (simp add: update_rows_def)

lemma wp_rebuild:
  assumes "\<And>e s'. journal_of s' = journal_of s \<Longrightarrow> Q (Inl e) s'"
    and "\<And>a records s'. unposted a \<Longrightarrow> same_spend (last (attempts_of s)) a \<Longrightarrow> length (attempts_of s) < max_attempts \<Longrightarrow>
      ra_rebuild (last (attempts_of s)) \<Longrightarrow>
      map_of (update_rows records [] (ad_rows s)) = map_of (ad_rows s) \<Longrightarrow>
      let st = (ad_mem s)\<lparr>sd_relay := attempts_of s @ [a]\<rparr> in
      journal_of s' = (st, st, update_rows records [] (ad_rows s), ad_sent s) \<Longrightarrow> Q (Inr ()) s'"
    and "attempts_of s \<noteq> []"
  shows "wp (rebuild_relay_aggregation sk cfg) Q s"
proof -
  have prepared: "wp (prepare_relay_aggregation sk rq ep inputs records) Q s1" if same: "journal_of s1 = journal_of s"
    for rq ep inputs records s1
  proof (rule wp_prepare, goal_cases)
    case (1 e s2)
    then show ?case using same by (intro assms(1)) simp
  next
    case (2 intent s2)
    have view: "ad_mem s1 = ad_mem s" "ad_rows s1 = ad_rows s" "ad_sent s1 = ad_sent s"
      using same by (simp_all add: journal_of_def)
    with 2 assms(3) have "ra_rebuild (last (attempts_of s))"
      "replaces (last (attempts_of s)) rq ep (map stored_of inputs) (map sa_id records)"
      "map_of (update_rows records [] (ad_rows s)) = map_of (ad_rows s)"
      using same_rows_map [of records "ad_rows s"] by auto
    with 2 show ?case
      by (intro assms(2) [where a = "new_attempt intent rq ep (map stored_of inputs) (map sa_id records)" and records = records])
        (auto simp: view new_unposted replaces_same_spend Let_def)
  qed
  have early: "Q (Inl e) s2" if "journal_of s2 = journal_of s1" "journal_of s1 = journal_of s" for e s1 s2
    using that by (intro assms(1)) simp
  show ?thesis
    unfolding rebuild_relay_aggregation_def wp_and_then [of "inspect _"] wp_basic sum.case if_not_P [OF assms(3)] Let_def
    by (intro wp_seq_silent wp_then_silent blind_intros prepared assms(1); simp)
qed

lemma phase_rebuilt:
  "unposted a \<Longrightarrow> attempts \<noteq> [] \<Longrightarrow> ra_rebuild (last attempts) \<or> ra_circuit (last attempts) = None \<Longrightarrow>
   phase True (xs @ [a]) < phase rebuilt attempts"
  by (auto simp: phase_def unposted_def Let_def)

lemma closer_last:
  assumes "attempts_of s = attempts" "attempts \<noteq> []"
  shows "wp (reconcile_last sk cfg rebuilt attempts) (closer rebuilt attempts) s"
proof -
  let ?p = "last attempts"
  have rebuilding: "wp (followed_by (require (length attempts < max_attempts) (Err RelayAttemptLimit))
        (followed_by (rebuild_relay_aggregation sk cfg) (ok (Again True)))) (closer rebuilt attempts) s1"
    if "attempts_of s1 \<noteq> []" "ra_rebuild ?p \<or> ra_circuit ?p = None" for s1
    unfolding wp_followed_by wp_require
    by (auto intro!: wp_rebuild that simp: wp_basic closer_def journal_of_def Let_def
        intro: phase_rebuilt [OF _ assms(2) that(2)])
  show ?thesis
  proof (cases "ra_circuit ?p = None \<and> \<not> ra_attempted ?p \<and> \<not> ra_rebuild ?p")
    case True
    have "wp (followed_by (save_relay_attempt sk (length attempts - 1) (?p\<lparr>ra_rebuild := True\<rparr>))
        (followed_by (require (length attempts < max_attempts) (Err RelayAttemptLimit))
          (followed_by (rebuild_relay_aggregation sk cfg) (ok (Again True))))) (closer rebuilt attempts) s"
    proof (rule wp_then_save, simp, rule rebuilding, goal_cases)
      case (1 s1)
      then show ?case using assms by (simp add: journal_of_def Let_def)
    qed (use True in simp)
    then show ?thesis using True by (simp add: reconcile_last_def Let_def only_if_def)
  next
    case stale: False
    show ?thesis
    proof (cases "ra_rebuild ?p")
      case True
      then show ?thesis
        using rebuilding [of s] assms by (simp add: reconcile_last_def Let_def only_if_def followed_by_def)
    next
      case False
      have "wp (followed_by
          (require (ac_relay cfg) (Err (InvalidValue ''configure the relayer to recover the pending aggregation'')))
          (replay_attempt sk cfg rebuilt (length attempts) ?p)) (closer rebuilt attempts) s"
        using closer_replay [OF assms False refl] by (auto simp: wp_followed_by wp_require)
      then show ?thesis
        using False stale by (auto simp: reconcile_last_def Let_def only_if_def followed_by_def)
    qed
  qed
qed

lemma ends_finish: "ends (and_then (finish_relay_aggregation sk w) (\<lambda>r. ok (Settled r)))"
  by (intro ends_intros)

lemma closer_step: "wp (reconcile_step sk cfg rebuilt) (closer rebuilt (attempts_of s)) s"
proof (cases "list_ex (\<lambda>it. eq_ignore_case (it_action it) ''aggregation'') (sd_intents (ad_mem s)) \<or> attempts_of s = []")
  case True
  then show ?thesis
    unfolding reconcile_step_def wp_and_then [of "inspect _"] wp_basic sum.case Let_def by (auto simp: wp_basic)
next
  case False
  show ?thesis
    unfolding reconcile_step_def wp_and_then [of "inspect _"] wp_basic sum.case Let_def
      if_not_P [OF False [unfolded de_Morgan_disj, THEN conjunct1]] if_not_P [OF False [unfolded de_Morgan_disj, THEN conjunct2]]
  proof (rule wp_seq_silent, intro blind_intros, simp, goal_cases)
    case (1 ep s1)
    show ?case
    proof (cases "list_ex (foreign ep) (attempts_of s)")
      case True
      then show ?thesis by (simp add: wp_basic)
    next
      case local: False
      show ?thesis
        unfolding if_not_P [OF local]
      proof (rule wp_seq_silent, intro blind_intros, simp, goal_cases)
        case (1 winner s2)
        show ?case
        proof (cases winner)
          case None
          have "attempts_of s2 = attempts_of s"
            using \<open>journal_of s2 = journal_of s1\<close> \<open>journal_of s1 = journal_of s\<close> by (simp add: journal_of_def)
          then show ?thesis using closer_last False None by simp
        next
          case (Some w)
          then show ?thesis by (simp add: wp_ends ends_intros ends_finish)
        qed
      qed
    qed
  qed
qed

lemma step_closer:
  "reconcile_step sk cfg rebuilt s = (Inr (Again rb), s') \<Longrightarrow> phase rb (attempts_of s') < phase rebuilt (attempts_of s)"
  using wpD [OF closer_step] by (fastforce simp: closer_def)

function reconcile_with :: "sdk \<Rightarrow> adapter_config \<Rightarrow> bool \<Rightarrow> aggregation_outcome option adapter_op" where
  "reconcile_with sk cfg rebuilt s =
     (case reconcile_step sk cfg rebuilt s of
        (Inl e, s') \<Rightarrow> (Inl e, s')
      | (Inr (Settled r), s') \<Rightarrow> (Inr r, s')
      | (Inr (Again rb), s') \<Rightarrow> reconcile_with sk cfg rb s')"
  by pat_completeness auto
termination
  by (relation "measure (\<lambda>(sk, cfg, rebuilt, s). phase rebuilt (attempts_of s))") (auto dest: step_closer [OF sym])

declare reconcile_with.simps [simp del]

definition reconcile_relay_aggregation :: "sdk \<Rightarrow> adapter_config \<Rightarrow> aggregation_outcome option adapter_op" where
  "reconcile_relay_aggregation sk cfg = reconcile_with sk cfg False"

end
