(* ===== verification/Journal_Safety.thy ===== *)
theory Journal_Safety
  imports Curvy_Journal
begin

text \<open>
  The safety of the journal of relayed aggregations: a walk over the passes of the reconciliation loop
  with the weakest preconditions of \<open>Fallible\<close>. \<open>journal_ok\<close> is the invariant, \<open>progress\<close> and \<open>acting\<close>
  say where a pass stands, \<open>step_ok\<close> and \<open>outcome_ok\<close> what a pass and the loop leave behind.
\<close>

section \<open>What the journal guarantees\<close>

definition core :: "relay_attempt \<Rightarrow> relay_attempt" where
  \<comment> \<open>an attempt without its progress: the proof, its outputs and its spend\<close>
  "core a = a\<lparr>ra_attempted := False, ra_request := None, ra_hash := None, ra_rebuild := False,
     ra_last_status := None, ra_timeouts := 0\<rparr>"

lemma core_progress [simp]:
  "core (a\<lparr>ra_attempted := b\<rparr>) = core a" "core (a\<lparr>ra_request := r\<rparr>) = core a" "core (a\<lparr>ra_hash := h\<rparr>) = core a"
  "core (a\<lparr>ra_rebuild := c\<rparr>) = core a" "core (a\<lparr>ra_last_status := l\<rparr>) = core a" "core (a\<lparr>ra_timeouts := t\<rparr>) = core a"
  "core (observe_progress st h a) = core a"
  by (simp_all add: core_def observe_progress_def)

lemma core_spend: "core a = core b \<Longrightarrow> same_spend a c \<longleftrightarrow> same_spend b c"
  "core a = core b \<Longrightarrow> same_spend c a \<longleftrightarrow> same_spend c b"
  by (cases a; cases b; simp add: core_def same_spend_def)+

lemma same_spend_sym: "same_spend a b \<Longrightarrow> same_spend b a"
  by (auto simp: same_spend_def eq_ignore_case_def)

lemma same_spend_trans: "same_spend a b \<Longrightarrow> same_spend b c \<Longrightarrow> same_spend a c"
  by (auto simp: same_spend_def eq_ignore_case_def)

lemma same_spend_refl [simp]: "same_spend a a"
  by (simp add: same_spend_def)

definition attempts_ok :: "relay_attempt list \<Rightarrow> bool" where
  "attempts_ok as \<longleftrightarrow>
     length as \<le> max_attempts \<and> (\<forall>a \<in> set as. \<forall>b \<in> set as. same_spend a b) \<and> list_all ra_rebuild (butlast as)"

definition sent_durable :: "sent \<Rightarrow> bool" where
  \<comment> \<open>what was handed over was on disk at that moment\<close>
  "sent_durable x \<longleftrightarrow>
     (case x of
        Posted a disk \<Rightarrow> a \<in> set (sd_relay disk) \<and> ra_attempted a
      | Broadcast a disk \<Rightarrow> a \<in> set (sd_operator disk)
      | WithdrawalPosted intent disk \<Rightarrow> intent \<in> it_intent ` set (sd_intents disk)
      | ShieldSent n disk \<Rightarrow> True)"

definition rows_keyed :: "(pix_id \<times> stored_allocation) list \<Rightarrow> bool" where
  "rows_keyed rows \<longleftrightarrow> (\<forall>i row. map_of rows i = Some row \<longrightarrow> sa_id row = i)"

lemma update_rows_Nil [simp]: "update_rows [] [] rows = rows"
  by (simp add: update_rows_def)

lemma rows_keyed_update [simp]: "rows_keyed rows \<Longrightarrow> rows_keyed (update_rows allocations remove rows)"
proof -
  have put: "rows_keyed (AList.update (sa_id a) a rows)" if "rows_keyed rows" for a rows
    using that by (auto simp: rows_keyed_def update_conv')
  have drop: "rows_keyed (AList.delete i rows)" if "rows_keyed rows" for i rows
    using that by (auto simp: rows_keyed_def delete_conv')
  have "rows_keyed (fold AList.delete is rows)" if "rows_keyed rows" for "is" rows
    using that drop by (induction "is" arbitrary: rows) auto
  moreover have "rows_keyed (fold (\<lambda>a. AList.update (sa_id a) a) as rows)" if "rows_keyed rows" for as rows
    using that put by (induction as arbitrary: rows) auto
  ultimately show "rows_keyed rows \<Longrightarrow> rows_keyed (update_rows allocations remove rows)"
    by (simp add: update_rows_def)
qed

definition settled_rows ::
  "pix_id set \<Rightarrow> (pix_id \<times> stored_allocation) list \<Rightarrow> (pix_id \<times> stored_allocation) list \<Rightarrow> bool" where
  \<comment> \<open>exactly these allocations were marked as completed\<close>
  "settled_rows ids rows rows' \<longleftrightarrow>
     (\<forall>i \<in> ids. \<exists>row. map_of rows i = Some row \<and> map_of rows' i = Some (row\<lparr>sa_stage := CompletedAllocation\<rparr>)) \<and>
     (\<forall>i. i \<notin> ids \<longrightarrow> map_of rows' i = map_of rows i)"

lemma settled_rows_update:
  assumes "list_all2 (\<lambda>i c. \<exists>row. map_of rows i = Some row \<and> c = row\<lparr>sa_stage := CompletedAllocation\<rparr>) ids completed"
    and "rows_keyed rows"
  shows "settled_rows (set ids) rows (update_rows completed [] rows)"
proof -
  let ?done = "\<lambda>i. map_option (sa_stage_update (\<lambda>_. CompletedAllocation)) (map_of rows i)"
  have "map_of (fold (\<lambda>a. AList.update (sa_id a) a) completed rows') =
      (\<lambda>i. if i \<in> set ids then ?done i else map_of rows' i)" for rows'
    using assms(1)
  proof (induction ids completed arbitrary: rows' rule: list_all2_induct)
    case (Cons i ids c completed)
    then have "sa_id c = i" "?done i = Some c" using assms(2) by (auto simp: rows_keyed_def)
    then show ?case by (auto simp: Cons.IH update_conv' fun_eq_iff)
  qed simp
  moreover have "\<exists>row. map_of rows i = Some row" if "i \<in> set ids" for i
    using assms(1) that by (auto simp: list_all2_conv_all_nth in_set_conv_nth)
  ultimately show ?thesis by (fastforce simp: settled_rows_def update_rows_def)
qed

definition journal_ok :: "adapter \<Rightarrow> bool" where
  "journal_ok s \<longleftrightarrow>
     attempts_ok (attempts_of s) \<and> sd_relay (ad_disk s) = attempts_of s \<and> list_all sent_durable (ad_sent s) \<and>
     rows_keyed (ad_rows s)"

definition survive :: "relay_attempt list \<Rightarrow> relay_attempt list \<Rightarrow> bool" where
  \<comment> \<open>no posted proof has been forgotten\<close>
  "survive as bs \<longleftrightarrow> (\<forall>a \<in> set as. ra_attempted a \<longrightarrow> (\<exists>b \<in> set bs. core b = core a \<and> ra_attempted b))"

lemma survive_refl [simp]: "survive as as"
  by (auto simp: survive_def)

lemma survive_trans: "survive as bs \<Longrightarrow> survive bs cs \<Longrightarrow> survive as cs"
  unfolding survive_def by metis

lemma survive_append [simp]: "survive as (as @ bs)"
  by (auto simp: survive_def)

lemma survive_update:
  assumes "i < length as" "core p = core (as ! i)" "ra_attempted (as ! i) \<Longrightarrow> ra_attempted p"
  shows "survive as (as[i := p])"
proof -
  have "\<exists>b \<in> set (as[i := p]). core b = core a \<and> ra_attempted b" if "a \<in> set as" "ra_attempted a" for a
  proof -
    obtain j where j: "j < length as" "a = as ! j" using \<open>a \<in> set as\<close> by (metis in_set_conv_nth)
    show ?thesis
    proof (cases "j = i")
      case True
      then show ?thesis using j assms that(2) set_update_memI [of i as p] by auto
    next
      case False
      then have "as[i := p] ! j = a" "j < length (as[i := p])" using j by simp_all
      then show ?thesis using that(2) nth_mem by metis
    qed
  qed
  then show ?thesis by (simp add: survive_def)
qed

lemma survive_butlast: "as \<noteq> [] \<Longrightarrow> \<not> ra_attempted (last as) \<Longrightarrow> survive as (butlast as)"
  unfolding survive_def by (metis append_butlast_last_id in_set_butlastD rotate1.simps(2) set_ConsD set_rotate1)

lemma attempts_ok_update:
  assumes "attempts_ok as" "i < length as" "core p = core (as ! i)" "i = length as - 1 \<or> ra_rebuild p = ra_rebuild (as ! i)"
  shows "attempts_ok (as[i := p])"
proof -
  have spend: "same_spend p b \<and> same_spend b p" if "b \<in> set as" for b
    using assms that core_spend(1) [OF assms(3), of b] core_spend(2) [OF assms(3), of b] by (auto simp: attempts_ok_def)
  have "same_spend a b" if "a \<in> set (as[i := p])" "b \<in> set (as[i := p])" for a b
  proof -
    have "a \<in> insert p (set as)" "b \<in> insert p (set as)" using that set_update_subset_insert [of as i p] by auto
    then show ?thesis using spend assms(1) unfolding attempts_ok_def by (metis insert_iff same_spend_refl)
  qed
  moreover have "list_all ra_rebuild (butlast (as[i := p]))"
  proof (cases "i = length as - 1")
    case True
    then show ?thesis using assms(1) by (simp add: butlast_list_update attempts_ok_def)
  next
    case False
    then have "as ! i \<in> set (butlast as)" using assms(2) by (metis in_set_butlast_appendI length_butlast
        less_Suc_eq_le nth_butlast nth_mem Suc_pred' diff_less_Suc less_antisym length_pos_if_in_set not_less_eq)
    then have "ra_rebuild p" using False assms(1,4) by (auto simp: attempts_ok_def list_all_iff)
    then show ?thesis
      using assms(1) set_update_subset_insert [of "butlast as" i p]
      by (auto simp: butlast_list_update attempts_ok_def list_all_iff)
  qed
  ultimately show ?thesis using assms(1) by (simp add: attempts_ok_def)
qed

definition posts_for :: "relay_attempt list \<Rightarrow> sent list \<Rightarrow> sent list \<Rightarrow> bool" where
  \<comment> \<open>what was added to the trace are posts of the spend the attempts stand for\<close>
  "posts_for as before after \<longleftrightarrow>
     (\<exists>new. after = before @ new \<and>
        list_all (\<lambda>x. case x of Posted a _ \<Rightarrow> \<forall>b \<in> set as. same_spend a b | _ \<Rightarrow> False) new)"

lemma posts_for_refl [simp]: "posts_for as l l"
  by (simp add: posts_for_def)

definition progress :: "relay_attempt list \<Rightarrow> adapter \<Rightarrow> adapter \<Rightarrow> bool" where
  "progress as s0 s \<longleftrightarrow>
     journal_ok s \<and> survive as (attempts_of s) \<and> posts_for as (ad_sent s0) (ad_sent s) \<and>
     map_of (ad_rows s) = map_of (ad_rows s0)"

lemma progress_silent: "progress as s0 s \<Longrightarrow> journal_of s' = journal_of s \<Longrightarrow> progress as s0 s'"
  by (simp add: progress_def journal_ok_def journal_of_def)

lemma progress_start: "journal_ok s \<Longrightarrow> progress (attempts_of s) s s"
  by (simp add: progress_def)

lemma progress_save:
  assumes "progress as s0 s"
    and "let st = (ad_mem s)\<lparr>sd_relay := (attempts_of s)[i := p]\<rparr> in journal_of s' = (st, st, ad_rows s, ad_sent s)"
    and "i < length (attempts_of s)" "core p = core (attempts_of s ! i)" "ra_attempted (attempts_of s ! i) \<longrightarrow> ra_attempted p"
    and "i = length (attempts_of s) - 1 \<or> ra_rebuild p = ra_rebuild (attempts_of s ! i)"
  shows "progress as s0 s'" and "attempts_of s' = (attempts_of s)[i := p]" and "sd_relay (ad_disk s') = attempts_of s'"
  using assms attempts_ok_update [of "attempts_of s" i p] survive_update [of i "attempts_of s" p]
  by (auto simp: progress_def journal_ok_def journal_of_def Let_def intro: survive_trans)

definition ids_of :: "relay_attempt list \<Rightarrow> pix_id set" where
  "ids_of as = (\<Union>a \<in> set as. set (ra_ids a))"

definition step_ok :: "relay_attempt list \<Rightarrow> adapter \<Rightarrow> adapter_error stop + step_result \<Rightarrow> adapter \<Rightarrow> bool" where
  "step_ok as s0 r s \<longleftrightarrow>
     journal_ok s \<and> posts_for as (ad_sent s0) (ad_sent s) \<and>
     (case r of
        Inr (Settled (Some _)) \<Rightarrow> attempts_of s = [] \<and> settled_rows (ids_of as) (ad_rows s0) (ad_rows s)
      | Inr (Settled None) \<Rightarrow> as = [] \<and> ad_sent s = ad_sent s0 \<and> attempts_of s = [] \<and> ad_rows s = ad_rows s0
      | Inr (Again _) \<Rightarrow>
          as \<noteq> [] \<and> map_of (ad_rows s) = map_of (ad_rows s0) \<and> survive as (attempts_of s) \<and> attempts_of s \<noteq> [] \<and> (\<forall>a \<in> set as. \<forall>b \<in> set (attempts_of s). same_spend a b) \<and>
          (ra_rebuild (last (attempts_of s)) \<or> 1 < length (attempts_of s)) \<and> length (attempts_of s) \<le> length as + 1
      | Inl (Err (Relay (RelayFailed _))) \<Rightarrow>
          survive as (attempts_of s) \<or> (length as = 1 \<and> \<not> ra_rebuild (last as))
      | Inl _ \<Rightarrow> survive as (attempts_of s))"

lemma step_ok_error: "progress as s0 s \<Longrightarrow> step_ok as s0 (Inl e) s"
  by (auto simp: step_ok_def progress_def split: stop.split adapter_error.split relay_error.split)

lemma wp_finish_None:
  assumes "\<And>e s'. journal_of s' = journal_of s \<Longrightarrow> Q (Inl e) s'"
    and "\<And>s'. let st = (ad_mem s)\<lparr>sd_relay := []\<rparr> in
      journal_of s' = (st, st, update_rows [] (ra_ids (hd (attempts_of s))) (ad_rows s), ad_sent s) \<Longrightarrow> Q (Inr None) s'"
    and "length (attempts_of s) = 1"
  shows "wp (finish_relay_aggregation sk None) Q s"
proof -
  have one: "attempts_of s \<noteq> []" "attempts_of s ! 0 = hd (attempts_of s)" using assms(3) by (cases "attempts_of s"; simp)+
  show ?thesis
    unfolding finish_relay_aggregation_def wp_and_then [of "inspect _"] wp_basic sum.case Let_def
    using assms one
    by (auto simp: wp_followed_by wp_basic Let_def intro!: wp_commit_state) (auto simp: journal_of_def)
qed

lemma wp_traverse_m:
  assumes "\<And>x s. wp (f x) (\<lambda>r s'. journal_of s' = journal_of s \<and> (case r of Inl _ \<Rightarrow> True | Inr y \<Rightarrow> P (ad_rows s) x y)) s"
  shows "wp (traverse_m f xs)
    (\<lambda>r s'. journal_of s' = journal_of s \<and> (case r of Inl _ \<Rightarrow> True | Inr ys \<Rightarrow> list_all2 (P (ad_rows s)) xs ys)) s"
proof (induction xs arbitrary: s)
  case (Cons x xs)
  show ?case
    unfolding traverse_m.simps wp_and_then wp_basic
  proof (rule wp_mono [OF assms [of x s]], clarsimp split: sum.split, goal_cases)
    case (1 s1 y)
    then have "ad_rows s1 = ad_rows s" by (simp add: journal_of_def)
    with 1 show ?case
      by (intro wp_mono [OF Cons.IH [of s1]]) (auto split: sum.splits)
  qed
qed (simp add: wp_basic)

lemma wp_completed:
  "wp (completed_allocations sk ids)
    (\<lambda>r s'. journal_of s' = journal_of s \<and>
       (case r of Inl _ \<Rightarrow> True
        | Inr cs \<Rightarrow> list_all2 (\<lambda>i c. \<exists>row. map_of (ad_rows s) i = Some row \<and> c = row\<lparr>sa_stage := CompletedAllocation\<rparr>) ids cs)) s"
  unfolding completed_allocations_def
proof (rule wp_traverse_m, goal_cases)
  case (1 i s)
  have "wp (db_tx sk) (\<lambda>r s'. journal_of s' = journal_of s) s"
    by (rule wp_silent_any) (simp_all add: blind_intros)
  then show ?case
    unfolding prepared_row_def allocation_def wp_simps
    by (rule wp_mono) (auto simp: wp_simps journal_of_def split: sum.split option.split)
qed

lemma wp_finish_Some:
  assumes "\<And>e s'. journal_of s' = journal_of s \<Longrightarrow> Q (Inl e) s'"
    and "\<And>s' booked completed. book_outputs sk (attempts_of s ! w) (ad_mem s) = Inr booked \<Longrightarrow>
      list_all2 (\<lambda>i c. \<exists>row. map_of (ad_rows s) i = Some row \<and> c = row\<lparr>sa_stage := CompletedAllocation\<rparr>)
        (ra_ids (attempts_of s ! w)) completed \<Longrightarrow>
      let st = booked\<lparr>sd_relay := []\<rparr> in journal_of s' = (st, st, update_rows completed [] (ad_rows s), ad_sent s) \<Longrightarrow>
      Q (Inr (Some (outcome_of (attempts_of s ! w)))) s'"
    and "w < length (attempts_of s)"
  shows "wp (finish_relay_aggregation sk (Some w)) Q s"
proof (cases "book_outputs sk (attempts_of s ! w) (ad_mem s)")
  case (Inl e)
  then show ?thesis
    using assms(1,3) by (simp add: finish_relay_aggregation_def wp_simps Let_def not_le)
next
  case (Inr booked)
  have "wp (completed_allocations sk (ra_ids (attempts_of s ! w)))
      (\<lambda>r s1. case r of Inl e \<Rightarrow> Q (Inl e) s1
         | Inr completed \<Rightarrow> wp (followed_by (commit_state sk (booked\<lparr>sd_relay := []\<rparr>) completed [])
             (followed_by (modify (\<lambda>s. s\<lparr>ad_next_check := None\<rparr>)) (ok (Some (outcome_of (attempts_of s ! w)))))) Q s1) s"
  proof (rule wp_mono [OF wp_completed], clarsimp split: sum.split, intro conjI allI impI, goal_cases)
    case (1 r s1 e)
    then show ?case using assms(1) by blast
  next
    case (2 r s1 completed)
    then have view: "journal_of s1 = journal_of s" "ad_rows s1 = ad_rows s" "ad_sent s1 = ad_sent s"
      by (simp_all add: journal_of_def)
    show ?case
      unfolding wp_followed_by
      by (rule wp_commit_state)
        (use assms(1) assms(2) [OF Inr, of completed] 2 view in \<open>auto simp: wp_basic Let_def journal_of_def\<close>)
  qed
  then show ?thesis
    using assms(3) Inr
    by (simp add: finish_relay_aggregation_def wp_and_then wp_basic wp_lift Let_def not_le)
qed

text \<open>
  Where the loop is when it acts on the last attempt: the journal holds the attempts the pass began
  with, the last one with more progress.
\<close>

definition acting :: "relay_attempt list \<Rightarrow> adapter \<Rightarrow> relay_attempt \<Rightarrow> adapter \<Rightarrow> bool" where
  "acting as s0 q s \<longleftrightarrow>
     as \<noteq> [] \<and> attempts_ok as \<and> \<not> ra_rebuild (last as) \<and> progress as s0 s \<and>
     attempts_of s = as[length as - 1 := q] \<and> core q = core (last as) \<and> (ra_attempted (last as) \<longrightarrow> ra_attempted q)"

lemma acting_silent: "acting as s0 q s \<Longrightarrow> journal_of s' = journal_of s \<Longrightarrow> acting as s0 q s'"
  using progress_silent by (auto simp: acting_def journal_of_def)

lemma acting_save:
  assumes "acting as s0 q s"
    and "let st = (ad_mem s)\<lparr>sd_relay := (attempts_of s)[length as - 1 := p]\<rparr> in journal_of s' = (st, st, ad_rows s, ad_sent s)"
    and "core p = core (last as)" "ra_attempted q \<longrightarrow> ra_attempted p"
  shows "acting as s0 p s'"
proof -
  let ?i = "length as - 1"
  have i: "?i < length (attempts_of s)" "attempts_of s ! ?i = q" "length (attempts_of s) = length as"
    using assms(1) by (auto simp: acting_def)
  have "progress as s0 s" using assms(1) by (simp add: acting_def)
  from progress_save [OF this assms(2) i(1)] show ?thesis
    using assms i by (auto simp: acting_def)
qed

lemma acting_error: "acting as s0 q s \<Longrightarrow> step_ok as s0 (Inl e) s"
  by (simp add: acting_def step_ok_error)

lemma acting_spend:
  assumes "acting as s0 q s" "a \<in> set as" "b \<in> set (attempts_of s)"
  shows "same_spend a b"
proof -
  have "last as \<in> set as" using assms(1) by (simp add: acting_def)
  moreover have "b \<in> insert q (set as)"
    using assms(1,3) set_update_subset_insert [of as "length as - 1" q] by (auto simp: acting_def)
  ultimately show ?thesis
    using assms(1,2) core_spend(2) [of q "last as" a] unfolding acting_def attempts_ok_def by (metis insertE)
qed

lemma acting_again:
  assumes "acting as s0 q s" "ra_rebuild q"
  shows "step_ok as s0 (Inr (Again rb)) s"
  using assms acting_spend [OF assms(1)]
  by (auto simp: step_ok_def acting_def progress_def last_list_update)

lemma step_replaced:
  assumes "acting as s0 q s" "core p = core (last as)" "ra_attempted q \<longrightarrow> ra_attempted p" "ra_rebuild p"
  shows "wp (followed_by (save_relay_attempt sk (length as - 1) p) (again_unless rebuilt e)) (step_ok as s0) s"
proof (rule wp_then_save, goal_cases)
  case (1 m s1)
  then show ?case using acting_error [OF acting_silent [OF assms(1)]] by blast
next
  case (2 s1)
  from acting_save [OF assms(1) 2 assms(2,3)] assms(4) show ?case
    by (simp add: again_unless_def wp_basic acting_again acting_error)
qed

lemma step_saved_error:
  assumes "acting as s0 q s" "core p = core (last as)" "ra_attempted q \<longrightarrow> ra_attempted p"
  shows "wp (followed_by (save_relay_attempt sk (length as - 1) p) (err e)) (step_ok as s0) s"
proof (rule wp_then_save, goal_cases)
  case (1 m s1)
  then show ?case using acting_error [OF acting_silent [OF assms(1)]] by blast
next
  case (2 s1)
  from acting_save [OF assms(1) 2 assms(2,3)] show ?case by (simp add: wp_basic acting_error)
qed

lemma step_released:
  assumes "acting as s0 q s" "length as = 1"
    and "ra_attempted (last as) \<Longrightarrow> \<exists>m. e = Err (Relay (RelayFailed m))"
  shows "wp (followed_by (followed_by (finish_relay_aggregation sk None) (ok ())) (fail e)) (step_ok as s0) s"
    and "wp (followed_by (finish_relay_aggregation sk None) (fail e)) (step_ok as s0) s"
proof -
  have released: "wp (finish_relay_aggregation sk None)
      (\<lambda>r s'. case r of Inl e \<Rightarrow> step_ok as s0 (Inl e) s' | Inr _ \<Rightarrow> step_ok as s0 (Inl e) s') s"
  proof (rule wp_finish_None, goal_cases)
    case (1 m s1)
    then show ?case using acting_error [OF acting_silent [OF assms(1)]] by auto
  next
    case (2 s1)
    have "survive as []" if "\<not> ra_attempted (last as)"
      using assms(2) that by (cases as) (auto simp: survive_def)
    with 2 assms show ?case
      by (auto simp: step_ok_def acting_def progress_def journal_ok_def journal_of_def attempts_ok_def Let_def
          split: stop.split adapter_error.split relay_error.split)
  next
    case 3
    then show ?case using assms(1,2) by (simp add: acting_def)
  qed
  then show "wp (followed_by (finish_relay_aggregation sk None) (fail e)) (step_ok as s0) s"
    unfolding wp_followed_by by (rule wp_mono) (simp add: wp_basic split: sum.splits)
  from released show "wp (followed_by (followed_by (finish_relay_aggregation sk None) (ok ())) (fail e)) (step_ok as s0) s"
    unfolding wp_followed_by by (rule wp_mono) (simp add: wp_basic split: sum.splits)
qed

lemma step_wait_failed:
  assumes "acting as s0 q s" "core p = core (last as)" "ra_attempted q \<longrightarrow> ra_attempted p"
  shows "wp (wait_failed sk rebuilt (length as) p e) (step_ok as s0) s"
proof (cases "permits_replacement e")
  case True
  then show ?thesis unfolding wait_failed_def by (simp add: step_replaced [OF assms(1)] assms(2,3) del: One_nat_def)
next
  case False
  show ?thesis
  proof (cases e)
    case (RelayFailed m)
    then show ?thesis
      unfolding wait_failed_def
      using step_saved_error [OF assms(1), of "p\<lparr>ra_rebuild := True\<rparr>" sk] assms(2,3)
      by (auto simp: err_def step_released(1) [OF assms(1)] simp del: One_nat_def)
  next
    case (RelayTimeout i st h moved)
    let ?p = "observe_progress st h p"
    have "ra_attempted ?p = ra_attempted p" by (simp add: observe_progress_def)
    then show ?thesis
      unfolding wait_failed_def RelayTimeout
      by (simp add: Let_def step_saved_error [OF assms(1)] assms(2,3) del: One_nat_def)
  qed (use False acting_error [OF assms(1)] in \<open>simp_all add: wait_failed_def wp_simps\<close>)
qed

lemma wp_winner:
  "wp (relay_winner sk cfg as)
    (\<lambda>r s'. journal_of s' = journal_of s \<and>
       (case r of Inr (Some w) \<Rightarrow> w < length as \<and> ra_attempted (as ! w) | _ \<Rightarrow> True)) s"
proof -
  have found: "wp (find_first (\<lambda>(i, a). if ra_attempted a then notes_known sk cfg (ra_emitted a) else ok False) xs)
      (\<lambda>r _. case r of Inr (Some x) \<Rightarrow> x \<in> set xs \<and> ra_attempted (snd x) | _ \<Rightarrow> True) s" for xs s
    by (rule wp_find_first, clarsimp simp: wp_basic, rule wp_any) (simp split: sum.split bool.split)
  have "wp (relay_winner sk cfg as) (\<lambda>r _. case r of Inr (Some w) \<Rightarrow> w < length as \<and> ra_attempted (as ! w) | _ \<Rightarrow> True) s"
    unfolding relay_winner_def wp_and_then
    by (rule wp_mono [OF found]) (auto simp: wp_basic in_set_enumerate_eq split: sum.splits option.splits)
  moreover have "wp (relay_winner sk cfg as) (\<lambda>_ s'. journal_of s' = journal_of s) s"
    by (rule wp_silent_any) (simp_all add: blind_intros)
  ultimately show ?thesis by (auto simp: wp_def split: prod.splits)
qed

lemma ids_of_spend: "same_spend a b \<Longrightarrow> ra_ids a = ra_ids b"
  by (simp add: same_spend_def)

lemma ids_of_all: "as \<noteq> [] \<Longrightarrow> \<forall>a \<in> set as. same_spend a b \<Longrightarrow> ids_of as = set (ra_ids b)"
proof -
  assume "as \<noteq> []" and "\<forall>a \<in> set as. same_spend a b"
  then have "\<forall>a \<in> set as. ra_ids a = ra_ids b" by (auto dest: ids_of_spend)
  with \<open>as \<noteq> []\<close> show "ids_of as = set (ra_ids b)" by (auto simp: ids_of_def neq_Nil_conv)
qed

lemma settled_rows_same: "settled_rows ids rows rows' \<Longrightarrow> map_of rows = map_of rows0 \<Longrightarrow> settled_rows ids rows0 rows'"
  by (simp add: settled_rows_def)

lemma step_finish:
  assumes "progress as s0 s" "w < length (attempts_of s)" "as \<noteq> []"
    and "\<forall>a \<in> set as. \<forall>b \<in> set (attempts_of s). same_spend a b"
  shows "wp (and_then (finish_relay_aggregation sk (Some w)) (\<lambda>r. ok (Settled r))) (step_ok as s0) s"
  unfolding wp_and_then
proof (rule wp_finish_Some, goal_cases)
  case (1 e s1)
  then show ?case using step_ok_error [OF progress_silent [OF assms(1)]] by simp
next
  case (2 s1 booked completed)
  have "attempts_of s ! w \<in> set (attempts_of s)" using assms(2) by simp
  then have ids: "ids_of as = set (ra_ids (attempts_of s ! w))" using ids_of_all assms(3,4) by blast
  have "rows_keyed (ad_rows s)" "map_of (ad_rows s) = map_of (ad_rows s0)"
    using assms(1) by (auto simp: progress_def journal_ok_def)
  then have "settled_rows (ids_of as) (ad_rows s0) (update_rows completed [] (ad_rows s))"
    using settled_rows_same [OF settled_rows_update [OF 2(2)]] ids by simp
  then show ?case
    using assms(1) 2(3)
    by (auto simp: wp_basic step_ok_def progress_def journal_ok_def journal_of_def attempts_ok_def max_attempts_def Let_def)
qed (use assms in simp)

lemma spends_update:
  assumes "acting as s0 q s" "w < length (attempts_of s)" "core p = core (attempts_of s ! w)"
  shows "\<forall>a \<in> set as. \<forall>b \<in> set ((attempts_of s)[w := p]). same_spend a b"
proof (intro ballI)
  fix a b
  assume a: "a \<in> set as" and "b \<in> set ((attempts_of s)[w := p])"
  then consider "b = p" | "b \<in> set (attempts_of s)" using set_update_subset_insert [of "attempts_of s" w p] by auto
  then show "same_spend a b"
  proof cases
    case 1
    have "same_spend a (attempts_of s ! w)" using acting_spend [OF assms(1) a] assms(2) by simp
    then show ?thesis using core_spend(2) [OF assms(3), of a] 1 by simp
  qed (rule acting_spend [OF assms(1) a])
qed

lemma step_landed:
  assumes "acting as s0 q s" "core p = core (last as)" "ra_attempted q \<longrightarrow> ra_attempted p"
  shows "wp (settle_landed sk cfg (length as - 1) p landed) (step_ok as s0) s"
  unfolding settle_landed_def Let_def [of "observe_progress _ _ _"]
proof (rule wp_then_save, goal_cases)
  case (1 m s1)
  then show ?case using acting_error [OF acting_silent [OF assms(1)]] by blast
next
  case (2 s1)
  let ?p = "observe_progress (sm_status landed) (sm_hash landed) p"
  have p: "core ?p = core (last as)" "ra_attempted q \<longrightarrow> ra_attempted ?p"
    using assms(2,3) by (simp_all) (simp add: observe_progress_def)
  have act: "acting as s0 ?p s1" by (rule acting_save [OF assms(1) 2 p])
  show ?case
    unfolding wp_and_then wp_basic sum.case
  proof (rule wp_mono [OF wp_winner], goal_cases)
    case (1 r s2)
    then have act2: "acting as s0 ?p s2" and same: "attempts_of s2 = attempts_of s1"
      using acting_silent [OF act] by (auto simp: journal_of_def)
    show ?case
    proof (cases r)
      case (Inl e)
      then show ?thesis using acting_error [OF act2] by simp
    next
      case (Inr winner)
      show ?thesis
      proof (cases winner)
        case None
        then show ?thesis using Inr acting_error [OF act2] by (simp add: wp_basic)
      next
        case (Some w)
        let ?w = "(attempts_of s1 ! w)\<lparr>ra_request := Some (sm_request landed),
            ra_hash := (case ra_hash ?p of None \<Rightarrow> ra_hash (attempts_of s1 ! w) | Some h \<Rightarrow> Some h)\<rparr>"
        have w: "w < length (attempts_of s2)" using 1 Inr Some same by simp
        have prog: "progress as s0 s2" using act2 by (simp add: acting_def)
        have "wp (followed_by (save_relay_attempt sk w ?w)
            (followed_by (only_if (1 < length (attempts_of s1)) (check_outputs_finalized sk cfg (ra_emitted ?w)))
               (and_then (finish_relay_aggregation sk (Some w)) (\<lambda>r. ok (Settled r))))) (step_ok as s0) s2"
        proof (rule wp_then_save, goal_cases)
          case (1 m s3)
          then show ?case using acting_error [OF acting_silent [OF act2]] by blast
        next
          case (2 s3)
          have kept: "core ?w = core (attempts_of s2 ! w)" "ra_attempted (attempts_of s2 ! w) \<longrightarrow> ra_attempted ?w"
            "w = length (attempts_of s2) - 1 \<or> ra_rebuild ?w = ra_rebuild (attempts_of s2 ! w)"
            using same by simp_all
          note saved = progress_save [OF prog 2 w kept]
          show ?case
          proof (rule wp_then_silent, intro blind_intros, goal_cases)
            case (1 e s4)
            then show ?case using step_ok_error [OF progress_silent [OF saved(1)]] by simp
          next
            case (2 s4)
            have "acting as s0 ?p s2 \<and> attempts_of s4 = (attempts_of s2)[w := ?w]"
              using act2 saved(2) 2 by (simp add: journal_of_def)
            then have "\<forall>a \<in> set as. \<forall>b \<in> set (attempts_of s4). same_spend a b" "as \<noteq> []"
              using spends_update [OF act2 w kept(1)] by (auto simp: acting_def)
            moreover have "w < length (attempts_of s4)" using saved(2) w 2 by (simp add: journal_of_def)
            ultimately show ?case by (intro step_finish [OF progress_silent [OF saved(1) 2]])
          qed
        qed
        then show ?thesis using Inr Some by (simp add: Let_def)
      qed
    qed
  qed
qed

lemma step_follow:
  assumes "acting as s0 q s" "core p = core (last as)" "ra_attempted q \<longrightarrow> ra_attempted p"
  shows "wp (follow_submission sk cfg rebuilt (length as) p sub) (step_ok as s0) s"
  unfolding follow_submission_def Let_def [of "observe_progress _ _ _"]
proof (rule wp_then_save, goal_cases)
  case (1 m s1)
  then show ?case using acting_error [OF acting_silent [OF assms(1)]] by blast
next
  case (2 s1)
  let ?p = "observe_progress (sm_status sub) (sm_hash sub) (p\<lparr>ra_request := Some (sm_request sub)\<rparr>)"
  have p: "core ?p = core (last as)" "ra_attempted q \<longrightarrow> ra_attempted ?p"
    using assms(2,3) by (simp_all) (simp add: observe_progress_def)
  have act: "acting as s0 ?p s1" by (rule acting_save [OF assms(1) 2 p])
  show ?case
  proof (rule wp_seq_silent, intro blind_intros, goal_cases)
    case (1 e s2)
    then show ?case using acting_error [OF acting_silent [OF act]] by blast
  next
    case (2 r s2)
    note act2 = acting_silent [OF act 2]
    show ?case
      by (cases r) (simp_all only: sum.case step_landed [OF act2 p(1)] step_wait_failed [OF act2 p(1)] simp_thms)
  qed
qed

lemma step_post_failed:
  assumes "acting as s0 q s" "core p = core (last as)" "ra_attempted q \<longrightarrow> ra_attempted p"
    and "was = ra_attempted (last as)"
  shows "wp (post_failed sk rebuilt (length as) was p e) (step_ok as s0) s"
proof -
  have popped: "wp (followed_by
        (and_then (inspect ad_mem) (\<lambda>mem. commit_state sk (mem\<lparr>sd_relay := butlast (sd_relay mem)\<rparr>) [] []))
        (again_unless rebuilt e)) (step_ok as s0) s" if "\<not> was" "length as \<noteq> 1"
    unfolding wp_followed_by wp_and_then [of "inspect ad_mem"] wp_basic sum.case
  proof (rule wp_commit_state, goal_cases)
    case (1 m s1)
    then show ?case using acting_error [OF acting_silent [OF assms(1)]] by simp
  next
    case (2 s1)
    have as: "as \<noteq> []" "attempts_ok as" "progress as s0 s" "attempts_of s = as[length as - 1 := q]"
      using assms(1) by (auto simp: acting_def)
    have attempts: "attempts_of s1 = butlast as"
      using 2 as(4) by (simp add: journal_of_def butlast_list_update)
    have many: "butlast as \<noteq> []" using as(1) that(2) by (cases as rule: rev_cases) auto
    have "attempts_ok (butlast as)"
      using as(2) by (auto simp: attempts_ok_def list_all_iff dest: in_set_butlastD)
    moreover have "survive as (butlast as)" using survive_butlast [OF as(1)] assms(4) that(1) by simp
    ultimately have prog: "progress as s0 s1"
      using 2 as(3) attempts by (auto simp: progress_def journal_ok_def journal_of_def)
    have "ra_rebuild (last (butlast as))"
      using as(2) many last_in_set [OF many] by (auto simp: attempts_ok_def list_all_iff)
    with prog many attempts as(2) have "step_ok as s0 (Inr (Again False)) s1"
      by (auto simp: step_ok_def progress_def attempts_ok_def dest: in_set_butlastD)
    with step_ok_error [OF prog] show ?case by (simp add: again_unless_def wp_basic)
  qed
  show ?thesis
  proof (cases e)
    case (Rejected m)
    show ?thesis
    proof (cases "\<not> was \<and> length as = 1")
      case True
      then show ?thesis
        using step_released(2) [OF assms(1), of "Err (Relay e)" sk] assms(4)
        by (simp add: post_failed_def Rejected err_def del: One_nat_def)
    next
      case False
      then show ?thesis
        using popped step_replaced [OF assms(1), of "p\<lparr>ra_rebuild := True\<rparr>"] assms(2,3)
        by (auto simp: post_failed_def Rejected simp del: One_nat_def)
    qed
  qed (use acting_error [OF assms(1)] in \<open>simp_all add: post_failed_def wp_basic\<close>)
qed

lemma posts_for_snoc:
  "posts_for as s0 l \<Longrightarrow> \<forall>b \<in> set as. same_spend a b \<Longrightarrow> posts_for as s0 (l @ [Posted a d])"
  by (auto simp: posts_for_def)

lemma step_post:
  assumes "acting as s0 (last as) s" "p = last as"
  shows "wp (post_attempt sk cfg rebuilt (length as) p) (step_ok as s0) s"
proof (cases "ra_circuit p")
  case None
  have "wp (followed_by (save_relay_attempt sk (length as - 1) (p\<lparr>ra_rebuild := True\<rparr>)) (ok (Again rebuilt)))
      (step_ok as s0) s"
  proof (rule wp_then_save, goal_cases)
    case (1 m s1)
    then show ?case using acting_error [OF acting_silent [OF assms(1)]] by blast
  next
    case (2 s1)
    have "acting as s0 (p\<lparr>ra_rebuild := True\<rparr>) s1" by (rule acting_save [OF assms(1) 2]) (simp_all add: assms(2))
    then show ?case by (simp add: wp_basic acting_again)
  qed
  then show ?thesis by (simp add: post_attempt_def None)
next
  case (Some circuit)
  let ?p = "p\<lparr>ra_attempted := True\<rparr>"
  have p: "core ?p = core (last as)" "ra_attempted q \<longrightarrow> ra_attempted ?p" for q by (simp_all add: assms(2))
  show ?thesis
    unfolding post_attempt_def Some option.case Let_def [of "ra_attempted p"] Let_def [of ?p] record_sent_def
  proof (rule wp_then_save, goal_cases)
    case (1 m s1)
    then show ?case using acting_error [OF acting_silent [OF assms(1)]] by blast
  next
    case (2 s1)
    have act: "acting as s0 ?p s1" by (rule acting_save [OF assms(1) 2 p])
    let ?s2 = "s1\<lparr>ad_sent := ad_sent s1 @ [Posted ?p (ad_disk s1)]\<rparr>"
    have n: "length as - 1 < length as" using act by (simp add: acting_def)
    have "?p \<in> set (sd_relay (ad_disk s1))"
      using act 2 set_update_memI [OF n] by (auto simp: journal_of_def acting_def Let_def)
    moreover have "\<forall>b \<in> set as. same_spend ?p b"
    proof
      fix b
      assume "b \<in> set as"
      moreover have "last as \<in> set as" using act by (simp add: acting_def)
      ultimately show "same_spend ?p b"
        using act core_spend(1) [of ?p "last as" b] by (auto simp: acting_def attempts_ok_def assms(2))
    qed
    ultimately have act2: "acting as s0 ?p ?s2"
      using act posts_for_snoc [of as "ad_sent s0" "ad_sent s1" ?p "ad_disk s1"]
      by (auto simp: acting_def progress_def journal_ok_def sent_durable_def)
    show ?case
      unfolding wp_followed_by [of "and_then (inspect ad_disk) _"] wp_and_then [of "inspect ad_disk"] wp_basic sum.case
    proof (rule wp_seq_silent, intro blind_intros, goal_cases)
      case (1 e s3)
      then show ?case using acting_error [OF acting_silent [OF act2]] by blast
    next
      case (2 r s3)
      note act3 = acting_silent [OF act2 2]
      have was: "ra_attempted p = ra_attempted (last as)" by (simp add: assms(2))
      show ?case
        by (cases r) (simp_all only: sum.case step_follow [OF act3 p] step_post_failed [OF act3 p was])
    qed
  qed
qed

lemma step_replay:
  assumes "acting as s0 (last as) s" "p = last as"
  shows "wp (replay_attempt sk cfg rebuilt (length as) p) (step_ok as s0) s"
  unfolding replay_attempt_def
proof (rule wp_seq_silent, intro blind_intros, goal_cases)
  case (1 e s1)
  then show ?case using acting_error [OF acting_silent [OF assms(1)]] by blast
next
  case (2 r s1)
  note act = acting_silent [OF assms(1) 2]
  show ?case
  proof (cases r)
    case (Inl e)
    show ?thesis
      using step_replaced [OF act, of "p\<lparr>ra_rebuild := True\<rparr>"] acting_error [OF act] assms(2)
      by (cases "permits_replacement e") (simp_all add: Inl wp_basic del: One_nat_def)
  next
    case (Inr known)
    show ?thesis
      by (cases known)
        (simp_all only: Inr sum.case option.case assms(2) step_post [OF act refl] step_follow [OF act refl] simp_thms)
  qed
qed

lemma step_rebuild:
  assumes "progress as s0 s" "attempts_of s \<noteq> []" "as \<noteq> []" "length (attempts_of s) = length as"
    and "\<forall>a \<in> set as. \<forall>b \<in> set (attempts_of s). same_spend a b"
  shows "wp (followed_by (require (length as < max_attempts) (Err RelayAttemptLimit))
    (followed_by (rebuild_relay_aggregation sk cfg) (ok (Again True)))) (step_ok as s0) s"
proof (cases "length as < max_attempts")
  case False
  then show ?thesis using step_ok_error [OF assms(1)] by (simp add: wp_simps)
next
  case True
  have "wp (rebuild_relay_aggregation sk cfg)
      (\<lambda>r s'. case r of Inl e \<Rightarrow> step_ok as s0 (Inl e) s' | Inr _ \<Rightarrow> step_ok as s0 (Inr (Again True)) s') s"
  proof (rule wp_rebuild, goal_cases)
    case (1 e s1)
    then show ?case using step_ok_error [OF progress_silent [OF assms(1)]] by simp
  next
    case (2 a records s1)
    have j: "attempts_ok (attempts_of s)" "survive as (attempts_of s)" "posts_for as (ad_sent s0) (ad_sent s)"
      "list_all sent_durable (ad_sent s)" "rows_keyed (ad_rows s)" "map_of (ad_rows s) = map_of (ad_rows s0)"
      using assms(1) by (auto simp: progress_def journal_ok_def)
    have view: "attempts_of s1 = attempts_of s @ [a]" "sd_relay (ad_disk s1) = attempts_of s @ [a]" "ad_sent s1 = ad_sent s"
      "ad_rows s1 = update_rows records [] (ad_rows s)"
      using 2(6) by (auto simp: journal_of_def Let_def)
    have spend: "same_spend b a" "same_spend a b" if "b \<in> set (attempts_of s)" for b
      using j(1) that 2(2) assms(2) same_spend_trans same_spend_sym unfolding attempts_ok_def by (metis last_in_set)+
    have all: "list_all ra_rebuild (attempts_of s)"
      using j(1) 2(4) unfolding attempts_ok_def
      by (subst append_butlast_last_id [OF assms(2), symmetric]) (simp add: list_all_iff)
    have "same_spend b a" if "b \<in> set as" for b
      using that spend(1) assms(2,5) same_spend_trans by (metis last_in_set)
    moreover have "attempts_ok (attempts_of s @ [a])"
      using j(1) 2(3) spend all unfolding attempts_ok_def by auto
    ultimately show ?case
      using j view 2(5) assms(3-5) by (auto simp: step_ok_def journal_ok_def survive_def Suc_le_eq)
  qed (rule assms(2))
  then show ?thesis
    using True unfolding wp_followed_by wp_require
    by (auto elim!: wp_mono simp: wp_basic split: sum.splits)
qed

lemma step_last:
  assumes "progress as s0 s" "attempts_of s = as" "as \<noteq> []"
  shows "wp (reconcile_last sk cfg rebuilt as) (step_ok as s0) s"
proof -
  let ?p = "last as"
  note prog = assms(1)
  have ok: "attempts_ok as" using assms(1,2) by (simp add: progress_def journal_ok_def)
  have id: "as[length as - 1 := ?p] = as" unfolding last_conv_nth [OF assms(3)] by (rule list_update_id)
  have act: "acting as s0 ?p s" if "\<not> ra_rebuild ?p"
    using that prog ok id assms(2,3) by (simp add: acting_def)
  show ?thesis
  proof (cases "ra_rebuild ?p")
    case True
    have "wp (followed_by (require (length as < max_attempts) (Err RelayAttemptLimit))
        (followed_by (rebuild_relay_aggregation sk cfg) (ok (Again True)))) (step_ok as s0) s"
      by (rule step_rebuild [OF prog]) (use ok assms(2,3) in \<open>auto simp: attempts_ok_def\<close>)
    then show ?thesis using True by (simp add: reconcile_last_def Let_def only_if_def followed_by_def)
  next
    case False
    note act = act [OF False]
    show ?thesis
    proof (cases "ra_circuit ?p = None \<and> \<not> ra_attempted ?p")
      case True
      let ?q = "?p\<lparr>ra_rebuild := True\<rparr>"
      have "wp (followed_by (save_relay_attempt sk (length as - 1) ?q)
          (followed_by (require (length as < max_attempts) (Err RelayAttemptLimit))
            (followed_by (rebuild_relay_aggregation sk cfg) (ok (Again True))))) (step_ok as s0) s"
      proof (rule wp_then_save, goal_cases)
        case (1 m s1)
        then show ?case using acting_error [OF acting_silent [OF act]] by blast
      next
        case (2 s1)
        have a: "acting as s0 ?q s1" by (rule acting_save [OF act 2]) simp_all
        then show ?case
          using acting_spend [OF a] by (intro step_rebuild) (auto simp: acting_def)
      qed
      then show ?thesis using True False by (simp add: reconcile_last_def Let_def only_if_def)
    next
      case fresh: False
      have "wp (followed_by
          (require (ac_relay cfg) (Err (InvalidValue ''configure the relayer to recover the pending aggregation'')))
          (replay_attempt sk cfg rebuilt (length as) ?p)) (step_ok as s0) s"
        using step_replay [OF act refl] step_ok_error [OF prog] by (auto simp: wp_followed_by wp_require)
      then show ?thesis
        using False fresh by (auto simp: reconcile_last_def Let_def only_if_def followed_by_def)
    qed
  qed
qed

lemma step_step:
  assumes "journal_ok s" "attempts_of s = as"
  shows "wp (reconcile_step sk cfg rebuilt) (step_ok as s) s"
proof (cases "list_ex (\<lambda>it. eq_ignore_case (it_action it) ''aggregation'') (sd_intents (ad_mem s)) \<or> attempts_of s = []")
  case True
  have "step_ok as s (Inl e) s" for e using step_ok_error [OF progress_start [OF assms(1)]] assms(2) by simp
  moreover have "step_ok as s (Inr (Settled None)) s" if "attempts_of s = []"
    using assms that by (simp add: step_ok_def)
  ultimately show ?thesis
    using True unfolding reconcile_step_def wp_and_then [of "inspect _"] wp_basic sum.case Let_def by (auto simp: wp_basic)
next
  case False
  have error: "step_ok as s (Inl e) s'" if "journal_of s' = journal_of s" for e s'
    using step_ok_error [OF progress_silent [OF progress_start [OF assms(1)] that]] assms(2) by simp
  have ok: "progress as s s' \<and> attempts_of s' = as" if "journal_of s' = journal_of s" for s'
    using progress_silent [OF progress_start [OF assms(1)] that] assms(2) that by (simp add: journal_of_def)
  have spends: "\<forall>a \<in> set as. \<forall>b \<in> set as. same_spend a b"
    using assms by (auto simp: journal_ok_def attempts_ok_def)
  show ?thesis
    unfolding reconcile_step_def wp_and_then [of "inspect _"] wp_basic sum.case Let_def
      if_not_P [OF False [unfolded de_Morgan_disj, THEN conjunct1]] if_not_P [OF False [unfolded de_Morgan_disj, THEN conjunct2]]
  proof (rule wp_seq_silent, intro blind_intros, erule error, goal_cases)
    case (1 ep s1)
    note same1 = 1
    show ?case
    proof (cases "list_ex (foreign ep) (attempts_of s)")
      case True
      then show ?thesis by (simp add: wp_basic error [OF same1])
    next
      case local: False
      show ?thesis
        unfolding if_not_P [OF local] wp_and_then [of "relay_winner _ _ _"]
      proof (rule wp_mono [OF wp_winner], goal_cases)
        case (1 r s2)
        then have same: "journal_of s2 = journal_of s" using same1 by simp
        note j = ok [OF same]
        show ?case
        proof (cases r)
          case (Inl e)
          then show ?thesis by (simp add: error [OF same])
        next
          case (Inr winner)
          show ?thesis
          proof (cases winner)
            case None
            then show ?thesis using step_last [of as s s2] j Inr False assms(2) by simp
          next
            case (Some w)
            have prog: "progress as s s2" using j by simp
            have "wp (followed_by (only_if (1 < length (attempts_of s)) (check_outputs_finalized sk cfg (ra_emitted (attempts_of s ! w))))
                (and_then (finish_relay_aggregation sk (Some w)) (\<lambda>r. ok (Settled r)))) (step_ok as s) s2"
            proof (rule wp_then_silent, intro blind_intros, goal_cases)
              case (1 e s3)
              then show ?case using error same by simp
            next
              case (2 s3)
              moreover have "attempts_of s3 = as" "w < length as"
                using \<open>journal_of s2 = journal_of s1 \<and> _\<close> Inr Some ok [of s3] 2 same assms(2) by simp_all
              ultimately show ?case
                using False assms(2) spends by (intro step_finish progress_silent [OF prog]) simp_all
            qed
            then show ?thesis using Inr Some by simp
          qed
        qed
      qed
    qed
  qed
qed

definition outcome_ok ::
  "relay_attempt list \<Rightarrow> adapter \<Rightarrow> adapter_error stop + aggregation_outcome option \<Rightarrow> adapter \<Rightarrow> bool" where
  "outcome_ok as s0 r s \<longleftrightarrow>
     journal_ok s \<and> posts_for as (ad_sent s0) (ad_sent s) \<and>
     (case r of
        Inr (Some _) \<Rightarrow> attempts_of s = [] \<and> settled_rows (ids_of as) (ad_rows s0) (ad_rows s)
      | Inr None \<Rightarrow> as = [] \<and> ad_sent s = ad_sent s0 \<and> attempts_of s = [] \<and> ad_rows s = ad_rows s0
      | Inl (Err (Relay (RelayFailed _))) \<Rightarrow> survive as (attempts_of s) \<or> length as = 1 \<and> \<not> ra_rebuild (last as)
      | Inl _ \<Rightarrow> survive as (attempts_of s))"

lemma posts_for_trans:
  assumes "posts_for as l1 l2" "posts_for bs l2 l3" "bs \<noteq> []" "\<forall>a \<in> set as. \<forall>b \<in> set bs. same_spend a b"
  shows "posts_for as l1 l3"
proof -
  have "\<forall>a \<in> set as. same_spend c a" if "\<forall>b \<in> set bs. same_spend c b" for c
    using that assms(3,4) same_spend_sym same_spend_trans by (metis last_in_set)
  with assms(1,2) show ?thesis
    unfolding posts_for_def by (force simp: list_all_iff split: sent.splits)
qed

lemma reconcile_outcome:
  assumes "reconcile_with sk cfg rebuilt s = (r, s')" "journal_ok s"
  shows "outcome_ok (attempts_of s) s r s'"
  using assms
proof (induction sk cfg rebuilt s arbitrary: r s' rule: reconcile_with.induct)
  case (1 sk cfg rebuilt s)
  obtain x s1 where step: "reconcile_step sk cfg rebuilt s = (x, s1)" by fastforce
  have ok: "step_ok (attempts_of s) s x s1" by (rule wpD [OF step_step [OF 1(3) refl] step])
  show ?case
  proof (cases x)
    case (Inl e)
    then have "r = Inl e" "s' = s1" using 1(2) step by (simp_all add: reconcile_with.simps)
    then show ?thesis
      using ok Inl
      by (auto simp: step_ok_def outcome_ok_def split: stop.splits adapter_error.splits relay_error.splits)
  next
    case (Inr y)
    show ?thesis
    proof (cases y)
      case (Settled o')
      then have "r = Inr o'" "s' = s1" using 1(2) step Inr by (simp_all add: reconcile_with.simps)
      then show ?thesis
        using ok Inr Settled by (auto simp: step_ok_def outcome_ok_def split: option.splits)
    next
      case (Again rb)
      then have rec: "reconcile_with sk cfg rb s1 = (r, s')" using 1(2) step Inr by (simp add: reconcile_with.simps)
      have mid: "journal_ok s1" "posts_for (attempts_of s) (ad_sent s) (ad_sent s1)" "survive (attempts_of s) (attempts_of s1)"
        "attempts_of s1 \<noteq> []" "\<forall>a \<in> set (attempts_of s). \<forall>b \<in> set (attempts_of s1). same_spend a b"
        using ok Inr Again by (auto simp: step_ok_def)
      have later: "outcome_ok (attempts_of s1) s1 r s'"
        using 1(1) [OF step [symmetric] Inr Again rec mid(1)] .
      have posts: "posts_for (attempts_of s) (ad_sent s) (ad_sent s')"
        using posts_for_trans [OF mid(2) _ mid(4,5)] later by (simp add: outcome_ok_def)
      have "\<not> (length (attempts_of s1) = 1 \<and> \<not> ra_rebuild (last (attempts_of s1)))" "map_of (ad_rows s1) = map_of (ad_rows s)"
        using ok Inr Again by (auto simp: step_ok_def)
      moreover have "ids_of (attempts_of s1) = ids_of (attempts_of s)" if "attempts_of s \<noteq> []"
      proof -
        have "ids_of (attempts_of s) = set (ra_ids (last (attempts_of s1)))"
          using mid(4,5) that by (intro ids_of_all) auto
        moreover have "\<forall>a \<in> set (attempts_of s1). same_spend a (last (attempts_of s1))"
          using mid(1,4) by (auto simp: journal_ok_def attempts_ok_def)
        ultimately show ?thesis using ids_of_all [OF mid(4)] by simp
      qed
      moreover have "attempts_of s \<noteq> []" using ok Inr Again 1(3) by (auto simp: step_ok_def)
      ultimately show ?thesis
        using later posts mid(4) survive_trans [OF mid(3), of "attempts_of s'"]
          settled_rows_same [of "ids_of (attempts_of s)" "ad_rows s1" "ad_rows s'" "ad_rows s"]
        by (auto simp: outcome_ok_def
            split: sum.splits stop.splits adapter_error.splits relay_error.splits option.splits)
    qed
  qed
qed


section \<open>Witness\<close>

definition demo_sdk :: sdk where
  \<comment> \<open>nothing answers, and every field element is small\<close>
  "demo_sdk =
     blokli.extend demo_blokli
       \<lparr>sk_note_id = on_secret, sk_parse_fr = (\<lambda>_. Inr 1), sk_point = (\<lambda>_. Inr (1, 2)), sk_scan_dec = (\<lambda>_. Inr ([], [])),
        sk_viewer = (\<lambda>_. Inr 1), sk_address_bytes = (\<lambda>_. []), sk_parse_address = (\<lambda>_. Inr 1),
        sk_scan_bytes = (\<lambda>_. []), sk_parse_scan = (\<lambda>_. Inr 1), sk_random = (\<lambda>_. replicate 16 7),
        sk_db = (\<lambda>_. None), sk_note_status = (\<lambda>_ _. Inr 0), sk_snapshot = (\<lambda>_. SnapshotTimeout),
        sk_build = (\<lambda>_ _. Inl ''down''), sk_http_new = (\<lambda>_. Inr ()), sk_debug = id,
        sk_show_strategy_error = (\<lambda>_. []), sk_price_text = \<lparr>pt_debug = id, pt_too_large = []\<rparr>,
        sk_aggregate = (\<lambda>_ _. Inl (''down'', True)), sk_commit = (\<lambda>_ _. Inr []), sk_minimum_input = (\<lambda>_ _ n. Inr n),
        sk_build_withdrawal = (\<lambda>_ _ _. Inl ''down''), sk_withdraw = (\<lambda>_ _. Inl ''down''),
        sk_prepare_shield = (\<lambda>_ _ _. Inl ''down''), sk_calldata = (\<lambda>_ _. Inr []), sk_parse_eth = Inr,
        sk_shield = (\<lambda>_ _. Inl ''down''), sk_prepare_deposit = (\<lambda>_ _ _ _. Inl ''down''),
        sk_erc20_balance = (\<lambda>_ _ _. Inr 0), sk_fund = (\<lambda>_ _ _. Inl ''down''), sk_shield_portal = (\<lambda>_ _. Inl ''down''),
        sk_signer = (\<lambda>_. True), sk_new_meta = (\<lambda>_. Inr ([], [])), sk_account = (\<lambda>_. Inr ()), sk_max_commit = 8, sk_show_balance = show_nat,
        sk_action_name = (\<lambda>_. ''withdrawal'')\<rparr>"

definition demo_endpoints :: endpoints where
  "demo_endpoints =
     \<lparr>ep_aggregator = ''0xaa'', ep_portal_factory = None, ep_vault = ''0xbb'', ep_shield_router = Some ''0xdd'',
      ep_token_address = ''0xcc'', ep_chain_id = 100\<rparr>"

definition demo_stored :: stored_note where
  "demo_stored =
     \<lparr>sn_owner = (''1'', ''2''), sn_secret = ''3'', sn_ephemeral = (''4'', ''5''), sn_view_tag = 6, sn_amount = ''7'',
      sn_token = ''2''\<rparr>"

definition demo_attempt :: relay_attempt where
  \<comment> \<open>posted, and given a request id\<close>
  "demo_attempt =
     \<lparr>ra_intent = ''i'', ra_chain = 100, ra_aggregator = ''0xAA'', ra_max_inputs = 2, ra_proof = 1, ra_signals = [],
      ra_request_key = ''r'', ra_spend_key = ''s'', ra_inputs = [demo_stored], ra_change = demo_stored,
      ra_emitted = [demo_stored], ra_ids = [1], ra_attempted = True, ra_request = Some ''q'', ra_hash = None,
      ra_rebuild = False, ra_last_status = None, ra_timeouts = 0, ra_circuit = Some 1\<rparr>"

definition demo_config :: adapter_config where
  "demo_config =
     \<lparr>ac_key = [], ac_fee_recipient = None, ac_shielding = DirectShielding, ac_submission = RelayerSubmission,
      ac_relay = True, ac_shielder = True, ac_relay_timeout = secs 120, ac_note_source = BlokliNotes,
      ac_indexer_url = None\<rparr>"

definition demo_adapter :: adapter where
  "demo_adapter =
     (let st = sdk_default\<lparr>sd_relay := [demo_attempt]\<rparr> in
      \<lparr>nt_clock = 0, nt_calls = 0, tn_token = configured_token 2, ad_mem = st, ad_disk = st, ad_rows = [],
       ad_client = Some demo_endpoints, ad_next_check = None, ad_sent = []\<rparr>)"

lemma demo_journal_ok: "journal_ok demo_adapter"
  by (simp add: journal_ok_def demo_adapter_def Let_def attempts_ok_def max_attempts_def rows_keyed_def)


end
