(* ===== verification/Curvy_Adapter.thy ===== *)
theory Curvy_Adapter
  imports Curvy_Journal
begin

text \<open>
  The rest of the adapter's state in \<open>src/src/pix/pools/curvy/sdk.rs\<close>: its construction, the notes it
  commits itself, the ambiguity of an older format, the aggregations it submits without a relayer, and
  the intents of relayed withdrawals. Most of these operations change the state in memory before they
  save it (\<open>update_save\<close>); the journals do it the other way round (\<open>commit_state\<close>).
\<close>

section \<open>Construction\<close>

definition pad_left :: "nat \<Rightarrow> string \<Rightarrow> string" where
  "pad_left n s = replicate (n - length s) (CHR ''0'') @ s"

definition full_width_key :: "string \<Rightarrow> string" where
  "full_width_key key = pad_left 64 key"

definition validate_signer :: "sdk \<Rightarrow> adapter_config \<Rightarrow> adapter_error + unit" where
  "validate_signer sk cfg =
     (if (ac_submission cfg = OperatorSubmission \<or> ac_shielding cfg = PortalShielding) \<and> \<not> sk_signer sk (ac_key cfg)
      then Inl (InvalidValue ''a valid EVM signing key is required for operator submission or portal shielding'')
      else Inr ())"

definition commits_locally :: "adapter_config \<Rightarrow> bool" where
  "commits_locally cfg \<longleftrightarrow> ac_submission cfg = OperatorSubmission"

definition load :: "sdk \<Rightarrow> stored_allocation list \<Rightarrow> sdk_state adapter_op" where
  \<comment> \<open>the first list is what the stored state still holds of the old JSON history\<close>
  "load sk legacy =
     followed_by (db_tx sk)
       (and_then (inspect ad_disk)
          (\<lambda>st. followed_by (only_if (legacy \<noteq> []) (save_update sk st legacy [])) (ok st)))"

definition adapter_new :: "sdk \<Rightarrow> adapter_config \<Rightarrow> stored_allocation list \<Rightarrow> unit adapter_op" where
  \<comment> \<open>the state in memory is what the new adapter starts with\<close>
  "adapter_new sk cfg legacy =
     followed_by (lift (validate_signer sk cfg))
       (followed_by (db_tx sk)
          (and_then (load sk legacy)
             (\<lambda>persisted.
                and_then
                  (case sd_spender persisted of
                     Some (k, v) \<Rightarrow>
                       followed_by (map_err (Err \<circ> Sdk) (lift_result (sk_account sk (full_width_key k, full_width_key v))))
                         (ok persisted)
                   | None \<Rightarrow>
                       and_then (map_err (Err \<circ> Sdk) (ask sk (sk_new_meta sk)))
                         (\<lambda>(k, v).
                            let keys = (full_width_key k, full_width_key v); next_state = persisted\<lparr>sd_spender := Some keys\<rparr> in
                            followed_by (map_err (Err \<circ> Sdk) (lift_result (sk_account sk keys)))
                              (followed_by (save sk next_state) (ok next_state))))
                  (\<lambda>state. modify (\<lambda>s. s\<lparr>ad_mem := state, ad_client := None, ad_next_check := None\<rparr>)))))"

section \<open>Changing the state\<close>

definition update_save :: "sdk \<Rightarrow> (sdk_state \<Rightarrow> sdk_state) \<Rightarrow> unit adapter_op" where
  \<comment> \<open>the pattern of a change under the lock, followed by \<open>self.store.save(&state)?\<close>\<close>
  "update_save sk f =
     followed_by (modify (\<lambda>s. s\<lparr>ad_mem := f (ad_mem s)\<rparr>)) (and_then (inspect ad_mem) (save sk))"

function chunks :: "nat \<Rightarrow> 'a list \<Rightarrow> 'a list list" where
  "chunks n xs = (if n = 0 \<or> xs = [] then [] else take n xs # chunks n (drop n xs))"
  by pat_completeness auto
termination
  by (relation "measure (length \<circ> snd)") auto

declare chunks.simps [simp del]

lemma concat_chunks: "0 < n \<Longrightarrow> concat (chunks n xs) = xs"
  by (induction n xs rule: chunks.induct) (subst chunks.simps, auto)

fun gather_each :: "('a \<Rightarrow> ('s, 'e, 'b list) fallible) \<Rightarrow> 'a list \<Rightarrow> ('s, 'e, 'b list) fallible" where
  \<comment> \<open>a loop that extends a list with the result of its body\<close>
  "gather_each f [] = ok []"
| "gather_each f (x # xs) = and_then (f x) (\<lambda>ys. and_then (gather_each f xs) (\<lambda>zs. ok (ys @ zs)))"

definition curvy_note_id :: "sdk \<Rightarrow> owned_note \<Rightarrow> string" where
  "curvy_note_id sk n = ''0x'' @ hex_bytes (be_bytes 32 (sk_note_id sk n))"

section \<open>Committing notes\<close>

definition commit_chunk :: "sdk \<Rightarrow> owned_note list \<Rightarrow> string list adapter_op" where
  "commit_chunk sk notes =
     and_then (traverse_m (\<lambda>n. and_then (note_status sk n) (\<lambda>st. ok (sk_note_id sk n, st))) notes)
       (\<lambda>stats. let ids = map fst (filter (\<lambda>(_, st). st \<noteq> 2) stats) in
          if ids = [] then ok [] else map_err (Err \<circ> Sdk) (ask sk (\<lambda>c. sk_commit sk c ids)))"

definition recover_pending :: "sdk \<Rightarrow> adapter_config \<Rightarrow> string list adapter_op" where
  "recover_pending sk cfg =
     and_then (inspect (\<lambda>s. sd_pending (ad_mem s)))
       (\<lambda>pending.
          let settle = update_save sk (\<lambda>st. st\<lparr>sd_pending := []\<rparr>) in
          if ac_submission cfg = RelayerSubmission
          then followed_by (only_if (pending \<noteq> []) settle) (ok [])
          else if pending = [] then ok []
          else followed_by (client sk cfg)
            (and_then (lift (traverse (owned_of sk) pending))
               (\<lambda>notes. and_then (gather_each (commit_chunk sk) (chunks (sk_max_commit sk) notes))
                  (\<lambda>ledger. followed_by settle (ok ledger)))))"

section \<open>The ambiguity of an older format\<close>

definition book_ambiguous :: "stored_note \<Rightarrow> sdk_state \<Rightarrow> sdk_state" where
  "book_ambiguous change st =
     st\<lparr>sd_funding := filter (\<lambda>n. n \<notin> set (sd_ambiguous_inputs st)) (sd_funding st) @ [change],
        sd_pending := sd_pending st @ sd_ambiguous_emitted st, sd_ambiguous := False,
        sd_ambiguous_inputs := [], sd_ambiguous_change := None, sd_ambiguous_emitted := []\<rparr>"

definition reconcile_ambiguous :: "sdk \<Rightarrow> adapter_config \<Rightarrow> bool adapter_op" where
  "reconcile_ambiguous sk cfg =
     followed_by (client sk cfg)
       (and_then (inspect ad_mem)
          (\<lambda>mem.
             if \<not> sd_ambiguous mem then ok True
             else if sd_ambiguous_inputs mem = [] then ok False
             else case sd_ambiguous_change mem of
               None \<Rightarrow> ok False
             | Some change \<Rightarrow>
                 and_then (lift (traverse (owned_of sk) (sd_ambiguous_emitted mem)))
                   (\<lambda>notes. and_then
                      (find_first (\<lambda>n. and_then (note_status sk n) (\<lambda>st. ok (known_status st))) notes)
                      (\<lambda>observed.
                         if observed = None then ok False
                         else followed_by (modify (\<lambda>s. s\<lparr>ad_mem := book_ambiguous change (ad_mem s)\<rparr>))
                           (and_then (completed_allocations sk (sd_ambiguous_ids mem))
                              (\<lambda>completed. followed_by (modify (\<lambda>s. s\<lparr>ad_mem := (ad_mem s)\<lparr>sd_ambiguous_ids := []\<rparr>\<rparr>))
                                 (followed_by (and_then (inspect ad_mem) (\<lambda>st. save_update sk st completed []))
                                    (followed_by (recover_pending sk cfg) (ok True)))))))))"

section \<open>Aggregations without a relayer\<close>

definition new_operator_attempt ::
  "aggregation_request \<Rightarrow> endpoints \<Rightarrow> owned_note list \<Rightarrow> stored_allocation list \<Rightarrow> operator_attempt" where
  "new_operator_attempt rq ep inputs records =
     \<lparr>oa_chain = ep_chain_id ep, oa_aggregator = ep_aggregator ep, oa_inputs = map stored_of inputs,
      oa_change = stored_of (ar_change rq), oa_emitted = nonzero_notes (ar_emitted rq), oa_ids = map sa_id records\<rparr>"

definition competes :: "operator_attempt \<Rightarrow> operator_attempt \<Rightarrow> bool" where
  \<comment> \<open>the check that a replacement is of the spend of the previous attempt\<close>
  "competes previous a \<longleftrightarrow>
     oa_inputs previous = oa_inputs a \<and> oa_ids previous = oa_ids a \<and> oa_chain previous = oa_chain a \<and>
     eq_ignore_case (oa_aggregator previous) (oa_aggregator a)"

definition book_operator :: "sdk \<Rightarrow> operator_attempt \<Rightarrow> sdk_state \<Rightarrow> adapter_error + sdk_state" where
  "book_operator sk a st =
     (case owned_of sk (oa_change a) of
        Inl e \<Rightarrow> Inl e
      | Inr change \<Rightarrow>
          Inr (st\<lparr>sd_operator := [],
                  sd_funding := filter (\<lambda>n. n \<notin> set (oa_inputs a)) (sd_funding st) @
                               (if on_amount change \<noteq> 0 then [oa_change a] else []),
                  sd_pending := sd_pending st @ oa_emitted a\<rparr>))"

definition finish_operator :: "sdk \<Rightarrow> nat option \<Rightarrow> unit adapter_op" where
  "finish_operator sk winner =
     and_then (inspect ad_mem)
       (\<lambda>mem.
          let attempts = sd_operator mem; index = (case winner of Some w \<Rightarrow> w | None \<Rightarrow> 0) in
          if length attempts \<le> index then ok ()
          else let attempt = attempts ! index in
            case winner of
              Some _ \<Rightarrow>
                and_then (lift (book_operator sk attempt mem))
                  (\<lambda>booked. and_then (completed_allocations sk (oa_ids attempt))
                     (\<lambda>completed. commit_state sk booked completed []))
            | None \<Rightarrow> commit_state sk (mem\<lparr>sd_operator := []\<rparr>) [] (oa_ids attempt))"

definition drop_operator_attempt :: "sdk \<Rightarrow> nat \<Rightarrow> unit adapter_op" where
  "drop_operator_attempt sk index =
     and_then (inspect ad_mem)
       (\<lambda>mem.
          let attempts = sd_operator mem in
          if length attempts = 1 then finish_operator sk None
          else if length attempts \<le> index then fail Panicked
          else commit_state sk (mem\<lparr>sd_operator := take index attempts @ drop (index + 1) attempts\<rparr>) [] [])"

definition submit_operator ::
  "sdk \<Rightarrow> adapter_config \<Rightarrow> endpoints \<Rightarrow> aggregation_request \<Rightarrow> owned_note list \<Rightarrow> stored_allocation list \<Rightarrow>
   string list adapter_op" where
  "submit_operator sk cfg ep rq inputs records =
     and_then (inspect ad_mem)
       (\<lambda>mem.
          let attempts = sd_operator mem; attempt = new_operator_attempt rq ep inputs records; index = length attempts in
          if attempts \<noteq> [] \<and> \<not> competes (last attempts) attempt then err replacement_error
          else followed_by (require (index < max_attempts) (Err RelayAttemptLimit))
            (followed_by (commit_state sk (mem\<lparr>sd_operator := attempts @ [attempt]\<rparr>) records [])
               (followed_by (and_then (inspect ad_disk) (\<lambda>disk. record_sent (Broadcast attempt disk)))
                  (and_then (catching (ask sk (\<lambda>c. sk_aggregate sk c rq)))
                     (\<lambda>r. case r of
                        Inr ledger \<Rightarrow>
                          followed_by
                            (only_if (0 < index)
                               (and_then (inspect (\<lambda>s. oa_emitted (sd_operator (ad_mem s) ! index)))
                                  (check_outputs_finalized sk cfg)))
                            (followed_by (finish_operator sk (Some index)) (ok ledger))
                      | Inl (m, ambiguous) \<Rightarrow>
                          followed_by (only_if (\<not> ambiguous) (drop_operator_attempt sk index)) (err (Sdk m)))))))"

definition retry_operator :: "sdk \<Rightarrow> adapter_config \<Rightarrow> string list adapter_op" where
  "retry_operator sk cfg =
     and_then (inspect (\<lambda>s. sd_operator (ad_mem s)))
       (\<lambda>attempts.
          if attempts = [] then err AmbiguousAllocation
          else let pending = last attempts in
            and_then (lift (traverse (owned_of sk) (oa_inputs pending)))
              (\<lambda>inputs. and_then (traverse_m (prepared_row sk) (oa_ids pending))
                 (\<lambda>records. and_then (lift (traverse (prover_allocation sk) records))
                    (\<lambda>allocations. and_then (client sk cfg)
                       (\<lambda>ep. and_then (fee_recipient sk cfg)
                          (\<lambda>collector. and_then
                             (map_err (Err \<circ> Sdk)
                                (ask sk (\<lambda>n. sk_build sk n
                                   \<lparr>bi_inputs = inputs, bi_allocations = allocations, bi_relay_fee = None,
                                    bi_fee_recipient = collector\<rparr>)))
                             (\<lambda>rq. and_then (submit_operator sk cfg ep rq inputs records)
                                (\<lambda>ledger. and_then (recover_pending sk cfg) (\<lambda>more. ok (ledger @ more))))))))))"

definition foreign_operator :: "endpoints \<Rightarrow> operator_attempt \<Rightarrow> bool" where
  "foreign_operator ep a \<longleftrightarrow> ep_chain_id ep \<noteq> oa_chain a \<or> \<not> eq_ignore_case (ep_aggregator ep) (oa_aggregator a)"

definition reconcile_operator :: "sdk \<Rightarrow> adapter_config \<Rightarrow> unit adapter_op" where
  "reconcile_operator sk cfg =
     and_then (inspect (\<lambda>s. sd_operator (ad_mem s)))
       (\<lambda>attempts.
          if attempts = [] then ok ()
          else and_then (client sk cfg)
            (\<lambda>ep.
               if list_ex (foreign_operator ep) attempts
               then err (InvalidValue ''pending aggregation belongs to another deployment'')
               else and_then
                 (find_first (\<lambda>(i, a). notes_known sk cfg (oa_emitted a)) (List.enumerate 0 attempts))
                 (\<lambda>found. case found of
                    Some (i, a) \<Rightarrow>
                      followed_by (only_if (1 < length attempts) (check_outputs_finalized sk cfg (oa_emitted a)))
                        (followed_by (finish_operator sk (Some i)) (followed_by (recover_pending sk cfg) (ok ())))
                  | None \<Rightarrow>
                      followed_by (require (length attempts < max_attempts) (Err RelayAttemptLimit))
                        (followed_by (retry_operator sk cfg) (ok ())))))"

section \<open>Intents of relayed submissions\<close>

definition journal_intent :: "sdk \<Rightarrow> string \<Rightarrow> relay_action \<Rightarrow> string \<Rightarrow> unit adapter_op" where
  "journal_intent sk intent action spend_key =
     update_save sk (\<lambda>st. st\<lparr>sd_intents := sd_intents st @
       [\<lparr>it_intent = intent, it_action = sk_action_name sk action, it_spend_key = spend_key\<rparr>]\<rparr>)"

definition clear_intent :: "sdk \<Rightarrow> string \<Rightarrow> unit adapter_op" where
  "clear_intent sk intent =
     update_save sk (\<lambda>st. st\<lparr>sd_intents := filter (\<lambda>it. it_intent it \<noteq> intent) (sd_intents st)\<rparr>)"

definition relay_submit :: "sdk \<Rightarrow> adapter_config \<Rightarrow> nat \<Rightarrow> withdrawal_request \<Rightarrow> unit adapter_op" where
  \<comment> \<open>the only action submitted this way is a withdrawal\<close>
  "relay_submit sk cfg chain rq =
     and_then (ask sk (\<lambda>n. Inr (uuid_v4 (sk_random sk n))))
       (\<lambda>intent.
          followed_by (journal_intent sk intent Withdrawal (wr_spend_key rq))
            (followed_by (and_then (inspect ad_disk) (\<lambda>disk. record_sent (WithdrawalPosted intent disk)))
               (and_then
                  (catching (submit sk
                     \<lparr>rq_action = Withdrawal, rq_chain = chain, rq_max_inputs = wr_max_inputs rq,
                      rq_circuit = wr_circuit rq, rq_proof = wr_proof rq, rq_signals = wr_signals rq,
                      rq_request_key = wr_request_key rq, rq_spend_key = wr_spend_key rq, rq_intent = intent\<rparr>))
                  (\<lambda>submitted.
                     and_then
                       (case submitted of
                          Inr sub \<Rightarrow> ok sub
                        | Inl e \<Rightarrow>
                            and_then (catching (by_intent sk intent chain))
                              (\<lambda>found. case found of
                                 Inr (Some recovered) \<Rightarrow> ok recovered
                               | Inr None \<Rightarrow> followed_by (clear_intent sk intent) (err (Relay e))
                               | Inl _ \<Rightarrow> err (Relay e)))
                       (\<lambda>sub. followed_by (relayed (await_inclusion sk sub (ac_relay_timeout cfg)))
                          (clear_intent sk intent))))))"

end
