(* ===== verification/Curvy_Shield.thy ===== *)
theory Curvy_Shield
  imports Curvy_Adapter
begin

text \<open>
  Shielding the float (\<open>direct_shield\<close> and \<open>shield\<close> of \<open>src/src/pix/pools/curvy/sdk.rs\<close>). The note is
  journalled before the Safe is asked to send, and a journalled note is checked against the chain
  before it would be shielded again. What the Safe, the portal and the prover do are arguments.
\<close>

section \<open>Through the shield router\<close>

definition direct_shield_observations :: nat where
  "direct_shield_observations = 3"

definition observation_interval :: duration where
  "observation_interval = secs 1"

definition parse_address :: "sdk \<Rightarrow> string \<Rightarrow> string \<Rightarrow> string adapter_op" where
  "parse_address sk name text =
     lift (case sk_parse_eth sk text of Inl e \<Rightarrow> Inl (InvalidValue (name @ '': '' @ e)) | Inr a \<Rightarrow> Inr a)"

definition check_vault_token :: "sdk \<Rightarrow> adapter_config \<Rightarrow> endpoints \<Rightarrow> unit adapter_op" where
  "check_vault_token sk cfg ep =
     and_then (adapter_token sk cfg)
       (\<lambda>tok. and_then (inspect (\<lambda>s. vt_configured (tn_token s)))
          (\<lambda>configured.
             if \<not> configured then ok ()
             else and_then
               (map_err (\<lambda>e. Err (Discovery (''vault token '' @ show_nat tok @ '': '' @ e)))
                  (ask sk (\<lambda>n. bk_token sk n (show_nat tok))))
               (\<lambda>address. require (eq_ignore_case address (ep_token_address ep))
                  (Err (InvalidValue
                     (''Curvy vault token '' @ show_nat tok @ '' is '' @ address @ '', but the Safe holds '' @
                      ep_token_address ep @ '': the configured token id is wrong for this deployment''))))))"

definition shield_router_checked :: "sdk \<Rightarrow> adapter_config \<Rightarrow> endpoints \<Rightarrow> string adapter_op" where
  "shield_router_checked sk cfg ep =
     and_then (lift (require_shield_router ep))
       (\<lambda>text. and_then (parse_address sk ''shield router address'' text)
          (\<lambda>router. followed_by (check_vault_token sk cfg ep) (ok router)))"

fun observe_shield :: "sdk \<Rightarrow> owned_note \<Rightarrow> nat \<Rightarrow> nat adapter_op" where
  \<comment> \<open>the last argument counts the observations left\<close>
  "observe_shield sk note 0 =
     err (Funding
       (''the direct shield transaction confirmed, but the Curvy aggregator does not know its note: the Safe's '' @
        ''inner call failed, and the router reverted it, so the float is still in the Safe. Check the Safe's '' @
        ''wxHOPR balance and that the deployment has `directShieldEnabled` set.''))"
| "observe_shield sk note (Suc k) =
     and_then (note_status sk note)
       (\<lambda>st. if known_status st then ok st
             else followed_by (only_if (0 < k) (modify (sleep observation_interval))) (observe_shield sk note k))"

definition observe_direct_shield :: "sdk \<Rightarrow> owned_note \<Rightarrow> nat adapter_op" where
  "observe_direct_shield sk note = observe_shield sk note direct_shield_observations"

definition book_shield :: "sdk \<Rightarrow> owned_note \<Rightarrow> nat \<Rightarrow> (sdk_state \<Rightarrow> sdk_state) \<Rightarrow> unit adapter_op" where
  \<comment> \<open>the note enters the funding, once; the last argument clears what was in flight\<close>
  "book_shield sk note observed clear =
     and_then (inspect ad_mem)
       (\<lambda>mem. and_then (lift (traverse (owned_of sk) (sd_funding mem)))
          (\<lambda>funding.
             let stored = stored_of note; known = list_ex (\<lambda>n. curvy_note_id sk n = curvy_note_id sk note) funding in
             update_save sk
               (\<lambda>st. clear (st\<lparr>sd_funding := sd_funding st @ (if known then [] else [stored]),
                               sd_pending := sd_pending st @
                                 (if observed \<noteq> 2 \<and> stored \<notin> set (sd_pending st) then [stored] else [])\<rparr>))))"

definition prepare_direct :: "sdk \<Rightarrow> adapter_config \<Rightarrow> endpoints \<Rightarrow> nat \<Rightarrow> (owned_note \<times> string option) adapter_op" where
  \<comment> \<open>the note in flight, or a new one that is journalled\<close>
  "prepare_direct sk cfg ep gross =
     and_then (inspect (\<lambda>s. sd_direct (ad_mem s)))
       (\<lambda>in_flight. case in_flight of
          Some stored \<Rightarrow>
            if ds_gross stored = show_nat gross
            then and_then (lift (owned_of sk (ds_note stored))) (\<lambda>note. ok (note, None))
            else err ShieldInProgress
        | None \<Rightarrow>
            and_then (shield_router_checked sk cfg ep)
              (\<lambda>router. and_then (adapter_token sk cfg)
                 (\<lambda>tok. and_then (map_err (Err \<circ> Sdk) (ask sk (\<lambda>c. sk_prepare_shield sk c gross tok)))
                    (\<lambda>note. followed_by
                       (update_save sk (\<lambda>st. st\<lparr>sd_direct := Some \<lparr>ds_note = stored_of note, ds_gross = show_nat gross\<rparr>\<rparr>))
                       (ok (note, Some router))))))"

definition send_shield ::
  "sdk \<Rightarrow> adapter_config \<Rightarrow> endpoints \<Rightarrow> nat \<Rightarrow> owned_note \<Rightarrow> string option \<Rightarrow> unit adapter_op" where
  "send_shield sk cfg ep gross note router =
     and_then (case router of Some r \<Rightarrow> ok r | None \<Rightarrow> shield_router_checked sk cfg ep)
       (\<lambda>router. and_then (parse_address sk ''token address'' (ep_token_address ep))
          (\<lambda>tok. and_then (parse_address sk ''aggregator address'' (ep_aggregator ep))
             (\<lambda>aggregator. and_then (map_err (Err \<circ> Sdk) (lift_result (sk_calldata sk note gross)))
                (\<lambda>calldata. followed_by (and_then (inspect ad_disk) (\<lambda>disk. record_sent (ShieldSent note disk)))
                   (map_err (Err \<circ> Funding)
                      (ask sk (\<lambda>c. sk_shield sk c
                         \<lparr>sc_calldata = calldata, sc_token = tok, sc_router = router, sc_aggregator = aggregator,
                          sc_gross = gross, sc_note = note\<rparr>)))))))"

definition direct_shield :: "sdk \<Rightarrow> adapter_config \<Rightarrow> nat \<Rightarrow> string list adapter_op" where
  "direct_shield sk cfg gross =
     (if \<not> ac_shielder cfg
      then err (InvalidValue ''direct shielding was selected but the pool was built without a shielder'')
      else and_then (client sk cfg)
        (\<lambda>ep. and_then (prepare_direct sk cfg ep gross)
           (\<lambda>(note, router). and_then (note_status sk note)
              (\<lambda>observed.
                 and_then
                   (if known_status observed then ok observed
                    else followed_by (send_shield sk cfg ep gross note router) (observe_direct_shield sk note))
                   (\<lambda>observed.
                      followed_by (book_shield sk note observed (\<lambda>st. st\<lparr>sd_direct := None\<rparr>))
                        (recover_pending sk cfg))))))"

section \<open>Through the entry portal\<close>

definition prepared_of :: "sdk \<Rightarrow> stored_shield \<Rightarrow> adapter_error + prepared_deposit" where
  "prepared_of sk sh =
     (case parse_uint u128_max (sh_gross sh) of
        Inl e \<Rightarrow> Inl (InvalidValue (''shield gross: '' @ e))
      | Inr gross \<Rightarrow>
          (case owned_of sk (sh_note sh) of
             Inl e \<Rightarrow> Inl e
           | Inr note \<Rightarrow>
               Inr \<lparr>pd_note = note, pd_gross = gross, pd_recovery = sh_recovery sh, pd_portal = sh_portal sh\<rparr>))"

definition portal_in_flight :: "sdk \<Rightarrow> adapter_config \<Rightarrow> nat \<Rightarrow> string \<Rightarrow> stored_shield adapter_op" where
  "portal_in_flight sk cfg gross recovery =
     and_then (inspect (\<lambda>s. sd_shield (ad_mem s)))
       (\<lambda>in_flight. case in_flight of
          Some sh \<Rightarrow> if sh_gross sh \<noteq> show_nat gross \<or> sh_recovery sh \<noteq> recovery then err ShieldInProgress else ok sh
        | None \<Rightarrow>
            and_then (adapter_token sk cfg)
              (\<lambda>tok. and_then (map_err (Err \<circ> Sdk) (ask sk (\<lambda>c. sk_prepare_deposit sk c gross tok recovery)))
                 (\<lambda>p.
                    let sh = \<lparr>sh_note = stored_of (pd_note p), sh_gross = show_nat (pd_gross p), sh_recovery = pd_recovery p,
                              sh_portal = pd_portal p, sh_stage = PreparedShield\<rparr> in
                    followed_by (update_save sk (\<lambda>st. st\<lparr>sd_shield := Some sh\<rparr>)) (ok sh))))"

definition portal_balance :: "sdk \<Rightarrow> endpoints \<Rightarrow> prepared_deposit \<Rightarrow> nat adapter_op" where
  "portal_balance sk ep p =
     map_err (Err \<circ> Sdk) (ask sk (\<lambda>c. sk_erc20_balance sk c (ep_token_address ep) (pd_portal p)))"

definition fund_portal :: "sdk \<Rightarrow> endpoints \<Rightarrow> stored_shield \<Rightarrow> prepared_deposit \<Rightarrow> nat \<Rightarrow> unit adapter_op" where
  "fund_portal sk ep sh p gross =
     and_then (portal_balance sk ep p)
       (\<lambda>before. and_then
          (if before = 0
           then and_then (parse_address sk ''shield portal address'' (pd_portal p))
             (\<lambda>portal. followed_by (map_err (Err \<circ> Funding) (ask sk (\<lambda>c. sk_fund sk c portal gross)))
                (portal_balance sk ep p))
           else ok before)
          (\<lambda>now.
             if now \<noteq> gross then err (UnexpectedShieldFunding now gross)
             else update_save sk (\<lambda>st. st\<lparr>sd_shield := Some (sh\<lparr>sh_stage := FundedShield\<rparr>)\<rparr>)))"

definition portal_shield :: "sdk \<Rightarrow> adapter_config \<Rightarrow> endpoints \<Rightarrow> nat \<Rightarrow> string \<Rightarrow> string list adapter_op" where
  "portal_shield sk cfg ep gross recovery =
     and_then (portal_in_flight sk cfg gross recovery)
       (\<lambda>sh. and_then (lift (prepared_of sk sh))
          (\<lambda>p. and_then (note_status sk (pd_note p))
             (\<lambda>observed. and_then
                (if known_status observed then ok []
                 else followed_by (only_if (sh_stage sh = PreparedShield) (fund_portal sk ep sh p gross))
                   (and_then (map_err (Err \<circ> Sdk) (ask sk (\<lambda>c. sk_shield_portal sk c p))) (\<lambda>entry. ok [entry])))
                (\<lambda>ledger. followed_by (book_shield sk (pd_note p) observed (\<lambda>st. st\<lparr>sd_shield := None\<rparr>))
                   (and_then (recover_pending sk cfg) (\<lambda>more. ok (ledger @ more)))))))"

definition shield :: "sdk \<Rightarrow> adapter_config \<Rightarrow> nat \<Rightarrow> string \<Rightarrow> string list adapter_op" where
  "shield sk cfg gross recovery =
     and_then (client sk cfg)
       (\<lambda>ep. followed_by (reconcile_relay_aggregation sk cfg)
          (followed_by (recover_pending sk cfg)
             (and_then (inspect ad_mem)
                (\<lambda>mem.
                   if sd_funding mem \<noteq> [] \<and> sd_shield mem = None \<and> sd_direct mem = None then ok []
                   else if ac_shielding cfg = DirectShielding then direct_shield sk cfg gross
                   else portal_shield sk cfg ep gross recovery))))"

definition ensure_funded :: "sdk \<Rightarrow> adapter_config \<Rightarrow> balance \<Rightarrow> string \<Rightarrow> unit adapter_op" where
  "ensure_funded sk cfg gross recovery =
     and_then (lift (balance_u128 (sk_show_balance sk) gross))
       (\<lambda>gross. followed_by (shield sk cfg gross recovery) (ok ()))"

end
