(* ===== verification/Curvy_Allocate.thy ===== *)
theory Curvy_Allocate
  imports Curvy_Adapter
begin

text \<open>
  Allocation, withdrawal and the consistency of the stored state (\<open>allocate_all\<close>, \<open>withdraw_notes\<close>,
  \<open>chain_state_is_consistent\<close> and \<open>reset_chain_state\<close> of \<open>src/src/pix/pools/curvy/sdk.rs\<close>).
\<close>

section \<open>Allocations\<close>

type_synonym allocation_item = "pix_id \<times> nat \<times> scan_key \<times> balance"

definition max_allocations :: nat where
  "max_allocations = 7"

definition stored_allocation_new :: "sdk \<Rightarrow> allocation_item \<Rightarrow> adapter_error + stored_allocation" where
  "stored_allocation_new sk = (\<lambda>(i, addr, scan, amount).
     if length (sk_address_bytes sk addr) \<noteq> 32 then Inl (InvalidValue ''BJJ address must be 32 bytes'')
     else Inr \<lparr>sa_id = i, sa_address = sk_address_bytes sk addr, sa_scan_key = sk_scan_bytes sk scan,
               sa_amount = show_nat amount, sa_stage = PreparedAllocation\<rparr>)"

definition row_matches :: "sdk \<Rightarrow> allocation_item \<Rightarrow> stored_allocation \<Rightarrow> bool" where
  "row_matches sk = (\<lambda>(i, addr, scan, amount) row.
     sa_address row = sk_address_bytes sk addr \<and> sa_scan_key row = sk_scan_bytes sk scan \<and> sa_amount row = show_nat amount)"

definition prover_item :: "sdk \<Rightarrow> allocation_item \<Rightarrow> adapter_error + (viewer \<times> (fr \<times> fr)) \<times> nat" where
  "prover_item sk = (\<lambda>(i, addr, scan, amount).
     case balance_u128 (sk_show_balance sk) amount of
       Inl e \<Rightarrow> Inl e
     | Inr amount \<Rightarrow> (case recipient sk addr scan of Inl e \<Rightarrow> Inl e | Inr r \<Rightarrow> Inr (r, amount)))"

definition funding_candidate :: "sdk \<Rightarrow> stored_note \<Rightarrow> adapter_error + owned_note" where
  "funding_candidate sk stored =
     (case owned_of sk stored of
        Inl e \<Rightarrow> Inl e
      | Inr n \<Rightarrow> (case amount_u128 ''funding amount does not fit u128'' n of Inl e \<Rightarrow> Inl e | Inr _ \<Rightarrow> Inr n))"

definition tagged :: "sdk \<Rightarrow> 'a adapter_op \<Rightarrow> 'a adapter_op" where
  "tagged sk =
     map_err (\<lambda>x. case x of Err e \<Rightarrow> Err (tag_after_submission (bk_show_error sk) e) | Panicked \<Rightarrow> Panicked)"

definition chunk_fee :: "sdk \<Rightarrow> adapter_config \<Rightarrow> endpoints \<Rightarrow> (identity \<times> nat) option adapter_op" where
  "chunk_fee sk cfg ep =
     (case ac_submission cfg of
        RelayerSubmission \<Rightarrow>
          if ac_relay cfg then and_then (adapter_token sk cfg) (\<lambda>tok. relay_fee_recipient sk (ep_chain_id ep) tok)
          else err (InvalidValue ''relayed submission was selected but the pool was built without a relayer'')
      | OperatorSubmission \<Rightarrow> ok None)"

definition build_chunk ::
  "sdk \<Rightarrow> adapter_config \<Rightarrow> endpoints \<Rightarrow> allocation_item list \<Rightarrow>
   (aggregation_request \<times> owned_note list \<times> stored_allocation list) adapter_op" where
  \<comment> \<open>everything of a chunk before it is journalled\<close>
  "build_chunk sk cfg ep chunk =
     and_then (chunk_fee sk cfg ep)
       (\<lambda>relay_fee. and_then (fee_recipient sk cfg)
          (\<lambda>collector. and_then (lift (traverse (prover_item sk) chunk))
             (\<lambda>allocations. and_then (lift (checked_sum ''allocation total overflows u128'' (map snd allocations) 0))
                (\<lambda>amount. and_then (adapter_token sk cfg)
                   (\<lambda>tok. and_then (map_err (Err \<circ> Sdk) (ask sk (\<lambda>c. sk_minimum_input sk c tok amount)))
                      (\<lambda>minimum. and_then (inspect (\<lambda>s. sd_funding (ad_mem s)))
                         (\<lambda>funding. and_then (lift (traverse (funding_candidate sk) funding))
                            (\<lambda>candidates. and_then (lift (choose_funding minimum candidates))
                               (\<lambda>inputs. and_then (lift (traverse (stored_allocation_new sk) chunk))
                                  (\<lambda>records. and_then
                                     (map_err (Err \<circ> Sdk)
                                        (ask sk (\<lambda>n. sk_build sk n
                                           \<lparr>bi_inputs = inputs, bi_allocations = allocations,
                                            bi_relay_fee = relay_fee, bi_fee_recipient = collector\<rparr>)))
                                     (\<lambda>rq. ok (rq, inputs, records))))))))))))"

definition allocate_chunk :: "sdk \<Rightarrow> adapter_config \<Rightarrow> endpoints \<Rightarrow> allocation_item list \<Rightarrow> string list adapter_op" where
  "allocate_chunk sk cfg ep chunk =
     and_then (build_chunk sk cfg ep chunk)
       (\<lambda>(rq, inputs, records). and_then
          (if ac_submission cfg = RelayerSubmission
           then followed_by (prepare_relay_aggregation sk rq ep inputs records)
             (followed_by (tagged sk (reconcile_relay_aggregation sk cfg)) (ok []))
           else submit_operator sk cfg ep rq inputs records)
          (\<lambda>receipts. and_then (recover_pending sk cfg) (\<lambda>more. ok (receipts @ more))))"

fun allocate_chunks ::
  "sdk \<Rightarrow> adapter_config \<Rightarrow> endpoints \<Rightarrow> bool \<Rightarrow> allocation_item list list \<Rightarrow> string list adapter_op" where
  \<comment> \<open>the flag says whether anything was submitted ahead of the chunk\<close>
  "allocate_chunks sk cfg ep submitted [] = ok []"
| "allocate_chunks sk cfg ep submitted (c # cs) =
     and_then ((if submitted then tagged sk else id) (allocate_chunk sk cfg ep c))
       (\<lambda>receipts. and_then (allocate_chunks sk cfg ep True cs) (\<lambda>more. ok (receipts @ more)))"

definition journalled_ids :: "sdk_state \<Rightarrow> pix_id set" where
  "journalled_ids st =
     (\<Union>a \<in> set (sd_relay st). set (ra_ids a)) \<union> (\<Union>a \<in> set (sd_operator st). set (oa_ids a)) \<union> set (sd_ambiguous_ids st)"

fun sift :: "sdk \<Rightarrow> pix_id set \<Rightarrow> allocation_item list \<Rightarrow> (allocation_item list \<times> bool) adapter_op" where
  \<comment> \<open>the deposits still to do, and whether one was completed earlier\<close>
  "sift sk journalled [] = ok ([], False)"
| "sift sk journalled (d # ds) =
     and_then (allocation sk (fst d))
       (\<lambda>row. case row of
          Some existing \<Rightarrow>
            if \<not> row_matches sk d existing then err ConflictingAllocation
            else if sa_stage existing = CompletedAllocation
            then and_then (sift sk journalled ds) (\<lambda>(todo, _). ok (todo, True))
            else if sa_id existing \<in> journalled then err AmbiguousAllocation
            else and_then (sift sk journalled ds) (\<lambda>(todo, earlier). ok (d # todo, earlier))
        | None \<Rightarrow> and_then (sift sk journalled ds) (\<lambda>(todo, earlier). ok (d # todo, earlier)))"

definition settle_journals :: "sdk \<Rightarrow> adapter_config \<Rightarrow> unit adapter_op" where
  \<comment> \<open>whatever an earlier run may have broadcast comes first\<close>
  "settle_journals sk cfg =
     followed_by (tagged sk (reconcile_relay_aggregation sk cfg))
       (and_then (inspect (\<lambda>s. sd_ambiguous (ad_mem s)))
          (\<lambda>ambiguous. and_then (if ambiguous then reconcile_ambiguous sk cfg else ok True)
             (\<lambda>clear. followed_by (require clear (Err AmbiguousAllocation)) (tagged sk (reconcile_operator sk cfg)))))"

definition allocate_all :: "sdk \<Rightarrow> adapter_config \<Rightarrow> allocation_item list \<Rightarrow> string list adapter_op" where
  "allocate_all sk cfg deposits =
     and_then (client sk cfg)
       (\<lambda>ep. followed_by (settle_journals sk cfg)
          (and_then (inspect (\<lambda>s. journalled_ids (ad_mem s)))
             (\<lambda>journalled. and_then (sift sk journalled deposits)
                (\<lambda>(todo, earlier). and_then (recover_pending sk cfg)
                   (\<lambda>receipts. and_then
                      (allocate_chunks sk cfg ep (receipts \<noteq> [] \<or> earlier) (chunks max_allocations todo))
                      (\<lambda>more. ok (receipts @ more)))))))"

definition allocate :: "sdk \<Rightarrow> adapter_config \<Rightarrow> allocation_item list \<Rightarrow> unit adapter_op" where
  "allocate sk cfg deposits = followed_by (allocate_all sk cfg deposits) (ok ())"

section \<open>Withdrawals\<close>

record withdrawal_outcome =
  wo_spent :: "string list"
  wo_amount :: balance

definition max_withdrawal_inputs :: nat where
  "max_withdrawal_inputs = 10"

definition withdraw_chunk :: "sdk \<Rightarrow> adapter_config \<Rightarrow> endpoints \<Rightarrow> string \<Rightarrow> owned_note list \<Rightarrow> nat adapter_op" where
  "withdraw_chunk sk cfg ep dst notes =
     and_then (map_err (Err \<circ> Sdk) (ask sk (\<lambda>c. sk_build_withdrawal sk c notes dst)))
       (\<lambda>rq. case ac_submission cfg of
          RelayerSubmission \<Rightarrow>
            if ac_relay cfg then followed_by (relay_submit sk cfg (ep_chain_id ep) rq) (ok (wr_delivered rq))
            else err (InvalidValue ''relayed submission was selected but the pool was built without a relayer'')
        | OperatorSubmission \<Rightarrow>
            and_then (map_err (Err \<circ> Sdk) (ask sk (\<lambda>c. sk_withdraw sk c rq))) (\<lambda>(amount, _). ok amount))"

fun withdraw_chunks ::
  "sdk \<Rightarrow> adapter_config \<Rightarrow> endpoints \<Rightarrow> string \<Rightarrow> owned_note list list \<Rightarrow> nat \<Rightarrow> nat adapter_op" where
  "withdraw_chunks sk cfg ep dst [] withdrawn = ok withdrawn"
| "withdraw_chunks sk cfg ep dst (c # cs) withdrawn =
     and_then (withdraw_chunk sk cfg ep dst c)
       (\<lambda>amount. withdraw_chunks sk cfg ep dst cs (min u128_max (withdrawn + amount)))"

definition withdraw_notes :: "sdk \<Rightarrow> adapter_config \<Rightarrow> owned_note list \<Rightarrow> string \<Rightarrow> withdrawal_outcome adapter_op" where
  "withdraw_notes sk cfg notes dst =
     and_then (client sk cfg)
       (\<lambda>ep. and_then (withdraw_chunks sk cfg ep dst (chunks max_withdrawal_inputs notes) 0)
          (\<lambda>withdrawn. ok \<lparr>wo_spent = map (curvy_note_id sk) notes, wo_amount = withdrawn\<rparr>))"

definition withdraw ::
  "sdk \<Rightarrow> adapter_config \<Rightarrow> committed_note list \<Rightarrow> string \<Rightarrow> balance option \<Rightarrow> withdrawal_outcome adapter_op" where
  "withdraw sk cfg notes dst amount =
     and_then (lift (select_notes (sk_show_balance sk) notes amount)) (\<lambda>owned. withdraw_notes sk cfg owned dst)"

section \<open>Consistency with the deployment\<close>

definition chain_state_is_consistent :: "sdk \<Rightarrow> adapter_config \<Rightarrow> bool adapter_op" where
  "chain_state_is_consistent sk cfg =
     and_then (inspect ad_mem)
       (\<lambda>st.
          let attempts = sd_relay st;
              funding = filter (\<lambda>n. \<not> list_ex (\<lambda>a. n \<in> set (ra_inputs a)) attempts) (sd_funding st);
              notes_exist =
                (if funding = [] \<and> sd_pending st = [] then ok True
                 else followed_by (client sk cfg)
                   (and_then
                      (find_first
                         (\<lambda>stored. and_then (lift (owned_of sk stored)) (\<lambda>n. and_then (note_status sk n) (\<lambda>x. ok (x = 0))))
                         (funding @ sd_pending st))
                      (\<lambda>missing. ok (missing = None)))) in
          if attempts = [] then notes_exist
          else and_then (client sk cfg)
            (\<lambda>ep.
               if list_ex (foreign ep) attempts then ok False
               else and_then (notes_known sk cfg (ra_inputs (hd attempts)))
                 (\<lambda>inputs_known.
                    if inputs_known then notes_exist
                    else and_then
                      (find_first (\<lambda>a. if ra_attempted a then notes_known sk cfg (ra_emitted a) else ok False) attempts)
                      (\<lambda>landed. if landed = None then ok False else notes_exist))))"

definition reset_chain_state :: "sdk \<Rightarrow> unit adapter_op" where
  "reset_chain_state sk =
     followed_by (modify (\<lambda>s. s\<lparr>ad_mem := sdk_default\<lparr>sd_spender := sd_spender (ad_mem s)\<rparr>\<rparr>))
       (followed_by (db_tx sk) (modify (\<lambda>s. s\<lparr>ad_disk := ad_mem s, ad_rows := []\<rparr>)))"

end
