(* ===== verification/Allocate_Safety.thy ===== *)
theory Allocate_Safety
  imports Curvy_Allocate Journal_Safety
begin

text \<open>
  The safety of allocation: a failed call whose error says that no funds moved has handed over nothing
  for its deposits, and a successful call has every deposit recorded as completed. \<open>never_free\<close> is the
  contract of the steps after which such an error must not come; \<open>advance\<close> is what the settlement of
  the journals leaves behind.
\<close>

section \<open>Errors that say that no funds moved\<close>

definition fund_free :: "adapter_error \<Rightarrow> bool" where
  "fund_free e \<longleftrightarrow> curvy_moved_no_funds (Adapter (AdapterError e))"

definition never_free :: "('s, adapter_error stop, 'a) fallible \<Rightarrow> bool" where
  "never_free m \<longleftrightarrow> (\<forall>s e. fst (m s) = Inl (Err e) \<longrightarrow> \<not> fund_free e)"

definition only_prover_refuses :: "sdk \<Rightarrow> bool" where
  \<comment> \<open>no other call of the SDK fails with a text of the prover's refusals\<close>
  "only_prover_refuses sk \<longleftrightarrow>
     (\<forall>n m. sk_db sk n = Some m \<longrightarrow> \<not> is_pre_submission_refusal m) \<and>
     (\<forall>n i m. sk_note_status sk n i = Inl m \<longrightarrow> \<not> is_pre_submission_refusal m) \<and>
     (\<forall>n rq m b. sk_aggregate sk n rq = Inl (m, b) \<longrightarrow> \<not> is_pre_submission_refusal m) \<and>
     (\<forall>n ids m. sk_commit sk n ids = Inl m \<longrightarrow> \<not> is_pre_submission_refusal m) \<and>
     (\<forall>n m. sk_snapshot sk n = SnapshotFailed m \<longrightarrow> \<not> is_pre_submission_refusal m)"

named_theorems free_intros "structural rules for steps that never report that no funds moved"

lemma fund_free_simps [simp]:
  "\<not> fund_free (InvalidValue m)" "\<not> fund_free (Discovery m)" "\<not> fund_free (Relay x)" "\<not> fund_free AmbiguousAllocation"
  "\<not> fund_free ConflictingAllocation" "\<not> fund_free RelayAttemptLimit" "\<not> fund_free RelayFinalityPending"
  "\<not> fund_free (RelayFinalityUnavailable m)" "\<not> fund_free replacement_error"
  "fund_free (Sdk t) \<longleftrightarrow> is_pre_submission_refusal t"
  by (simp_all add: fund_free_def replacement_error_def)

lemma never_basic [free_intros]:
  "never_free (ok a)" "never_free (inspect f)" "never_free (modify g)" "\<not> fund_free e \<Longrightarrow> never_free (err e)"
  "never_free (fail Panicked)"
  by (simp_all add: never_free_def ok_def inspect_def Fallible.modify_def err_def fail_def)

lemma never_lift [free_intros]: "(\<And>e. r = Inl e \<Longrightarrow> \<not> fund_free e) \<Longrightarrow> never_free (lift r)"
  by (cases r) (simp_all add: never_free_def lift_def lift_result_def)

lemma never_require [free_intros]: "(\<And>e. x = Err e \<Longrightarrow> \<not> fund_free e) \<Longrightarrow> never_free (require b x)"
  by (simp add: never_free_def require_def ok_def fail_def)

lemma never_and_then [free_intros]: "never_free m \<Longrightarrow> (\<And>a. never_free (f a)) \<Longrightarrow> never_free (and_then m f)"
proof (unfold never_free_def, intro allI impI)
  fix s e
  assume m: "\<forall>s e. fst (m s) = Inl (Err e) \<longrightarrow> \<not> fund_free e"
    and f: "\<And>a. \<forall>s e. fst (f a s) = Inl (Err e) \<longrightarrow> \<not> fund_free e"
    and e: "fst (and_then m f s) = Inl (Err e)"
  obtain r s1 where "m s = (r, s1)" by fastforce
  with e m [rule_format, of s e] f [rule_format, of _ s1 e] show "\<not> fund_free e"
    by (auto simp: and_then_def split: sum.splits)
qed

lemma never_followed_by [free_intros]: "never_free m \<Longrightarrow> never_free n \<Longrightarrow> never_free (followed_by m n)"
  by (simp add: followed_by_def never_and_then)

lemma never_only_if [free_intros]: "(b \<Longrightarrow> never_free m) \<Longrightarrow> never_free (only_if b m)"
  by (simp add: only_if_def never_basic)

lemma never_map_err:
  "(\<And>x e. f x = Err e \<Longrightarrow> \<not> fund_free e) \<Longrightarrow> never_free (map_err f m)"
  by (auto simp: never_free_def map_err_def split: prod.splits sum.splits)

lemma never_random [free_intros]: "never_free (ask sk (\<lambda>n. Inr (f n)))"
  by (simp add: never_free_def ask_def)

lemma never_ask:
  "(\<And>n e. f n = Inl e \<Longrightarrow> \<not> is_pre_submission_refusal e) \<Longrightarrow> never_free (map_err (Err \<circ> Sdk) (ask sk f))"
  by (auto simp: never_free_def map_err_def ask_def split: prod.splits sum.splits)

lemma never_cases [free_intros]:
  "(b \<Longrightarrow> never_free m) \<Longrightarrow> (\<not> b \<Longrightarrow> never_free n) \<Longrightarrow> never_free (if b then m else n)"
  "(x = None \<Longrightarrow> never_free m) \<Longrightarrow> (\<And>a. x = Some a \<Longrightarrow> never_free (f a)) \<Longrightarrow>
   never_free (case x of None \<Rightarrow> m | Some a \<Rightarrow> f a)"
  "(\<And>a. y = Inl a \<Longrightarrow> never_free (g a)) \<Longrightarrow> (\<And>b. y = Inr b \<Longrightarrow> never_free (h b)) \<Longrightarrow>
   never_free (case y of Inl a \<Rightarrow> g a | Inr b \<Rightarrow> h b)"
  "(\<And>a b. z = (a, b) \<Longrightarrow> never_free (k a b)) \<Longrightarrow> never_free (case z of (a, b) \<Rightarrow> k a b)"
  by (simp split: option.split sum.split prod.split)+

lemma never_loops [free_intros]:
  "(\<And>x. never_free (f x)) \<Longrightarrow> never_free (for_each f xs)"
  "(\<And>x. never_free (g x)) \<Longrightarrow> never_free (find_first g xs)"
  "(\<And>x. never_free (h x)) \<Longrightarrow> never_free (traverse_m h xs)"
  "(\<And>x. never_free (k x)) \<Longrightarrow> never_free (gather_each k xs)"
  by (induction xs) (auto intro!: free_intros)

lemma never_tagged [free_intros]: "never_free (tagged sk m)"
  unfolding tagged_def
proof (rule never_map_err)
  fix x e
  assume "(case x of Err e \<Rightarrow> Err (tag_after_submission (bk_show_error sk) e) | Panicked \<Rightarrow> Panicked) = Err e"
  then show "\<not> fund_free e" using tag_after_submission_sound by (auto simp: fund_free_def split: stop.splits)
qed

lemma traverse_error: "traverse f xs = Inl e \<Longrightarrow> \<exists>x. f x = Inl e"
  by (induction xs) (auto split: sum.splits)

lemma owned_of_error: "owned_of sk n = Inl e \<Longrightarrow> \<not> fund_free e"
  by (auto simp: owned_of_def note_field_def split: sum.splits prod.splits dest!: traverse_error)

lemma owned_list_error: "traverse (owned_of sk) ns = Inl e \<Longrightarrow> \<not> fund_free e"
  by (drule traverse_error) (auto dest: owned_of_error)

lemma never_client [free_intros]: "never_free (client sk cfg)"
proof -
  have "endpoints_of cs i = Inl e \<Longrightarrow> \<not> fund_free e" for cs i e
    by (auto simp: endpoints_of_def contract_def split: sum.splits option.splits if_splits)
  then have "never_free (map_err Err (discover sk) :: endpoints adapter_op)"
    by (auto simp: never_free_def discover_def map_err_def and_then_def ask_def fail_def lift_result_def
        split: prod.splits sum.splits)
  then show ?thesis
    unfolding client_def Let_def by (auto intro!: free_intros split: note_source.split)
qed

lemma never_db [free_intros]:
  assumes "only_prover_refuses sk"
  shows "never_free (db_tx sk)" "never_free (note_status sk n)"
  using assms unfolding db_tx_def note_status_def
  by (auto intro!: never_ask simp: only_prover_refuses_def split: option.splits)

lemma never_store [free_intros]:
  assumes "only_prover_refuses sk"
  shows "never_free (save_update sk st a i)" "never_free (commit_state sk st a i)" "never_free (allocation sk j)"
    "never_free (prepared_row sk j)" "never_free (completed_allocations sk is)" "never_free (update_save sk f)"
  unfolding save_update_def commit_state_def allocation_def prepared_row_def completed_allocations_def update_save_def save_def
  by (auto intro!: free_intros simp: assms)

lemma never_finalized [free_intros]:
  assumes "only_prover_refuses sk"
  shows "never_free (check_outputs_finalized sk cfg emitted)"
proof -
  have "never_free (and_then (ask sk (\<lambda>c. Inr (sk_snapshot sk c)))
      (\<lambda>answer. case answer of
         SnapshotTimeout \<Rightarrow> err (RelayFinalityUnavailable t)
       | SnapshotFailed m \<Rightarrow> err (Sdk m)
       | Snapshot None \<Rightarrow> err (RelayFinalityUnavailable u)
       | Snapshot (Some leaves) \<Rightarrow> require (list_all (\<lambda>i. i \<in> set leaves) ids) (Err RelayFinalityPending)) :: unit adapter_op)"
    for t u ids
    using assms
    by (auto simp: never_free_def and_then_def ask_def err_def fail_def require_def ok_def only_prover_refuses_def
        split: snapshot_answer.splits option.splits if_splits)
  then show ?thesis
    unfolding check_outputs_finalized_def Let_def
    by (intro never_followed_by [of "and_then (inspect _) _"] never_followed_by [OF never_client] never_and_then
        [of "lift _"] never_lift) (auto intro!: free_intros dest: owned_list_error)
qed

lemma never_recover [free_intros]:
  assumes "only_prover_refuses sk"
  shows "never_free (recover_pending sk cfg)"
proof -
  have "never_free (map_err (Err \<circ> Sdk) (ask sk (\<lambda>c. sk_commit sk c ids)) :: string list adapter_op)" for ids
    using assms by (auto intro!: never_ask simp: only_prover_refuses_def)
  then show ?thesis
    unfolding recover_pending_def commit_chunk_def Let_def
    by (auto intro!: free_intros dest: owned_list_error simp: assms)
qed

lemma never_operator [free_intros]:
  assumes "only_prover_refuses sk"
  shows "never_free (finish_operator sk w)" "never_free (drop_operator_attempt sk i)"
    "never_free (submit_operator sk cfg ep rq inputs records)"
proof -
  show finish: "never_free (finish_operator sk w)" for w
    unfolding finish_operator_def book_operator_def Let_def
    by (auto intro!: free_intros dest: owned_of_error simp: assms split: option.split sum.splits)
  show drop: "never_free (drop_operator_attempt sk i)" for i
    unfolding drop_operator_attempt_def Let_def by (auto intro!: free_intros finish simp: assms)
  have ask: "never_free (and_then (catching (ask sk (\<lambda>c. sk_aggregate sk c rq)))
      (\<lambda>r. case r of Inr l \<Rightarrow> k l | Inl (m, b) \<Rightarrow> followed_by (only_if (\<not> b) (drop_operator_attempt sk i)) (err (Sdk m))))"
    if k: "\<And>l. never_free (k l)" for k :: "string list \<Rightarrow> string list adapter_op" and i
  proof (unfold never_free_def, intro allI impI)
    fix s e
    assume e: "fst (and_then (catching (ask sk (\<lambda>c. sk_aggregate sk c rq)))
      (\<lambda>r. case r of Inr l \<Rightarrow> k l | Inl (m, b) \<Rightarrow> followed_by (only_if (\<not> b) (drop_operator_attempt sk i)) (err (Sdk m))) s) =
        Inl (Err e)"
    show "\<not> fund_free e"
    proof (cases "sk_aggregate sk (nt_calls s) rq")
      case (Inl p)
      obtain m b where p: "p = (m, b)" by fastforce
      have "\<not> is_pre_submission_refusal m" using assms Inl p unfolding only_prover_refuses_def by blast
      then have "never_free (followed_by (only_if (\<not> b) (drop_operator_attempt sk i)) (err (Sdk m) :: string list adapter_op))"
        by (auto intro!: free_intros drop)
      then show ?thesis using e Inl p by (auto simp: and_then_def catching_def ask_def never_free_def)
    next
      case (Inr l)
      then show ?thesis using e k [of l] by (auto simp: and_then_def catching_def ask_def never_free_def)
    qed
  qed
  show "never_free (submit_operator sk cfg ep rq inputs records)"
    unfolding submit_operator_def Let_def record_sent_def
    by (auto intro!: free_intros ask finish simp: assms)
qed

lemma never_prepare [free_intros]:
  "only_prover_refuses sk \<Longrightarrow> never_free (prepare_relay_aggregation sk rq ep inputs records)"
  unfolding prepare_relay_aggregation_def Let_def
  by (auto intro!: free_intros)

section \<open>Steps that succeed\<close>

lemma silent_gather [blind_intros]: "(\<And>x. silent (f x)) \<Longrightarrow> silent (gather_each f xs)"
  by (induction xs) (auto intro!: blind_intros)

lemma ok_silent:
  "silent m \<Longrightarrow> (\<And>a s'. journal_of s' = journal_of s \<Longrightarrow> on_ok (f a) P s') \<Longrightarrow> on_ok (and_then m f) P s"
  unfolding ok_simps by (rule on_ok_blind)

lemma ok_silently:
  "silent m \<Longrightarrow> (\<And>s'. journal_of s' = journal_of s \<Longrightarrow> on_ok n P s') \<Longrightarrow> on_ok (followed_by m n) P s"
  unfolding ok_simps by (rule on_ok_blind)

lemma ok_commit:
  "(\<And>s'. journal_of s' = (st, st, update_rows a i (ad_rows s), ad_sent s) \<Longrightarrow> P () s') \<Longrightarrow> on_ok (commit_state sk st a i) P s"
  by (rule on_ok_wp, rule wp_commit_state) simp_all

lemma ok_save:
  "(\<And>s'. journal_of s' = (ad_mem s, st, update_rows a i (ad_rows s), ad_sent s) \<Longrightarrow> P () s') \<Longrightarrow>
   on_ok (save_update sk st a i) P s"
  by (auto simp: on_ok_def save_update_def db_tx_def ask_def followed_by_def and_then_def map_err_def
      Fallible.modify_def journal_of_def tick_call_def split: option.split)

lemma ok_update_save:
  "(\<And>s'. journal_of s' = (f (ad_mem s), f (ad_mem s), ad_rows s, ad_sent s) \<Longrightarrow> P () s') \<Longrightarrow> on_ok (update_save sk f) P s"
  unfolding update_save_def save_def ok_simps by (rule ok_save) (simp add: journal_of_def)

lemma ok_completed:
  assumes "rows_keyed (ad_rows s)"
    and "\<And>cs s'. journal_of s' = journal_of s \<Longrightarrow> settled_rows (set ids) (ad_rows s) (update_rows cs [] (ad_rows s)) \<Longrightarrow> P cs s'"
  shows "on_ok (completed_allocations sk ids) P s"
proof (rule on_ok_wp, rule wp_mono [OF wp_completed], clarsimp split: sum.split, goal_cases)
  case (1 s' cs)
  with assms(2) [OF 1(1) settled_rows_update [OF _ assms(1)]] show ?case by blast
qed

lemma ok_prepared_rows:
  assumes "\<And>rows s'. journal_of s' = journal_of s \<Longrightarrow>
      list_all2 (\<lambda>i row. map_of (ad_rows s) i = Some row) ids rows \<Longrightarrow> P rows s'"
  shows "on_ok (traverse_m (prepared_row sk) ids) P s"
proof (rule on_ok_wp, rule wp_mono [OF wp_traverse_m [where P = "\<lambda>rows i row. map_of rows i = Some row"]], goal_cases)
  case (1 i s)
  show ?case
    unfolding prepared_row_def wp_and_then
    by (rule wp_mono [OF wp_allocation]) (auto simp: wp_basic split: sum.split option.split)
next
  case (2 r s')
  then show ?case using assms by (cases r) auto
qed

text \<open>The commitment of pending notes touches nothing but the pending notes.\<close>

definition calm :: "adapter \<Rightarrow> adapter \<Rightarrow> bool" where
  "calm s s' \<longleftrightarrow>
     (\<exists>p. ad_mem s' = (ad_mem s)\<lparr>sd_pending := p\<rparr>) \<and> (ad_disk s' = ad_disk s \<or> (\<exists>p. ad_disk s' = (ad_mem s)\<lparr>sd_pending := p\<rparr>)) \<and>
     ad_rows s' = ad_rows s \<and> ad_sent s' = ad_sent s"

lemma calm_refl [simp]: "calm s s"
proof -
  have "ad_mem s = (ad_mem s)\<lparr>sd_pending := sd_pending (ad_mem s)\<rparr>" by simp
  then show ?thesis unfolding calm_def by blast
qed

lemma calm_silent: "calm s s1 \<Longrightarrow> journal_of s2 = journal_of s1 \<Longrightarrow> calm s s2"
  by (simp add: calm_def journal_of_def)

lemma wp_update_save:
  assumes "\<And>m s'. journal_of s' = (f (ad_mem s), ad_disk s, ad_rows s, ad_sent s) \<Longrightarrow> Q (Inl (Err (Sdk m))) s'"
    and "\<And>s'. journal_of s' = (f (ad_mem s), f (ad_mem s), ad_rows s, ad_sent s) \<Longrightarrow> Q (Inr ()) s'"
  shows "wp (update_save sk f) Q s"
  using assms
  by (auto simp: wp_def update_save_def save_def save_update_def db_tx_def ask_def followed_by_def and_then_def map_err_def
      inspect_def Fallible.modify_def journal_of_def tick_call_def update_rows_def split: option.split)

lemma calm_keeps [keeps_intros]:
  "keeps (calm s) (client sk cfg)" "keeps (calm s) (note_status sk n)" "keeps (calm s) (ask sk f)"
  by (rule keepsI, metis blind_def calm_silent silent_client silent_reads(5) silent_calls(1) snd_conv)+

lemma calm_settle: "keeps (calm s) (update_save sk (\<lambda>st. st\<lparr>sd_pending := []\<rparr>))"
proof (rule keepsI)
  fix s1 r s2
  assume c: "calm s s1" and run: "update_save sk (\<lambda>st. st\<lparr>sd_pending := []\<rparr>) s1 = (r, s2)"
  have "wp (update_save sk (\<lambda>st. st\<lparr>sd_pending := []\<rparr>)) (\<lambda>_ s2. calm s s2) s1"
    by (rule wp_update_save) (use c in \<open>auto simp: calm_def journal_of_def\<close>)
  from wpD [OF this run] show "calm s s2" .
qed

lemma keeps_gather [keeps_intros]: "(\<And>x. keeps P (f x)) \<Longrightarrow> keeps P (gather_each f xs)"
  by (induction xs) (auto intro!: keeps_intros)

lemma calm_recover: "keeps (calm s) (recover_pending sk cfg)"
  unfolding recover_pending_def commit_chunk_def Let_def by (intro keeps_intros calm_settle)

lemma wp_recover: "(\<And>r s'. calm s s' \<Longrightarrow> Q r s') \<Longrightarrow> wp (recover_pending sk cfg) Q s"
  by (rule wp_keeps [OF calm_recover calm_refl])

lemma ok_recover: "(\<And>l s'. calm s s' \<Longrightarrow> P l s') \<Longrightarrow> on_ok (recover_pending sk cfg) P s"
  by (rule on_ok_wp, rule wp_recover) (simp split: sum.split)

lemma calm_journal:
  assumes "calm s s'" "journal_ok s"
  shows "journal_ok s'" "attempts_of s' = attempts_of s" "sd_operator (ad_mem s') = sd_operator (ad_mem s)"
    "ad_rows s' = ad_rows s" "ad_sent s' = ad_sent s" "sd_ambiguous_ids (ad_mem s') = sd_ambiguous_ids (ad_mem s)"
  using assms by (auto simp: calm_def journal_ok_def)

section \<open>What the settlement of the journals leaves behind\<close>

definition completed_in :: "(pix_id \<times> stored_allocation) list \<Rightarrow> pix_id \<Rightarrow> bool" where
  "completed_in rows i \<longleftrightarrow> (\<exists>row. map_of rows i = Some row \<and> sa_stage row = CompletedAllocation)"

fun sent_ids :: "sent \<Rightarrow> pix_id set" where
  "sent_ids (Posted a _) = set (ra_ids a)"
| "sent_ids (Broadcast a _) = set (oa_ids a)"
| "sent_ids _ = {}"

lemma settled_completed:
  "settled_rows ids rows rows' \<Longrightarrow> i \<in> ids \<Longrightarrow> completed_in rows' i"
  "settled_rows ids rows rows' \<Longrightarrow> completed_in rows i \<Longrightarrow> completed_in rows' i"
  unfolding settled_rows_def completed_in_def by (cases "i \<in> ids"; force)+

definition advance :: "adapter \<Rightarrow> adapter \<Rightarrow> bool" where
  \<comment> \<open>what was handed over since is recorded as completed\<close>
  "advance s s' \<longleftrightarrow>
     journal_ok s' \<and> (\<forall>i. completed_in (ad_rows s) i \<longrightarrow> completed_in (ad_rows s') i) \<and>
     (\<exists>new. ad_sent s' = ad_sent s @ new \<and> (\<forall>x \<in> set new. \<forall>i \<in> sent_ids x. completed_in (ad_rows s') i))"

lemma advance_trans: "advance s s1 \<Longrightarrow> advance s1 s2 \<Longrightarrow> advance s s2"
  unfolding advance_def by fastforce

lemma advance_same: "journal_ok s' \<Longrightarrow> ad_rows s' = ad_rows s \<Longrightarrow> ad_sent s' = ad_sent s \<Longrightarrow> advance s s'"
  by (simp add: advance_def)

lemma journal_ok_view: "journal_ok s \<Longrightarrow> journal_of s' = journal_of s \<Longrightarrow> journal_ok s'"
  by (simp add: journal_ok_def journal_of_def)

lemma ok_finish_operator:
  assumes "journal_ok s" "w < length (sd_operator (ad_mem s))"
  shows "on_ok (finish_operator sk (Some w))
    (\<lambda>_ s'. journal_ok s' \<and> attempts_of s' = attempts_of s \<and> sd_operator (ad_mem s') = [] \<and> ad_sent s' = ad_sent s \<and>
       settled_rows (set (oa_ids (sd_operator (ad_mem s) ! w))) (ad_rows s) (ad_rows s')) s"
proof -
  have keyed: "rows_keyed (ad_rows s)" using assms(1) by (simp add: journal_ok_def)
  have booked: "sd_relay b = attempts_of s \<and> sd_operator b = []" if "book_operator sk a (ad_mem s) = Inr b" for a b
    using that by (auto simp: book_operator_def split: sum.splits)
  show ?thesis
    unfolding finish_operator_def Let_def ok_simps
    using assms
    by (auto simp: ok_simps not_le booked journal_ok_def journal_of_def split: sum.split dest!: booked
        intro!: ok_completed [OF keyed] ok_commit)
qed

lemma ok_submit_operator:
  assumes "journal_ok s"
  shows "on_ok (submit_operator sk cfg ep rq inputs records)
    (\<lambda>_ s'. journal_ok s' \<and> attempts_of s' = attempts_of s \<and> sd_operator (ad_mem s') = [] \<and>
       settled_rows (set (map sa_id records)) (update_rows records [] (ad_rows s)) (ad_rows s') \<and>
       (\<exists>a d. ad_sent s' = ad_sent s @ [Broadcast a d] \<and> oa_ids a = map sa_id records)) s"
proof -
  let ?ops = "sd_operator (ad_mem s)"
  let ?a = "new_operator_attempt rq ep inputs records"
  let ?goal = "\<lambda>s'. journal_ok s' \<and> attempts_of s' = attempts_of s \<and> sd_operator (ad_mem s') = [] \<and>
       settled_rows (set (map sa_id records)) (update_rows records [] (ad_rows s)) (ad_rows s') \<and>
       (\<exists>a d. ad_sent s' = ad_sent s @ [Broadcast a d] \<and> oa_ids a = map sa_id records)"
  have ids: "oa_ids ?a = map sa_id records" by (simp add: new_operator_attempt_def)
  have finish: "on_ok (finish_operator sk (Some (length ?ops))) (\<lambda>_. ?goal) s2"
    if s2: "journal_of s2 = ((ad_mem s)\<lparr>sd_operator := ?ops @ [?a]\<rparr>, (ad_mem s)\<lparr>sd_operator := ?ops @ [?a]\<rparr>,
        update_rows records [] (ad_rows s), ad_sent s @ [Broadcast ?a d])" and d: "?a \<in> set (sd_operator d)" for s2 d
  proof -
    have j: "journal_ok s2"
      using assms that by (auto simp: journal_ok_def journal_of_def sent_durable_def)
    have "length ?ops < length (sd_operator (ad_mem s2))" using s2 by (simp add: journal_of_def)
    from ok_finish_operator [OF j this] show ?thesis
      by (rule on_ok_mono) (use s2 ids in \<open>auto simp: journal_of_def\<close>)
  qed
  have submitted: "on_ok (and_then (catching (ask sk (\<lambda>c. sk_aggregate sk c rq)))
       (\<lambda>r. case r of
          Inr ledger \<Rightarrow>
            followed_by
              (only_if (0 < length ?ops)
                 (and_then (inspect (\<lambda>s. oa_emitted (sd_operator (ad_mem s) ! length ?ops)))
                    (check_outputs_finalized sk cfg)))
              (followed_by (finish_operator sk (Some (length ?ops))) (ok ledger))
        | Inl (m, ambiguous) \<Rightarrow>
            followed_by (only_if (\<not> ambiguous) (drop_operator_attempt sk (length ?ops))) (err (Sdk m)))) (\<lambda>_. ?goal) s2"
    if "journal_of s2 = ((ad_mem s)\<lparr>sd_operator := ?ops @ [?a]\<rparr>, (ad_mem s)\<lparr>sd_operator := ?ops @ [?a]\<rparr>,
        update_rows records [] (ad_rows s), ad_sent s @ [Broadcast ?a d])" "?a \<in> set (sd_operator d)" for s2 d
  proof (rule ok_silent, intro blind_intros, goal_cases)
    case (1 r s3)
    show ?case
    proof (cases r)
      case (Inl p)
      then show ?thesis by (cases p) (simp add: on_ok_then_err)
    next
      case (Inr ledger)
      show ?thesis
        unfolding Inr sum.case
        by (rule ok_silently, intro blind_intros, unfold on_ok_followed_by on_ok_basic, rule finish)
          (use 1 that in auto)
    qed
  qed
  show ?thesis
  proof (cases "(?ops \<noteq> [] \<and> \<not> competes (last ?ops) ?a) \<or> \<not> length ?ops < max_attempts")
    case True
    then show ?thesis
      by (auto simp: submit_operator_def Let_def on_ok_and_then [of "inspect _"] on_ok_basic
          on_ok_followed_by [of "require _ _"])
  next
    case False
    show ?thesis
      unfolding submit_operator_def Let_def record_sent_def on_ok_and_then [of "inspect ad_mem"] on_ok_basic
        if_not_P [OF conjunct1 [OF False [unfolded de_Morgan_disj]]]
        on_ok_followed_by [of "require _ _"] on_ok_followed_by [of "commit_state _ _ _ _"]
        on_ok_followed_by [of "and_then (inspect ad_disk) _"] on_ok_and_then [of "inspect ad_disk"]
      by (intro impI ok_commit submitted) (auto simp: journal_of_def)
  qed
qed

lemma advance_settled:
  assumes "journal_ok s'" "settled_rows ids rows (ad_rows s')" "map_of rows = map_of (ad_rows s)"
    and "ad_sent s' = ad_sent s @ new" "\<forall>x \<in> set new. sent_ids x \<subseteq> ids"
  shows "advance s s'"
  using assms settled_completed [OF settled_rows_same [OF assms(2,3)]] unfolding advance_def by blast

lemma keyed_rows:
  "list_all2 (\<lambda>i r. map_of rows i = Some r) ids rs \<Longrightarrow> rows_keyed rows \<Longrightarrow>
   map sa_id rs = ids \<and> (\<forall>r \<in> set rs. map_of rows (sa_id r) = Some r)"
  by (induction ids rs rule: list_all2_induct) (auto simp: rows_keyed_def)

lemma ok_retry_operator:
  assumes "journal_ok s"
  shows "on_ok (retry_operator sk cfg) (\<lambda>_ s'. advance s s' \<and> attempts_of s' = attempts_of s \<and> sd_operator (ad_mem s') = []) s"
proof (cases "sd_operator (ad_mem s) = []")
  case True
  then show ?thesis by (simp add: retry_operator_def on_ok_and_then [of "inspect _"] on_ok_basic)
next
  case False
  let ?Q = "\<lambda>s'. advance s s' \<and> attempts_of s' = attempts_of s \<and> sd_operator (ad_mem s') = []"
  have submitted: "on_ok (and_then (submit_operator sk cfg ep rq inputs records)
      (\<lambda>ledger. and_then (recover_pending sk cfg) (\<lambda>more. ok (ledger @ more)))) (\<lambda>_. ?Q) s1"
    if same: "journal_of s1 = journal_of s" and rows: "\<forall>r \<in> set records. map_of (ad_rows s) (sa_id r) = Some r"
    for ep rq inputs records s1
    unfolding on_ok_and_then on_ok_basic
  proof (rule on_ok_mono [OF ok_submit_operator [OF journal_ok_view [OF assms same]]], goal_cases)
    case (1 ledger s2)
    have view: "attempts_of s1 = attempts_of s" "ad_rows s1 = ad_rows s" "ad_sent s1 = ad_sent s"
      using same by (simp_all add: journal_of_def)
    have "?Q s2"
      using 1 view same_rows_map [OF rows] by (auto intro!: advance_settled)
    then show ?case
      using 1 calm_journal [of s2] advance_trans advance_same [of _ s2] by (intro ok_recover) (metis view(1))
  qed
  show ?thesis
    unfolding retry_operator_def Let_def on_ok_and_then [of "inspect _"] on_ok_basic if_not_P [OF False]
  proof (rule ok_silent, intro blind_intros, unfold on_ok_and_then [of "traverse_m _ _"], rule ok_prepared_rows, goal_cases)
    case (1 inputs s1 records s2)
    have "\<forall>r \<in> set records. map_of (ad_rows s) (sa_id r) = Some r"
      using 1 keyed_rows [of "ad_rows s"] assms by (auto simp: journal_ok_def journal_of_def)
    then show ?case
      using 1 by (intro ok_silent blind_intros submitted) auto
  qed
qed

lemma ok_reconcile_operator:
  assumes "journal_ok s"
  shows "on_ok (reconcile_operator sk cfg) (\<lambda>_ s'. advance s s' \<and> attempts_of s' = attempts_of s \<and> sd_operator (ad_mem s') = []) s"
proof (cases "sd_operator (ad_mem s) = []")
  case True
  then show ?thesis
    using assms by (simp add: reconcile_operator_def on_ok_and_then [of "inspect _"] on_ok_basic advance_same)
next
  case False
  let ?ops = "sd_operator (ad_mem s)"
  let ?Q = "\<lambda>s'. advance s s' \<and> attempts_of s' = attempts_of s \<and> sd_operator (ad_mem s') = []"
  have booked: "on_ok (followed_by (finish_operator sk (Some i)) (followed_by (recover_pending sk cfg) (ok ()))) (\<lambda>_. ?Q) s1"
    if same: "journal_of s1 = journal_of s" and i: "i < length ?ops" for s1 i
    unfolding on_ok_followed_by on_ok_basic
  proof -
    have view: "attempts_of s1 = attempts_of s" "ad_rows s1 = ad_rows s" "ad_sent s1 = ad_sent s" "sd_operator (ad_mem s1) = ?ops"
      using same by (simp_all add: journal_of_def)
    show "on_ok (finish_operator sk (Some i)) (\<lambda>_. on_ok (recover_pending sk cfg) (\<lambda>_. ?Q)) s1"
    proof (rule on_ok_mono [OF ok_finish_operator [OF journal_ok_view [OF assms same]]], goal_cases)
      case (2 u s2)
      have "?Q s2" using 2 view by (auto intro!: advance_settled [where new = "[]"])
      then show ?case
        using 2 calm_journal [of s2] advance_trans advance_same [of _ s2] by (intro ok_recover) (metis view(1))
    qed (use i view in simp)
  qed
  have retried: "on_ok (followed_by (require b x) (followed_by (retry_operator sk cfg) (ok ()))) (\<lambda>_. ?Q) s1"
    if same: "journal_of s1 = journal_of s" for s1 b x
    unfolding on_ok_followed_by on_ok_basic
    by (rule impI, rule on_ok_mono [OF ok_retry_operator [OF journal_ok_view [OF assms same]]])
      (use same in \<open>auto simp: advance_def journal_of_def\<close>)
  have winner: "on_ok (find_first (\<lambda>(i, a). notes_known sk cfg (oa_emitted a)) (List.enumerate 0 ?ops))
      (\<lambda>found s'. journal_of s' = journal_of s1 \<and> (case found of None \<Rightarrow> True | Some (i, a) \<Rightarrow> i < length ?ops)) s1" for s1
  proof -
    have "wp (find_first (\<lambda>(i, a). notes_known sk cfg (oa_emitted a)) (List.enumerate 0 ?ops))
        (\<lambda>r _. case r of Inr (Some x) \<Rightarrow> x \<in> set (List.enumerate 0 ?ops) \<and> True | _ \<Rightarrow> True) s1"
      by (rule wp_find_first, rule wp_any) (simp split: sum.split bool.split)
    moreover have "silent (find_first (\<lambda>(i, a). notes_known sk cfg (oa_emitted a)) (List.enumerate 0 ?ops))"
      by (intro blind_intros)
    ultimately show ?thesis
      by (auto simp: wp_def on_ok_def blind_def in_set_enumerate_eq split: prod.splits sum.splits option.splits)
        (metis snd_conv)+
  qed
  show ?thesis
    unfolding reconcile_operator_def on_ok_and_then [of "inspect _"] on_ok_basic if_not_P [OF False]
  proof (rule ok_silent, intro blind_intros, goal_cases)
    case (1 ep s1)
    show ?case
    proof (cases "list_ex (foreign_operator ep) ?ops")
      case True
      then show ?thesis by (simp add: on_ok_basic)
    next
      case local: False
      show ?thesis
        unfolding if_not_P [OF local] on_ok_and_then [of "find_first _ _"]
      proof (rule on_ok_mono [OF winner], goal_cases)
        case (1 found s2)
        then have same: "journal_of s2 = journal_of s" using \<open>journal_of s1 = journal_of s\<close> by simp
        show ?case
        proof (cases found)
          case None
          then show ?thesis using retried [OF same] by simp
        next
          case (Some p)
          obtain i a where p: "p = (i, a)" by fastforce
          have i: "i < length ?ops" using 1 Some p by simp
          show ?thesis
            unfolding Some p option.case prod.case
            by (rule ok_silently, intro blind_intros, rule booked) (use same i in auto)
        qed
      qed
    qed
  qed
qed

lemma ok_relay:
  assumes "journal_ok s"
  shows "on_ok (reconcile_relay_aggregation sk cfg) (\<lambda>_ s'. advance s s' \<and> attempts_of s' = []) s"
proof (rule on_okI)
  fix o' s'
  assume run: "reconcile_relay_aggregation sk cfg s = (Inr o', s')"
  show "advance s s' \<and> attempts_of s' = []"
  proof (cases "attempts_of s = []")
    case True
    then have "s' = s"
      using run unfolding reconcile_relay_aggregation_def
      by (subst (asm) reconcile_with.simps)
        (auto simp: reconcile_step_def and_then_def inspect_def err_def fail_def ok_def Let_def split: if_splits)
    then show ?thesis using True advance_same assms by simp
  next
    case False
    have out: "outcome_ok (attempts_of s) s (Inr o') s'"
      using reconcile_outcome [OF run [unfolded reconcile_relay_aggregation_def] assms] .
    then obtain oc where oc: "o' = Some oc" using False by (cases o') (auto simp: outcome_ok_def)
    obtain new where new: "ad_sent s' = ad_sent s @ new"
        "list_all (\<lambda>x. case x of Posted a _ \<Rightarrow> \<forall>b \<in> set (attempts_of s). same_spend a b | _ \<Rightarrow> False) new"
      using out by (auto simp: outcome_ok_def posts_for_def)
    have "\<forall>x \<in> set new. sent_ids x \<subseteq> ids_of (attempts_of s)"
    proof
      fix x
      assume "x \<in> set new"
      then have x: "case x of Posted a _ \<Rightarrow> \<forall>b \<in> set (attempts_of s). same_spend a b | _ \<Rightarrow> False"
        using new(2) by (simp add: list_all_iff)
      have last: "last (attempts_of s) \<in> set (attempts_of s)" using False by simp
      show "sent_ids x \<subseteq> ids_of (attempts_of s)"
      proof (cases x)
        case (Posted a d)
        then have "ra_ids a = ra_ids (last (attempts_of s))" using x last ids_of_spend by simp
        then show ?thesis using Posted last unfolding ids_of_def by auto
      qed (use x in simp_all)
    qed
    moreover have "journal_ok s'" "settled_rows (ids_of (attempts_of s)) (ad_rows s) (ad_rows s')" "attempts_of s' = []"
      using out oc by (simp_all add: outcome_ok_def)
    ultimately show ?thesis using advance_settled [OF _ _ refl new(1)] by blast
  qed
qed

lemma ok_ambiguous:
  assumes "journal_ok s"
  shows "on_ok (reconcile_ambiguous sk cfg) (\<lambda>_ s'. advance s s' \<and> attempts_of s' = attempts_of s) s"
proof -
  have booked: "on_ok (followed_by (modify (\<lambda>s. s\<lparr>ad_mem := book_ambiguous change (ad_mem s)\<rparr>))
      (and_then (completed_allocations sk ids)
        (\<lambda>completed. followed_by (modify (\<lambda>s. s\<lparr>ad_mem := (ad_mem s)\<lparr>sd_ambiguous_ids := []\<rparr>\<rparr>))
           (followed_by (and_then (inspect ad_mem) (\<lambda>st. save_update sk st completed []))
              (followed_by (recover_pending sk cfg) (ok True))))))
      (\<lambda>_ s'. advance s s' \<and> attempts_of s' = attempts_of s) s1"
    if same: "journal_of s1 = journal_of s" for s1 change ids
    unfolding ok_simps
  proof (rule ok_completed, goal_cases)
    case 1
    then show ?case using assms same by (simp add: journal_ok_def journal_of_def)
  next
    case (2 cs s2)
    show ?case
    proof (rule ok_save, goal_cases)
      case (1 s3)
      have "journal_ok s3" "attempts_of s3 = attempts_of s" "ad_sent s3 = ad_sent s @ []"
        "settled_rows (set ids) (ad_rows s) (ad_rows s3)"
        using assms 1 2 same by (auto simp: journal_ok_def journal_of_def book_ambiguous_def)
      then have "advance s s3 \<and> attempts_of s3 = attempts_of s" by (auto intro!: advance_settled [where new = "[]"])
      then show ?case
        using \<open>journal_ok s3\<close> calm_journal [of s3] advance_trans advance_same [of _ s3] by (intro ok_recover) metis
    qed
  qed
  have stay: "advance s s' \<and> attempts_of s' = attempts_of s" if "journal_of s' = journal_of s" for s'
    using journal_ok_view [OF assms that] that by (auto simp: journal_of_def intro: advance_same)
  show ?thesis
    unfolding reconcile_ambiguous_def
  proof (rule ok_silently, intro blind_intros, goal_cases)
    case (1 s1)
    let ?m = "ad_mem s1"
    show ?case
    proof (cases "\<not> sd_ambiguous ?m \<or> sd_ambiguous_inputs ?m = [] \<or> sd_ambiguous_change ?m = None")
      case True
      then show ?thesis
        unfolding on_ok_and_then [of "inspect _"] on_ok_basic using stay [OF 1] by (auto simp: on_ok_basic)
    next
      case False
      then obtain change where change: "sd_ambiguous_change ?m = Some change" by auto
      from False have neg: "\<not> \<not> sd_ambiguous ?m" "sd_ambiguous_inputs ?m \<noteq> []" by simp_all
      show ?thesis
        unfolding on_ok_and_then [of "inspect _"] on_ok_basic if_not_P [OF neg(1)] if_not_P [OF neg(2)] change option.case
      proof (rule ok_silent, intro blind_intros, rule ok_silent, intro blind_intros, goal_cases)
        case (1 ns s2 observed s3)
        then have same: "journal_of s3 = journal_of s" using \<open>journal_of s1 = journal_of s\<close> by simp
        show ?case
        proof (cases "observed = None")
          case True
          then show ?thesis using stay [OF same] by (simp add: on_ok_basic)
        next
          case False
          show ?thesis unfolding if_not_P [OF False] by (rule booked [OF same])
        qed
      qed
    qed
  qed
qed

lemma ok_tagged: "on_ok (tagged sk m) P = on_ok m P"
  by (simp add: tagged_def on_ok_map_err)

lemma ok_settle:
  assumes "journal_ok s"
  shows "on_ok (settle_journals sk cfg) (\<lambda>_ s'. advance s s' \<and> attempts_of s' = [] \<and> sd_operator (ad_mem s') = []) s"
  unfolding settle_journals_def on_ok_followed_by [of "tagged _ _"] ok_tagged
proof (rule on_ok_mono [OF ok_relay [OF assms]], goal_cases)
  case (1 u s1)
  then have j1: "journal_ok s1" by (simp add: advance_def)
  have clear: "on_ok (if b then reconcile_ambiguous sk cfg else ok True)
      (\<lambda>_ s2. advance s1 s2 \<and> attempts_of s2 = attempts_of s1) s1" for b
    using ok_ambiguous [OF j1] advance_same [OF j1, of s1] by (simp add: on_ok_basic)
  show ?case
    unfolding on_ok_and_then on_ok_basic on_ok_followed_by ok_tagged
  proof (rule on_ok_mono [OF clear], rule impI, goal_cases)
    case (1 b s2)
    then have "journal_ok s2" by (simp add: advance_def)
    from ok_reconcile_operator [OF this] show ?case
      by (rule on_ok_mono) (use 1 \<open>advance s s1 \<and> _\<close> advance_trans in metis)
  qed
qed

section \<open>An allocation that failed without moving funds\<close>

definition if_free :: "(adapter \<Rightarrow> bool) \<Rightarrow> adapter_error stop + 'a \<Rightarrow> adapter \<Rightarrow> bool" where
  "if_free P r s \<longleftrightarrow> (case r of Inl (Err e) \<Rightarrow> fund_free e \<longrightarrow> P s | _ \<Rightarrow> True)"

lemma free_never: "never_free m \<Longrightarrow> wp m (if_free P) s"
  by (auto simp: wp_def if_free_def never_free_def split: prod.split sum.split stop.split) (metis fst_conv)

lemma free_seq:
  "never_free m \<Longrightarrow> on_ok m (\<lambda>a. wp (f a) (if_free P)) s \<Longrightarrow> wp (and_then m f) (if_free P) s"
  by (auto simp: wp_def on_ok_def and_then_def if_free_def never_free_def split: prod.splits sum.splits stop.splits)
    (metis fst_conv)

lemma free_then:
  "never_free m \<Longrightarrow> on_ok m (\<lambda>_. wp n (if_free P)) s \<Longrightarrow> wp (followed_by m n) (if_free P) s"
  unfolding followed_by_def by (rule free_seq)

lemma never_ambiguous [free_intros]:
  assumes "only_prover_refuses sk"
  shows "never_free (reconcile_ambiguous sk cfg)"
  unfolding reconcile_ambiguous_def
  by (auto intro!: free_intros dest: owned_list_error simp: assms)

lemma never_settle [free_intros]: "only_prover_refuses sk \<Longrightarrow> never_free (settle_journals sk cfg)"
  unfolding settle_journals_def by (auto intro!: free_intros)

lemma never_sift [free_intros]: "only_prover_refuses sk \<Longrightarrow> never_free (sift sk journalled ds)"
  by (induction ds) (auto intro!: free_intros)

lemma never_chunks [free_intros]: "never_free (allocate_chunks sk cfg ep True cs)"
  by (induction cs) (auto intro!: free_intros)

definition item_done :: "sdk \<Rightarrow> (pix_id \<times> stored_allocation) list \<Rightarrow> allocation_item \<Rightarrow> bool" where
  "item_done sk rows d \<longleftrightarrow>
     (\<exists>row. map_of rows (fst d) = Some row \<and> sa_stage row = CompletedAllocation \<and> row_matches sk d row)"

lemma wp_sift:
  "on_ok (sift sk journalled ds)
    (\<lambda>(todo, earlier) s'. journal_of s' = journal_of s \<and>
       todo = filter (\<lambda>d. \<not> completed_in (ad_rows s) (fst d)) ds \<and>
       (\<forall>d \<in> set ds. completed_in (ad_rows s) (fst d) \<longrightarrow> item_done sk (ad_rows s) d) \<and>
       (earlier \<longleftrightarrow> (\<exists>d \<in> set ds. completed_in (ad_rows s) (fst d)))) s"
proof (induction ds arbitrary: s)
  case (Cons d ds)
  show ?case
    unfolding sift.simps on_ok_and_then
  proof (rule on_ok_wp, rule wp_mono [OF wp_allocation], goal_cases)
    case (1 r s1)
    show ?case
    proof (cases r)
      case (Inr row)
      have row: "row = map_of (ad_rows s) (fst d)" and same: "journal_of s1 = journal_of s" "ad_rows s1 = ad_rows s"
        using 1 Inr by (simp_all add: journal_of_def)
      show ?thesis
        using on_ok_mono [OF Cons.IH [of s1]] row same
        by (auto simp: Inr on_ok_basic on_ok_and_then completed_in_def item_done_def
            intro!: on_ok_mono [OF Cons.IH [of s1]] split: option.split)
    qed simp
  qed
qed (simp add: on_ok_basic)

lemma silent_build [blind_intros]: "silent (build_chunk sk cfg ep chunk)"
  unfolding build_chunk_def chunk_fee_def by (auto intro!: blind_intros split: curvy_submission.split)

lemma free_chunk:
  assumes "only_prover_refuses sk" and "\<And>s'. journal_of s' = journal_of s \<Longrightarrow> P s'"
  shows "wp (allocate_chunk sk cfg ep c) (if_free P) s"
proof -
  have rest: "never_free (and_then
      (if ac_submission cfg = RelayerSubmission
       then followed_by (prepare_relay_aggregation sk rq ep inputs records)
         (followed_by (tagged sk (reconcile_relay_aggregation sk cfg)) (ok []))
       else submit_operator sk cfg ep rq inputs records)
      (\<lambda>receipts. and_then (recover_pending sk cfg) (\<lambda>more. ok (receipts @ more))))" for rq inputs records
    using assms(1) by (auto intro!: free_intros)
  show ?thesis
    unfolding allocate_chunk_def
    by (rule wp_seq_silent, rule silent_build) (auto simp: if_free_def assms(2) intro!: free_never rest split: stop.split)
qed

lemma free_chunks:
  assumes "only_prover_refuses sk" and "\<And>s'. \<not> submitted \<Longrightarrow> journal_of s' = journal_of s \<Longrightarrow> P s'"
  shows "wp (allocate_chunks sk cfg ep submitted cs) (if_free P) s"
proof (cases "submitted \<or> cs = []")
  case True
  then show ?thesis using free_never [OF never_chunks] by (auto simp: wp_basic if_free_def)
next
  case False
  then obtain c rest where cs: "cs = c # rest" and new: "\<not> submitted" by (cases cs) auto
  have "wp (allocate_chunk sk cfg ep c) (\<lambda>r s'. case r of Inl e \<Rightarrow> if_free P (Inl e) s' | Inr _ \<Rightarrow> True) s"
    using free_chunk [OF assms(1), of s P cfg ep c] assms(2) [OF new]
    by (auto simp: if_free_def elim!: wp_mono split: sum.splits)
  moreover have "wp (and_then (allocate_chunks sk cfg ep True rest) (\<lambda>more. ok (l @ more))) (if_free P) s1" for l s1
    by (intro free_never free_intros)
  ultimately show ?thesis
    unfolding cs allocate_chunks.simps if_not_P [OF new] id_apply wp_and_then [of "allocate_chunk _ _ _ _"]
    by (elim wp_mono) (simp split: sum.splits)
qed

text \<open>
  C22. Provided that only the prover fails with the texts of its own refusals, a call that allocates
  deposits and fails with an error read as ``no funds moved'' has handed over nothing for them: what it
  posted or broadcast in between was of earlier aggregations of other deposits, no journal has an
  unresolved attempt left, and none of the deposits is recorded as completed.
\<close>

theorem fund_free_posts_nothing:
  assumes "journal_ok s" and "only_prover_refuses sk"
    and "allocate_all sk cfg deposits s = (Inl (Err e), s')"
    and "curvy_moved_no_funds (Adapter (AdapterError e))"
  shows "(\<exists>new. ad_sent s' = ad_sent s @ new \<and> list_all (\<lambda>x. sent_ids x \<inter> fst ` set deposits = {}) new) \<and>
    sd_relay (ad_mem s') = [] \<and> sd_operator (ad_mem s') = [] \<and>
    list_all (\<lambda>d. \<not> completed_in (ad_rows s') (fst d)) deposits"
proof -
  let ?P = "\<lambda>s'. (\<exists>new. ad_sent s' = ad_sent s @ new \<and> list_all (\<lambda>x. sent_ids x \<inter> fst ` set deposits = {}) new) \<and>
    sd_relay (ad_mem s') = [] \<and> sd_operator (ad_mem s') = [] \<and>
    list_all (\<lambda>d. \<not> completed_in (ad_rows s') (fst d)) deposits"
  have "wp (allocate_all sk cfg deposits) (if_free ?P) s"
    unfolding allocate_all_def
  proof (rule free_seq, intro free_intros assms(2), rule on_ok_blind [OF silent_client], rule free_then, intro free_intros assms(2), goal_cases)
    case (1 ep s1)
    note settled = ok_settle [OF journal_ok_view [OF assms(1) 1]]
    show ?case
    proof (rule on_ok_mono [OF settled], unfold wp_and_then [of "inspect _"] wp_basic sum.case, rule free_seq,
        intro free_intros assms(2), rule on_ok_mono [OF wp_sift], goal_cases)
      case (1 u s2 x s3)
      obtain todo earlier where x: "x = (todo, earlier)" by fastforce
      have j: "journal_ok s2" using 1 by (simp add: advance_def)
      have j3: "journal_ok s3" by (rule journal_ok_view [OF j]) (use 1 x in simp)
      have rows: "\<not> completed_in (ad_rows s2) (fst d)" if "d \<in> set deposits" "\<not> earlier" for d
        using 1 x that by auto
      obtain new where new: "ad_sent s2 = ad_sent s1 @ new"
          "\<forall>y \<in> set new. \<forall>i \<in> sent_ids y. completed_in (ad_rows s2) i"
        using 1 by (auto simp: advance_def)
      have s1: "ad_sent s1 = ad_sent s" using \<open>journal_of s1 = journal_of s\<close> by (simp add: journal_of_def)
      have view: "ad_rows s3 = ad_rows s2" "ad_sent s3 = ad_sent s2" "attempts_of s3 = []" "sd_operator (ad_mem s3) = []"
        using 1 x by (auto simp: journal_of_def)
      show ?case
        unfolding x prod.case
      proof (rule free_seq, intro free_intros assms(2), rule ok_recover, goal_cases)
        case (1 l s4)
        note calm = calm_journal [OF 1 j3]
        show ?case
          unfolding wp_and_then [of "allocate_chunks _ _ _ _ _"]
        proof (rule wp_mono [OF free_chunks [OF assms(2), where P = ?P]], goal_cases)
          case (1 s5)
          then have "ad_rows s5 = ad_rows s2" "ad_sent s5 = ad_sent s2" "attempts_of s5 = []" "sd_operator (ad_mem s5) = []"
            using calm view by (simp_all add: journal_of_def)
          moreover have fresh: "\<forall>d \<in> set deposits. \<not> completed_in (ad_rows s2) (fst d)" using 1 rows by simp
          moreover have "\<forall>y \<in> set new. sent_ids y \<inter> fst ` set deposits = {}" using fresh new(2) by blast
          ultimately show ?case using new(1) s1 by (simp add: list_all_iff)
        qed (auto simp: if_free_def wp_basic split: sum.splits)
      qed
    qed
  qed
  from wpD [OF this assms(3)] show ?thesis using assms(4) by (simp add: if_free_def fund_free_def)
qed

section \<open>An allocation that succeeded\<close>

lemma rows_written:
  assumes "distinct (map sa_id rs)"
  shows "r \<in> set rs \<Longrightarrow> map_of (update_rows rs [] rows) (sa_id r) = Some r"
    and "i \<notin> sa_id ` set rs \<Longrightarrow> map_of (update_rows rs [] rows) i = map_of rows i"
proof -
  have keep: "map_of (fold (\<lambda>a. AList.update (sa_id a) a) rs rows) i = map_of rows i" if "i \<notin> sa_id ` set rs" for i rs rows
    using that by (induction rs arbitrary: rows) (auto simp: update_conv')
  then show "i \<notin> sa_id ` set rs \<Longrightarrow> map_of (update_rows rs [] rows) i = map_of rows i" by (simp add: update_rows_def)
  have "map_of (fold (\<lambda>a. AList.update (sa_id a) a) rs rows) (sa_id r) = Some r" if "r \<in> set rs" "distinct (map sa_id rs)"
    for rs rows
    using that by (induction rs arbitrary: rows) (auto simp: keep update_conv')
  then show "r \<in> set rs \<Longrightarrow> map_of (update_rows rs [] rows) (sa_id r) = Some r" using assms by (simp add: update_rows_def)
qed

lemma on_ok_any: "(\<And>a s'. on_ok (f a) P s') \<Longrightarrow> on_ok (and_then m f) P s"
  unfolding on_ok_and_then by (rule on_ok_mono [OF on_ok_True]) simp

lemma ok_build:
  assumes "\<And>rq inputs records s'. journal_of s' = journal_of s \<Longrightarrow>
      list_all2 (\<lambda>d r. stored_allocation_new sk d = Inr r) chunk records \<Longrightarrow> P (rq, inputs, records) s'"
  shows "on_ok (build_chunk sk cfg ep chunk) P s"
proof -
  let ?R = "\<lambda>(rq, inputs, records) s'. list_all2 (\<lambda>d r. stored_allocation_new sk d = Inr r) chunk records"
  have "on_ok (build_chunk sk cfg ep chunk) ?R s"
    unfolding build_chunk_def
    by (rule on_ok_any, rule on_ok_any, rule on_ok_any, rule on_ok_any, rule on_ok_any, rule on_ok_any, rule on_ok_any,
        rule on_ok_any, rule on_ok_any, unfold on_ok_and_then [of "lift _"] on_ok_lift)
      (auto simp: traverse_Inr on_ok_basic intro!: on_ok_any split: sum.split)
  with silent_build [of sk cfg ep chunk] assms show ?thesis
    by (auto simp: on_ok_def blind_def split: prod.splits sum.splits) (metis snd_conv)
qed

lemma records_of_items:
  "list_all2 (\<lambda>d r. stored_allocation_new sk d = Inr r) chunk records \<Longrightarrow>
   map sa_id records = map fst chunk \<and>
   (\<forall>d \<in> set chunk. \<exists>r \<in> set records. sa_id r = fst d \<and> row_matches sk d r)"
  by (induction chunk records rule: list_all2_induct)
    (auto simp: stored_allocation_new_def row_matches_def split: if_splits)

lemma ok_prepare:
  assumes "attempts_of s = []"
    and "\<And>a s'. ra_ids a = map sa_id allocations \<Longrightarrow>
      journal_of s' = ((ad_mem s)\<lparr>sd_relay := [a]\<rparr>, (ad_mem s)\<lparr>sd_relay := [a]\<rparr>, update_rows allocations [] (ad_rows s), ad_sent s) \<Longrightarrow>
      P () s'"
  shows "on_ok (prepare_relay_aggregation sk rq ep inputs allocations) P s"
proof (rule on_ok_wp, rule wp_prepare, goal_cases)
  case (2 intent s')
  then show ?case
    using assms(1) assms(2) [of "new_attempt intent rq ep (map stored_of inputs) (map sa_id allocations)" s']
    by (simp add: Let_def) (simp add: new_attempt_def)
qed simp

lemma ok_relay_settled:
  assumes "journal_ok s" "attempts_of s \<noteq> []"
  shows "on_ok (reconcile_relay_aggregation sk cfg)
    (\<lambda>_ s'. journal_ok s' \<and> attempts_of s' = [] \<and> settled_rows (ids_of (attempts_of s)) (ad_rows s) (ad_rows s')) s"
proof (rule on_okI)
  fix o' s'
  assume "reconcile_relay_aggregation sk cfg s = (Inr o', s')"
  from reconcile_outcome [OF this [unfolded reconcile_relay_aggregation_def] assms(1)] assms(2)
  show "journal_ok s' \<and> attempts_of s' = [] \<and> settled_rows (ids_of (attempts_of s)) (ad_rows s) (ad_rows s')"
    by (cases o') (auto simp: outcome_ok_def)
qed

definition idle :: "adapter_config \<Rightarrow> adapter \<Rightarrow> bool" where
  "idle cfg s \<longleftrightarrow>
     journal_ok s \<and> attempts_of s = [] \<and> (ac_submission cfg = OperatorSubmission \<longrightarrow> sd_operator (ad_mem s) = [])"

definition chunk_done :: "sdk \<Rightarrow> allocation_item list \<Rightarrow> adapter \<Rightarrow> adapter \<Rightarrow> bool" where
  "chunk_done sk c s s' \<longleftrightarrow>
     (\<forall>d \<in> set c. item_done sk (ad_rows s') d) \<and> (\<forall>i. i \<notin> fst ` set c \<longrightarrow> map_of (ad_rows s') i = map_of (ad_rows s) i)"

lemma chunk_doneD:
  assumes "chunk_done sk c s s'"
  shows "d \<in> set c \<Longrightarrow> item_done sk (ad_rows s') d"
    and "i \<notin> fst ` set c \<Longrightarrow> map_of (ad_rows s') i = map_of (ad_rows s) i"
  using assms unfolding chunk_done_def by blast+

lemma settled_chunk:
  assumes "map sa_id records = map fst c" "distinct (map fst c)"
    "\<forall>d \<in> set c. \<exists>r \<in> set records. sa_id r = fst d \<and> row_matches sk d r"
    "settled_rows (set (map sa_id records)) (update_rows records [] (ad_rows s)) (ad_rows s')"
  shows "chunk_done sk c s s'"
proof -
  have ids: "sa_id ` set records = fst ` set c" using assms(1) by (metis list.set_map)
  have dist: "distinct (map sa_id records)" using assms(1,2) by simp
  have "item_done sk (ad_rows s') d" if d: "d \<in> set c" for d
  proof -
    obtain r where r: "r \<in> set records" "sa_id r = fst d" "row_matches sk d r" using assms(3) d by blast
    have "map_of (ad_rows s') (fst d) = Some (r\<lparr>sa_stage := CompletedAllocation\<rparr>)"
      using assms(4) rows_written(1) [OF dist r(1), of "ad_rows s"] r by (force simp: settled_rows_def)
    then show ?thesis using r(3) by (auto simp: item_done_def row_matches_def split: prod.splits)
  qed
  moreover have "map_of (ad_rows s') i = map_of (ad_rows s) i" if "i \<notin> fst ` set c" for i
    using assms(4) rows_written(2) [OF dist, of i "ad_rows s"] ids that by (simp add: settled_rows_def)
  ultimately show ?thesis by (simp add: chunk_done_def)
qed

lemma ok_chunk:
  assumes "idle cfg s" "distinct (map fst c)"
  shows "on_ok (allocate_chunk sk cfg ep c) (\<lambda>_ s'. idle cfg s' \<and> chunk_done sk c s s') s"
  unfolding allocate_chunk_def on_ok_and_then [of "build_chunk _ _ _ _"]
proof (rule ok_build, unfold prod.case, goal_cases)
  case (1 rq inputs records s1)
  note items = records_of_items [OF 1(2)]
  have s1: "attempts_of s1 = []" "ad_rows s1 = ad_rows s" "journal_ok s1" "sd_operator (ad_mem s1) = sd_operator (ad_mem s)"
    using assms(1) 1(1) journal_ok_view by (auto simp: idle_def journal_of_def)
  let ?Q = "\<lambda>s'. idle cfg s' \<and> chunk_done sk c s s'"
  have recovered: "on_ok (and_then (recover_pending sk cfg) (\<lambda>more. ok (l @ more))) (\<lambda>_. ?Q) s2" if "?Q s2" for l s2
    unfolding on_ok_and_then on_ok_basic
  proof (rule ok_recover)
    fix s3
    assume "calm s2 s3"
    from calm_journal [OF this] that show "?Q s3" by (auto simp: idle_def chunk_done_def)
  qed
  show ?case
  proof (cases "ac_submission cfg")
    case RelayerSubmission
    have "on_ok (prepare_relay_aggregation sk rq ep inputs records)
        (\<lambda>_ s2. on_ok (reconcile_relay_aggregation sk cfg)
          (\<lambda>_. on_ok (and_then (recover_pending sk cfg) (\<lambda>more. ok ([] @ more))) (\<lambda>_. ?Q)) s2) s1"
    proof (rule ok_prepare [OF s1(1)], goal_cases)
      case (1 a s2)
      have "attempts_of s2 = [a]" "journal_ok s2" "ad_rows s2 = update_rows records [] (ad_rows s)"
        using 1 s1 by (auto simp: journal_of_def journal_ok_def attempts_ok_def max_attempts_def)
      then show ?case
        using 1(1) RelayerSubmission settled_chunk [OF conjunct1 [OF items] assms(2) conjunct2 [OF items]]
        by (intro on_ok_mono [OF ok_relay_settled] recovered) (auto simp: idle_def ids_of_def)
    qed
    then show ?thesis
      unfolding on_ok_and_then [of "if _ then _ else _"] RelayerSubmission
      by (simp add: on_ok_followed_by ok_tagged on_ok_basic)
  next
    case OperatorSubmission
    have "on_ok (submit_operator sk cfg ep rq inputs records)
        (\<lambda>l. on_ok (and_then (recover_pending sk cfg) (\<lambda>more. ok (l @ more))) (\<lambda>_. ?Q)) s1"
      by (rule on_ok_mono [OF ok_submit_operator [OF s1(3)]], rule recovered)
        (use s1 settled_chunk [OF conjunct1 [OF items] assms(2) conjunct2 [OF items]] in \<open>auto simp: idle_def\<close>)
    then show ?thesis
      unfolding on_ok_and_then [of "if _ then _ else _"] OperatorSubmission by simp
  qed
qed

lemma ok_chunks:
  "idle cfg s \<Longrightarrow> distinct (map fst (concat cs)) \<Longrightarrow>
   on_ok (allocate_chunks sk cfg ep submitted cs) (\<lambda>_ s'. idle cfg s' \<and> chunk_done sk (concat cs) s s') s"
proof (induction cs arbitrary: s submitted)
  case Nil
  then show ?case by (simp add: on_ok_basic chunk_done_def)
next
  case (Cons c cs)
  have "on_ok (allocate_chunk sk cfg ep c)
      (\<lambda>_. on_ok (allocate_chunks sk cfg ep True cs) (\<lambda>_ s'. idle cfg s' \<and> chunk_done sk (concat (c # cs)) s s')) s"
  proof (rule on_ok_mono [OF ok_chunk [OF Cons.prems(1)]], goal_cases)
    case 1
    then show ?case using Cons.prems(2) by simp
  next
    case (2 l s1)
    show ?case
    proof (rule on_ok_mono [OF Cons.IH [of s1 True]], goal_cases)
      case (3 l' s2)
      note done1 = chunk_doneD [OF conjunct2 [OF 2]] and done2 = chunk_doneD [OF conjunct2 [OF 3]]
      have apart: "fst ` set c \<inter> fst ` set (concat cs) = {}" using Cons.prems(2) by (simp del: set_concat)
      have kept: "item_done sk (ad_rows s2) d" if "d \<in> set c" for d
      proof -
        have "fst d \<notin> fst ` set (concat cs)" using apart that by blast
        from done2(2) [OF this] done1(1) [OF that] show ?thesis by (simp only: item_done_def)
      qed
      have "chunk_done sk (concat (c # cs)) s s2"
        unfolding chunk_done_def
      proof (intro conjI ballI allI impI)
        fix d
        assume "d \<in> set (concat (c # cs))"
        then consider "d \<in> set c" | "d \<in> set (concat cs)" by (simp del: set_concat) blast
        then show "item_done sk (ad_rows s2) d" by cases (erule kept, erule done2(1))
      next
        fix i
        assume "i \<notin> fst ` set (concat (c # cs))"
        then have "i \<notin> fst ` set c" "i \<notin> fst ` set (concat cs)" by (simp_all del: set_concat add: image_Un)
        then show "map_of (ad_rows s2) i = map_of (ad_rows s) i" using done1(2) done2(2) by simp
      qed
      then show ?case using 3 by simp
    qed (use 2 Cons.prems(2) in auto)
  qed
  then show ?case
    unfolding allocate_chunks.simps on_ok_and_then by (cases submitted) (simp_all add: ok_tagged on_ok_and_then on_ok_basic)
qed

text \<open>
  C23. A call that allocates deposits and succeeds leaves every one of them recorded as completed, for
  the address, the scan key and the amount that were asked for, and no relayed attempt unresolved. This
  holds whatever the journals held before.
\<close>

theorem allocated_recorded:
  assumes "journal_ok s" and "distinct (map fst deposits)" and "allocate_all sk cfg deposits s = (Inr receipts, s')"
  shows "list_all (item_done sk (ad_rows s')) deposits \<and> sd_relay (ad_mem s') = [] \<and> journal_ok s'"
proof -
  have "on_ok (allocate_all sk cfg deposits)
      (\<lambda>_ s'. idle cfg s' \<and> (\<forall>d \<in> set deposits. item_done sk (ad_rows s') d)) s"
    unfolding allocate_all_def
  proof (rule ok_silent, rule silent_client, unfold on_ok_followed_by, goal_cases)
    case (1 ep s1)
    show ?case
    proof (rule on_ok_mono [OF ok_settle [OF journal_ok_view [OF assms(1) 1]]],
        unfold on_ok_and_then [of "inspect _"] on_ok_basic on_ok_and_then [of "sift _ _ _"],
        rule on_ok_mono [OF wp_sift], goal_cases)
      case (1 u s2 x s3)
      obtain todo earlier where x: "x = (todo, earlier)" by fastforce
      have j3: "journal_ok s3" by (rule journal_ok_view [of s2]) (use 1 x in \<open>auto simp: advance_def\<close>)
      have todo: "distinct (map fst todo)" "concat (chunks max_allocations todo) = todo"
        using 1 x assms(2) by (auto simp: concat_chunks max_allocations_def distinct_map_filter)
      have s3: "attempts_of s3 = []" "sd_operator (ad_mem s3) = []" "ad_rows s3 = ad_rows s2"
        using 1 x by (auto simp: journal_of_def)
      have skipped: "item_done sk (ad_rows s2) d \<and> fst d \<notin> fst ` set todo" if "d \<in> set deposits" "d \<notin> set todo" for d
        using 1 x that by auto
      show ?case
        unfolding x prod.case on_ok_and_then [of "recover_pending _ _"]
      proof (rule ok_recover, goal_cases)
        case (1 l s4)
        note calm = calm_journal [OF 1 j3]
        have idle: "idle cfg s4"
          using calm s3 by (simp add: idle_def)
        show ?case
          unfolding on_ok_and_then on_ok_basic
        proof (rule on_ok_mono [OF ok_chunks [OF idle]], goal_cases)
          case (2 l' s5)
          have "item_done sk (ad_rows s5) d" if d: "d \<in> set deposits" for d
          proof (cases "d \<in> set todo")
            case True
            then show ?thesis using 2 todo(2) by (simp add: chunk_done_def)
          next
            case False
            from skipped [OF d False] have "item_done sk (ad_rows s2) d" "fst d \<notin> fst ` set todo" by simp_all
            moreover from this(2) have "map_of (ad_rows s5) (fst d) = map_of (ad_rows s2) (fst d)"
              using 2 todo(2) calm s3(3) by (simp add: chunk_done_def)
            ultimately show ?thesis by (simp only: item_done_def)
          qed
          then show ?case using 2 by simp
        qed (use todo in simp)
      qed
    qed
  qed
  from on_okD [OF this assms(3)] show ?thesis by (auto simp: idle_def list_all_iff)
qed

end
