(* ===== verification/Shield_Safety.thy ===== *)
theory Shield_Safety
  imports Curvy_Shield Allocate_Safety
begin

text \<open>
  The safety of a direct shield: the Safe is asked to send at most once, for a note the aggregator does
  not know and that is journalled on disk, and afterwards the note is still journalled or is part of
  the funding. The hypothesis that memory and disk agree on the shield in flight cannot be dropped: a
  save that fails leaves the shield in memory only, and the next call resumes it from there.
\<close>

definition shield_noted :: "sdk \<Rightarrow> owned_note \<Rightarrow> sdk_state \<Rightarrow> bool" where
  "shield_noted sk n st \<longleftrightarrow>
     (case sd_direct st of None \<Rightarrow> False | Some d \<Rightarrow> ds_note d = stored_of n \<or> owned_of sk (ds_note d) = Inr n)"

definition shield_funded :: "sdk \<Rightarrow> owned_note \<Rightarrow> sdk_state \<Rightarrow> bool" where
  "shield_funded sk n st \<longleftrightarrow>
     stored_of n \<in> set (sd_funding st) \<or>
     (\<exists>m \<in> set (sd_funding st). \<exists>k. owned_of sk m = Inr k \<and> curvy_note_id sk k = curvy_note_id sk n)"

definition unknown_note :: "sdk \<Rightarrow> owned_note \<Rightarrow> bool" where
  "unknown_note sk n \<longleftrightarrow> (\<exists>c st. sk_note_status sk c (sk_note_id sk n) = Inr st \<and> \<not> known_status st)"

definition shield_safe :: "sdk \<Rightarrow> sent list \<Rightarrow> adapter \<Rightarrow> bool" where
  "shield_safe sk before s \<longleftrightarrow>
     ad_sent s = before \<or>
     (\<exists>n disk. ad_sent s = before @ [ShieldSent n disk] \<and> unknown_note sk n \<and> shield_noted sk n disk \<and>
        (shield_noted sk n (ad_disk s) \<or> shield_funded sk n (ad_disk s)))"

lemma silent_observe [blind_intros]: "silent (observe_shield sk n k)"
proof (induction k)
  case (Suc k)
  have "silent (modify (sleep observation_interval))" by (rule blind_modify) (rule journal_tick)
  with Suc show ?case by (auto intro!: blind_intros)
qed (simp add: blind_intros)

lemma silent_shield_reads [blind_intros]:
  "silent (observe_direct_shield sk n)" "silent (parse_address sk name text)" "silent (check_vault_token sk cfg ep)"
  "silent (shield_router_checked sk cfg ep)"
  unfolding observe_direct_shield_def parse_address_def check_vault_token_def shield_router_checked_def
  by (auto intro!: blind_intros)

lemma traverse_member: "traverse f xs = Inr ys \<Longrightarrow> y \<in> set ys \<Longrightarrow> \<exists>x \<in> set xs. f x = Inr y"
  by (induction xs arbitrary: ys) (auto split: sum.splits)

lemma wp_then_then:
  "wp (and_then (followed_by m n) f) Q s \<longleftrightarrow>
   wp m (\<lambda>r s'. case r of Inl e \<Rightarrow> Q (Inl e) s' | Inr _ \<Rightarrow> wp (and_then n f) Q s') s"
  by (auto simp: wp_def followed_by_def and_then_def split: prod.split sum.split)

lemma wp_note_status:
  "wp (note_status sk n) (\<lambda>r s'. journal_of s' = journal_of s \<and>
     (case r of Inl _ \<Rightarrow> True | Inr st \<Rightarrow> \<exists>c. sk_note_status sk c (sk_note_id sk n) = Inr st)) s"
  by (auto simp: wp_def note_status_def map_err_def ask_def split: prod.split sum.splits)

text \<open>The journalled note: what memory holds is what the disk holds.\<close>

definition noted :: "sdk \<Rightarrow> owned_note \<Rightarrow> adapter \<Rightarrow> bool" where
  "noted sk n s \<longleftrightarrow> shield_noted sk n (ad_mem s) \<and> shield_noted sk n (ad_disk s)"

lemma noted_silent: "noted sk n s \<Longrightarrow> journal_of s' = journal_of s \<Longrightarrow> noted sk n s'"
  by (simp add: noted_def journal_of_def)

lemma wp_prepare_direct:
  assumes "sd_direct (ad_mem s) = sd_direct (ad_disk s)"
  shows "wp (prepare_direct sk cfg ep gross)
    (\<lambda>r s'. ad_sent s' = ad_sent s \<and> (case r of Inl _ \<Rightarrow> True | Inr (n, _) \<Rightarrow> noted sk n s')) s"
proof (cases "sd_direct (ad_mem s)")
  case (Some stored)
  then show ?thesis
    using assms
    by (auto simp: prepare_direct_def wp_simps noted_def shield_noted_def split: sum.split)
next
  case None
  have saved: "wp (followed_by
       (update_save sk (\<lambda>st. st\<lparr>sd_direct := Some \<lparr>ds_note = stored_of n, ds_gross = show_nat gross\<rparr>\<rparr>)) (ok (n, Some router)))
      (\<lambda>r s'. ad_sent s' = ad_sent s \<and> (case r of Inl _ \<Rightarrow> True | Inr (n, _) \<Rightarrow> noted sk n s')) s1"
    if "journal_of s1 = journal_of s" for s1 n router
    unfolding wp_followed_by
    by (rule wp_update_save) (use that in \<open>auto simp: wp_basic noted_def shield_noted_def journal_of_def\<close>)
  show ?thesis
    unfolding prepare_direct_def wp_and_then [of "inspect _"] wp_basic sum.case None option.case
    by (intro wp_seq_silent blind_intros saved) (auto simp: journal_of_def)
qed

lemma wp_send_shield:
  assumes "noted sk n s" "unknown_note sk n" "shield_safe sk before s" "ad_sent s = before"
  shows "wp (send_shield sk cfg ep gross n router) (\<lambda>r s'. noted sk n s' \<and> shield_safe sk before s' \<and>
       (\<forall>m disk. ad_sent s' = before @ [ShieldSent m disk] \<longrightarrow> m = n)) s"
proof -
  have sent: "wp (followed_by (and_then (inspect ad_disk) (\<lambda>disk. record_sent (ShieldSent n disk)))
      (map_err (Err \<circ> Funding) (ask sk f))) (\<lambda>r s'. noted sk n s' \<and> shield_safe sk before s' \<and>
       (\<forall>m disk. ad_sent s' = before @ [ShieldSent m disk] \<longrightarrow> m = n)) s1"
    if "journal_of s1 = journal_of s" for s1 and f :: "nat \<Rightarrow> string + unit"
    unfolding wp_followed_by wp_and_then wp_basic sum.case record_sent_def wp_map_err
    by (rule wp_silent_any, intro blind_intros)
      (use assms that in \<open>auto simp: noted_def shield_safe_def journal_of_def split: sum.split\<close>)
  have safe: "noted sk n s1 \<and> shield_safe sk before s1 \<and> (\<forall>m disk. ad_sent s1 = before @ [ShieldSent m disk] \<longrightarrow> m = n)" if "journal_of s1 = journal_of s" for s1
    using assms that noted_silent by (auto simp: shield_safe_def journal_of_def)
  show ?thesis
    unfolding send_shield_def by (intro wp_seq_silent blind_intros sent; (rule safe)?; simp)
qed

lemma calm_funding: "calm s s' \<Longrightarrow> ad_mem s = ad_disk s \<Longrightarrow> sd_funding (ad_disk s') = sd_funding (ad_disk s)"
  by (auto simp: calm_def)

lemma wp_book_shield:
  assumes "noted sk n s" "shield_safe sk before s"
    and "\<And>m disk. ad_sent s = before @ [ShieldSent m disk] \<Longrightarrow> m = n"
  shows "wp (followed_by (book_shield sk n observed (\<lambda>st. st\<lparr>sd_direct := None\<rparr>)) (recover_pending sk cfg))
    (\<lambda>r s'. shield_safe sk before s') s"
proof -
  let ?new = "\<lambda>funding st. st\<lparr>sd_funding := sd_funding st @
        (if list_ex (\<lambda>k. curvy_note_id sk k = curvy_note_id sk n) funding then [] else [stored_of n]),
      sd_pending := sd_pending st @ (if observed \<noteq> 2 \<and> stored_of n \<notin> set (sd_pending st) then [stored_of n] else []),
      sd_direct := None\<rparr>"
  show ?thesis
  proof (cases "traverse (owned_of sk) (sd_funding (ad_mem s))")
    case (Inl e)
    then show ?thesis using assms(2) by (simp add: book_shield_def wp_simps)
  next
    case (Inr funding)
    have funded: "shield_funded sk n (?new funding (ad_mem s))"
    proof (cases "list_ex (\<lambda>k. curvy_note_id sk k = curvy_note_id sk n) funding")
      case True
      then obtain k where k: "k \<in> set funding" "curvy_note_id sk k = curvy_note_id sk n" by (auto simp: list_ex_iff)
      then obtain m where "m \<in> set (sd_funding (ad_mem s))" "owned_of sk m = Inr k"
        using traverse_member [OF Inr] by blast
      then show ?thesis using k by (auto simp: shield_funded_def)
    qed (simp add: shield_funded_def)
    have safe: "shield_safe sk before s'"
      if "ad_sent s' = ad_sent s" "shield_funded sk n (ad_disk s') \<or> ad_disk s' = ad_disk s" for s'
      using assms that by (auto simp: shield_safe_def noted_def)
    have "wp (update_save sk (\<lambda>st. (?new funding st))) (\<lambda>r s1. case r of Inl e \<Rightarrow> shield_safe sk before s1
        | Inr _ \<Rightarrow> wp (recover_pending sk cfg) (\<lambda>r s'. shield_safe sk before s') s1) s"
    proof (rule wp_update_save, goal_cases)
      case (1 m s1)
      then show ?case using safe [of s1] by (simp add: journal_of_def)
    next
      case (2 s1)
      have "shield_safe sk before s2" if "calm s1 s2" for s2
      proof (rule safe)
        have new: "ad_disk s1 = ?new funding (ad_mem s)" and same: "ad_mem s1 = ad_disk s1"
          using 2 by (simp_all add: journal_of_def)
        note new calm_funding [OF that same]
        then have "shield_funded sk n (ad_disk s2)" using funded unfolding shield_funded_def by argo
        then show "shield_funded sk n (ad_disk s2) \<or> ad_disk s2 = ad_disk s" ..
      qed (use 2 that in \<open>simp add: calm_def journal_of_def\<close>)
      then show ?case by (simp add: wp_recover)
    qed
    then show ?thesis
      by (simp add: book_shield_def wp_followed_by wp_and_then wp_basic wp_lift Inr Let_def)
  qed
qed


end
