(* ===== verification/Curvy_Example.thy ===== *)
theory Curvy_Example
  imports Allocate_Safety Shield_Safety
begin

text \<open>
  Concrete runs of the Curvy adapter: an allocation that is refused for want of funding, one that is
  accepted, and a direct shield that is sent but whose note the aggregator does not come to know.
\<close>

definition demo_operator :: adapter_config where
  "demo_operator = demo_config\<lparr>ac_submission := OperatorSubmission, ac_fee_recipient := Some \<lparr>id_spend = [], id_view = [], id_bjj = (1, 2)\<rparr>\<rparr>"

definition demo_idle :: adapter where
  "demo_idle = demo_adapter\<lparr>ad_mem := sdk_default, ad_disk := sdk_default, ad_client := Some demo_endpoints, tn_token := configured_token 2\<rparr>"

definition demo_sealed :: owned_note where
  "demo_sealed = \<lparr>on_owner = (1, 1), on_secret = 1, on_ephemeral = (1, 1), on_view_tag = 6, on_amount = 1, on_token = 1\<rparr>"

definition demo_prover :: sdk where
  "demo_prover = demo_sdk\<lparr>sk_address_bytes := (\<lambda>_. replicate 32 0),
     sk_build := (\<lambda>_ b. Inr \<lparr>ar_max_inputs = 2, ar_proof = 1, ar_signals = [], ar_request_key = [], ar_spend_key = [],
        ar_change = hd (bi_inputs b), ar_emitted = [], ar_circuit = 1\<rparr>),
     sk_aggregate := (\<lambda>_ _. Inr [''tx'']), sk_prepare_shield := (\<lambda>_ _ _. Inr demo_sealed), sk_shield := (\<lambda>_ _. Inr ())\<rparr>"

definition demo_item :: allocation_item where "demo_item = (7, 1, 1, 1)"

definition demo_funded :: adapter where
  "demo_funded = demo_idle\<lparr>ad_mem := sdk_default\<lparr>sd_funding := [demo_stored]\<rparr>, ad_disk := sdk_default\<lparr>sd_funding := [demo_stored]\<rparr>\<rparr>"

lemmas run_defs = and_then_def followed_by_def inspect_def ok_def fail_def err_def lift_def lift_result_def map_err_def
  catching_def only_if_def require_def Fallible.modify_def ask_def tick_call_def

lemma client_known: "ad_client s = Some ep \<Longrightarrow> client sk cfg s = (Inr ep, s)"
  by (simp add: client_def run_defs)

lemma settle_idle: "ad_client s = Some ep \<Longrightarrow> sd_relay (ad_mem s) = [] \<Longrightarrow> sd_intents (ad_mem s) = [] \<Longrightarrow> \<not> sd_ambiguous (ad_mem s) \<Longrightarrow>
  sd_operator (ad_mem s) = [] \<Longrightarrow> settle_journals sk cfg s = (Inr (), s)"
  by (simp add: settle_journals_def run_defs tagged_def reconcile_relay_aggregation_def reconcile_with.simps reconcile_step_def
      reconcile_operator_def)

lemma recover_idle: "sd_pending (ad_mem s) = [] \<Longrightarrow> recover_pending sk cfg s = (Inr [], s)"
  by (simp add: recover_pending_def run_defs Let_def)

lemma prover_fields [simp]:
  "sk_db demo_prover n = None" "sk_address_bytes demo_prover a = replicate 32 0" "sk_scan_bytes demo_prover c = []"
  "sk_point demo_prover a = Inr (1, 2)" "sk_scan_dec demo_prover c = Inr ([], [])" "sk_viewer demo_prover v = Inr 1"
  "sk_minimum_input demo_prover n t m = Inr m" "sk_parse_fr demo_prover x = Inr 1" "sk_aggregate demo_prover n r = Inr [''tx'']"
  "sk_note_status demo_prover n i = Inr 0" "sk_max_commit demo_prover = 8" "sk_commit demo_prover n is = Inr []"
  "sk_snapshot demo_prover n = SnapshotTimeout"
  "sk_build demo_prover n b = Inr \<lparr>ar_max_inputs = 2, ar_proof = 1, ar_signals = [], ar_request_key = [], ar_spend_key = [],
        ar_change = hd (bi_inputs b), ar_emitted = [], ar_circuit = 1\<rparr>"
  by (simp_all add: demo_prover_def demo_sdk_def blokli.defs)

lemma config_fields [simp]:
  "ac_submission demo_operator = OperatorSubmission" "ac_fee_recipient demo_operator = Some \<lparr>id_spend = [], id_view = [], id_bjj = (1, 2)\<rparr>"
  by (simp_all add: demo_operator_def demo_config_def)

lemma idle_fields [simp]:
  "ad_client demo_idle = Some demo_endpoints" "ad_mem demo_idle = sdk_default" "ad_disk demo_idle = sdk_default" "ad_rows demo_idle = []"
  "ad_sent demo_idle = []" "tn_token demo_idle = configured_token 2"
  by (simp_all add: demo_idle_def demo_adapter_def Let_def)

lemma default_fields [simp]:
  "sd_relay sdk_default = []" "sd_operator sdk_default = []" "sd_intents sdk_default = []" "sd_funding sdk_default = []"
  "sd_pending sdk_default = []" "\<not> sd_ambiguous sdk_default"
  by (simp_all add: sdk_default_def)

lemmas allocation_run = run_defs client_known settle_idle recover_idle allocation_def db_tx_def demo_item_def
  chunks.simps max_allocations_def allocate_chunk_def build_chunk_def chunk_fee_def fee_recipient_def prover_item_def
  balance_u128_def u128_max_def recipient_def adapter_token_def configured_token_def choose_funding_def
  by_amount_descending_def

lemmas operator_run = funding_candidate_def owned_of_def note_field_def amount_u128_def stored_allocation_new_def
  submit_operator_def Let_def max_attempts_def commit_state_def save_update_def record_sent_def finish_operator_def
  book_operator_def new_operator_attempt_def nonzero_notes_def stored_of_def completed_allocations_def
  prepared_row_def update_rows_def

lemma allocation_refused: "fst (allocate_all demo_prover demo_operator [demo_item] demo_idle) = Inl (Err (NoFunding 1))"
  unfolding allocate_all_def by (simp add: allocation_run)

lemma allocation_accepted: "\<exists>l. fst (allocate_all demo_prover demo_operator [demo_item] demo_funded) = Inr l"
  unfolding allocate_all_def by (simp add: allocation_run operator_run demo_funded_def demo_stored_def)

lemma demo_idle_ok: "journal_ok demo_idle"
  by (simp add: journal_ok_def attempts_ok_def max_attempts_def rows_keyed_def)

lemma demo_funded_ok: "journal_ok demo_funded"
  by (simp add: journal_ok_def attempts_ok_def max_attempts_def rows_keyed_def demo_funded_def)

lemma only_refuses: "only_prover_refuses demo_prover"
  by (simp add: only_prover_refuses_def)

theorem fund_free_posts_nothing_witness:
  "case allocate_all demo_prover demo_operator [demo_item] demo_idle of
     (_, s') \<Rightarrow> list_all (\<lambda>d. \<not> completed_in (ad_rows s') (fst d)) [demo_item] \<and> sd_relay (ad_mem s') = []"
proof -
  obtain r s' where run: "allocate_all demo_prover demo_operator [demo_item] demo_idle = (r, s')" by fastforce
  then have r: "r = Inl (Err (NoFunding 1))" using allocation_refused by simp
  have "curvy_moved_no_funds (Adapter (AdapterError (NoFunding 1)))" by simp
  from fund_free_posts_nothing [OF demo_idle_ok only_refuses run [unfolded r] this] show ?thesis
    unfolding run by simp
qed

theorem allocated_recorded_witness:
  "case allocate_all demo_prover demo_operator [demo_item] demo_funded of
     (_, s') \<Rightarrow> item_done demo_prover (ad_rows s') demo_item"
proof -
  obtain l s' where run: "allocate_all demo_prover demo_operator [demo_item] demo_funded = (Inr l, s')"
    using allocation_accepted by (metis prod.collapse)
  from allocated_recorded [OF demo_funded_ok _ run] show ?thesis
    unfolding run by simp
qed

definition demo_shielding :: adapter where
  "demo_shielding = demo_idle\<lparr>tn_token := configured_token 3\<rparr>"

lemma shielding_fields [simp]:
  "ac_shielder demo_operator" "sd_direct sdk_default = None" "ep_shield_router demo_endpoints = Some ''0xdd''"
  "ep_token_address demo_endpoints = ''0xcc''" "sk_parse_eth demo_prover = Inr" "sk_calldata demo_prover n g = Inr []"
  "sk_prepare_shield demo_prover i g t = Inr demo_sealed" "sk_shield demo_prover i c = Inr ()"
  "bk_token demo_prover i (show_nat 3) = Inr ''0xcc''"
  by (simp_all add: demo_operator_def demo_config_def sdk_default_def demo_endpoints_def demo_prover_def demo_sdk_def
      demo_blokli_def blokli.defs gateway.defs)

lemmas shield_run = run_defs client_known prepare_direct_def shield_router_checked_def require_shield_router_def
  parse_address_def check_vault_token_def adapter_token_def configured_token_def note_status_def known_status_def
  send_shield_def record_sent_def observe_direct_shield_def direct_shield_observations_def [unfolded numeral_3_eq_3]
  update_save_def save_def save_update_def db_tx_def Let_def eq_ignore_case_def sleep_def

lemma shielding:
  "\<exists>disk. ad_sent (snd (direct_shield demo_prover demo_operator 5 demo_shielding)) = [ShieldSent demo_sealed disk]"
  unfolding direct_shield_def by (simp add: shield_run demo_shielding_def)


end
