(* ===== verification/Curvy_Detect.thy ===== *)
theory Curvy_Detect
  imports Curvy_Store Curvy_Journal
begin

text \<open>
  \<open>src/src/pix/pools/curvy/detect.rs\<close>: whether a note of the public index belongs to one of the
  watched allocations, and the bridges between key formats. What \<open>curvy-core\<close> and the curve libraries
  compute is the record \<open>curve\<close>; a public key and a scan secret are opaque values.
\<close>

record curve =
  cv_parse_dec :: "string \<Rightarrow> string + fr"
  cv_decompress :: "bytes \<Rightarrow> (string \<times> string) option"
  cv_subgroup :: "string \<Rightarrow> string \<Rightarrow> (fr \<times> fr) option"
  cv_spend_bytes :: "scan_secret \<Rightarrow> bytes"
  cv_view_bytes :: "scan_secret \<Rightarrow> bytes"
  cv_scan :: "string \<Rightarrow> string \<Rightarrow> string \<Rightarrow> string \<Rightarrow> string + (nat \<times> string) list"
  cv_decrypt :: "fr \<Rightarrow> fr \<Rightarrow> fr \<Rightarrow> fr \<times> fr \<Rightarrow> fr \<times> fr"
  cv_reduce :: "nat \<Rightarrow> fr"
  cv_note_id :: "witness_note \<Rightarrow> fr"
  cv_nullifier :: "witness_note \<Rightarrow> fr"
  cv_public :: "scan_secret \<Rightarrow> scan_key"
  cv_u256_error :: "string \<Rightarrow> string"
  cv_debug :: "string \<Rightarrow> string"
  cv_new_meta :: "nat \<Rightarrow> string + string \<times> string \<times> string \<times> string"
  cv_hex_decode :: "string \<Rightarrow> string + bytes"
  cv_view_keypair :: "bytes \<Rightarrow> string + nat"
  cv_spend_key :: "bytes \<Rightarrow> string + nat"
  cv_secret :: "nat \<Rightarrow> nat \<Rightarrow> scan_secret"
  cv_view_dec :: "scan_secret \<Rightarrow> string + string"
  cv_signing_key :: "bytes \<Rightarrow> string + nat"

record pending_note =
  pn_id :: string
  pn_amount :: string
  pn_token :: string
  pn_ephemeral :: "string list"
  pn_view_tag :: int
  pn_plaintext :: bool
  pn_position :: event_cursor

type_synonym watch_entry = "pix_id \<times> nat \<times> scan_secret"

section \<open>Key formats\<close>

definition bjj_point :: "curve \<Rightarrow> note_codec \<Rightarrow> nat \<Rightarrow> string + fr \<times> fr" where
  "bjj_point cv nc address =
     (let b = nc_address_bytes nc address in
      if length b \<noteq> 32 then Inl ''invalid compressed-key length''
      else
        case cv_decompress cv b of
          None \<Rightarrow> Inl ''invalid compressed point''
        | Some (x, y) \<Rightarrow>
            (case cv_subgroup cv x y of
               None \<Rightarrow> Inl ''point is not in the Curvy BabyJubJub subgroup''
             | Some p \<Rightarrow> Inr p))"

definition bjj_secret :: "curve \<Rightarrow> bytes \<Rightarrow> string + nat" where
  \<comment> \<open>big-endian here, little-endian there\<close>
  "bjj_secret cv secret = (if length secret \<noteq> 32 then Inl ''secret must contain 32 bytes'' else cv_signing_key cv (rev secret))"

definition spend_meta_key_dec :: "curve \<Rightarrow> scan_secret \<Rightarrow> string" where
  "spend_meta_key_dec cv secret =
     (let b = cv_spend_bytes cv secret in show_nat (from_be (slice b 1 32)) @ ''.'' @ show_nat (from_be (slice b 33 32)))"

definition view_secret_hex :: "curve \<Rightarrow> scan_secret \<Rightarrow> string" where
  "view_secret_hex cv secret = hex_bytes (cv_view_bytes cv secret)"

definition u256_dec :: "curve \<Rightarrow> string \<Rightarrow> string + nat" where
  \<comment> \<open>\<open>U256::from_str_radix(_, 10)\<close>: an empty string is zero\<close>
  "u256_dec cv s =
     (if list_all is_digit s \<and> dec_value s \<le> u256_max then Inr (dec_value s) else Inl (cv_u256_error cv s))"

definition point_coordinates :: "curve \<Rightarrow> string \<Rightarrow> string + bytes \<times> bytes" where
  "point_coordinates cv point =
     (case split_once (CHR ''.'') point of
        None \<Rightarrow> Inl (''malformed Curvy point '' @ cv_debug cv point)
      | Some (x, y) \<Rightarrow>
          (case u256_dec cv x of
             Inl e \<Rightarrow> Inl (''invalid Curvy point x: '' @ e)
           | Inr x \<Rightarrow>
               (case u256_dec cv y of
                  Inl e \<Rightarrow> Inl (''invalid Curvy point y: '' @ e)
                | Inr y \<Rightarrow> Inr (be_bytes 32 x, be_bytes 32 y))))"

definition public_key_from_dec :: "curve \<Rightarrow> string \<Rightarrow> string + nat" where
  "public_key_from_dec cv point =
     (case point_coordinates cv point of Inl e \<Rightarrow> Inl e | Inr (x, y) \<Rightarrow> cv_spend_key cv (4 # x @ y))"

definition shared_secret_of :: "curve \<Rightarrow> string \<Rightarrow> string + fr" where
  "shared_secret_of cv spending =
     (case split_once (CHR ''.'') spending of
        None \<Rightarrow> Inl ''Curvy scan returned a malformed spending public key''
      | Some (x, y) \<Rightarrow>
          (case u256_dec cv x of
             Inl e \<Rightarrow> Inl (''invalid scanned spending public key x: '' @ e)
           | Inr x \<Rightarrow>
               (case u256_dec cv y of
                  Inl e \<Rightarrow> Inl (''invalid scanned spending public key y: '' @ e)
                | Inr _ \<Rightarrow> Inr (cv_reduce cv x))))"

definition generate_scan_secret :: "curve \<Rightarrow> nat \<Rightarrow> string + scan_secret" where
  \<comment> \<open>the first failure is the text of a \<open>ScanIdentity\<close> error\<close>
  "generate_scan_secret cv n =
     (case cv_new_meta cv n of
        Inl e \<Rightarrow> Inl e
      | Inr (k, v, big_k, big_v) \<Rightarrow>
          (case cv_hex_decode cv v of
             Inl e \<Rightarrow> Inl e
           | Inr b \<Rightarrow>
               if 32 < length b then Inl ''view scalar exceeds 32 bytes''
               else
                 case cv_view_keypair cv (replicate (32 - length b) 0 @ b) of
                   Inl e \<Rightarrow> Inl e
                 | Inr view \<Rightarrow>
                     (case public_key_from_dec cv big_k of
                        Inl e \<Rightarrow> Inl e
                      | Inr spend \<Rightarrow>
                          let secret = cv_secret cv view spend in
                          (case cv_view_dec cv secret of
                             Inl e \<Rightarrow> Inl e
                           | Inr advertised \<Rightarrow>
                               if advertised \<noteq> big_v then Inl ''derived view key does not match Curvy's''
                               else Inr secret))))"

section \<open>Detection\<close>

definition parse_curvy_field :: "curve \<Rightarrow> string \<Rightarrow> string \<Rightarrow> string + fr" where
  "parse_curvy_field cv value name =
     (case cv_parse_dec cv value of Inl e \<Rightarrow> Inl (''invalid '' @ name @ '': '' @ e) | Inr x \<Rightarrow> Inr x)"

definition decrypt_candidate :: "curve \<Rightarrow> fr \<Rightarrow> fr \<Rightarrow> fr \<Rightarrow> fr \<times> fr \<Rightarrow> bool \<Rightarrow> fr \<times> fr" where
  "decrypt_candidate cv amount tok secret ephemeral plaintext =
     (if plaintext then (amount, tok) else cv_decrypt cv amount tok secret ephemeral)"

record public_fields =
  pf_id :: fr
  pf_amount :: fr
  pf_token :: fr
  pf_ephemeral :: "fr \<times> fr"
  pf_view_tag :: nat

definition public_fields_of :: "curve \<Rightarrow> note_codec \<Rightarrow> pending_note \<Rightarrow> string + public_fields" where
  "public_fields_of cv nc c =
     (case parse_curvy_note_id nc (pn_id c) of
        Inl e \<Rightarrow> Inl e
      | Inr i \<Rightarrow>
          (case parse_curvy_field cv (pn_amount c) ''amount'' of
             Inl e \<Rightarrow> Inl e
           | Inr amount \<Rightarrow>
               (case parse_curvy_field cv (pn_token c) ''token'' of
                  Inl e \<Rightarrow> Inl e
                | Inr tok \<Rightarrow>
                    (case pn_ephemeral c of
                       [x, y] \<Rightarrow>
                         (case parse_curvy_field cv x ''ephemeral key x'' of
                            Inl e \<Rightarrow> Inl e
                          | Inr x \<Rightarrow>
                              (case parse_curvy_field cv y ''ephemeral key y'' of
                                 Inl e \<Rightarrow> Inl e
                               | Inr y \<Rightarrow>
                                   if 0 \<le> pn_view_tag c \<and> pn_view_tag c \<le> 255
                                   then Inr \<lparr>pf_id = i, pf_amount = amount, pf_token = tok, pf_ephemeral = (x, y),
                                             pf_view_tag = nat (pn_view_tag c)\<rparr>
                                   else Inl ''view tag must fit into one byte''))
                     | _ \<Rightarrow> Inl ''ephemeral key must contain exactly two coordinates''))))"

definition scan_candidate :: "curve \<Rightarrow> public_fields \<Rightarrow> scan_secret \<Rightarrow> string + (nat \<times> string) list" where
  "scan_candidate cv pf secret =
     cv_scan cv (view_secret_hex cv secret) (spend_meta_key_dec cv secret)
       (show_nat (fst (pf_ephemeral pf)) @ ''.'' @ show_nat (snd (pf_ephemeral pf))) (hex_bytes [of_nat (pf_view_tag pf)])"

definition judge_note ::
  "curve \<Rightarrow> fr \<Rightarrow> public_fields \<Rightarrow> bool \<Rightarrow> pix_id \<Rightarrow> nat \<Rightarrow> fr \<times> fr \<Rightarrow> fr \<Rightarrow> detected_note option option" where
  \<comment> \<open>the outer None goes on with the next allocation\<close>
  "judge_note cv expected pf plaintext i address owner shared =
     (let (amount, tok) = decrypt_candidate cv (pf_amount pf) (pf_token pf) shared (pf_ephemeral pf) plaintext;
          note = \<lparr>wn_amount = amount, wn_token = tok, wn_owner = owner, wn_secret = shared,
                  wn_ephemeral = pf_ephemeral pf, wn_view_tag = pf_view_tag pf\<rparr> in
      if tok \<noteq> expected \<or> cv_note_id cv note \<noteq> pf_id pf then None
      else if amount = 0 then Some None
      else Some (Some \<lparr>dn_deposit = \<lparr>od_id = i, od_address = address, od_amount = amount\<rparr>, dn_note = note\<rparr>))"

definition detect_entry ::
  "curve \<Rightarrow> note_codec \<Rightarrow> fr \<Rightarrow> public_fields \<Rightarrow> bool \<Rightarrow> watch_entry \<Rightarrow> string + detected_note option option" where
  "detect_entry cv nc expected pf plaintext = (\<lambda>(i, address, secret).
     case bjj_point cv nc address of
       Inl _ \<Rightarrow> Inr None
     | Inr owner \<Rightarrow>
         (case scan_candidate cv pf secret of
            Inl e \<Rightarrow> Inl (''Curvy viewer scan failed: '' @ e)
          | Inr [] \<Rightarrow> Inr None
          | Inr ((index, spending) # _) \<Rightarrow>
              if index \<noteq> 0 then Inl ''single-note Curvy viewer scan returned an invalid match index''
              else
                (case shared_secret_of cv spending of
                   Inl e \<Rightarrow> Inl e
                 | Inr shared \<Rightarrow> Inr (judge_note cv expected pf plaintext i address owner shared))))"

fun detect_in ::
  "curve \<Rightarrow> note_codec \<Rightarrow> fr \<Rightarrow> public_fields \<Rightarrow> bool \<Rightarrow> watch_entry list \<Rightarrow> string + detected_note option" where
  "detect_in cv nc expected pf plaintext [] = Inr None"
| "detect_in cv nc expected pf plaintext (w # watched) =
     (case detect_entry cv nc expected pf plaintext w of
        Inl e \<Rightarrow> Inl e
      | Inr None \<Rightarrow> detect_in cv nc expected pf plaintext watched
      | Inr (Some answer) \<Rightarrow> Inr answer)"

definition detect_owned_note ::
  "curve \<Rightarrow> note_codec \<Rightarrow> fr \<Rightarrow> pending_note \<Rightarrow> watch_entry list \<Rightarrow> string + detected_note option" where
  "detect_owned_note cv nc expected c watched =
     (case public_fields_of cv nc c of
        Inl e \<Rightarrow> Inl e
      | Inr pf \<Rightarrow> detect_in cv nc expected pf (pn_plaintext c) watched)"

section \<open>What a detection proves\<close>

text \<open>
  A detected note is of a watched allocation, its public id is the one recomputed from the owner key
  of that allocation, and it pays a positive amount of the expected token.
\<close>

definition attributed :: "curve \<Rightarrow> note_codec \<Rightarrow> fr \<Rightarrow> pending_note \<Rightarrow> watch_entry list \<Rightarrow> detected_note \<Rightarrow> bool" where
  "attributed cv nc expected c watched d \<longleftrightarrow>
     (\<exists>secret owner. (od_id (dn_deposit d), od_address (dn_deposit d), secret) \<in> set watched \<and>
        bjj_point cv nc (od_address (dn_deposit d)) = Inr owner \<and> wn_owner (dn_note d) = owner) \<and>
     parse_curvy_note_id nc (pn_id c) = Inr (cv_note_id cv (dn_note d)) \<and>
     od_amount (dn_deposit d) = wn_amount (dn_note d) \<and> 0 < od_amount (dn_deposit d) \<and> wn_token (dn_note d) = expected"

lemma detect_entry_sound:
  assumes "detect_entry cv nc expected pf plaintext w = Inr (Some (Some d))"
  shows "\<exists>secret. w = (od_id (dn_deposit d), od_address (dn_deposit d), secret) \<and>
    bjj_point cv nc (od_address (dn_deposit d)) = Inr (wn_owner (dn_note d)) \<and>
    cv_note_id cv (dn_note d) = pf_id pf \<and> wn_token (dn_note d) = expected \<and>
    od_amount (dn_deposit d) = wn_amount (dn_note d) \<and> 0 < od_amount (dn_deposit d)"
proof -
  obtain i address secret where w: "w = (i, address, secret)" by (cases w)
  with assms obtain owner shared where owner: "bjj_point cv nc address = Inr owner"
      and d: "judge_note cv expected pf plaintext i address owner shared = Some (Some d)"
    by (auto simp: detect_entry_def split: sum.splits list.splits if_splits)
  from d have "dn_deposit d = \<lparr>od_id = i, od_address = address, od_amount = wn_amount (dn_note d)\<rparr>"
    "wn_owner (dn_note d) = owner" "cv_note_id cv (dn_note d) = pf_id pf" "wn_token (dn_note d) = expected"
    "0 < wn_amount (dn_note d)"
    by (auto simp: judge_note_def Let_def split: prod.splits if_splits)
  with w owner show ?thesis by simp
qed

lemma detect_in_sound:
  "detect_in cv nc expected pf plaintext watched = Inr (Some d) \<Longrightarrow>
   \<exists>w \<in> set watched. detect_entry cv nc expected pf plaintext w = Inr (Some (Some d))"
  by (induction watched) (auto split: sum.splits option.splits)

lemma detected_attributed:
  assumes "detect_owned_note cv nc expected c watched = Inr (Some d)"
  shows "attributed cv nc expected c watched d"
proof -
  from assms obtain pf where pf: "public_fields_of cv nc c = Inr pf"
      and "detect_in cv nc expected pf (pn_plaintext c) watched = Inr (Some d)"
    by (auto simp: detect_owned_note_def split: sum.splits)
  from detect_in_sound [OF this(2)] detect_entry_sound
  obtain w secret where "w \<in> set watched" "w = (od_id (dn_deposit d), od_address (dn_deposit d), secret)"
    "bjj_point cv nc (od_address (dn_deposit d)) = Inr (wn_owner (dn_note d))" "cv_note_id cv (dn_note d) = pf_id pf"
    "wn_token (dn_note d) = expected" "od_amount (dn_deposit d) = wn_amount (dn_note d)" "0 < od_amount (dn_deposit d)"
    by metis
  moreover have "parse_curvy_note_id nc (pn_id c) = Inr (pf_id pf)"
    using pf by (auto simp: public_fields_of_def split: sum.splits list.splits if_splits)
  ultimately show ?thesis by (auto simp: attributed_def)
qed

end
