(* ===== verification/Curvy_Watch.thy ===== *)
theory Curvy_Watch
  imports Curvy_Detect
begin

text \<open>
  \<open>src/src/pix/pools/curvy/lifecycle.rs\<close>: the allocations somebody waits for, the correlation of the
  public note events with them, and the watcher. The state of the pool holds the adapter (with its
  clock), the note store and what the tracker keeps. A channel is a number; \<open>pl_sent\<close> is what was
  sent through which and when, \<open>pl_gone\<close> are those whose receiver is gone. The order of the list
  \<open>pl_waiters\<close> stands for the iteration order of the hash map.
\<close>

section \<open>The note index\<close>

record committed_event =
  ce_id :: string
  ce_leaf :: string
  ce_position :: event_cursor

record note_index =
  ix_pending :: "nat \<Rightarrow> event_cursor option \<Rightarrow> nat \<Rightarrow> string + pending_note list \<times> bool"
  ix_committed :: "nat \<Rightarrow> event_cursor option \<Rightarrow> nat \<Rightarrow> string + committed_event list"
  ix_candidates :: "nat \<Rightarrow> event_cursor option \<Rightarrow> nat \<Rightarrow> string + pending_note list"
  ix_head :: "nat \<Rightarrow> string + nat \<times> nat"
  ix_nullifier :: "nat \<Rightarrow> string \<Rightarrow> string + bool"
  ix_known :: "nat \<Rightarrow> string \<Rightarrow> string + bool"

record curvy_queries =
  \<comment> \<open>what Blokli answers\<close>
  cq_pending :: "nat \<Rightarrow> event_cursor option \<Rightarrow> nat \<Rightarrow> string + pending_note list"
  cq_committed :: "nat \<Rightarrow> event_cursor option \<Rightarrow> nat \<Rightarrow> string + committed_event list"
  cq_chain_info :: "nat \<Rightarrow> string + int \<times> string"
  cq_nullifier :: "nat \<Rightarrow> string \<Rightarrow> string + bool"
  cq_status :: "nat \<Rightarrow> string \<Rightarrow> string + int"

fun show_state_error :: "curvy_state_error \<Rightarrow> string" where
  "show_state_error (Database m) = ''Curvy PIX state database error: '' @ m"
| "show_state_error (Corrupt m) = ''corrupt Curvy PIX state: '' @ m"

definition paged :: "pending_note list \<Rightarrow> nat \<Rightarrow> pending_note list \<times> bool" where
  "paged notes first = (notes, length notes = first)"

definition indexed_head_of :: "int \<times> string \<Rightarrow> string + nat \<times> nat" where
  "indexed_head_of = (\<lambda>(block, finality).
     if block < 0 then Inl ''Blokli returned a negative indexed block number''
     else case cursor_component finality ''finality'' of
       Inl e \<Rightarrow> Inl (show_state_error e) | Inr f \<Rightarrow> Inr (nat block, f))"

definition blokli_index :: "curvy_queries \<Rightarrow> note_index" where
  "blokli_index cq =
     \<lparr>ix_pending = (\<lambda>n after first. case cq_pending cq n after first of Inl e \<Rightarrow> Inl e | Inr ns \<Rightarrow> Inr (paged ns first)),
      ix_committed = cq_committed cq,
      ix_candidates = (\<lambda>_ _ _. Inr []),
      ix_head = (\<lambda>n. case cq_chain_info cq n of Inl e \<Rightarrow> Inl e | Inr info \<Rightarrow> indexed_head_of info),
      ix_nullifier = cq_nullifier cq,
      ix_known = (\<lambda>n i. case cq_status cq n i of Inl e \<Rightarrow> Inl e | Inr st \<Rightarrow> Inr (st \<noteq> 0))\<rparr>"

section \<open>The state of the pool\<close>

record deposit_waiter =
  dw_minimum :: balance
  dw_channel :: nat

record watched_allocation =
  wd_address :: nat
  wd_secret :: scan_secret
  wd_waiters :: "deposit_waiter list"

record pool_state =
  pl_adapter :: adapter
  pl_db :: curvy_db
  pl_waiters :: "(pix_id \<times> watched_allocation) list"
  pl_replay :: bool
  pl_detector :: "nat option"
  pl_sent :: "(nat \<times> balance \<times> instant) list"
  pl_gone :: "nat set"
  pl_next :: nat
  pl_retry :: duration
  pl_reconciled :: bool
  pl_watching :: bool

record pool_world =
  pw_sdk :: sdk
  pw_cfg :: adapter_config
  pw_codec :: note_codec
  pw_curve :: curve
  pw_index :: note_index
  pw_db :: "nat \<Rightarrow> db_io"
  pw_budget :: duration
  pw_funding :: balance
  pw_safe :: string
  pw_debug_id :: "pix_id \<Rightarrow> string"
  pw_show_error :: "curvy_pool_error \<Rightarrow> string"

type_synonym ('e, 'a) pool_op = "(pool_state, 'e, 'a) fallible"

definition at_adapter :: "(adapter, 'e, 'a) fallible \<Rightarrow> ('e, 'a) pool_op" where
  "at_adapter m s = (case m (pl_adapter s) of (r, a) \<Rightarrow> (r, s\<lparr>pl_adapter := a\<rparr>))"

definition pl_clock :: "pool_state \<Rightarrow> instant" where
  "pl_clock s = nt_clock (pl_adapter s)"

definition index_call :: "pool_world \<Rightarrow> (nat \<Rightarrow> string + 'a) \<Rightarrow> (string, 'a) pool_op" where
  "index_call w f = at_adapter (ask (pw_sdk w) f)"

definition store_call ::
  "pool_world \<Rightarrow> (db_io \<Rightarrow> curvy_db \<Rightarrow> (curvy_state_error + 'a) \<times> curvy_db) \<Rightarrow> (curvy_state_error, 'a) pool_op" where
  "store_call w f s =
     (let a = pl_adapter s in
      case f (pw_db w (nt_calls a)) (pl_db s) of (r, db) \<Rightarrow> (r, s\<lparr>pl_db := db, pl_adapter := tick_call 0 a\<rparr>))"

definition store_read ::
  "pool_world \<Rightarrow> (db_io \<Rightarrow> curvy_db \<Rightarrow> curvy_state_error + 'a) \<Rightarrow> (curvy_state_error, 'a) pool_op" where
  "store_read w f = store_call w (\<lambda>io db. (f io db, db))"

section \<open>Waiters\<close>

definition send_amount :: "nat \<Rightarrow> balance \<Rightarrow> pool_state \<Rightarrow> pool_state" where
  "send_amount ch amount s =
     (if ch \<in> pl_gone s then s else s\<lparr>pl_sent := pl_sent s @ [(ch, amount, pl_clock s)]\<rparr>)"

definition add_waiter ::
  "curve \<Rightarrow> pix_id \<Rightarrow> nat \<Rightarrow> scan_secret \<Rightarrow> deposit_waiter \<Rightarrow> (pix_id \<times> watched_allocation) list \<Rightarrow>
   curvy_state_error + (pix_id \<times> watched_allocation) list" where
  "add_waiter cv i address secret waiter waiters =
     (case map_of waiters i of
        None \<Rightarrow> Inr ((i, \<lparr>wd_address = address, wd_secret = secret, wd_waiters = [waiter]\<rparr>) # waiters)
      | Some e \<Rightarrow>
          if wd_address e \<noteq> address
          then Inl (Corrupt ''PIX allocation ID was registered with two different addresses'')
          else if cv_public cv (wd_secret e) \<noteq> cv_public cv secret
          then Inl (Corrupt ''PIX allocation ID was registered with two different Curvy scan identities'')
          else Inr (AList.update i (e\<lparr>wd_waiters := wd_waiters e @ [waiter]\<rparr>) waiters))"

definition watch :: "pool_world \<Rightarrow> pix_id \<Rightarrow> nat \<Rightarrow> scan_secret \<Rightarrow> balance \<Rightarrow> (curvy_state_error, nat) pool_op" where
  "watch w i address secret minimum =
     (case bjj_point (pw_curve w) (pw_codec w) address of
        Inl e \<Rightarrow> fail (Corrupt (''invalid watch owner: '' @ e))
      | Inr _ \<Rightarrow>
          and_then (inspect pl_next)
            (\<lambda>ch. followed_by (modify (\<lambda>s. s\<lparr>pl_next := ch + 1\<rparr>))
               (and_then (store_read w (\<lambda>io db. committed_amount (pw_codec w) io i db))
                  (\<lambda>committed.
                     followed_by
                       (if minimum \<le> committed then modify (send_amount ch committed)
                        else and_then (inspect pl_waiters)
                          (\<lambda>waiters. and_then
                             (lift_result (add_waiter (pw_curve w) i address secret
                                \<lparr>dw_minimum = minimum, dw_channel = ch\<rparr> waiters))
                             (\<lambda>waiters. modify (\<lambda>s. s\<lparr>pl_waiters := waiters, pl_replay := True\<rparr>))))
                       (ok ch)))))"

definition live_waiters :: "nat set \<Rightarrow> (pix_id \<times> watched_allocation) list \<Rightarrow> (pix_id \<times> watched_allocation) list" where
  "live_waiters gone waiters =
     filter (\<lambda>(i, a). wd_waiters a \<noteq> [])
       (map (\<lambda>(i, a). (i, a\<lparr>wd_waiters := filter (\<lambda>dw. dw_channel dw \<notin> gone) (wd_waiters a)\<rparr>)) waiters)"

definition watched_allocations :: "('e, watch_entry list) pool_op" where
  "watched_allocations =
     followed_by (modify (\<lambda>s. s\<lparr>pl_waiters := live_waiters (pl_gone s) (pl_waiters s)\<rparr>))
       (inspect (\<lambda>s. map (\<lambda>(i, a). (i, wd_address a, wd_secret a)) (pl_waiters s)))"

definition notify_waiters :: "pix_id \<Rightarrow> balance \<Rightarrow> pool_state \<Rightarrow> pool_state" where
  "notify_waiters i committed s =
     (case map_of (pl_waiters s) i of
        None \<Rightarrow> s
      | Some a \<Rightarrow>
          (let s1 = fold (\<lambda>dw s. if dw_minimum dw \<le> committed then send_amount (dw_channel dw) committed s else s)
                      (wd_waiters a) s;
               left = filter (\<lambda>dw. \<not> dw_minimum dw \<le> committed \<and> dw_channel dw \<notin> pl_gone s) (wd_waiters a) in
           if left = [] then s1\<lparr>pl_waiters := AList.delete i (pl_waiters s)\<rparr>
           else s1\<lparr>pl_waiters := AList.update i (a\<lparr>wd_waiters := left\<rparr>) (pl_waiters s)\<rparr>))"

section \<open>One event\<close>

datatype lifecycle_error = Detection string | LifecycleState curvy_state_error | TokenLookup string

fun show_lifecycle_error :: "lifecycle_error \<Rightarrow> string" where
  "show_lifecycle_error (Detection m) = ''invalid Curvy detection candidate: '' @ m"
| "show_lifecycle_error (LifecycleState e) = show_state_error e"
| "show_lifecycle_error (TokenLookup m) = ''could not resolve the Curvy vault token id: '' @ m"

definition detector :: "pool_world \<Rightarrow> (lifecycle_error, nat) pool_op" where
  \<comment> \<open>the token the detector is restricted to\<close>
  "detector w =
     and_then (inspect pl_detector)
       (\<lambda>built. case built of
          Some t \<Rightarrow> ok t
        | None \<Rightarrow>
            and_then (map_err TokenLookup (at_adapter (lookup_token (pw_sdk w) None)))
              (\<lambda>t. followed_by (modify (\<lambda>s. s\<lparr>pl_detector := Some t\<rparr>)) (ok t)))"

definition skip_event :: "pool_world \<Rightarrow> event_kind \<Rightarrow> event_cursor \<Rightarrow> (lifecycle_error, unit) pool_op" where
  "skip_event w kind cursor = map_err LifecycleState (store_call w (\<lambda>io. advance_cursor io kind cursor))"

definition process_candidate :: "pool_world \<Rightarrow> pending_note \<Rightarrow> (lifecycle_error, bool) pool_op" where
  "process_candidate w c =
     and_then watched_allocations
       (\<lambda>watched.
          if watched = [] then ok False
          else and_then (detector w)
            (\<lambda>expected.
               followed_by
                 (case detect_owned_note (pw_curve w) (pw_codec w) expected c watched of
                    Inr (Some note) \<Rightarrow>
                      map_err LifecycleState
                        (store_call w (\<lambda>io. record_owned_candidate (pw_codec w) io (pn_id c) note (pn_position c)))
                  | _ \<Rightarrow> skip_event w Pending (pn_position c))
                 (ok True)))"

definition process_completion :: "pool_world \<Rightarrow> committed_event \<Rightarrow> (lifecycle_error, unit) pool_op" where
  "process_completion w e =
     (case parse_uint u64_max (ce_leaf e) of
        Inl _ \<Rightarrow> skip_event w Committed (ce_position e)
      | Inr leaf \<Rightarrow>
          (case note_id_key (pw_codec w) (ce_id e) of
             Inl _ \<Rightarrow> skip_event w Committed (ce_position e)
           | Inr _ \<Rightarrow>
               and_then
                 (map_err LifecycleState
                    (store_call w (\<lambda>io. record_completion (pw_codec w) io (ce_id e) leaf (ce_position e))))
                 (\<lambda>correlated. case correlated of
                    None \<Rightarrow> ok ()
                  | Some note \<Rightarrow>
                      (let i = od_id (cn_deposit note) in
                       and_then
                         (map_err LifecycleState (store_read w (\<lambda>io db. committed_amount (pw_codec w) io i db)))
                         (\<lambda>committed. modify (notify_waiters i committed))))))"

section \<open>One pass\<close>

text \<open>
  The number that counts down in the two loops is how many pages the index answers; a pass that has
  used them up is still waiting for the next.
\<close>

datatype pass_end = Waiting | Paused | CaughtUp

definition query_page_size :: nat where
  "query_page_size = 1000"

definition reconnect_delay :: duration where
  "reconnect_delay = millis 250"

fun process_candidates :: "pool_world \<Rightarrow> pending_note list \<Rightarrow> (string, bool) pool_op" where
  "process_candidates w [] = ok True"
| "process_candidates w (c # cs) =
     and_then (map_err show_lifecycle_error (process_candidate w c))
       (\<lambda>go_on. if go_on then process_candidates w cs else ok False)"

definition last_position :: "event_cursor option \<Rightarrow> pending_note list \<Rightarrow> event_cursor option" where
  "last_position after cs = (if cs = [] then after else Some (pn_position (last cs)))"

fun pending_loop :: "pool_world \<Rightarrow> nat \<Rightarrow> event_cursor option \<Rightarrow> (string, pass_end) pool_op" where
  "pending_loop w 0 after = ok Waiting"
| "pending_loop w (Suc pages) after =
     and_then (index_call w (\<lambda>n. ix_pending (pw_index w) n after query_page_size))
       (\<lambda>(cs, has_more). and_then (process_candidates w cs)
          (\<lambda>go_on.
             if \<not> go_on then ok Paused
             else if has_more then pending_loop w pages (last_position after cs)
             else ok CaughtUp))"

fun completions ::
  "pool_world \<Rightarrow> nat \<Rightarrow> event_cursor option \<Rightarrow> committed_event list \<Rightarrow> (string, event_cursor option \<times> bool) pool_op" where
  \<comment> \<open>the events of a page up to the first that is not final; the flag says that there was one\<close>
  "completions w finalized after [] = ok (after, False)"
| "completions w finalized after (e # es) =
     (case cursor_component (ec_block (ce_position e)) ''completion block'' of
        Inl m \<Rightarrow> fail (show_state_error m)
      | Inr block \<Rightarrow>
          if finalized < block then ok (after, True)
          else followed_by (map_err show_lifecycle_error (process_completion w e))
            (completions w finalized (Some (ce_position e)) es))"

fun committed_loop :: "pool_world \<Rightarrow> nat \<Rightarrow> nat \<Rightarrow> event_cursor option \<Rightarrow> (string, pass_end) pool_op" where
  "committed_loop w finalized 0 after = ok Waiting"
| "committed_loop w finalized (Suc pages) after =
     and_then (index_call w (\<lambda>n. ix_committed (pw_index w) n after query_page_size))
       (\<lambda>page. and_then
          (if page = [] then ok True
           else and_then (index_call w (\<lambda>n. ix_candidates (pw_index w) n after (length page))) (process_candidates w))
          (\<lambda>go_on.
             if \<not> go_on then ok Paused
             else and_then (completions w finalized after page)
               (\<lambda>(after, unfinalized).
                  if unfinalized \<or> length page < query_page_size then ok CaughtUp
                  else committed_loop w finalized pages after)))"

definition catch_up_cursor :: "pool_world \<Rightarrow> event_kind \<Rightarrow> bool \<Rightarrow> (string, event_cursor option) pool_op" where
  "catch_up_cursor w kind replay =
     (if replay then ok None
      else map_err show_state_error (store_read w (\<lambda>io. read_cursor (pw_codec w) io kind)))"

definition catch_up :: "pool_world \<Rightarrow> nat \<Rightarrow> bool \<Rightarrow> (string, pass_end) pool_op" where
  "catch_up w pages replay =
     and_then (catch_up_cursor w Pending replay)
       (\<lambda>after. and_then (pending_loop w pages after)
          (\<lambda>reached.
             if reached \<noteq> CaughtUp then ok reached
             else and_then (index_call w (ix_head (pw_index w)))
               (\<lambda>(block, finality). and_then (catch_up_cursor w Committed replay)
                  (committed_loop w (block - finality) pages))))"

section \<open>The watcher\<close>

definition retry_cap :: "duration \<Rightarrow> duration" where
  "retry_cap budget = max reconnect_delay (min (budget div 10) (secs 5))"

definition restore_failed_replay :: "bool \<Rightarrow> pool_state \<Rightarrow> pool_state" where
  "restore_failed_replay replay s = (if replay then s\<lparr>pl_replay := True\<rparr> else s)"

definition pause_for :: "duration \<Rightarrow> ('e, unit) pool_op" where
  "pause_for d = modify (\<lambda>s. s\<lparr>pl_adapter := sleep d (pl_adapter s)\<rparr>)"

definition watcher_step :: "pool_world \<Rightarrow> nat \<Rightarrow> (string, bool) pool_op" where
  \<comment> \<open>one iteration of the loop; False when it does not come back from a query\<close>
  "watcher_step w pages =
     and_then watched_allocations
       (\<lambda>watched.
          if watched = []
          then followed_by (modify (\<lambda>s. s\<lparr>pl_retry := reconnect_delay\<rparr>)) (followed_by (pause_for reconnect_delay) (ok True))
          else and_then (inspect pl_replay)
            (\<lambda>replay. followed_by (modify (\<lambda>s. s\<lparr>pl_replay := False\<rparr>))
               (and_then (catching (catch_up w pages replay))
                  (\<lambda>r. case r of
                     Inr Waiting \<Rightarrow> ok False
                   | Inr _ \<Rightarrow>
                       followed_by (modify (\<lambda>s. s\<lparr>pl_retry := reconnect_delay\<rparr>))
                         (followed_by (pause_for reconnect_delay) (ok True))
                   | Inl _ \<Rightarrow>
                       followed_by (modify (restore_failed_replay replay))
                         (and_then (inspect pl_retry)
                            (\<lambda>delay. followed_by
                               (modify (\<lambda>s. s\<lparr>pl_retry := min (2 * delay) (retry_cap (pw_budget w))\<rparr>))
                               (followed_by (pause_for delay) (ok True))))))))"

end
