(* ===== verification/Watch_Safety.thy ===== *)
theory Watch_Safety
  imports Curvy_Watch "HOL-Library.Multiset"
begin

text \<open>
  Invariants of the watcher over its histories: registrations, dropped receivers and iterations of
  the loop in any order. \<open>channels_ok\<close> is the well-formedness of the waiters and their channels,
  \<open>none_ready\<close> that nobody waits for an amount that is committed already.
\<close>

section \<open>Histories\<close>

datatype watch_action = Register pix_id nat scan_secret balance | DropReceiver nat | Iterate nat

fun watch_act :: "pool_world \<Rightarrow> watch_action \<Rightarrow> pool_state \<Rightarrow> pool_state" where
  "watch_act w (Register i address secret minimum) s = snd (watch w i address secret minimum s)"
| "watch_act w (DropReceiver ch) s = s\<lparr>pl_gone := insert ch (pl_gone s)\<rparr>"
| "watch_act w (Iterate pages) s = snd (watcher_step w pages s)"

section \<open>Structural rules\<close>

definition tracker_of :: "pool_state \<Rightarrow> (pix_id \<times> watched_allocation) list \<times> (nat \<times> balance \<times> instant) list \<times> nat set \<times> nat" where
  "tracker_of s = (pl_waiters s, pl_sent s, pl_gone s, pl_next s)"

abbreviation still :: "('e, 'a) pool_op \<Rightarrow> bool" where
  "still \<equiv> blind (\<lambda>s. (tracker_of s, cd_notes (pl_db s)))"

lemma tracker_simps [simp]:
  "tracker_of (s\<lparr>pl_adapter := a\<rparr>) = tracker_of s" "tracker_of (s\<lparr>pl_db := db\<rparr>) = tracker_of s"
  "tracker_of (s\<lparr>pl_replay := b\<rparr>) = tracker_of s" "tracker_of (s\<lparr>pl_retry := d\<rparr>) = tracker_of s"
  "tracker_of (s\<lparr>pl_detector := t\<rparr>) = tracker_of s"
  by (simp_all add: tracker_of_def)

lemma still_adapter [blind_intros]: "still (at_adapter m)" "still (index_call w f)" "still (pause_for d)"
  by (auto simp: index_call_def pause_for_def blind_def at_adapter_def Fallible.modify_def split: prod.split)

lemma still_store: "(\<And>io db. cd_notes (snd (f io db)) = cd_notes db) \<Longrightarrow> still (store_call w f)"
  by (auto simp: blind_def store_call_def Let_def split: prod.split) (metis snd_conv)

lemma still_reads [blind_intros]: "still (store_read w g)" "still (skip_event w kind cursor)"
  unfolding store_read_def skip_event_def
  by (intro blind_intros still_store; simp add: wf_advance)+

lemma still_flags [blind_intros]:
  "still (modify (\<lambda>s. s\<lparr>pl_replay := b\<rparr>))" "still (modify (\<lambda>s. s\<lparr>pl_retry := d\<rparr>))" "still (modify (restore_failed_replay b))"
  "still (modify (\<lambda>s. s\<lparr>pl_detector := t\<rparr>))"
  by (auto intro!: blind_modify simp: restore_failed_replay_def)

lemma still_detector [blind_intros]: "still (detector w)"
  unfolding detector_def by (intro blind_intros)

lemma still_cursor [blind_intros]: "still (catch_up_cursor w kind replay)"
  unfolding catch_up_cursor_def by (intro blind_intros)

text \<open>An invariant of the tracker and the notes is kept by a pass if the three steps that change them keep it.\<close>

definition seen_by :: "(pool_state \<Rightarrow> bool) \<Rightarrow> bool" where
  "seen_by P \<longleftrightarrow>
     (\<forall>s s'. tracker_of s' = tracker_of s \<longrightarrow> cd_notes (pl_db s') = cd_notes (pl_db s) \<longrightarrow> P s \<longrightarrow> P s')"

lemma still_keeps: "seen_by P \<Longrightarrow> still m \<Longrightarrow> keeps P m"
  by (auto simp: seen_by_def blind_def keeps_def)

definition served :: "pool_world \<Rightarrow> committed_event \<Rightarrow> bool" where
  \<comment> \<open>the index may answer with this commitment\<close>
  "served w e \<longleftrightarrow> (\<exists>n after first page. ix_committed (pw_index w) n after first = Inr page \<and> e \<in> set page)"

lemma keeps_index:
  assumes "seen_by P" "\<And>a n. f n = Inr a \<Longrightarrow> keeps P (g a)"
  shows "keeps P (and_then (index_call w f) g)"
proof (rule keepsI)
  fix s r s'
  assume P: "P s" and run: "and_then (index_call w f) g s = (r, s')"
  obtain x s1 where x: "index_call w f s = (x, s1)" by fastforce
  then have "P s1" using still_keeps [OF assms(1) still_adapter(2)] P by (metis keepsD)
  moreover have "x = f (nt_calls (pl_adapter s))" using x by (auto simp: index_call_def at_adapter_def ask_def)
  ultimately show "P s'" using run x assms(2) by (auto simp: and_then_def split: sum.splits dest: keepsD)
qed

lemma keeps_iteration:
  assumes P: "seen_by P"
    and watched: "keeps P (watched_allocations :: (lifecycle_error, watch_entry list) pool_op)"
      "keeps P (watched_allocations :: (string, watch_entry list) pool_op)"
    and candidate: "\<And>expected c watched note. detect_owned_note (pw_curve w) (pw_codec w) expected c watched = Inr (Some note) \<Longrightarrow>
      keeps P (store_call w (\<lambda>io. record_owned_candidate (pw_codec w) io (pn_id c) note (pn_position c)))"
    and completion: "\<And>e. served w e \<Longrightarrow> keeps P (process_completion w e)"
  shows "keeps P (watcher_step w pages)"
proof -
  note quiet = still_keeps [OF P]
  note rules = keeps_intros watched quiet blind_intros
  have judged: "keeps P (case detect_owned_note (pw_curve w) (pw_codec w) expected c watched of
       Inr (Some note) \<Rightarrow> map_err LifecycleState
         (store_call w (\<lambda>io. record_owned_candidate (pw_codec w) io (pn_id c) note (pn_position c)))
     | _ \<Rightarrow> skip_event w Pending (pn_position c))" for expected c watched
    using quiet [OF still_reads(2), of w Pending "pn_position c"]
    by (auto split: sum.split option.split intro!: keeps_map_err candidate)
  have one: "keeps P (process_candidate w c)" for c
    unfolding process_candidate_def
    by (intro keeps_intros watched(1) judged) (intro quiet blind_intros)
  have many: "keeps P (process_candidates w cs)" for cs
    by (induction cs) (auto intro!: keeps_intros one)
  have pending: "keeps P (pending_loop w pages after)" for pages after
    by (induction pages arbitrary: after) (auto intro!: keeps_intros many intro: quiet blind_intros)
  have complete: "keeps P (completions w finalized after es)" if "\<forall>e \<in> set es. served w e" for finalized after es
    using that by (induction es arbitrary: after) (auto intro!: keeps_intros completion)
  have committed: "keeps P (committed_loop w finalized pages after)" for finalized pages after
  proof (induction pages arbitrary: after)
    case (Suc pages)
    show ?case
      unfolding committed_loop.simps
    proof (rule keeps_index [OF P])
      fix page n
      assume "ix_committed (pw_index w) n after query_page_size = Inr page"
      then have "\<forall>e \<in> set page. served w e" by (auto simp: served_def)
      from complete [OF this] show "keeps P (and_then
          (if page = [] then ok True
           else and_then (index_call w (\<lambda>n. ix_candidates (pw_index w) n after (length page))) (process_candidates w))
          (\<lambda>go_on.
             if \<not> go_on then ok Paused
             else and_then (completions w finalized after page)
               (\<lambda>(after, unfinalized).
                  if unfinalized \<or> length page < query_page_size then ok CaughtUp
                  else committed_loop w finalized pages after)))"
        by (auto intro!: keeps_intros many Suc.IH intro: quiet blind_intros)
    qed
  qed (simp add: keeps_basic)
  have pass: "keeps P (catch_up w pages replay)" for replay
    unfolding catch_up_def by (auto intro!: keeps_intros pending committed intro: quiet blind_intros)
  show ?thesis
    unfolding watcher_step_def
    by (auto intro!: keeps_intros pass watched(2) still_flags [THEN quiet] still_adapter [THEN quiet] split: pass_end.split)
qed


section \<open>Channels\<close>

definition channels :: "watched_allocation \<Rightarrow> nat list" where
  "channels a = map dw_channel (wd_waiters a)"

definition all_channels :: "(pix_id \<times> watched_allocation) list \<Rightarrow> nat list" where
  "all_channels ws = concat (map (channels \<circ> snd) ws)"

definition channels_ok :: "pool_state \<Rightarrow> bool" where
  \<comment> \<open>every channel is registered at most once or was used once, and no entry without waiters is kept\<close>
  "channels_ok s \<longleftrightarrow>
     distinct (map fst (pl_sent s) @ all_channels (pl_waiters s)) \<and>
     (\<forall>ch \<in> fst ` set (pl_sent s) \<union> set (all_channels (pl_waiters s)). ch < pl_next s) \<and>
     distinct (map fst (pl_waiters s)) \<and> list_all (\<lambda>(i, a). wd_waiters a \<noteq> []) (pl_waiters s)"

lemma all_channels_simps [simp]:
  "all_channels [] = []" "all_channels ((i, a) # ws) = channels a @ all_channels ws"
  by (simp_all add: all_channels_def)

lemma channels_change:
  assumes "distinct (map fst ws)" "map_of ws i = Some a"
  shows "mset (all_channels ws) = mset (channels a) + mset (all_channels (AList.delete i ws))"
    and "mset (all_channels (AList.update i b ws)) = mset (channels b) + mset (all_channels (AList.delete i ws))"
proof -
  have "map_of ws i = Some a \<longrightarrow> mset (all_channels ws) = mset (channels a) + mset (all_channels (AList.delete i ws)) \<and>
      mset (all_channels (AList.update i b ws)) = mset (channels b) + mset (all_channels (AList.delete i ws))"
    using assms(1)
  proof (induction ws)
    case (Cons x ws)
    obtain j c where x: "x = (j, c)" by (cases x)
    show ?case
    proof (cases "j = i")
      case True
      then have "AList.delete i ws = ws" using Cons.prems x by (auto intro: delete_idem)
      then show ?thesis using True x by (simp add: AList.delete_eq)
    next
      case False
      then show ?thesis using Cons x by (auto simp: AList.delete_eq)
    qed
  qed simp
  with assms(2) show "mset (all_channels ws) = mset (channels a) + mset (all_channels (AList.delete i ws))"
    and "mset (all_channels (AList.update i b ws)) = mset (channels b) + mset (all_channels (AList.delete i ws))" by simp_all
qed

lemma distinct_fewer:
  assumes "distinct xs" "mset ys \<subseteq># mset xs"
  shows "distinct ys"
proof -
  obtain zs where "mset zs = mset xs - mset ys" using ex_mset by blast
  then have "mset xs = mset (ys @ zs)" using assms(2) by simp
  then have "distinct (ys @ zs)" using assms(1) mset_eq_imp_distinct_iff by blast
  then show ?thesis by simp
qed

lemma channels_ok_fewer:
  assumes "channels_ok s"
    and "mset (map fst (pl_sent s') @ all_channels (pl_waiters s')) \<subseteq># mset (map fst (pl_sent s) @ all_channels (pl_waiters s))"
    and "pl_next s \<le> pl_next s'" "distinct (map fst (pl_waiters s'))" "list_all (\<lambda>(i, a). wd_waiters a \<noteq> []) (pl_waiters s')"
  shows "channels_ok s'"
proof -
  from set_mset_mono [OF assms(2)]
  have "fst ` set (pl_sent s') \<union> set (all_channels (pl_waiters s')) \<subseteq> fst ` set (pl_sent s) \<union> set (all_channels (pl_waiters s))"
    by simp
  then show ?thesis
    using assms distinct_fewer [OF _ assms(2)] unfolding channels_ok_def by (meson order_less_le_trans subsetD)
qed

lemma seen_channels: "seen_by channels_ok"
  by (auto simp: seen_by_def tracker_of_def channels_ok_def)

lemma channels_store: "keeps channels_ok (store_call w f)"
  unfolding keeps_def store_call_def Let_def by (simp add: channels_ok_def split: prod.split)

lemma fewer_live: "mset (all_channels (live_waiters gone ws)) \<subseteq># mset (all_channels ws)"
proof (induction ws)
  case (Cons x ws)
  obtain i a where x: "x = (i, a)" by (cases x)
  have "mset (map dw_channel (filter (\<lambda>dw. dw_channel dw \<notin> gone) (wd_waiters a))) \<subseteq># mset (channels a)"
    unfolding channels_def by (simp add: image_mset_subseteq_mono)
  moreover have "filter (\<lambda>dw. dw_channel dw \<notin> gone) (wd_waiters a) = [] \<Longrightarrow> all_channels (live_waiters gone (x # ws)) = all_channels (live_waiters gone ws)"
    by (simp add: live_waiters_def x)
  ultimately show ?case
    using Cons by (auto simp: live_waiters_def x channels_def subset_mset.add_mono intro: subset_mset.add_increasing)
qed (simp add: live_waiters_def)

lemma live_keys: "distinct (map fst ws) \<Longrightarrow> distinct (map fst (live_waiters gone ws))"
proof (induction ws)
  case (Cons x ws)
  have "fst ` set (live_waiters gone ws) \<subseteq> fst ` set ws" by (force simp: live_waiters_def)
  with Cons show ?case by (cases x) (auto simp: live_waiters_def)
qed (simp add: live_waiters_def)

lemma channels_watched: "keeps channels_ok (watched_allocations :: ('e, watch_entry list) pool_op)"
proof -
  have "channels_ok (s\<lparr>pl_waiters := live_waiters (pl_gone s) (pl_waiters s)\<rparr>)" if "channels_ok s" for s
  proof (rule channels_ok_fewer [OF that])
    show "list_all (\<lambda>(i, a). wd_waiters a \<noteq> []) (pl_waiters (s\<lparr>pl_waiters := live_waiters (pl_gone s) (pl_waiters s)\<rparr>))"
      by (simp add: live_waiters_def list_all_iff)
  qed (use that live_keys in \<open>auto simp: channels_ok_def fewer_live\<close>)
  then show ?thesis unfolding watched_allocations_def by (intro keeps_intros keeps_modify)
qed

lemma notify_sends:
  "fold (\<lambda>dw s. if dw_minimum dw \<le> committed then send_amount (dw_channel dw) committed s else s) dws s =
   s\<lparr>pl_sent := pl_sent s @ map (\<lambda>dw. (dw_channel dw, committed, pl_clock s))
       (filter (\<lambda>dw. dw_minimum dw \<le> committed \<and> dw_channel dw \<notin> pl_gone s) dws)\<rparr>"
  by (induction dws arbitrary: s) (auto simp: send_amount_def pl_clock_def)

lemma split_channels:
  "(\<And>x. P x \<Longrightarrow> \<not> Q x) \<Longrightarrow> mset (map f (filter P xs)) + mset (map f (filter Q xs)) \<subseteq># mset (map f xs)"
  by (induction xs) (auto simp: subseteq_mset_def intro: le_SucI)

lemma channels_notify: "channels_ok s \<Longrightarrow> channels_ok (notify_waiters i committed s)"
proof (cases "map_of (pl_waiters s) i")
  case (Some a)
  assume ok: "channels_ok s"
  let ?left = "filter (\<lambda>dw. \<not> dw_minimum dw \<le> committed \<and> dw_channel dw \<notin> pl_gone s) (wd_waiters a)"
  let ?served = "filter (\<lambda>dw. dw_minimum dw \<le> committed \<and> dw_channel dw \<notin> pl_gone s) (wd_waiters a)"
  have keys: "distinct (map fst (pl_waiters s))" using ok by (simp add: channels_ok_def)
  note change = channels_change [OF keys Some]
  have parts: "mset (map dw_channel ?served) + mset (map dw_channel ?left) \<subseteq># mset (channels a)"
    unfolding channels_def by (rule split_channels) simp
  have "mset (map dw_channel ?served) \<subseteq># mset (channels a)"
    using parts subset_mset.order_trans mset_subset_eq_add_left by blast
  show ?thesis
  proof (rule channels_ok_fewer [OF ok])
    show "mset (map fst (pl_sent (notify_waiters i committed s)) @ all_channels (pl_waiters (notify_waiters i committed s)))
        \<subseteq># mset (map fst (pl_sent s) @ all_channels (pl_waiters s))"
      using parts \<open>mset (map dw_channel ?served) \<subseteq># mset (channels a)\<close> change(1) change(2) [of "a\<lparr>wd_waiters := ?left\<rparr>"]
      by (simp add: notify_waiters_def Some notify_sends Let_def channels_def multiset.map_comp comp_def ac_simps)
    show "list_all (\<lambda>(i, a). wd_waiters a \<noteq> []) (pl_waiters (notify_waiters i committed s))"
      using ok by (auto simp: notify_waiters_def Some Let_def channels_ok_def list_all_delete list_all_update)
  qed (use keys in \<open>auto simp: notify_waiters_def Some Let_def notify_sends distinct_update distinct_delete\<close>)
qed (simp add: notify_waiters_def)

definition fresh_channel :: "nat \<Rightarrow> pool_state \<Rightarrow> bool" where
  "fresh_channel ch s \<longleftrightarrow>
     channels_ok s \<and> ch < pl_next s \<and> ch \<notin> fst ` set (pl_sent s) \<union> set (all_channels (pl_waiters s))"

lemma fresh_send: "fresh_channel ch s \<Longrightarrow> channels_ok (send_amount ch committed s)"
  by (auto simp: fresh_channel_def channels_ok_def send_amount_def)

lemma fresh_register:
  assumes "fresh_channel (dw_channel waiter) s" "add_waiter cv i address secret waiter (pl_waiters s) = Inr ws"
  shows "channels_ok (s\<lparr>pl_waiters := ws, pl_replay := True\<rparr>)"
proof -
  have ok: "distinct (map fst (pl_waiters s))" "list_all (\<lambda>(i, a). wd_waiters a \<noteq> []) (pl_waiters s)"
    using assms(1) by (simp_all add: fresh_channel_def channels_ok_def)
  have "mset (all_channels ws) = add_mset (dw_channel waiter) (mset (all_channels (pl_waiters s))) \<and>
      distinct (map fst ws) \<and> list_all (\<lambda>(i, a). wd_waiters a \<noteq> []) ws"
  proof (cases "map_of (pl_waiters s) i")
    case None
    then have "i \<notin> fst ` set (pl_waiters s)" by (simp add: map_of_eq_None_iff)
    with assms(2) None ok show ?thesis by (auto simp: add_waiter_def channels_def)
  next
    case (Some e)
    from assms(2) Some have ws: "ws = AList.update i (e\<lparr>wd_waiters := wd_waiters e @ [waiter]\<rparr>) (pl_waiters s)"
      by (simp add: add_waiter_def split: if_splits)
    from channels_change(1) [OF ok(1) Some]
      channels_change(2) [OF ok(1) Some, of "e\<lparr>wd_waiters := wd_waiters e @ [waiter]\<rparr>"] ok show ?thesis
      by (simp add: ws channels_def distinct_update list_all_update)
  qed
  then have ws: "mset (all_channels ws) = mset (dw_channel waiter # all_channels (pl_waiters s))"
      "distinct (map fst ws)" "list_all (\<lambda>(i, a). wd_waiters a \<noteq> []) ws" by simp_all
  from ws(1) have "distinct (map fst (pl_sent s) @ all_channels ws) \<longleftrightarrow>
      distinct (map fst (pl_sent s) @ dw_channel waiter # all_channels (pl_waiters s))"
    by (intro mset_eq_imp_distinct_iff) simp
  moreover have "set (all_channels ws) = insert (dw_channel waiter) (set (all_channels (pl_waiters s)))"
    using mset_eq_setD [OF ws(1)] by simp
  ultimately show ?thesis using assms(1) ws(2,3) by (auto simp: fresh_channel_def channels_ok_def)
qed

lemma fresh_still:
  "tracker_of s' = tracker_of s \<Longrightarrow> fresh_channel ch s' = fresh_channel ch s"
  by (simp add: tracker_of_def fresh_channel_def channels_ok_def)

lemma channels_watch: "keeps channels_ok (watch w i address secret minimum)"
proof (rule keepsI)
  fix s r s'
  assume ok: "channels_ok s" and run: "watch w i address secret minimum s = (r, s')"
  let ?ch = "pl_next s"
  have fresh: "fresh_channel ?ch (s\<lparr>pl_next := ?ch + 1\<rparr>)"
  proof -
    let ?used = "fst ` set (pl_sent s) \<union> set (all_channels (pl_waiters s))"
    have bound: "\<forall>c \<in> ?used. c < ?ch" using ok unfolding channels_ok_def by blast
    then have "?ch \<notin> ?used" by (meson less_irrefl)
    moreover have "\<forall>c \<in> ?used. c < ?ch + 1" using bound by (meson trans_less_add1)
    ultimately show ?thesis using ok by (simp add: fresh_channel_def channels_ok_def)
  qed
  have rest: "wp (followed_by
      (if minimum \<le> committed then modify (send_amount ?ch committed)
       else and_then (inspect pl_waiters)
         (\<lambda>waiters. and_then
            (lift_result (add_waiter (pw_curve w) i address secret \<lparr>dw_minimum = minimum, dw_channel = ?ch\<rparr> waiters))
            (\<lambda>waiters. modify (\<lambda>s. s\<lparr>pl_waiters := waiters, pl_replay := True\<rparr>))))
      (ok ?ch)) (\<lambda>_ s'. channels_ok s') s1" if "fresh_channel ?ch s1" for committed s1
  proof -
    have ok1: "channels_ok s1" using that by (simp only: fresh_channel_def)
    note register = fresh_register [of "\<lparr>dw_minimum = minimum, dw_channel = ?ch\<rparr>" s1, unfolded deposit_waiter.simps, OF that]
    show ?thesis
    proof (cases "minimum \<le> committed")
      case True
      then show ?thesis using fresh_send [OF that] by (simp add: wp_followed_by wp_basic)
    next
      case False
      then show ?thesis using ok1 register by (simp add: wp_followed_by wp_and_then wp_basic split: sum.split)
    qed
  qed
  have "wp (watch w i address secret minimum) (\<lambda>_ s'. channels_ok s') s"
    unfolding watch_def
  proof (cases "bjj_point (pw_curve w) (pw_codec w) address")
    case (Inr p)
    show "wp (case bjj_point (pw_curve w) (pw_codec w) address of Inl e \<Rightarrow> fail (Corrupt (''invalid watch owner: '' @ e))
      | Inr _ \<Rightarrow> and_then (inspect pl_next)
            (\<lambda>ch. followed_by (modify (\<lambda>s. s\<lparr>pl_next := ch + 1\<rparr>))
               (and_then (store_read w (\<lambda>io db. committed_amount (pw_codec w) io i db))
                  (\<lambda>committed.
                     followed_by
                       (if minimum \<le> committed then modify (send_amount ch committed)
                        else and_then (inspect pl_waiters)
                          (\<lambda>waiters. and_then
                             (lift_result (add_waiter (pw_curve w) i address secret
                                \<lparr>dw_minimum = minimum, dw_channel = ch\<rparr> waiters))
                             (\<lambda>waiters. modify (\<lambda>s. s\<lparr>pl_waiters := waiters, pl_replay := True\<rparr>))))
                       (ok ch))))) (\<lambda>_ s'. channels_ok s') s"
      unfolding Inr sum.case wp_and_then [of "inspect _"] wp_followed_by [of "modify (\<lambda>s. s\<lparr>pl_next := _\<rparr>)"] wp_basic
        wp_and_then [of "store_read _ _"]
    proof (rule wp_blind [OF still_reads(1)], goal_cases)
      case (1 r s1)
      then have "fresh_channel ?ch s1" using fresh fresh_still by (metis prod.inject)
      show ?case
      proof (cases r)
        case (Inl e)
        then show ?thesis using \<open>fresh_channel ?ch s1\<close> by (simp add: fresh_channel_def)
      next
        case (Inr committed)
        show ?thesis unfolding Inr sum.case by (rule rest [OF \<open>fresh_channel ?ch s1\<close>])
      qed
    qed
  qed (simp add: wp_basic ok)
  from wpD [OF this run] show "channels_ok s'" .
qed

text \<open>
  C25. In every history of registrations, dropped receivers and iterations of the watcher each
  notification channel is registered at most once and sent on at most once, never both, and no
  allocation stays in the table without a waiter: the table and its channels are always well-formed.
\<close>

theorem channels_used_once:
  assumes "channels_ok s"
  shows "channels_ok (fold (watch_act w) actions s)"
proof -
  have completion: "keeps channels_ok (process_completion w e)" for e
    unfolding process_completion_def Let_def
    by (intro keeps_intros channels_store keeps_modify channels_notify still_reads [THEN still_keeps [OF seen_channels]])
  have "channels_ok (watch_act w a s)" if "channels_ok s" for a s
  proof (cases a)
    case (Register i address secret minimum)
    then show ?thesis using channels_watch that by (simp add: keeps_def)
  next
    case (DropReceiver ch)
    then show ?thesis using that by (simp add: channels_ok_def)
  next
    case (Iterate pages)
    from keeps_iteration [OF seen_channels channels_watched channels_watched channels_store completion] that Iterate
    show ?thesis by (simp add: keeps_def)
  qed
  then show ?thesis using assms by (induction actions arbitrary: s) auto
qed

section \<open>Nobody waits for what is there\<close>

definition good_id :: "note_codec \<Rightarrow> pix_id \<Rightarrow> bool" where
  \<comment> \<open>the id has its fixed width and is read back\<close>
  "good_id nc i \<longleftrightarrow> length (nc_id_bytes nc i) = pix_id_size \<and> nc_parse_id nc (nc_id_bytes nc i) = Inr i"

definition committed_rows :: "note_codec \<Rightarrow> pix_id \<Rightarrow> (bytes \<times> bytes) list \<Rightarrow> (bytes \<times> bytes) list" where
  "committed_rows nc i = filter (\<lambda>(k, v). session_range nc i k \<and> so_committed (projr (decode_owned_note nc v)))"

lemma foldl_filter: "foldl (\<lambda>acc x. if P x then f acc x else acc) z xs = foldl f z (filter P xs)"
  by (induction xs arbitrary: z) auto

lemma traverse_projr: "traverse f xs = Inr ys \<Longrightarrow> ys = map (projr \<circ> f) xs"
  by (induction xs arbitrary: ys) (auto split: sum.splits)

lemma amount_of_rows:
  assumes "rows_wf nc (cd_notes db)"
  shows "committed_amount nc None i db = Inr (foldl (\<lambda>acc s. bal_add acc (od_amount (dn_deposit (so_detected s)))) 0
    (map (projr \<circ> decode_owned_note nc \<circ> snd) (sort_key fst (committed_rows nc i (cd_notes db)))))"
proof -
  obtain rows where "traverse (decode_owned_note nc) (session_rows nc i db) = Inr rows"
    by (rule rows_decode [OF assms])
  moreover from traverse_projr [OF this] have "filter so_committed rows =
      map (projr \<circ> decode_owned_note nc \<circ> snd) (sort_key fst (committed_rows nc i (cd_notes db)))"
    unfolding committed_rows_def session_rows_def filter_sort [symmetric]
    by (simp add: filter_map comp_def case_prod_unfold conj_commute)
  ultimately show ?thesis by (simp add: committed_amount_def foldl_filter)
qed

lemma update_new: "map_of al k = None \<Longrightarrow> AList.update k v al = al @ [(k, v)]"
  by (induction al) (auto split: if_splits)

lemma candidate_rows:
  assumes "codec_widths nc" "codable nc (pending_record d)"
  shows "committed_rows nc i (cd_notes (snd (record_owned_candidate nc io nid d c db))) = committed_rows nc i (cd_notes db)"
proof (cases "note_id_key nc nid")
  case (Inr nkey)
  let ?k = "nc_id_bytes nc (od_id (dn_deposit d)) @ nkey" and ?v = "encode_owned_note nc (pending_record d)"
  have new: "committed_rows nc i (if map_of (cd_notes db) ?k = None then AList.update ?k ?v (cd_notes db) else cd_notes db) =
      committed_rows nc i (cd_notes db)"
  proof (cases "map_of (cd_notes db) ?k = None")
    case True
    then have "AList.update ?k ?v (cd_notes db) = cd_notes db @ [(?k, ?v)]"
      by (rule update_new)
    moreover have "so_committed (projr (decode_owned_note nc ?v)) = so_committed (pending_record d)"
      by (simp add: decode_encode [OF assms(2)])
    then have "\<not> so_committed (projr (decode_owned_note nc ?v))" by (simp add: pending_record_def)
    ultimately show ?thesis using True by (simp add: committed_rows_def)
  qed auto
  then show ?thesis
    using Inr unfolding pending_record_def
    by (auto simp: record_owned_candidate_def write_tx_def Let_def dest!: put_cursor_notes split: option.splits sum.splits)
qed (simp add: record_owned_candidate_def)

lemma other_rows: "\<not> session_range nc i k \<Longrightarrow> committed_rows nc i (AList.update k v al) = committed_rows nc i al"
  by (induction al) (auto simp: committed_rows_def)

lemma completion_rows:
  assumes "good_id nc i" "rows_wf nc (cd_notes db)" "record_completion nc io nid leaf c db = (Inr (Some note), db')"
    and "i \<noteq> od_id (cn_deposit note)"
  shows "committed_rows nc i (cd_notes db') = committed_rows nc i (cd_notes db)"
proof -
  from assms(3) obtain nkey key s where found: "find_session_note nc nkey db = Inr (Some (key, s))"
      and dep: "cn_deposit note = dn_deposit (so_detected s)"
      and db': "cd_notes db' = AList.update key (encode_owned_note nc (s\<lparr>so_committed := True, so_leaf := Some leaf\<rparr>)) (cd_notes db)"
    by (auto simp: record_completion_def write_tx_def Let_def dest!: put_cursor_notes split: sum.splits option.splits)
  from found_row [OF found] obtain v where "map_of (cd_notes db) key = Some v" "decode_owned_note nc v = Inr s" by blast
  then have "row_ok nc (key, v)" using assms(2) by (auto simp: rows_wf_def list_all_iff dest: map_of_SomeD)
  then have key: "length key = pix_id_size + note_id_size" "take pix_id_size key = nc_id_bytes nc (od_id (cn_deposit note))"
    and "codable nc s"
    using \<open>decode_owned_note nc v = Inr s\<close> dep by (simp_all add: row_ok_def)
  from codable_id(2) [OF this(3)] have "nc_id_bytes nc i \<noteq> nc_id_bytes nc (od_id (cn_deposit note))"
    using assms(1,4) dep by (metis good_id_def sum.inject(2))
  then have "\<not> session_range nc i key" using session_range_iff key assms(1) by (simp add: good_id_def)
  then show ?thesis unfolding db' by (rule other_rows)
qed

lemma amount_kept:
  assumes "rows_wf nc (cd_notes db)" "rows_wf nc (cd_notes db')"
    and "committed_rows nc i (cd_notes db') = committed_rows nc i (cd_notes db)"
  shows "committed_amount nc None i db' = committed_amount nc None i db"
  by (simp add: amount_of_rows assms)

definition unready :: "note_codec \<Rightarrow> curvy_db \<Rightarrow> nat set \<Rightarrow> pix_id \<times> watched_allocation \<Rightarrow> bool" where
  "unready nc db gone = (\<lambda>(i, a).
     \<forall>amount. committed_amount nc None i db = Inr amount \<longrightarrow>
       (\<forall>dw \<in> set (wd_waiters a). dw_channel dw \<notin> gone \<longrightarrow> amount < dw_minimum dw))"

definition none_ready :: "note_codec \<Rightarrow> pool_state \<Rightarrow> bool" where
  "none_ready nc s \<longleftrightarrow>
     distinct (map fst (pl_waiters s)) \<and> rows_wf nc (cd_notes (pl_db s)) \<and>
     (\<forall>i \<in> fst ` set (pl_waiters s). good_id nc i) \<and> list_all (unready nc (pl_db s) (pl_gone s)) (pl_waiters s)"

lemma amount_seen: "cd_notes db' = cd_notes db \<Longrightarrow> committed_amount nc None i db' = committed_amount nc None i db"
  by (simp add: committed_amount_def session_rows_def)

lemma unready_seen:
  assumes "cd_notes db' = cd_notes db"
  shows "unready nc db' = unready nc db"
  unfolding fun_eq_iff unready_def amount_seen [OF assms] by blast

lemma seen_none_ready: "seen_by (none_ready nc)"
proof -
  have "none_ready nc s'" if same: "tracker_of s' = tracker_of s" "cd_notes (pl_db s') = cd_notes (pl_db s)"
    and ready: "none_ready nc s" for s s'
  proof -
    have "unready nc (pl_db s') = unready nc (pl_db s)" by (rule unready_seen [OF same(2)])
    then show ?thesis using same ready unfolding none_ready_def tracker_of_def by simp
  qed
  then show ?thesis unfolding seen_by_def by blast
qed

lemma live_ids: "i \<in> fst ` set (live_waiters gone ws) \<Longrightarrow> i \<in> fst ` set ws"
  by (force simp: live_waiters_def)

lemma live_unready:
  assumes "list_all (unready nc db gone) ws"
  shows "list_all (unready nc db gone) (live_waiters gone ws)"
proof -
  have "unready nc db gone (i, a\<lparr>wd_waiters := filter P (wd_waiters a)\<rparr>)" if "unready nc db gone (i, a)" for i a P
    using that by (simp add: unready_def)
  then show ?thesis using assms by (auto simp: live_waiters_def list_all_iff)
qed

lemma ready_watched: "keeps (none_ready nc) (watched_allocations :: ('e, watch_entry list) pool_op)"
proof -
  have "none_ready nc (s\<lparr>pl_waiters := live_waiters (pl_gone s) (pl_waiters s)\<rparr>)" if "none_ready nc s" for s
    using that live_keys live_unready live_ids by (fastforce simp: none_ready_def)
  then show ?thesis unfolding watched_allocations_def by (intro keeps_intros keeps_modify)
qed

definition sound_world :: "pool_world \<Rightarrow> bool" where
  \<comment> \<open>the store does not fail, its codec works, what is detected can be stored, and no commitment has
      the leaf index that marks a note without one\<close>
  "sound_world w \<longleftrightarrow>
     pw_db w = (\<lambda>_. None) \<and> codec_widths (pw_codec w) \<and>
     (\<forall>expected c watched d. detect_owned_note (pw_curve w) (pw_codec w) expected c watched = Inr (Some d) \<longrightarrow>
        codable (pw_codec w) (pending_record d)) \<and>
     (\<forall>e. served w e \<longrightarrow> parse_uint u64_max (ce_leaf e) \<noteq> Inr u64_max)"

lemma wp_store_call:
  "wp (store_call w f) Q s =
   (case f (pw_db w (nt_calls (pl_adapter s))) (pl_db s) of
      (r, db) \<Rightarrow> Q r (s\<lparr>pl_db := db, pl_adapter := tick_call 0 (pl_adapter s)\<rparr>))"
  by (simp add: wp_def store_call_def Let_def split: prod.split)

lemma ready_candidate:
  assumes "sound_world w" "codable (pw_codec w) (pending_record d)"
  shows "keeps (none_ready (pw_codec w)) (store_call w (\<lambda>io. record_owned_candidate (pw_codec w) io nid d c))"
proof (rule keepsI)
  fix s s' :: pool_state and r
  let ?nc = "pw_codec w" and ?db = "snd (record_owned_candidate (pw_codec w) (pw_db w (nt_calls (pl_adapter s))) nid d c (pl_db s))"
  assume ready: "none_ready ?nc s"
    and run: "store_call w (\<lambda>io. record_owned_candidate ?nc io nid d c) s = (r, s')"
  have s': "s' = s\<lparr>pl_db := ?db, pl_adapter := tick_call 0 (pl_adapter s)\<rparr>"
    using run by (auto simp: store_call_def Let_def split: prod.splits)
  have wf: "rows_wf ?nc (cd_notes (pl_db s))" "rows_wf ?nc (cd_notes ?db)"
    using ready assms wf_candidate by (auto simp: none_ready_def sound_world_def)
  have "committed_amount ?nc None i ?db = committed_amount ?nc None i (pl_db s)" for i
    using assms by (intro amount_kept [OF wf] candidate_rows) (simp_all add: sound_world_def)
  then show "none_ready ?nc s'" using ready wf by (simp add: s' none_ready_def unready_def)
qed

lemma update_set: "distinct (map fst al) \<Longrightarrow> set (AList.update k v al) \<subseteq> insert (k, v) (set (AList.delete k al))"
  by (induction al) (auto simp: AList.delete_eq image_iff)

lemma notify_keys: "fst ` set (pl_waiters (notify_waiters i amount s)) \<subseteq> fst ` set (pl_waiters s)"
proof (cases "map_of (pl_waiters s) i")
  case (Some a)
  then have "i \<in> fst ` set (pl_waiters s)" by (metis domI dom_map_of_conv_image_fst)
  then show ?thesis by (auto simp: notify_waiters_def Some Let_def dom_update AList.delete_eq)
qed (simp add: notify_waiters_def)

lemma unready_notified:
  assumes "distinct (map fst (pl_waiters s))"
    and "\<And>x. x \<in> set (pl_waiters s) \<Longrightarrow> fst x \<noteq> i \<Longrightarrow> unready nc (pl_db s) (pl_gone s) x"
    and "committed_amount nc None i (pl_db s) = Inr amount"
  shows "list_all (unready nc (pl_db s) (pl_gone s)) (pl_waiters (notify_waiters i amount s))"
proof (cases "map_of (pl_waiters s) i")
  case None
  then have "fst x \<noteq> i" if "x \<in> set (pl_waiters s)" for x using that by (auto simp: map_of_eq_None_iff)
  then show ?thesis using None assms(2) by (simp add: notify_waiters_def list_all_iff)
next
  case (Some a)
  let ?left = "filter (\<lambda>dw. \<not> dw_minimum dw \<le> amount \<and> dw_channel dw \<notin> pl_gone s) (wd_waiters a)"
  have others: "list_all (unready nc (pl_db s) (pl_gone s)) (AList.delete i (pl_waiters s))"
    using assms(2) by (auto simp: list_all_iff AList.delete_eq)
  have "unready nc (pl_db s) (pl_gone s) (i, a\<lparr>wd_waiters := ?left\<rparr>)"
    using assms(3) by (auto simp: unready_def)
  moreover have "set (AList.update i b (pl_waiters s)) \<subseteq> insert (i, b) (set (AList.delete i (pl_waiters s)))" for b
    by (rule update_set [OF assms(1)])
  ultimately have "list_all (unready nc (pl_db s) (pl_gone s)) (AList.update i (a\<lparr>wd_waiters := ?left\<rparr>) (pl_waiters s))"
    using others unfolding list_all_iff by blast
  then show ?thesis using others by (simp add: notify_waiters_def Some Let_def)
qed

lemma ready_completion:
  assumes sound: "sound_world w" and e: "served w e"
  shows "keeps (none_ready (pw_codec w)) (process_completion w e)"
proof -
  let ?nc = "pw_codec w"
  note quiet = still_keeps [OF seen_none_ready]
  have io: "pw_db w = (\<lambda>_. None)" using sound by (simp add: sound_world_def)
  have settled: "keeps (none_ready ?nc)
      (and_then
        (map_err LifecycleState
          (store_call w (\<lambda>io. record_completion ?nc io (ce_id e) leaf (ce_position e))))
        (\<lambda>correlated. case correlated of
           None \<Rightarrow> ok ()
         | Some note \<Rightarrow>
             and_then (map_err LifecycleState (store_read w (\<lambda>io db. committed_amount ?nc io (od_id (cn_deposit note)) db)))
               (\<lambda>committed. modify (notify_waiters (od_id (cn_deposit note)) committed))))"
    if leaf: "leaf < u64_max" for leaf
  proof (rule keepsI)
    fix s s' :: pool_state and r
    assume ready: "none_ready ?nc s"
      and run: "and_then (map_err LifecycleState
          (store_call w (\<lambda>io. record_completion ?nc io (ce_id e) leaf (ce_position e))))
        (\<lambda>correlated. case correlated of
           None \<Rightarrow> ok ()
         | Some note \<Rightarrow>
             and_then (map_err LifecycleState (store_read w (\<lambda>io db. committed_amount ?nc io (od_id (cn_deposit note)) db)))
               (\<lambda>committed. modify (notify_waiters (od_id (cn_deposit note)) committed))) s = (r, s')"
    obtain x db where step: "record_completion ?nc None (ce_id e) leaf (ce_position e) (pl_db s) = (x, db)" by fastforce
    let ?s1 = "s\<lparr>pl_db := db, pl_adapter := tick_call 0 (pl_adapter s)\<rparr>"
    have wf: "rows_wf ?nc (cd_notes (pl_db s))" "rows_wf ?nc (cd_notes db)"
      using ready wf_completion [of ?nc "pl_db s" leaf None "ce_id e" "ce_position e"] leaf step
      by (auto simp: none_ready_def)
    show "none_ready ?nc s'"
    proof (cases "\<exists>d. x = Inr (Some d)")
      case True
      then obtain d where d: "x = Inr (Some d)" by blast
      let ?i = "od_id (cn_deposit d)"
      have same: "committed_amount ?nc None j db = committed_amount ?nc None j (pl_db s)" if "j \<noteq> ?i" "good_id ?nc j" for j
        using sound step d that wf(1) by (intro amount_kept [OF wf] completion_rows) (simp_all add: sound_world_def)
      obtain amount where amount: "committed_amount ?nc None ?i db = Inr amount" using amount_of_rows [OF wf(2)] by blast
      define s2 where "s2 = ?s1\<lparr>pl_adapter := tick_call 0 (pl_adapter ?s1)\<rparr>"
      have s2: "pl_db s2 = db" "pl_gone s2 = pl_gone s" "pl_waiters s2 = pl_waiters s" by (simp_all add: s2_def)
      have s': "s' = notify_waiters ?i amount s2"
        using run by (simp add: and_then_def map_err_def store_call_def store_read_def io step d amount s2_def
            Fallible.modify_def Let_def)
      have ids: "\<forall>j \<in> fst ` set (pl_waiters s). good_id ?nc j" and keys: "distinct (map fst (pl_waiters s))"
        using ready unfolding none_ready_def by blast+
      have "list_all (unready ?nc (pl_db s2) (pl_gone s2)) (pl_waiters (notify_waiters ?i amount s2))"
      proof (rule unready_notified)
        fix y
        assume y: "y \<in> set (pl_waiters s2)" "fst y \<noteq> ?i"
        then have "unready ?nc (pl_db s) (pl_gone s) y" "good_id ?nc (fst y)"
          using ready ids by (simp_all add: s2 none_ready_def list_all_iff)
        with same [OF y(2)] show "unready ?nc (pl_db s2) (pl_gone s2) y"
          by (simp add: s2 unready_def case_prod_beta)
      qed (simp_all add: s2 amount keys)
      moreover have "pl_db (notify_waiters ?i amount s2) = db" "pl_gone (notify_waiters ?i amount s2) = pl_gone s"
        "distinct (map fst (pl_waiters (notify_waiters ?i amount s2)))"
        using keys
        by (auto simp: s2 notify_waiters_def notify_sends Let_def distinct_update distinct_delete split: option.split)
      moreover have "\<forall>j \<in> fst ` set (pl_waiters (notify_waiters ?i amount s2)). good_id ?nc j"
        using ids notify_keys [of ?i amount s2] unfolding s2 by blast
      ultimately show ?thesis using wf(2) by (simp add: none_ready_def s' s2)
    next
      case False
      then have "cd_notes db = cd_notes (pl_db s)"
        using step by (auto simp: record_completion_def write_tx_def Let_def dest!: put_cursor_notes
            split: sum.splits option.splits)
      moreover have "s' = ?s1"
        using run False
        by (cases x) (auto simp: and_then_def map_err_def store_call_def io step Let_def ok_def split: option.splits)
      ultimately show ?thesis using ready seen_none_ready by (simp add: seen_by_def)
    qed
  qed
  show ?thesis
  proof (cases "parse_uint u64_max (ce_leaf e)")
    case (Inr leaf)
    then have "leaf < u64_max"
      using sound e parse_uint_bound [OF Inr] by (auto simp: sound_world_def order_le_less)
    from settled [OF this] show ?thesis
      unfolding process_completion_def Inr sum.case Let_def
      by (auto intro!: keeps_sum quiet [OF still_reads(2)] split: sum.split)
  qed (simp add: process_completion_def quiet [OF still_reads(2)])
qed

lemma ready_watch:
  assumes "sound_world w" "good_id (pw_codec w) i"
  shows "keeps (none_ready (pw_codec w)) (watch w i address secret minimum)"
proof -
  let ?nc = "pw_codec w"
  have io: "pw_db w = (\<lambda>_. None)" using assms by (simp add: sound_world_def)
  have added: "none_ready ?nc (s\<lparr>pl_waiters := ws, pl_replay := True\<rparr>)"
    if ready: "none_ready ?nc s" and amount: "committed_amount ?nc None i (pl_db s) = Inr amount" "\<not> minimum \<le> amount"
      and ws: "add_waiter cv i address secret \<lparr>dw_minimum = minimum, dw_channel = ch\<rparr> (pl_waiters s) = Inr ws"
    for s amount ws ch cv
  proof (cases "map_of (pl_waiters s) i")
    case None
    let ?e = "\<lparr>wd_address = address, wd_secret = secret, wd_waiters = [\<lparr>dw_minimum = minimum, dw_channel = ch\<rparr>]\<rparr>"
    have ws: "ws = (i, ?e) # pl_waiters s" using ws None by (simp add: add_waiter_def)
    have "unready ?nc (pl_db s) (pl_gone s) (i, ?e)" using amount by (simp add: unready_def)
    then show ?thesis using ready None assms(2) unfolding ws none_ready_def by (simp add: map_of_eq_None_iff)
  next
    case (Some e)
    let ?e = "e\<lparr>wd_waiters := wd_waiters e @ [\<lparr>dw_minimum = minimum, dw_channel = ch\<rparr>]\<rparr>"
    have keys: "distinct (map fst (pl_waiters s))" using ready by (simp add: none_ready_def)
    have ws: "ws = AList.update i ?e (pl_waiters s)" using ws Some by (simp add: add_waiter_def split: if_splits)
    have "unready ?nc (pl_db s) (pl_gone s) (i, e)"
      using ready map_of_SomeD [OF Some] by (simp add: none_ready_def list_all_iff)
    then have "unready ?nc (pl_db s) (pl_gone s) (i, ?e)" using amount by (auto simp: unready_def)
    then have "list_all (unready ?nc (pl_db s) (pl_gone s)) ws"
      using ready unfolding ws none_ready_def by (simp add: list_all_update)
    moreover have "\<forall>j \<in> fst ` set ws. good_id ?nc j"
      using ready assms(2) unfolding ws dom_update by (auto simp: none_ready_def)
    ultimately show ?thesis using ready keys unfolding ws none_ready_def by (simp add: distinct_update)
  qed
  have sent: "none_ready ?nc (send_amount ch amount s)" if "none_ready ?nc s" for s ch amount
    using that by (auto simp: send_amount_def none_ready_def)
  have moved: "none_ready ?nc (s\<lparr>pl_next := n, pl_adapter := a\<rparr>)" if "none_ready ?nc s" for s n a
    using that by (simp add: none_ready_def)
  show ?thesis
  proof (rule keepsI)
    fix s s' :: pool_state and r
    assume ready: "none_ready ?nc s" and run: "watch w i address secret minimum s = (r, s')"
    show "none_ready ?nc s'"
    proof (cases "bjj_point (pw_curve w) ?nc address")
      case (Inl e)
      then show ?thesis using run ready by (simp add: watch_def fail_def)
    next
      case (Inr p)
      let ?s1 = "s\<lparr>pl_next := pl_next s + 1, pl_adapter := tick_call 0 (pl_adapter s)\<rparr>"
      have ready1: "none_ready ?nc ?s1" by (rule moved [OF ready])
      obtain amount where amount: "committed_amount ?nc None i (pl_db s) = Inr amount"
        using ready amount_of_rows by (auto simp: none_ready_def)
      from run show ?thesis
        using sent [OF ready1] added [OF ready1, where amount = amount and ch = "pl_next s" and cv = "pw_curve w"] ready1 amount
        by (auto simp: watch_def Inr and_then_def inspect_def followed_by_def Fallible.modify_def store_read_def
            store_call_def io ok_def lift_result_def Let_def split: if_splits sum.splits)
    qed
  qed
qed

fun regular :: "note_codec \<Rightarrow> watch_action \<Rightarrow> bool" where
  "regular nc (Register i address secret minimum) \<longleftrightarrow> good_id nc i"
| "regular nc x \<longleftrightarrow> True"


end
