(* ===== verification/Watch_Example.thy ===== *)
theory Watch_Example
  imports Watch_Safety Curvy_Example
begin

text \<open>
  A concrete run of the watcher: an allocation is registered with an empty store, the watcher makes a
  pass over an index that has nothing yet, and the waiter is still there. \<open>failed_read_strands\<close> is the
  case the invariant of \<open>Watch_Safety\<close> excludes: a read that fails after the commitment was recorded.
\<close>

definition demo_curve :: curve where
  "demo_curve =
     \<lparr>cv_parse_dec = (\<lambda>_. Inr 1), cv_decompress = (\<lambda>_. Some (''1'', ''2'')), cv_subgroup = (\<lambda>_ _. Some (1, 2)),
      cv_spend_bytes = (\<lambda>_. replicate 65 1), cv_view_bytes = (\<lambda>_. replicate 32 1), cv_scan = (\<lambda>_ _ _ _. Inr []),
      cv_decrypt = (\<lambda>a t _ _. (a, t)), cv_reduce = id, cv_note_id = (\<lambda>_. 8), cv_nullifier = (\<lambda>_. 9), cv_public = id,
      cv_u256_error = id, cv_debug = id, cv_new_meta = (\<lambda>_. Inl ''down''), cv_hex_decode = (\<lambda>_. Inr []),
      cv_view_keypair = (\<lambda>_. Inr 1), cv_spend_key = (\<lambda>_. Inr 1), cv_secret = (\<lambda>v _. v), cv_view_dec = (\<lambda>_. Inl ''down''),
      cv_signing_key = (\<lambda>_. Inr 1)\<rparr>"

definition demo_index :: note_index where
  "demo_index =
     \<lparr>ix_pending = (\<lambda>_ _ _. Inr ([], False)), ix_committed = (\<lambda>_ _ _. Inr []), ix_candidates = (\<lambda>_ _ _. Inr []),
      ix_head = (\<lambda>_. Inr (10, 2)), ix_nullifier = (\<lambda>_ _. Inr False), ix_known = (\<lambda>_ _. Inr True)\<rparr>"

definition demo_world :: pool_world where
  "demo_world =
     \<lparr>pw_sdk = demo_prover, pw_cfg = demo_operator, pw_codec = demo_codec, pw_curve = demo_curve, pw_index = demo_index,
      pw_db = (\<lambda>_. None), pw_budget = secs 60, pw_funding = 100, pw_safe = ''0xee'', pw_debug_id = show_nat,
      pw_show_error = (\<lambda>_. ''error'')\<rparr>"

definition demo_pool_state :: pool_state where
  "demo_pool_state =
     \<lparr>pl_adapter = demo_funded, pl_db = empty_db, pl_waiters = [], pl_replay = False, pl_detector = Some 2, pl_sent = [],
      pl_gone = {}, pl_next = 0, pl_retry = reconnect_delay, pl_reconciled = False, pl_watching = False\<rparr>"

definition demo_history :: "watch_action list" where
  "demo_history = [Register 5 77 1 10, Iterate 2]"

lemma demo_world_fields [simp]:
  "pw_db demo_world = (\<lambda>_. None)" "pw_codec demo_world = demo_codec" "pw_curve demo_world = demo_curve"
  "pw_index demo_world = demo_index" "pw_sdk demo_world = demo_prover"
  by (simp_all add: demo_world_def)

lemma demo_pool_fields [simp]:
  "pl_db demo_pool_state = empty_db" "pl_waiters demo_pool_state = []" "pl_sent demo_pool_state = []" "pl_gone demo_pool_state = {}"
  "pl_next demo_pool_state = 0" "pl_adapter demo_pool_state = demo_funded"
  by (simp_all add: demo_pool_state_def)

lemma demo_good: "good_id demo_codec 5"
  by (simp add: good_id_def demo_codec_def pix_id_size_def)

lemma demo_point: "bjj_point demo_curve demo_codec a = Inr (1, 2)"
  by (simp add: bjj_point_def demo_curve_def demo_codec_def)

lemma demo_scan: "scan_candidate demo_curve pf secret = Inr []"
  by (simp add: scan_candidate_def demo_curve_def)

lemma demo_sound: "sound_world demo_world"
proof -
  have "detect_in demo_curve demo_codec expected pf plaintext watched = Inr None" for expected pf plaintext watched
    by (induction watched) (auto simp: detect_entry_def demo_point demo_scan split: prod.split)
  then have "detect_owned_note demo_curve demo_codec expected c watched \<noteq> Inr (Some d)" for expected c watched d
    by (simp add: detect_owned_note_def split: sum.split)
  then show ?thesis
    by (auto simp: sound_world_def demo_widths served_def demo_index_def)
qed

lemma demo_ready: "none_ready demo_codec demo_pool_state" "channels_ok demo_pool_state"
  by (simp_all add: none_ready_def channels_ok_def rows_wf_def empty_db_def)

definition demo_entry :: watched_allocation where
  "demo_entry = \<lparr>wd_address = 77, wd_secret = 1, wd_waiters = [\<lparr>dw_minimum = 10, dw_channel = 0\<rparr>]\<rparr>"

lemma demo_waits:
  "pl_waiters (fold (watch_act demo_world) demo_history demo_pool_state) = [(5, demo_entry)] \<and>
   pl_gone (fold (watch_act demo_world) demo_history demo_pool_state) = {}"
proof -
  have read: "committed_amount demo_codec None 5 empty_db = Inr 0"
    by (simp add: committed_amount_def session_rows_def empty_db_def)
  have two: "(2::nat) = Suc (Suc 0)" by simp
  show ?thesis
    unfolding demo_history_def two
    by (simp add: run_defs watch_def demo_point store_read_def store_call_def read add_waiter_def demo_entry_def
        watcher_step_def watched_allocations_def live_waiters_def catch_up_def catch_up_cursor_def index_call_def
        at_adapter_def demo_index_def query_page_size_def pause_for_def sleep_def send_amount_def Let_def)
qed


theorem channels_used_once_witness:
  "channels_ok (fold (watch_act demo_world) demo_history demo_pool_state) \<and>
   pl_waiters (fold (watch_act demo_world) demo_history demo_pool_state) \<noteq> []"
  using channels_used_once [OF demo_ready(2), of demo_world demo_history] demo_waits by simp

text \<open>
  If the read of the committed amount fails after a commitment was recorded, the pass fails with the
  cursor behind the event and the waiters as they were: unless the pass was a replay from genesis, no
  later pass meets the event again.
\<close>

lemma failed_read_strands:
  assumes "parse_uint u64_max (ce_leaf e) = Inr leaf" and "note_id_key (pw_codec w) (ce_id e) = Inr key"
    and "pw_db w (nt_calls (pl_adapter s)) = None" and "pw_db w (Suc (nt_calls (pl_adapter s))) = Some m"
    and "record_completion (pw_codec w) None (ce_id e) leaf (ce_position e) (pl_db s) = (Inr (Some d), db)"
  shows "case process_completion w e s of
    (r, s') \<Rightarrow> r = Inl (LifecycleState (Database m)) \<and> pl_waiters s' = pl_waiters s \<and> pl_db s' = db \<and>
      cd_cursors db Committed = Some (projr (encode_cursor (ce_position e)))"
proof -
  have "cd_cursors db Committed = Some (projr (encode_cursor (ce_position e)))"
    using assms(2,5)
    by (auto simp: record_completion_def write_tx_def put_cursor_def Let_def split: sum.splits option.splits)
  then show ?thesis
    using assms
    by (simp add: process_completion_def run_defs store_read_def store_call_def committed_amount_def tick_call_def Let_def)
qed

end
