(* ===== verification/Curvy_Pool.thy ===== *)
theory Curvy_Pool
  imports Curvy_Watch Curvy_Allocate Curvy_Shield Pix_Engine
begin

text \<open>
  The deposit pool of \<open>src/src/pix/pools/curvy/mod.rs\<close>: its configuration and construction, the check of
  the stored state against the deployment, allocation with its wait for the committed tree, discovery
  and withdrawal. While an operation waits for a commitment the watcher makes its passes, one after
  the other. Waits are bounded by the tracking budget; how many rounds that allows is a number, and
  \<open>Pool_Safety\<close> shows that more make no difference.
\<close>

section \<open>Configuration\<close>

record curvy_config =
  cc_blokli_url :: string
  cc_tracking_time :: duration
  cc_token :: "nat option"
  cc_initial_funding :: balance
  cc_state_path :: "string option"
  cc_operator_key_env :: string
  cc_shielding :: curvy_shielding
  cc_submission :: curvy_submission
  cc_relayer_url :: "string option"
  cc_note_source :: note_source
  cc_indexer_url :: "string option"
  cc_multisend :: bytes

definition safe_multisend :: bytes where
  "safe_multisend =
     [0x38, 0x86, 0x9b, 0xf6, 0x6a, 0x61, 0xcf, 0x6b, 0xdb, 0x99, 0x6a, 0x6a, 0xe4, 0x0d, 0x58, 0x53, 0xfd, 0x43, 0xb5, 0x26]"

definition curvy_default :: curvy_config where
  "curvy_default =
     \<lparr>cc_blokli_url = ''http://localhost:8080/'', cc_tracking_time = secs 60, cc_token = None,
      cc_initial_funding = new_base 100, cc_state_path = None,
      cc_operator_key_env = ''HOPRD_CURVY_OPERATOR_PRIVATE_KEY'', cc_shielding = DirectShielding,
      cc_submission = RelayerSubmission, cc_relayer_url = None, cc_note_source = BlokliNotes, cc_indexer_url = None,
      cc_multisend = safe_multisend\<rparr>"

definition mode_name :: "string \<Rightarrow> string" where
  "mode_name value = map ascii_lower (trim value)"

definition parse_note_source :: "string \<Rightarrow> strategy_error + note_source" where
  "parse_note_source value =
     (let name = map (\<lambda>c. if c = CHR ''-'' then CHR ''_'' else c) (mode_name value) in
      if name = ''blokli'' then Inr BlokliNotes
      else if name = ''curvy_indexer'' \<or> name = ''indexer'' \<or> name = ''curvy'' then Inr CurvyIndexerNotes
      else Inl (InvalidConfiguration (''Curvy note source must be `blokli` or `curvy_indexer`, got `'' @ name @ ''`'')))"

definition parse_shielding :: "string \<Rightarrow> strategy_error + curvy_shielding" where
  "parse_shielding value =
     (let name = mode_name value in
      if name = ''direct'' then Inr DirectShielding
      else if name = ''portal'' then Inr PortalShielding
      else Inl (InvalidConfiguration (''Curvy shielding must be `direct` or `portal`, got `'' @ name @ ''`'')))"

definition parse_submission :: "string \<Rightarrow> strategy_error + curvy_submission" where
  "parse_submission value =
     (let name = mode_name value in
      if name = ''relayer'' then Inr RelayerSubmission
      else if name = ''operator'' then Inr OperatorSubmission
      else Inl (InvalidConfiguration (''Curvy submission must be `relayer` or `operator`, got `'' @ name @ ''`'')))"

definition validate_mode_requirements :: "curvy_config \<Rightarrow> strategy_error + unit" where
  "validate_mode_requirements cfg =
     (if cc_submission cfg = RelayerSubmission \<and> cc_relayer_url cfg = None
      then Inl (InvalidConfiguration (''`submission: relayer` needs `relayer_url`; set it, or select `submission: operator` (or '' @
        ''HOPRD_CURVY_SUBMISSION=operator) to sign and submit from this node''))
      else if cc_note_source cfg = CurvyIndexerNotes \<and> cc_indexer_url cfg = None
      then Inl (InvalidConfiguration (''`note_source: curvy_indexer` needs `curvy_indexer_url` (or '' @
        ''HOPRD_CURVY_INDEXER_URL); set it, or select `note_source: blokli` to read notes from Blokli's own Curvy index''))
      else Inr ())"

definition validate_tracking_time :: "duration \<Rightarrow> bool" where
  "validate_tracking_time d \<longleftrightarrow> \<not> d div 1000000000 < 1"

definition validate_curvy :: "curvy_config \<Rightarrow> bool" where
  \<comment> \<open>the derived validation\<close>
  "validate_curvy cfg \<longleftrightarrow>
     validate_tracking_time (cc_tracking_time cfg) \<and> (case cc_token cfg of None \<Rightarrow> True | Some i \<Rightarrow> 1 \<le> i)"

section \<open>Construction\<close>

record startup =
  \<comment> \<open>the process, the node and the libraries the construction asks\<close>
  su_env :: "string \<Rightarrow> string option"
  su_url :: "string \<Rightarrow> string + string"
  su_balance :: "string \<Rightarrow> string + balance"
  su_invalid :: "curvy_config \<Rightarrow> string"
  su_key_address :: string
  su_node_address :: string
  su_open :: "string \<Rightarrow> curvy_state_error + curvy_db"
  su_relay_client :: "string \<Rightarrow> strategy_error + unit"
  su_sync_api :: "string \<Rightarrow> string + unit"
  su_show_adapter :: "adapter_error \<Rightarrow> string"

definition override ::
  "startup \<Rightarrow> string \<Rightarrow> (string \<Rightarrow> strategy_error + 'a) \<Rightarrow> ('a \<Rightarrow> curvy_config \<Rightarrow> curvy_config) \<Rightarrow> curvy_config \<Rightarrow>
   strategy_error + curvy_config" where
  "override su name parse put cfg =
     (case su_env su name of
        None \<Rightarrow> Inr cfg
      | Some raw \<Rightarrow> (case parse raw of Inl e \<Rightarrow> Inl e | Inr x \<Rightarrow> Inr (put x cfg)))"

definition parse_url_of :: "startup \<Rightarrow> string \<Rightarrow> string \<Rightarrow> strategy_error + string" where
  "parse_url_of su name raw =
     (case su_url su raw of
        Inl e \<Rightarrow> Inl (InvalidConfiguration (name @ '' must be a URL: '' @ e))
      | Inr u \<Rightarrow> Inr u)"

definition parse_token_of :: "string \<Rightarrow> strategy_error + nat" where
  "parse_token_of raw =
     (case parse_uint u64_max (trim raw) of
        Inl e \<Rightarrow> Inl (InvalidConfiguration (''HOPRD_CURVY_TOKEN must be a vault token id: '' @ e))
      | Inr i \<Rightarrow> Inr i)"

fun apply_each :: "('c \<Rightarrow> 'e + 'c) list \<Rightarrow> 'c \<Rightarrow> 'e + 'c" where
  "apply_each [] cfg = Inr cfg"
| "apply_each (f # fs) cfg = (case f cfg of Inl e \<Rightarrow> Inl e | Inr cfg' \<Rightarrow> apply_each fs cfg')"

definition apply_overrides :: "startup \<Rightarrow> curvy_config \<Rightarrow> strategy_error + curvy_config" where
  "apply_overrides su =
     apply_each
       [override su ''HOPRD_CURVY_SHIELDING'' parse_shielding (\<lambda>x cfg. cfg\<lparr>cc_shielding := x\<rparr>),
        override su ''HOPRD_CURVY_SUBMISSION'' parse_submission (\<lambda>x cfg. cfg\<lparr>cc_submission := x\<rparr>),
        override su ''HOPRD_CURVY_RELAYER_URL'' (parse_url_of su ''HOPRD_CURVY_RELAYER_URL'')
          (\<lambda>x cfg. cfg\<lparr>cc_relayer_url := Some x\<rparr>),
        override su ''HOPRD_CURVY_NOTE_SOURCE'' parse_note_source (\<lambda>x cfg. cfg\<lparr>cc_note_source := x\<rparr>),
        override su ''HOPRD_CURVY_INDEXER_URL'' (parse_url_of su ''HOPRD_CURVY_INDEXER_URL'')
          (\<lambda>x cfg. cfg\<lparr>cc_indexer_url := Some x\<rparr>),
        override su ''HOPRD_CURVY_TOKEN'' parse_token_of (\<lambda>x cfg. cfg\<lparr>cc_token := Some x\<rparr>)]"

definition check_config :: "startup \<Rightarrow> curvy_config \<Rightarrow> strategy_error + unit" where
  "check_config su cfg =
     (if \<not> validate_curvy cfg then Inl (InvalidConfiguration (su_invalid su cfg))
      else case validate_mode_requirements cfg of
        Inl e \<Rightarrow> Inl e
      | Inr _ \<Rightarrow>
          if cc_shielding cfg = DirectShielding \<and> su_key_address su \<noteq> su_node_address su
          then Inl (InvalidConfiguration (''direct shielding signs with the node key, but the given key belongs to '' @
            su_key_address su @ '' while the node is '' @ su_node_address su))
          else Inr ())"

definition operator_key_of :: "startup \<Rightarrow> curvy_config \<Rightarrow> strategy_error + string" where
  \<comment> \<open>portal deployment is self-signed even when proofs go through the relayer\<close>
  "operator_key_of su cfg =
     (if cc_submission cfg = OperatorSubmission \<or> cc_shielding cfg = PortalShielding
      then case su_env su (cc_operator_key_env cfg) of
          None \<Rightarrow> Inl (InvalidConfiguration (''environment variable '' @ cc_operator_key_env cfg @
            '' must hold a valid Curvy signing key for operator submission or portal shielding''))
        | Some key \<Rightarrow> Inr key
      else Inr [])"

definition initial_funding_of :: "startup \<Rightarrow> curvy_config \<Rightarrow> strategy_error + balance" where
  "initial_funding_of su cfg =
     (case su_env su ''HOPRD_CURVY_INITIAL_FUNDING'' of
        None \<Rightarrow> Inr (cc_initial_funding cfg)
      | Some raw \<Rightarrow>
          (case su_balance su raw of
             Inl e \<Rightarrow> Inl (InvalidConfiguration (''HOPRD_CURVY_INITIAL_FUNDING must be a wxHOPR amount: '' @ e))
           | Inr b \<Rightarrow> Inr b))"

definition state_path_of :: "startup \<Rightarrow> curvy_config \<Rightarrow> string" where
  "state_path_of su cfg =
     (case cc_state_path cfg of Some p \<Rightarrow> p | None \<Rightarrow> ''curvy-pix-'' @ su_node_address su @ ''.redb'')"

definition adapter_config_of :: "curvy_config \<Rightarrow> string \<Rightarrow> adapter_config" where
  "adapter_config_of cfg key =
     \<lparr>ac_key = key, ac_fee_recipient = None, ac_shielding = cc_shielding cfg, ac_submission = cc_submission cfg,
      ac_relay = (cc_submission cfg = RelayerSubmission), ac_shielder = (cc_shielding cfg = DirectShielding),
      ac_relay_timeout = secs 120, ac_note_source = cc_note_source cfg, ac_indexer_url = cc_indexer_url cfg\<rparr>"

definition open_state :: "startup \<Rightarrow> curvy_config \<Rightarrow> strategy_error + curvy_db" where
  "open_state su cfg =
     (let path = state_path_of su cfg in
      case su_open su path of Inl e \<Rightarrow> Inl (OtherError (Text (path @ '': '' @ show_state_error e))) | Inr db \<Rightarrow> Inr db)"

definition relay_client_of :: "startup \<Rightarrow> curvy_config \<Rightarrow> strategy_error + unit" where
  "relay_client_of su cfg =
     (case cc_submission cfg of
        RelayerSubmission \<Rightarrow> (case cc_relayer_url cfg of Some url \<Rightarrow> su_relay_client su url | None \<Rightarrow> Inr ())
      | OperatorSubmission \<Rightarrow> Inr ())"

definition sync_api_of :: "startup \<Rightarrow> curvy_config \<Rightarrow> strategy_error + unit" where
  "sync_api_of su cfg =
     (case (cc_note_source cfg, cc_indexer_url cfg) of
        (CurvyIndexerNotes, Some url) \<Rightarrow>
          (case su_sync_api su url of Inl e \<Rightarrow> Inl (OtherError (Text e)) | Inr u \<Rightarrow> Inr u)
      | _ \<Rightarrow> Inr ())"

definition vault_token_of :: "curvy_config \<Rightarrow> vault_token" where
  "vault_token_of cfg = (case cc_token cfg of Some i \<Rightarrow> configured_token i | None \<Rightarrow> token_from_table)"

definition assemble :: "adapter \<Rightarrow> curvy_db \<Rightarrow> nat option \<Rightarrow> pool_state" where
  \<comment> \<open>the last argument is the token of a detector that is handed in ready-made\<close>
  "assemble a db given =
     \<lparr>pl_adapter = a, pl_db = db, pl_waiters = [], pl_replay = False, pl_detector = given, pl_sent = [], pl_gone = {},
      pl_next = 0, pl_retry = reconnect_delay, pl_reconciled = False, pl_watching = False\<rparr>"

definition curvy_pool_new ::
  "startup \<Rightarrow> sdk \<Rightarrow> stored_allocation list \<Rightarrow> curvy_config \<Rightarrow>
   (adapter, strategy_error stop, curvy_config \<times> adapter_config \<times> balance \<times> pool_state) fallible" where
  \<comment> \<open>the state is what the adapter's tables hold before the construction\<close>
  "curvy_pool_new su sk legacy cfg =
     and_then (lift (apply_overrides su cfg))
       (\<lambda>cfg. followed_by (lift (check_config su cfg))
          (and_then (lift (operator_key_of su cfg))
             (\<lambda>key. and_then (lift (initial_funding_of su cfg))
                (\<lambda>funding. and_then (lift (open_state su cfg))
                   (\<lambda>db. followed_by (modify (\<lambda>s. s\<lparr>tn_token := vault_token_of cfg\<rparr>))
                      (followed_by (lift (relay_client_of su cfg))
                         (followed_by
                            (map_err (\<lambda>x. case x of Err e \<Rightarrow> Err (OtherError (Text (bk_show_error sk e))) | Panicked \<Rightarrow> Panicked)
                               (adapter_new sk (adapter_config_of cfg key) legacy))
                            (followed_by (lift (sync_api_of su cfg))
                               (and_then (inspect (\<lambda>a. assemble a db None))
                                  (\<lambda>pool. ok (cfg, adapter_config_of cfg key, funding, pool)))))))))))"

section \<open>Reconciliation with the deployment\<close>

type_synonym 'a curvy_op = "(curvy_pool_error stop, 'a) pool_op"

definition adapter_stop :: "adapter_error stop \<Rightarrow> curvy_pool_error stop" where
  "adapter_stop x = (case x of Err e \<Rightarrow> Err (Adapter (AdapterError e)) | Panicked \<Rightarrow> Panicked)"

definition from_adapter :: "'a adapter_op \<Rightarrow> 'a curvy_op" where
  "from_adapter m = map_err adapter_stop (at_adapter m)"

definition from_store :: "(curvy_state_error, 'a) pool_op \<Rightarrow> 'a curvy_op" where
  "from_store = map_err (Err \<circ> StateError)"

definition from_index :: "(string, 'a) pool_op \<Rightarrow> 'a curvy_op" where
  "from_index = map_err (Err \<circ> Indexer)"

definition pool_stop :: "curvy_pool_error stop \<Rightarrow> strategy_error stop" where
  "pool_stop x = (case x of Err e \<Rightarrow> Err (OtherError (CurvyCause e)) | Panicked \<Rightarrow> Panicked)"

definition cursor_ahead :: "pool_world \<Rightarrow> nat \<Rightarrow> event_kind \<Rightarrow> bool curvy_op" where
  "cursor_ahead w head kind =
     and_then (from_store (store_read w (\<lambda>io. read_cursor (pw_codec w) io kind)))
       (\<lambda>cursor. case cursor of
          None \<Rightarrow> ok False
        | Some c \<Rightarrow>
            (case parse_uint u64_max (ec_block c) of
               Inl e \<Rightarrow> err (StateError (Corrupt (''invalid Curvy cursor block: '' @ e)))
             | Inr block \<Rightarrow> ok (head < block)))"

definition state_needs_sync :: "pool_world \<Rightarrow> bool curvy_op" where
  "state_needs_sync w =
     and_then (from_index (index_call w (ix_head (pw_index w))))
       (\<lambda>(head, _). and_then (find_first (cursor_ahead w head) [Pending, Committed])
          (\<lambda>ahead.
             if ahead \<noteq> None then ok True
             else and_then (from_store (store_read w owned_note_ids))
               (\<lambda>ids. and_then
                  (find_first
                     (\<lambda>i. and_then (from_index (index_call w (\<lambda>n. ix_known (pw_index w) n i))) (\<lambda>known. ok (\<not> known))) ids)
                  (\<lambda>unknown.
                     if unknown \<noteq> None then ok True
                     else and_then (from_adapter (chain_state_is_consistent (pw_sdk w) (pw_cfg w))) (\<lambda>c. ok (\<not> c))))))"

definition ensure_reconciled :: "pool_world \<Rightarrow> unit curvy_op" where
  "ensure_reconciled w =
     and_then (inspect pl_reconciled)
       (\<lambda>done'. if done' then ok ()
          else and_then (state_needs_sync w)
            (\<lambda>behind. if behind then err ReconciliationPending else modify (\<lambda>s. s\<lparr>pl_reconciled := True\<rparr>)))"

section \<open>Waiting for the committed tree\<close>

definition is_tree_lag :: "string \<Rightarrow> bool" where
  "is_tree_lag m \<longleftrightarrow>
     str_contains m ''not found in committed tree'' \<or> str_contains m ''index did not reconcile'' \<or>
     str_contains m ''waiting for the winning Curvy aggregation outputs to become finalized''"

definition is_transient_chain_read :: "string \<Rightarrow> bool" where
  "is_transient_chain_read m \<longleftrightarrow>
     str_contains m ''RPC_ERROR'' \<or> str_contains m ''Max retries exceeded'' \<or> str_contains m ''HTTP error 429'' \<or>
     str_contains m ''HTTP error 5'' \<or> str_contains m ''the Curvy relayer rate limited the request:'' \<or>
     str_contains m ''the Curvy relayer is unreachable:'' \<or>
     str_contains m ''operator note does not cover the gas cost'' \<or>
     str_contains m ''error decoding response body'' \<or> str_contains m ''transport:''"

definition is_retryable_lag :: "string \<Rightarrow> bool" where
  "is_retryable_lag m \<longleftrightarrow> is_tree_lag m \<or> is_transient_chain_read m"

definition tree_lag_poll_interval :: "duration \<Rightarrow> duration" where
  "tree_lag_poll_interval budget = max (min (budget div 10) (secs 5)) (millis 50)"

definition lag_rounds :: "duration \<Rightarrow> nat" where
  \<comment> \<open>how often a budget lets a wait repeat\<close>
  "lag_rounds budget = budget div tree_lag_poll_interval budget + 1"

record 's timed =
  tm_now :: "'s \<Rightarrow> instant"
  tm_pause :: "duration \<Rightarrow> 's \<Rightarrow> 's"

fun lag_loop ::
  "(adapter_error \<Rightarrow> string) \<Rightarrow> 's timed \<Rightarrow> duration \<Rightarrow> instant \<Rightarrow> ('s, adapter_error stop, 'a) fallible \<Rightarrow> nat \<Rightarrow>
   ('s, adapter_error stop, 'a) fallible" where
  "lag_loop show_error tm poll deadline attempt 0 = attempt"
| "lag_loop show_error tm poll deadline attempt (Suc k) =
     (\<lambda>s. case attempt s of
        (Inl (Err e), s') \<Rightarrow>
          if is_retryable_lag (show_error e) \<and> tm_now tm s' + poll < deadline
          then lag_loop show_error tm poll deadline attempt k (tm_pause tm poll s')
          else (Inl (Err e), s')
      | answer \<Rightarrow> answer)"

section \<open>Allocation\<close>

definition allocate_once :: "pool_world \<Rightarrow> allocation_item list \<Rightarrow> (bool \<times> pool_state, adapter_error stop, unit) fallible" where
  \<comment> \<open>the flag says whether the pool was found funded\<close>
  "allocate_once w deposits = (\<lambda>(funded, s).
     case (if funded then (Inr (), s)
           else at_adapter (ensure_funded (pw_sdk w) (pw_cfg w) (pw_funding w) (pw_safe w)) s) of
       (Inl e, s') \<Rightarrow> (Inl e, (funded, s'))
     | (Inr _, s') \<Rightarrow> (case at_adapter (allocate (pw_sdk w) (pw_cfg w) deposits) s' of (r, s'') \<Rightarrow> (r, (True, s''))))"

definition pool_time :: "pool_state timed" where
  "pool_time = \<lparr>tm_now = pl_clock, tm_pause = (\<lambda>d s. s\<lparr>pl_adapter := sleep d (pl_adapter s)\<rparr>)\<rparr>"

definition flagged_time :: "(bool \<times> pool_state) timed" where
  "flagged_time =
     \<lparr>tm_now = pl_clock \<circ> snd, tm_pause = (\<lambda>d (funded, s). (funded, s\<lparr>pl_adapter := sleep d (pl_adapter s)\<rparr>))\<rparr>"

definition allocate_waiting :: "pool_world \<Rightarrow> allocation_item list \<Rightarrow> unit curvy_op" where
  "allocate_waiting w deposits s =
     (case lag_loop (bk_show_error (pw_sdk w)) flagged_time (tree_lag_poll_interval (pw_budget w))
         (pl_clock s + pw_budget w) (allocate_once w deposits) (lag_rounds (pw_budget w)) (False, s) of
        (Inl e, (_, s')) \<Rightarrow> (Inl (adapter_stop e), s')
      | (Inr u, (_, s')) \<Rightarrow> (Inr u, s'))"

definition pool_allocate :: "pool_world \<Rightarrow> allocation_item list \<Rightarrow> (strategy_error stop, unit) pool_op" where
  "pool_allocate w deposits = map_err pool_stop (followed_by (ensure_reconciled w) (allocate_waiting w deposits))"

section \<open>Deposit data\<close>

datatype curvy_deposit_data = CurvyDepositData pix_id scan_key

definition curvy_data_from :: "pool_world \<Rightarrow> deposit_data \<Rightarrow> strategy_error + curvy_deposit_data" where
  "curvy_data_from w d =
     (case sk_parse_scan (pw_sdk w) (dd_bytes d) of
        Inl e \<Rightarrow>
          Inl (OtherError (Text (''PIX deposit data for '' @ pw_debug_id w (dd_id d) @ '' is not a Curvy scan identity: '' @ e)))
      | Inr scan \<Rightarrow> Inr (CurvyDepositData (dd_id d) scan))"

fun curvy_data_into :: "pool_world \<Rightarrow> curvy_deposit_data \<Rightarrow> strategy_error + deposit_data" where
  "curvy_data_into w (CurvyDepositData i scan) = Inr \<lparr>dd_id = i, dd_bytes = sk_scan_bytes (pw_sdk w) scan\<rparr>"

definition curvy_generate_data :: "pool_world \<Rightarrow> pix_id \<Rightarrow> (strategy_error stop, curvy_deposit_data) pool_op" where
  "curvy_generate_data w i =
     map_err pool_stop
       (followed_by (ensure_reconciled w)
          (and_then (from_store (store_read w (\<lambda>io. read_scan_secret (pw_codec w) io i)))
             (\<lambda>existing. and_then
                (case existing of
                   Some secret \<Rightarrow> ok secret
                 | None \<Rightarrow>
                     and_then (map_err (Err \<circ> ScanIdentity) (at_adapter (ask (pw_sdk w) (generate_scan_secret (pw_curve w)))))
                       (\<lambda>secret. followed_by (from_store (store_call w (\<lambda>io. store_scan_secret (pw_codec w) io i secret)))
                          (ok secret)))
                (\<lambda>secret. ok (CurvyDepositData i (cv_public (pw_curve w) secret))))))"

section \<open>Deposits\<close>

fun curvy_deposit_funds_to ::
  "pool_world \<Rightarrow> pix_id \<Rightarrow> nat \<Rightarrow> balance \<Rightarrow> curvy_deposit_data \<Rightarrow> (strategy_error stop, unit) pool_op" where
  "curvy_deposit_funds_to w i dst amount (CurvyDepositData j scan) =
     (if j \<noteq> i then err (OtherError (CurvyCause (MismatchedDepositData i j)))
      else pool_allocate w [(i, dst, scan, amount)])"

fun batch_slot ::
  "pix_id \<times> nat \<times> balance \<times> curvy_deposit_data \<Rightarrow> strategy_error + allocation_item" where
  \<comment> \<open>what the batch does with an item: refuse it, or allocate\<close>
  "batch_slot (i, dst, amount, CurvyDepositData j scan) =
     (if j \<noteq> i then Inl (OtherError (CurvyCause (MismatchedDepositData i j))) else Inr (i, dst, scan, amount))"

definition slot_outcome ::
  "pool_world \<Rightarrow> strategy_error + unit \<Rightarrow> strategy_error + allocation_item \<Rightarrow> strategy_error + pix_id" where
  "slot_outcome w result slot =
     (case slot of
        Inl e \<Rightarrow> Inl e
      | Inr item \<Rightarrow>
          (case result of
             Inr _ \<Rightarrow> Inr (fst item)
           | Inl e \<Rightarrow> Inl (clone_error (pw_show_error w) (sk_show_strategy_error (pw_sdk w)) e)))"

definition curvy_deposit_multiple ::
  "pool_world \<Rightarrow> (pix_id \<times> nat \<times> balance \<times> curvy_deposit_data) list \<Rightarrow>
   (strategy_error stop, (strategy_error + pix_id) list) pool_op" where
  "curvy_deposit_multiple w deposits =
     (let slots = map batch_slot deposits;
          batch = concat (map (\<lambda>slot. case slot of Inl _ \<Rightarrow> [] | Inr item \<Rightarrow> [item]) slots) in
      and_then (if batch = [] then ok (Inr ()) else catching (pool_allocate w batch))
        (\<lambda>result. case result of
           Inl Panicked \<Rightarrow> fail Panicked
         | Inl (Err e) \<Rightarrow> ok (map (slot_outcome w (Inl e)) slots)
         | Inr u \<Rightarrow> ok (map (slot_outcome w (Inr u)) slots)))"

section \<open>Discovery\<close>

definition ensure_watcher :: "pool_state \<Rightarrow> pool_state" where
  \<comment> \<open>a new task starts with the normal delay\<close>
  "ensure_watcher s = (if pl_watching s then s else s\<lparr>pl_watching := True, pl_retry := reconnect_delay\<rparr>)"

definition drop_pool :: "pool_state \<Rightarrow> pool_state" where
  "drop_pool s = s\<lparr>pl_watching := False\<rparr>"

datatype receipt = Received balance | SenderDropped | TimedOut

definition received_by :: "instant \<Rightarrow> nat \<Rightarrow> pool_state \<Rightarrow> balance option" where
  "received_by deadline ch s =
     map_option (fst \<circ> snd) (find (\<lambda>(c, _, at). c = ch \<and> at \<le> deadline) (pl_sent s))"

definition awaited :: "nat \<Rightarrow> pool_state \<Rightarrow> bool" where
  \<comment> \<open>some waiter holds the sender\<close>
  "awaited ch s \<longleftrightarrow> (\<exists>(i, a) \<in> set (pl_waiters s). ch \<in> dw_channel ` set (wd_waiters a))"

definition give_up :: "instant \<Rightarrow> nat \<Rightarrow> pool_state \<Rightarrow> pool_state" where
  \<comment> \<open>the deadline has come, and the receiver is dropped\<close>
  "give_up deadline ch s =
     s\<lparr>pl_gone := insert ch (pl_gone s),
       pl_adapter := sleep (deadline - pl_clock s) (pl_adapter s)\<rparr>"

definition watch_rounds :: "duration \<Rightarrow> nat" where
  "watch_rounds budget = budget div reconnect_delay + 1"

fun await_channel :: "pool_world \<Rightarrow> nat \<Rightarrow> instant \<Rightarrow> nat \<Rightarrow> nat \<Rightarrow> pool_state \<Rightarrow> receipt \<times> pool_state" where
  \<comment> \<open>the watcher goes on while its client waits; the last number counts its iterations\<close>
  "await_channel w pages deadline ch k s =
     (case received_by deadline ch s of
        Some amount \<Rightarrow> (Received amount, s)
      | None \<Rightarrow>
          if \<not> awaited ch s then (SenderDropped, s)
          else if deadline \<le> pl_clock s then (TimedOut, give_up deadline ch s)
          else
            case k of
              0 \<Rightarrow> (TimedOut, give_up deadline ch s)
            | Suc k \<Rightarrow>
                (case watcher_step w pages s of
                   (Inr True, s') \<Rightarrow> await_channel w pages deadline ch k s'
                 | (_, s') \<Rightarrow> (TimedOut, give_up deadline ch s')))"

declare await_channel.simps [simp del]

definition await_receipt :: "pool_world \<Rightarrow> nat \<Rightarrow> nat \<Rightarrow> pool_state \<Rightarrow> receipt \<times> pool_state" where
  "await_receipt w pages ch s =
     await_channel w pages (pl_clock s + pw_budget w) ch (watch_rounds (pw_budget w)) s"

definition await_commitment :: "pool_world \<Rightarrow> nat \<Rightarrow> pix_id \<Rightarrow> nat \<Rightarrow> unit curvy_op" where
  "await_commitment w pages i address =
     and_then (from_store (store_read w (\<lambda>io. read_scan_secret (pw_codec w) io i)))
       (\<lambda>secret. case secret of
          None \<Rightarrow> ok ()
        | Some secret \<Rightarrow>
            and_then (from_store (watch w i address secret 1))
              (\<lambda>ch. followed_by (modify ensure_watcher)
                 (\<lambda>s. case await_receipt w pages ch s of
                    (SenderDropped, s') \<Rightarrow> (Inl (Err WatcherStopped), s')
                  | (_, s') \<Rightarrow> (Inr (), s'))))"

definition curvy_notify_deposit :: "pool_world \<Rightarrow> pix_id \<Rightarrow> nat \<Rightarrow> balance \<Rightarrow> (strategy_error stop, nat) pool_op" where
  \<comment> \<open>the channel of the notification\<close>
  "curvy_notify_deposit w i dst minimum =
     map_err pool_stop
       (and_then (from_store (store_read w (\<lambda>io. read_scan_secret (pw_codec w) io i)))
          (\<lambda>secret. case secret of
             None \<Rightarrow> err (MissingScanSecret i)
           | Some secret \<Rightarrow>
               and_then (from_store (watch w i dst secret minimum)) (\<lambda>ch. followed_by (modify ensure_watcher) (ok ch))))"

definition deposit_notification ::
  "pool_world \<Rightarrow> nat \<Rightarrow> pix_id \<Rightarrow> nat \<Rightarrow> nat \<Rightarrow> (strategy_error stop, pix_id \<times> nat \<times> balance) pool_op" where
  \<comment> \<open>the future that is handed out\<close>
  "deposit_notification w pages i dst ch s =
     (case await_receipt w pages ch s of
        (Received amount, s') \<Rightarrow> (Inr (i, dst, amount), s')
      | (SenderDropped, s') \<Rightarrow> (Inl (pool_stop (Err WatcherStopped)), s')
      | (TimedOut, s') \<Rightarrow> (Inl (pool_stop (Err DepositTimeout)), s'))"

section \<open>Withdrawals\<close>

record bjj_keypair =
  kp_secret :: bytes
  kp_public :: nat

definition hex32 :: "fr \<Rightarrow> string" where
  "hex32 x = ''0x'' @ hex_bytes (be_bytes 32 x)"

definition nullifier_of :: "pool_world \<Rightarrow> committed_note \<Rightarrow> string" where
  "nullifier_of w c = hex32 (cv_nullifier (pw_curve w) (cn_note c))"

definition note_id_of :: "pool_world \<Rightarrow> committed_note \<Rightarrow> string" where
  "note_id_of w c = hex32 (cv_note_id (pw_curve w) (cn_note c))"

fun remove_retry :: "pool_world \<Rightarrow> pix_id \<Rightarrow> string list \<Rightarrow> nat \<Rightarrow> (curvy_state_error, unit) pool_op" where
  \<comment> \<open>the number of repetitions after the first attempt\<close>
  "remove_retry w i ids 0 = store_call w (\<lambda>io. remove_spent_notes (pw_codec w) io i ids)"
| "remove_retry w i ids (Suc k) =
     and_then (catching (store_call w (\<lambda>io. remove_spent_notes (pw_codec w) io i ids)))
       (\<lambda>r. case r of Inr _ \<Rightarrow> ok () | Inl _ \<Rightarrow> remove_retry w i ids k)"

definition remove_spent_notes_retry :: "pool_world \<Rightarrow> pix_id \<Rightarrow> string list \<Rightarrow> unit curvy_op" where
  "remove_spent_notes_retry w i ids = from_store (remove_retry w i ids 2)"

definition note_spent :: "pool_world \<Rightarrow> committed_note \<Rightarrow> bool curvy_op" where
  "note_spent w c = from_index (index_call w (\<lambda>n. ix_nullifier (pw_index w) n (nullifier_of w c)))"

definition reconcile_spent_notes :: "pool_world \<Rightarrow> pix_id \<Rightarrow> committed_note list \<Rightarrow> committed_note list curvy_op" where
  "reconcile_spent_notes w i notes =
     and_then (traverse_m (\<lambda>c. and_then (note_spent w c) (\<lambda>spent. ok (c, spent))) notes)
       (\<lambda>judged.
          let spent_ids = map (note_id_of w \<circ> fst) (filter snd judged) in
          followed_by (only_if (spent_ids \<noteq> []) (remove_spent_notes_retry w i spent_ids))
            (ok (map fst (filter (Not \<circ> snd) judged))))"

definition unspent_notes :: "pool_world \<Rightarrow> pix_id \<Rightarrow> committed_note list curvy_op" where
  "unspent_notes w i =
     and_then (from_store (store_read w (\<lambda>io. committed_notes (pw_codec w) io i))) (reconcile_spent_notes w i)"

definition sweep_waiting ::
  "pool_world \<Rightarrow> committed_note list \<Rightarrow> string \<Rightarrow> balance option \<Rightarrow> withdrawal_outcome curvy_op" where
  "sweep_waiting w notes dst amount =
     and_then (inspect pl_clock)
       (\<lambda>now. map_err adapter_stop
          (lag_loop (bk_show_error (pw_sdk w)) pool_time (tree_lag_poll_interval (pw_budget w)) (now + pw_budget w)
             (at_adapter (withdraw (pw_sdk w) (pw_cfg w) notes dst amount)) (lag_rounds (pw_budget w))))"

definition curvy_withdraw_deposit ::
  "pool_world \<Rightarrow> nat \<Rightarrow> pix_id \<Rightarrow> bjj_keypair \<Rightarrow> string \<Rightarrow> balance option \<Rightarrow> (strategy_error stop, unit) pool_op" where
  \<comment> \<open>the signing key goes to the prover with the notes\<close>
  "curvy_withdraw_deposit w pages i key dst amount =
     followed_by
       (map_err pool_stop
          (followed_by (ensure_reconciled w)
             (map_err (Err \<circ> InvalidReconstructedSecret) (lift_result (bjj_secret (pw_curve w) (kp_secret key))))))
       (and_then
          (map_err pool_stop
             (and_then (unspent_notes w i)
                (\<lambda>notes.
                   if notes \<noteq> [] then ok notes
                   else followed_by (await_commitment w pages i (kp_public key)) (unspent_notes w i))))
          (\<lambda>notes.
             if notes = [] then err CriteriaNotSatisfied
             else map_err pool_stop
               (and_then (sweep_waiting w notes dst amount)
                  (\<lambda>outcome.
                     let empty = filter (\<lambda>c. od_amount (cn_deposit c) = 0) notes in
                     followed_by (remove_spent_notes_retry w i (wo_spent outcome @ map (note_id_of w) empty))
                       (followed_by (catching (from_store (store_call w (\<lambda>io. remove_scan_secret (pw_codec w) io i))))
                          (ok ()))))))"

fun curvy_withdraw_multiple ::
  "pool_world \<Rightarrow> nat \<Rightarrow> string \<Rightarrow> (pix_id \<times> bjj_keypair) list \<Rightarrow>
   (strategy_error stop, (strategy_error + pix_id) list) pool_op" where
  "curvy_withdraw_multiple w pages dst [] = ok []"
| "curvy_withdraw_multiple w pages dst ((i, key) # keys) =
     and_then (catching (curvy_withdraw_deposit w pages i key dst None))
       (\<lambda>r. case r of
          Inl Panicked \<Rightarrow> fail Panicked
        | Inl (Err e) \<Rightarrow> and_then (curvy_withdraw_multiple w pages dst keys) (\<lambda>rest. ok (Inl e # rest))
        | Inr _ \<Rightarrow> and_then (curvy_withdraw_multiple w pages dst keys) (\<lambda>rest. ok (Inr i # rest)))"

definition curvy_pool_transfer :: "(strategy_error stop, unit) pool_op" where
  "curvy_pool_transfer = err (OtherError (CurvyCause UnsupportedPoolTransfer))"

end
