(* ===== verification/Curvy_Clock.thy ===== *)
theory Curvy_Clock
  imports Curvy_Pool
begin

text \<open>
  Time. No operation of the adapter or the pool turns the clock back, so that a wait with a deadline
  ends: the rounds a budget allows are enough, and more make no difference.
\<close>

section \<open>The clock goes forward\<close>

abbreviation later :: "instant \<Rightarrow> 's net_scheme \<Rightarrow> bool" where
  "later t \<equiv> \<lambda>s. t \<le> nt_clock s"

named_theorems clock_intros "operations that do not turn the clock back"


lemma clock_steps [clock_intros]: "keeps (later t) (ask gw f)" "keeps (later t) (exchange gw r)"
  by (auto simp: keeps_def ask_def exchange_def Let_def tick_call_def split: http_answer.split)

lemma clock_modify:
  "(\<And>s. nt_clock s \<le> nt_clock (g s)) \<Longrightarrow> keeps (later t) (modify g)"
  by (rule keeps_modify) (meson order_trans)

lemma clock_client_calls [clock_intros]:
  "keeps (later t) (status gw i)" "keeps (later t) (submit gw rq)" "keeps (later t) (by_intent gw i c)"
  "keeps (later t) (paymaster gw c)" "keeps (later t) (network gw c)" "keeps (later t) (relay_protocol gw)"
  unfolding status_def submit_def by_intent_def paymaster_def network_def relay_protocol_def
  by (auto intro!: keeps_intros clock_intros)

lemma clock_await [clock_intros]: "keeps (later t) (await_inclusion gw sub d)"
proof -
  have "later t s \<Longrightarrow> later t (snd (poll_until gw started deadline current progressed s))" for s started deadline current progressed
  proof (induction gw started deadline current progressed s rule: poll_until.induct)
    case (1 gw started deadline current progressed s)
    obtain a s1 where a: "status gw (sm_request current) (sleep poll_interval s) = (a, s1)" by fastforce
    from status_clock(1) [OF a] 1(2) have "later t s1" by (simp add: sleep_def)
    then show ?case
      using 1 a by (auto simp: poll_until.simps [of gw] Let_def split: sum.split)
  qed
  then show ?thesis by (auto simp: keeps_def await_inclusion_def)
qed

lemma clock_discover [clock_intros]: "keeps (later t) (discover bk)"
  unfolding discover_def by (intro keeps_intros clock_intros)

lemma clock_lookup_token [clock_intros]: "keeps (later t) (lookup_token bk safe)"
  unfolding lookup_token_def safe_token_def token_count_def token_address_def Let_def
  by (intro keeps_intros clock_intros clock_modify) simp_all

lemma clock_client [clock_intros]: "keeps (later t) (client sk cfg)"
  unfolding client_def Let_def by (auto intro!: keeps_intros clock_intros clock_modify split: note_source.split)

lemma clock_reads [clock_intros]:
  "keeps (later t) (adapter_token sk cfg)" "keeps (later t) (db_tx sk)" "keeps (later t) (note_status sk n)"
  unfolding adapter_token_def db_tx_def note_status_def by (intro keeps_intros clock_intros)+

lemma clock_rows [clock_intros]:
  "keeps (later t) (allocation sk i)" "keeps (later t) (prepared_row sk i)" "keeps (later t) (completed_allocations sk ids)"
  unfolding prepared_row_def completed_allocations_def allocation_def by (intro keeps_intros clock_intros)+

lemma clock_saves [clock_intros]:
  "keeps (later t) (save_update sk st as is)" "keeps (later t) (save sk st)" "keeps (later t) (commit_state sk st as is)"
  "keeps (later t) (update_save sk f)" "keeps (later t) (record_sent x)"
  unfolding save_def commit_state_def update_save_def save_update_def record_sent_def
  by (intro keeps_intros clock_intros clock_modify; simp)+

lemma clock_known [clock_intros]: "keeps (later t) (notes_known sk cfg notes)"
  unfolding notes_known_def by (intro keeps_intros clock_intros)

lemma clock_finalized [clock_intros]: "keeps (later t) (check_outputs_finalized sk cfg emitted)"
  unfolding check_outputs_finalized_def Let_def
  by (auto intro!: keeps_intros clock_intros clock_modify split: snapshot_answer.split)

lemma clock_fees [clock_intros]: "keeps (later t) (relay_fee_recipient sk c tok)" "keeps (later t) (fee_recipient sk cfg)"
  unfolding relay_fee_recipient_def fee_recipient_def relayed_def by (intro keeps_intros clock_intros)+

lemma clock_journal [clock_intros]:
  "keeps (later t) (save_relay_attempt sk i p)" "keeps (later t) (prepare_relay_aggregation sk rq ep inputs as)"
  "keeps (later t) (relay_winner sk cfg attempts)" "keeps (later t) (finish_relay_aggregation sk winner)"
  unfolding save_relay_attempt_def prepare_relay_aggregation_def relay_winner_def finish_relay_aggregation_def Let_def
  by (intro keeps_intros clock_intros clock_modify; simp)+

lemma clock_rebuild [clock_intros]: "keeps (later t) (rebuild_relay_aggregation sk cfg)"
  unfolding rebuild_relay_aggregation_def Let_def by (intro keeps_intros clock_intros)

lemma clock_lookup [clock_intros]: "keeps (later t) (lookup_attempt sk a)"
proof -
  have st: "later t s \<Longrightarrow> status sk i s = (r, s1) \<Longrightarrow> later t s1" for i s r s1
    using keepsD [OF clock_client_calls(1)] .
  have intent: "later t s \<Longrightarrow> by_intent sk i c s = (r, s1) \<Longrightarrow> later t s1" for i c s r s1
    using keepsD [OF clock_client_calls(3)] .
  have intent': "later t s \<Longrightarrow> later t (snd (by_intent sk i c s))" for i c s
    using clock_client_calls(3) unfolding keeps_def by blast
  show ?thesis
    unfolding lookup_attempt_def
    by (auto simp: keeps_def ok_def intent' dest: st intent split: option.split prod.split sum.split relay_error.split)
qed

lemma clock_settle [clock_intros]:
  "keeps (later t) (again_unless rebuilt e)" "keeps (later t) (settle_landed sk cfg i p sub)"
  "keeps (later t) (wait_failed sk rebuilt n p e)" "keeps (later t) (post_failed sk rebuilt n was p e)"
  unfolding again_unless_def settle_landed_def wait_failed_def post_failed_def Let_def
  by (auto intro!: keeps_intros clock_intros split: option.split relay_error.split)

lemma clock_follow [clock_intros]: "keeps (later t) (follow_submission sk cfg rebuilt n p sub)"
  unfolding follow_submission_def Let_def by (intro keeps_intros clock_intros)

lemma clock_post [clock_intros]: "keeps (later t) (post_attempt sk cfg rebuilt n p)"
  unfolding post_attempt_def Let_def by (intro keeps_intros clock_intros)

lemma clock_replay [clock_intros]: "keeps (later t) (replay_attempt sk cfg rebuilt n p)"
  unfolding replay_attempt_def by (intro keeps_intros clock_intros)

lemma clock_step [clock_intros]: "keeps (later t) (reconcile_step sk cfg rebuilt)"
  unfolding reconcile_step_def reconcile_last_def Let_def by (intro keeps_intros clock_intros)

lemma clock_reconcile [clock_intros]: "keeps (later t) (reconcile_relay_aggregation sk cfg)"
proof -
  have "later t s \<Longrightarrow> later t (snd (reconcile_with sk cfg rebuilt s))" for s rebuilt
  proof (induction sk cfg rebuilt s rule: reconcile_with.induct)
    case (1 sk cfg rebuilt s)
    obtain r s1 where r: "reconcile_step sk cfg rebuilt s = (r, s1)" by fastforce
    from keepsD [OF clock_step 1(2) r] have "later t s1" .
    then show ?case using 1(1) r by (auto simp: reconcile_with.simps [of sk] split: sum.split step_result.split)
  qed
  then show ?thesis by (simp add: keeps_def reconcile_relay_aggregation_def)
qed

lemma clock_gather [clock_intros]: "(\<And>x. keeps (later t) (f x)) \<Longrightarrow> keeps (later t) (gather_each f xs)"
  by (induction xs) (auto intro!: keeps_intros clock_intros)

lemma clock_recover [clock_intros]: "keeps (later t) (recover_pending sk cfg)"
  unfolding recover_pending_def commit_chunk_def Let_def by (intro keeps_intros clock_intros)

lemma clock_operator [clock_intros]:
  "keeps (later t) (reconcile_ambiguous sk cfg)" "keeps (later t) (finish_operator sk winner)"
  "keeps (later t) (drop_operator_attempt sk i)" "keeps (later t) (submit_operator sk cfg ep rq inputs records)"
  unfolding reconcile_ambiguous_def drop_operator_attempt_def submit_operator_def finish_operator_def Let_def
  by (intro keeps_intros clock_intros clock_modify; simp)+

lemma clock_reconcile_operator [clock_intros]: "keeps (later t) (reconcile_operator sk cfg)"
  unfolding reconcile_operator_def retry_operator_def Let_def by (intro keeps_intros clock_intros)

lemma clock_tagged [clock_intros]: "keeps (later t) m \<Longrightarrow> keeps (later t) (tagged sk m)"
  unfolding tagged_def by (intro keeps_intros clock_intros)

lemma clock_sift [clock_intros]: "keeps (later t) (sift sk journalled ds)"
  by (induction ds) (auto intro!: keeps_intros clock_intros)

lemma clock_chunk [clock_intros]: "keeps (later t) (allocate_chunk sk cfg ep c)"
  unfolding allocate_chunk_def build_chunk_def chunk_fee_def
  by (auto intro!: keeps_intros clock_intros split: curvy_submission.split)

lemma clock_chunks [clock_intros]: "keeps (later t) (allocate_chunks sk cfg ep submitted cs)"
  by (induction cs arbitrary: submitted) (auto intro!: keeps_intros clock_intros)

lemma clock_allocate [clock_intros]: "keeps (later t) (allocate sk cfg deposits)"
  unfolding allocate_def allocate_all_def settle_journals_def by (intro keeps_intros clock_intros)

lemma clock_observe [clock_intros]: "keeps (later t) (observe_shield sk n k)"
  by (induction k) (auto simp: sleep_def intro!: keeps_intros clock_intros clock_modify)

lemma clock_shield_reads [clock_intros]:
  "keeps (later t) (parse_address sk name text)" "keeps (later t) (check_vault_token sk cfg ep)"
  unfolding parse_address_def check_vault_token_def by (intro keeps_intros clock_intros)+

lemma clock_direct [clock_intros]: "keeps (later t) (direct_shield sk cfg gross)"
  unfolding direct_shield_def prepare_direct_def shield_router_checked_def send_shield_def observe_direct_shield_def
    book_shield_def Let_def
  by (intro keeps_intros clock_intros)

lemma clock_portal [clock_intros]: "keeps (later t) (portal_shield sk cfg ep gross recovery)"
  unfolding portal_shield_def portal_in_flight_def fund_portal_def portal_balance_def book_shield_def Let_def
  by (intro keeps_intros clock_intros)

lemma clock_ensure_funded [clock_intros]: "keeps (later t) (ensure_funded sk cfg gross recovery)"
  unfolding ensure_funded_def shield_def by (intro keeps_intros clock_intros)

lemma clock_withdraw [clock_intros]: "keeps (later t) (withdraw sk cfg notes dst amount)"
proof -
  have submit: "keeps (later t) (relay_submit sk cfg chain rq)" for chain rq
    unfolding relay_submit_def journal_intent_def clear_intent_def relayed_def by (intro keeps_intros clock_intros)
  have chunk: "keeps (later t) (withdraw_chunk sk cfg ep dst c)" for ep c
    unfolding withdraw_chunk_def by (auto intro!: keeps_intros clock_intros submit split: curvy_submission.split)
  have "keeps (later t) (withdraw_chunks sk cfg ep dst cs n)" for ep cs n
    by (induction cs arbitrary: n) (auto intro!: keeps_intros clock_intros chunk)
  then show ?thesis
    unfolding withdraw_def withdraw_notes_def by (intro keeps_intros clock_intros)
qed

section \<open>Waiting for the committed tree\<close>

text \<open>
  An attempt that takes its time and a pause of a known length: what a wait with a deadline needs. The
  allocation and the sweep are the two instances.
\<close>

locale lag_wait =
  fixes attempt :: "('s, adapter_error stop, 'a) fallible"
    and tm :: "'s timed"
  assumes forward: "attempt s = (r, s') \<Longrightarrow> tm_now tm s \<le> tm_now tm s'"
    and pausing: "tm_now tm (tm_pause tm d s) = tm_now tm s + d"
begin

lemma rounds_enough:
  "deadline \<le> tm_now tm s + (k + 1) * poll \<Longrightarrow>
   lag_loop show_error tm poll deadline attempt (k + n) s = lag_loop show_error tm poll deadline attempt k s"
proof (induction k arbitrary: s)
  case 0
  obtain r s' where a: "attempt s = (r, s')" by fastforce
  from forward [OF a] 0 have "\<not> tm_now tm s' + poll < deadline" by simp
  then show ?case using a by (cases n) (auto split: sum.split stop.split)
next
  case (Suc k)
  obtain r s' where a: "attempt s = (r, s')" by fastforce
  from forward [OF a] Suc.prems have "deadline \<le> tm_now tm (tm_pause tm poll s') + (k + 1) * poll"
    by (simp add: pausing algebra_simps)
  from Suc.IH [OF this] show ?case using a by (simp split: sum.split stop.split)
qed

lemma lag_forward:
  "lag_loop show_error tm poll deadline attempt k s = (r, s') \<Longrightarrow> tm_now tm s \<le> tm_now tm s'"
proof (induction k arbitrary: s)
  case 0
  then show ?case using forward by simp
next
  case (Suc k)
  obtain r1 s1 where a: "attempt s = (r1, s1)" by fastforce
  have "tm_now tm s \<le> tm_now tm s1" by (rule forward [OF a])
  moreover have "tm_now tm s1 \<le> tm_now tm (tm_pause tm poll s1)" by (simp add: pausing)
  ultimately show ?case
    using Suc a by (auto split: sum.splits stop.splits if_splits dest!: Suc.IH)
qed

end

abbreviation pool_later :: "instant \<Rightarrow> pool_state \<Rightarrow> bool" where
  "pool_later t \<equiv> \<lambda>s. t \<le> pl_clock s"

lemma clock_at_adapter [clock_intros]: "keeps (later t) m \<Longrightarrow> keeps (pool_later t) (at_adapter m)"
  by (auto simp: keeps_def at_adapter_def pl_clock_def split: prod.split)

interpretation allocate_wait: lag_wait "allocate_once w deposits" flagged_time for w deposits
proof
  fix s r s' d
  assume run: "allocate_once w deposits s = (r, s')"
  obtain funded p where s: "s = (funded, p)" by fastforce
  let ?fund = "at_adapter (ensure_funded (pw_sdk w) (pw_cfg w) (pw_funding w) (pw_safe w))"
  have fund: "pl_clock p \<le> pl_clock p'" if "?fund p = (x, p')" for x p'
    using keepsD [OF clock_at_adapter [OF clock_ensure_funded], of "pl_clock p" p] that by blast
  have alloc: "pl_clock q \<le> pl_clock q'" if "at_adapter (allocate (pw_sdk w) (pw_cfg w) deposits) q = (x, q')" for q x q'
    using keepsD [OF clock_at_adapter [OF clock_allocate], of "pl_clock q" q] that by blast
  show "tm_now flagged_time s \<le> tm_now flagged_time s'"
    using run s fund alloc
    by (auto simp: allocate_once_def flagged_time_def split: if_splits prod.splits sum.splits intro: order_trans)
next
  show "tm_now flagged_time (tm_pause flagged_time d s) = tm_now flagged_time s + d" for d s
    by (cases s) (simp add: flagged_time_def pl_clock_def sleep_def)
qed

interpretation sweep_wait: lag_wait "at_adapter (withdraw sk cfg ns dst amount)" pool_time for sk cfg ns dst amount
proof
  show "at_adapter (withdraw sk cfg ns dst amount) s = (r, s') \<Longrightarrow> tm_now pool_time s \<le> tm_now pool_time s'" for s r s'
    using keepsD [OF clock_at_adapter [OF clock_withdraw], of "pl_clock s" s] by (simp add: pool_time_def)
  show "tm_now pool_time (tm_pause pool_time d s) = tm_now pool_time s + d" for d s
    by (simp add: pool_time_def pl_clock_def sleep_def)
qed

lemma poll_positive: "0 < tree_lag_poll_interval budget"
  by (simp add: tree_lag_poll_interval_def millis_def)

lemma rounds_cover: "budget \<le> (lag_rounds budget + 1) * tree_lag_poll_interval budget"
proof -
  let ?p = "tree_lag_poll_interval budget"
  have "budget = budget div ?p * ?p + budget mod ?p" by simp
  also have "\<dots> \<le> budget div ?p * ?p + ?p" using mod_less_divisor [OF poll_positive, of budget budget] by linarith
  finally show ?thesis by (simp add: lag_rounds_def)
qed

text \<open>
  C29. The wait of an allocation and of a sweep for the committed tree always ends: the rounds that the
  tracking budget allows are never used up, whatever the chain, the relayer and the index answer and
  however long each answer takes, so that more rounds would give the same result.
\<close>

theorem lag_wait_ends:
  "lag_loop (bk_show_error (pw_sdk w)) flagged_time (tree_lag_poll_interval (pw_budget w)) (pl_clock s + pw_budget w)
     (allocate_once w deposits) (lag_rounds (pw_budget w) + n) (funded, s) =
   lag_loop (bk_show_error (pw_sdk w)) flagged_time (tree_lag_poll_interval (pw_budget w)) (pl_clock s + pw_budget w)
     (allocate_once w deposits) (lag_rounds (pw_budget w)) (funded, s) \<and>
   lag_loop (bk_show_error (pw_sdk w)) pool_time (tree_lag_poll_interval (pw_budget w)) (pl_clock s + pw_budget w)
     (at_adapter (withdraw (pw_sdk w) (pw_cfg w) ns dst amount)) (lag_rounds (pw_budget w) + n) s =
   lag_loop (bk_show_error (pw_sdk w)) pool_time (tree_lag_poll_interval (pw_budget w)) (pl_clock s + pw_budget w)
     (at_adapter (withdraw (pw_sdk w) (pw_cfg w) ns dst amount)) (lag_rounds (pw_budget w)) s"
proof -
  have enough: "pl_clock s + pw_budget w \<le> pl_clock s + (lag_rounds (pw_budget w) + 1) * tree_lag_poll_interval (pw_budget w)"
    using rounds_cover [of "pw_budget w"] by simp
  show ?thesis
    by (intro conjI allocate_wait.rounds_enough sweep_wait.rounds_enough)
      (use enough in \<open>simp_all add: flagged_time_def pool_time_def\<close>)
qed

section \<open>Waiting for a commitment\<close>

text \<open>An iteration of the watcher pauses at least for the normal delay, and keeps the delay it retries with above it.\<close>

definition patient :: "pool_state \<Rightarrow> bool" where
  "patient s \<longleftrightarrow> reconnect_delay \<le> pl_retry s"

abbreviation patient_later :: "instant \<Rightarrow> pool_state \<Rightarrow> bool" where
  "patient_later t \<equiv> \<lambda>s. t \<le> pl_clock s \<and> patient s"

lemma clock_pool_modify:
  "(\<And>s. pl_clock (g s) = pl_clock s \<and> pl_retry (g s) = pl_retry s) \<Longrightarrow> keeps (patient_later t) (modify g)"
  by (rule keeps_modify) (simp add: patient_def)

lemma clock_pool_adapter [clock_intros]: "keeps (later t) m \<Longrightarrow> keeps (patient_later t) (at_adapter m)"
  by (auto simp: keeps_def at_adapter_def pl_clock_def patient_def split: prod.split)

lemma clock_pool_store [clock_intros]: "keeps (patient_later t) (store_call w f)" "keeps (patient_later t) (store_read w g)"
  by (auto simp: keeps_def store_read_def store_call_def Let_def pl_clock_def patient_def tick_call_def split: prod.split)

lemma clock_index [clock_intros]: "keeps (patient_later t) (index_call w f)"
  unfolding index_call_def by (intro keeps_intros clock_intros)

lemma clock_watched [clock_intros]: "keeps (patient_later t) (watched_allocations :: ('e, watch_entry list) pool_op)"
  unfolding watched_allocations_def by (intro keeps_intros clock_pool_modify) (simp add: pl_clock_def)

lemma clock_candidate [clock_intros]: "keeps (patient_later t) (process_candidate w c)"
proof -
  have detect: "keeps (patient_later t) (detector w)"
    unfolding detector_def by (intro keeps_intros clock_intros clock_pool_modify) (simp add: pl_clock_def)
  have skip: "keeps (patient_later t) (skip_event w kind c)" for kind c
    unfolding skip_event_def by (intro keeps_intros clock_intros)
  show ?thesis
    unfolding process_candidate_def
    by (auto intro!: keeps_intros clock_intros detect skip split: sum.split option.split)
qed

lemma notify_fields: "pl_clock (notify_waiters i amount s) = pl_clock s \<and> pl_retry (notify_waiters i amount s) = pl_retry s"
proof -
  have "pl_clock (fold (\<lambda>dw s. if dw_minimum dw \<le> amount then send_amount (dw_channel dw) amount s else s) dws s) = pl_clock s \<and>
      pl_retry (fold (\<lambda>dw s. if dw_minimum dw \<le> amount then send_amount (dw_channel dw) amount s else s) dws s) = pl_retry s"
    for dws s
    by (induction dws arbitrary: s) (auto simp: send_amount_def pl_clock_def)
  then show ?thesis by (auto simp: notify_waiters_def Let_def pl_clock_def split: option.split)
qed

lemma clock_completion [clock_intros]: "keeps (patient_later t) (process_completion w e)"
  unfolding process_completion_def skip_event_def Let_def
  by (intro keeps_intros clock_intros clock_pool_modify notify_fields)

lemma clock_candidates [clock_intros]: "keeps (patient_later t) (process_candidates w cs)"
  by (induction cs) (auto intro!: keeps_intros clock_intros)

lemma clock_completions [clock_intros]: "keeps (patient_later t) (completions w finalized after es)"
  by (induction es arbitrary: after) (auto intro!: keeps_intros clock_intros)

lemma clock_loops [clock_intros]:
  "keeps (patient_later t) (pending_loop w pages after)" "keeps (patient_later t) (committed_loop w finalized pages after')"
  by (induction pages arbitrary: after after') (auto intro!: keeps_intros clock_intros)

lemma clock_catch_up [clock_intros]: "keeps (patient_later t) (catch_up w pages replay)"
  unfolding catch_up_def catch_up_cursor_def by (intro keeps_intros clock_intros)

lemma clock_watcher:
  assumes "watcher_step w pages s = (Inr True, s')" and "patient s"
  shows "pl_clock s + reconnect_delay \<le> pl_clock s' \<and> patient s'"
proof -
  let ?Q = "\<lambda>r s'. r = Inr True \<longrightarrow> pl_clock s + reconnect_delay \<le> pl_clock s' \<and> patient s'"
  have cap: "reconnect_delay \<le> retry_cap b" for b by (simp add: retry_cap_def)
  have pause: "wp (followed_by (pause_for d) (ok b)) ?Q s1"
    if "pl_clock s \<le> pl_clock s1" "patient s1" "reconnect_delay \<le> d" for d s1 b
    using that by (simp add: wp_simps pause_for_def pl_clock_def sleep_def patient_def)
  have reset: "wp (followed_by (modify (\<lambda>s. s\<lparr>pl_retry := reconnect_delay\<rparr>)) (followed_by (pause_for reconnect_delay) (ok b))) ?Q s1"
    if "pl_clock s \<le> pl_clock s1" for s1 b
    unfolding wp_followed_by [of "modify _"] wp_basic sum.case
    using that by (intro pause) (simp_all add: pl_clock_def patient_def)
  have retry: "wp (followed_by (modify (restore_failed_replay replay)) (and_then (inspect pl_retry)
      (\<lambda>delay. followed_by (modify (\<lambda>s. s\<lparr>pl_retry := min (2 * delay) (retry_cap b)\<rparr>))
         (followed_by (pause_for delay) (ok c))))) ?Q s1"
    if "pl_clock s \<le> pl_clock s1" "patient s1" for s1 replay b c
    unfolding wp_followed_by [of "modify _"] wp_and_then [of "inspect _"] wp_basic sum.case
    using that cap [of b] by (intro pause) (auto simp: restore_failed_replay_def pl_clock_def patient_def)
  have "wp (watcher_step w pages) ?Q s"
    unfolding watcher_step_def wp_and_then [of watched_allocations]
  proof (rule wp_keeps [OF clock_watched [of "pl_clock s"]], goal_cases)
    case 1
    then show ?case using assms(2) by simp
  next
    case (2 r s1)
    show ?case
    proof (cases r)
      case (Inr watched)
      have s1: "pl_clock s \<le> pl_clock s1" "patient s1" using 2 by simp_all
      show ?thesis
      proof (cases "watched = []")
        case True
        then show ?thesis using reset [OF s1(1), of True] by (simp add: Inr)
      next
        case False
        have rest: "wp (case x of
            Inl e \<Rightarrow> followed_by (modify (restore_failed_replay replay)) (and_then (inspect pl_retry)
              (\<lambda>delay. followed_by (modify (\<lambda>s. s\<lparr>pl_retry := min (2 * delay) (retry_cap (pw_budget w))\<rparr>))
                 (followed_by (pause_for delay) (ok True))))
          | Inr Waiting \<Rightarrow> ok False
          | Inr _ \<Rightarrow> followed_by (modify (\<lambda>s. s\<lparr>pl_retry := reconnect_delay\<rparr>))
              (followed_by (pause_for reconnect_delay) (ok True))) ?Q s3"
          if "pl_clock s \<le> pl_clock s3" "patient s3" for x :: "string + pass_end" and s3 replay
          using that retry reset by (auto simp: wp_basic split: sum.split pass_end.split)
        have pass: "wp (and_then (catching (catch_up w pages replay)) f) ?Q s2"
          if "pl_clock s \<le> pl_clock s2" "patient s2"
            "\<And>x s3. pl_clock s \<le> pl_clock s3 \<Longrightarrow> patient s3 \<Longrightarrow> wp (f x) ?Q s3" for f s2 replay
          unfolding wp_and_then [of "catching _"] wp_catching sum.case
          by (rule wp_keeps [OF clock_catch_up [of "pl_clock s"]]) (use that in auto)
        show ?thesis
          unfolding Inr sum.case if_not_P [OF False] wp_followed_by [of "modify _"] wp_and_then [of "inspect _"] wp_basic
        proof (rule pass, goal_cases)
          case 1 then show ?case using s1 by (simp add: pl_clock_def)
        next
          case 2 then show ?case using s1 by (simp add: patient_def)
        next
          case (3 x s3)
          from rest [OF 3, of "pl_replay s1" x] show ?case by (cases x) (auto split: pass_end.splits)
        qed
      qed
    qed simp
  qed
  from wpD [OF this assms(1)] show ?thesis by simp
qed

lemma watch_rounds_enough:
  "deadline \<le> pl_clock s + k * reconnect_delay \<Longrightarrow> patient s \<Longrightarrow>
   await_channel w pages deadline ch (k + n) s = await_channel w pages deadline ch k s"
proof (induction k arbitrary: s)
  case 0
  then show ?case by (simp add: await_channel.simps split: option.split)
next
  case (Suc k)
  show ?case
  proof (cases "watcher_step w pages s")
    case (Pair r s')
    have "await_channel w pages deadline ch (k + n) s' = await_channel w pages deadline ch k s'" if "r = Inr True"
      using clock_watcher [of w pages s s'] Pair that Suc by (intro Suc.IH) simp_all
    then show ?thesis
      using Pair by (simp add: await_channel.simps [of _ _ _ _ _ s] split: option.split sum.split bool.split)
  qed
qed

end
