(* ===== verification/Spec2Isabelle.thy ===== *)
theory Spec2Isabelle
  imports
    Strategy_Prelude Fallible Chain_Types Pool_Errors Strategy_State Lifecycle_Config
    Action_Leases Selector Multi_Objective Consolidation Lifecycle_State Dispatch_Path
    Lifecycle_Reads Lifecycle_Events Pipeline_Snapshot Pipeline_Passes Pipeline_Paths Close_Limits
    Lifecycle_Tick Lifecycle_Step Lifecycle_System Lifecycle_Run Lifecycle_Example Auto_Funding
    Auto_Redeeming Closure_Finalizer Pix_Ledger Pix_Recovery_Store Pix_Engine Pix_Run
    Pix_Guards Pix_Example Plain_Pool Byte_Encoding Curvy_Notes Curvy_Store
    Relay_Client Vault_Token Curvy_Journal Journal_Safety
    Curvy_Adapter Curvy_Shield Curvy_Allocate Allocate_Safety Shield_Safety Curvy_Example
    Curvy_Detect Curvy_Watch Watch_Safety Watch_Example Curvy_Pool Curvy_Clock
begin

text \<open>
  \<^bold>\<open>Node strategies of a HOPR relay\<close>

  This library models the Rust crate under \<open>src/src\<close>: strategies that watch a node's payment
  channels, its Safe and its peers, and submit transactions. Every strategy is an event loop over
  a periodic tick and the node's event stream; what differs is the state it keeps between events
  and the passes a tick runs. The theories follow the modules.

  \<^bold>\<open>Foundations.\<close> \<open>Strategy_Prelude\<close> holds balances (the 256-bit saturating arithmetic written
  out over \<^typ>\<open>nat\<close>), the loop combinator that stands for a Rust \<open>for\<close> with \<open>break\<close> and
  \<open>continue\<close>, two locales about loops (\<open>loop_body\<close>: a body that keeps an invariant;
  \<open>monotone_body\<close>: a body that only moves forward), and association lists for the concurrent
  maps. \<open>Chain_Types\<close> holds channels, chain events and the outcome of a read under a deadline.
  \<open>Strategy_State\<close> is \<open>strategy.rs\<close> and \<open>errors.rs\<close>: the published state with its order of
  severity, the errors, and \<open>MultiStrategy\<close>.

  \<^bold>\<open>Channel lifecycle\<close> (\<open>channel_lifecycle/\<close>), in the order of the modules:
  \<^item> \<open>Lifecycle_Config\<close> is \<open>config.rs\<close>: the sections with their defaults, the validators, the
    startup phases, and the conversion of a data capacity into a stake.
  \<^item> \<open>Action_Leases\<close> is the table of in-flight leases of \<open>mod.rs\<close>, with a 64-bit holder counter
    that wraps.
  \<^item> \<open>Selector\<close> and \<open>Multi_Objective\<close> are \<open>selector/\<close>: the two policies that rank what to close
    and open. The locale \<open>selector_contract\<close> is the interface the pipeline uses; both selectors
    are interpretations of it.
  \<^item> \<open>Consolidation\<close> is \<open>consolidation.rs\<close>.
  \<^item> \<open>Lifecycle_State\<close> is the state of the running strategy and the dispatchers \<open>try_*\<close> and
    \<open>spawn_leased\<close>. A spawned transaction is an entry of \<open>ls_tasks\<close> until it reports.
    \<open>Dispatch_Path\<close> says what a pass may do, as a path of elementary steps, and proves once what
    every path keeps: well-formedness, the action budget, the spending budget.
  \<^item> \<open>Lifecycle_Reads\<close> and \<open>Lifecycle_Events\<close> are the read helpers of \<open>pipeline.rs\<close> and the
    handlers of \<open>events.rs\<close>.
  \<^item> \<open>Pipeline_Snapshot\<close> and \<open>Pipeline_Passes\<close> are \<open>pipeline_inner\<close>, in the order of its text;
    \<open>Pipeline_Paths\<close> shows that each pass is a path of allowed steps and \<open>Close_Limits\<close> treats
    the close pass. \<open>Lifecycle_Tick\<close> composes one tick, \<open>Lifecycle_Step\<close> reasons about it.
  \<^item> \<open>Lifecycle_System\<close> interleaves ticks, events and reports as a transition system;
    \<open>Lifecycle_Run\<close> shows that the event loop of \<open>strategy.rs\<close> refines it.
    \<open>Lifecycle_Example\<close> is the concrete tick the witnesses use.

  \<^bold>\<open>Legacy strategies.\<close> \<open>Auto_Funding\<close>, \<open>Auto_Redeeming\<close> and \<open>Closure_Finalizer\<close> are the files of
  the same names. Their background tasks may end at any point, also while a tick waits for the
  next channel; the models carry those reports in the stream.

  \<^bold>\<open>PIX\<close> (\<open>pix/\<close>): deposits into the addresses peers announce, and the sweep of recovered keys.
  \<^item> \<open>Pool_Errors\<close> holds the error types of the two pools with the question every caller asks of
    them: may the funds have left?
  \<^item> \<open>Pix_Ledger\<close> is \<open>SpendLedger\<close>, the rolling window of reserved deposits, as an approximation
    of the history of reservations.
  \<^item> \<open>Pix_Recovery_Store\<close> is \<open>recovery_store.rs\<close>. The cipher, the key derivation and the
    randomness are arguments (the record \<open>crypto\<close>); what they promise are the hypotheses
    \<open>aead_roundtrip\<close>, \<open>aead_binds\<close> and \<open>id_codec\<close> of the properties that need it.
  \<^item> \<open>Pix_Engine\<close> is \<open>strategy.rs\<close> without its loop: configuration, wire payload, event handlers,
    the two flushes, the replay of the store. The locale \<open>deposit_pool\<close> is what the flush relies
    on in a pool: a deposit whose answer says that no funds moved has submitted nothing.
  \<^item> \<open>Pix_Run\<close> is the event loop with its armed flush timers and detached tasks. An input names the
    next branch of \<open>select!\<close>; \<open>CacheDrop\<close> lets a time-limited cache forget an entry. The field
    \<open>ps_trace\<close> is a ghost: no handler reads it. \<open>Pix_Guards\<close> treats the guards of the handlers and
    the fate of a key; \<open>Pix_Example\<close> is the concrete run of the witnesses.
  \<^item> \<open>Plain_Pool\<close> is \<open>pools/plain.rs\<close>, an interpretation of \<open>deposit_pool\<close>. Its two operations
    that retry are interpretations of the locale \<open>retried\<close>.

  \<^bold>\<open>Curvy pool\<close> (\<open>pix/pools/curvy/\<close>): deposits as notes of a shielded pool.
  \<^item> \<open>Fallible\<close> composes steps that change a state and may fail, with the rules of their contracts;
    \<open>Byte_Encoding\<close> holds big-endian integers, decimal and hexadecimal digits, with round trips.
  \<^item> \<open>Curvy_Notes\<close> is the choice of notes of \<open>sdk.rs\<close>: whole notes of an exact sum for a withdrawal,
    at most two notes for an allocation.
  \<^item> \<open>Curvy_Store\<close> is \<open>state.rs\<close>: the record formats and the operations on the note database. The
    byte forms of ids, points and field elements are the record \<open>note_codec\<close>; its widths and its
    inverse laws are the hypotheses \<open>codec_widths\<close>, \<open>codable\<close> and \<open>admissible\<close>.
  \<^item> \<open>Relay_Client\<close> is \<open>relayer.rs\<close>: the price of a relayed action, the requests with the meaning of
    their answers, and the wait for inclusion. What the gateway answers to its \<open>n\<close>-th call, and how
    long that takes, is the record \<open>gateway\<close>. \<open>Vault_Token\<close> is \<open>token.rs\<close>, with the discovery of
    the contracts of \<open>sdk.rs\<close>.
  \<^item> \<open>Curvy_Journal\<close> holds the durable state of the adapter of \<open>sdk.rs\<close>, with its copy in memory, and
    the relayed aggregations: prepared, recorded, posted, replayed, replaced, booked. Its loop ends
    because the attempts that may still be rebuilt or posted run out. \<open>Journal_Safety\<close> proves what
    the journal is for: no proof that was posted is forgotten.
  \<^item> \<open>Curvy_Adapter\<close> is the rest of the adapter's state: construction, commits, the journal of the
    aggregations it submits itself, the intents of relayed withdrawals. \<open>Curvy_Shield\<close> shields the
    float, \<open>Curvy_Allocate\<close> is the batch allocation, the withdrawal and the check and reset of the
    state. \<open>Allocate_Safety\<close> proves when the error of an allocation may be read as ``no funds moved''
    and what a success leaves on record, \<open>Shield_Safety\<close> that the float is never sent to a note that
    is forgotten; \<open>Curvy_Example\<close> holds concrete runs. The prover, the aggregator and the database
    are the record \<open>sdk\<close>; that only the prover answers with the texts of its refusals is the
    hypothesis \<open>only_prover_refuses\<close>.
  \<^item> \<open>Curvy_Detect\<close> is \<open>detect.rs\<close>: whether a public note belongs to a watched allocation. What the
    curve libraries compute is the record \<open>curve\<close>. \<open>Curvy_Watch\<close> is \<open>lifecycle.rs\<close>: the waiters, the
    processing of events, a pass over the index and one iteration of the watcher. \<open>Watch_Safety\<close>
    proves that the table of waiters stays well formed and that nobody is left waiting for an amount
    that is there; \<open>Watch_Example\<close> is a concrete run, with the case in which a failing read loses
    a notification.
  \<^item> \<open>Curvy_Pool\<close> is \<open>mod.rs\<close>: configuration and construction, the check of the stored state, allocation
    and withdrawal with their wait for the committed tree, deposit data and notifications. While an
    operation waits for a commitment the watcher makes its passes. \<open>Curvy_Clock\<close> proves that these
    waits end: no operation turns the clock back, and the locale \<open>lag_wait\<close> bounds the rounds; the
    allocation and the sweep are its interpretations.

  \<^bold>\<open>What the properties say.\<close> Safety of a tick: what it spends is within what the safe can pay, it
  opens only to eligible peers, closes only after the startup guard, finalizes only what is
  overdue, and reports missing inputs. Invariants over histories: the action budget, the lease
  table, one funding and one redemption per channel. Functional properties: sizing of stakes, the
  selectors, consolidation, the views. The event loop refines the transition system. For the pools:
  a spending window that holds over every interleaving, reservations handed back only when no funds
  moved, keys kept until they are swept, and journals that survive a failed save or a lost answer.

  \<^bold>\<open>Conventions.\<close> An argument of a definition that stands for code outside the repository is a
  parameter: the answers of the chain, the network view, the graph, \<open>ChannelEntry::direction\<close>,
  the numeric functions of the record \<open>platform\<close>. \<open>f64\<close> values are exact rationals, with NaN and
  the infinities where the code can meet them; rounding is not modelled. Time is in nanoseconds.
  There is no fuel: every loop of the code that is modelled runs over a finite list, is a retry
  with the bound the configuration gives, or has a measure that is proved to fall. The one exception
  is a pass of the watcher over an index that always has a further page: the number of pages that
  the index answers is an argument, and a pass that has used them up is still waiting. The waits of
  the curvy pool have a number of rounds, which \<open>Curvy_Clock\<close> proves to be enough.

  \<^bold>\<open>Not modelled.\<close> Logging and telemetry (\<open>emit_bucket_metrics\<close>, \<open>emit_score_axis_metrics\<close>, the
  entropy of \<open>BucketView\<close>), formatting of debug output, serialisation of the configuration, the
  test fixtures of \<open>testing.rs\<close>, and of the curvy pool the indexer and the module lookups.
\<close>

end
